(* ===== verification/Prelude.thy ===== *)
theory Prelude
  imports Complex_Main "HOL-Library.Word" "HOL-Library.Char_ord"
begin

text \<open>
  Shared vocabulary of the development: the Go values every component handles (byte
  strings, HTTP headers, fallible and panicking results), the standard-library string
  functions the sources call, and the lemmas about them the component proofs share.

  A Go string is a sequence of bytes, here a \<open>string\<close> whose \<open>char\<close>s are the bytes.
  Case mapping, white space and word characters follow the standard library on ASCII
  bytes; bytes from 0x80 on are left alone (the library's Unicode tables are not
  modelled).
\<close>

named_theorems str_defs "definitions of the string functions of Go's standard library"

subsection \<open>Results that may fail or panic\<close>

text \<open>
  \<open>Fail e\<close> is an error return, \<open>Panic\<close> a run-time panic (index out of range, nil
  dereference).
\<close>

datatype ('e, 'a) go = Ok 'a | Fail 'e | Panic

fun go_bind :: "('e, 'a) go \<Rightarrow> ('a \<Rightarrow> ('e, 'b) go) \<Rightarrow> ('e, 'b) go" where
  "go_bind (Ok x) f = f x"
| "go_bind (Fail e) f = Fail e"
| "go_bind Panic f = Panic"

lemma go_bind_Ok_iff:
  "go_bind m f = Ok y \<longleftrightarrow> (\<exists>x. m = Ok x \<and> f x = Ok y)"
  by (cases m) auto

lemma go_bind_Fail_iff:
  "go_bind m f = Fail e \<longleftrightarrow> m = Fail e \<or> (\<exists>x. m = Ok x \<and> f x = Fail e)"
  by (cases m) auto

lemma go_bind_Panic_iff:
  "go_bind m f = Panic \<longleftrightarrow> m = Panic \<or> (\<exists>x. m = Ok x \<and> f x = Panic)"
  by (cases m) auto

lemma go_bind_assoc: "go_bind (go_bind m f) g = go_bind m (\<lambda>x. go_bind (f x) g)"
  by (cases m) auto

subsection \<open>Bytes\<close>

type_synonym byte = "8 word"

definition byte_of_char :: "char \<Rightarrow> byte" where
  "byte_of_char c = word_of_nat (of_char c)"

definition char_of_byte :: "byte \<Rightarrow> char" where
  "char_of_byte b = char_of (unat b)"

definition bytes_to_str :: "byte list \<Rightarrow> string" where
  "bytes_to_str bs = map char_of_byte bs"

definition str_to_bytes :: "string \<Rightarrow> byte list" where
  "str_to_bytes s = map byte_of_char s"

lemma unat_byte_less [simp]: "unat (b :: byte) < 256"
  using unsigned_less [of b, where ?'a = nat] by simp

lemma byte_char_inverse [simp]: "byte_of_char (char_of_byte b) = b"
  by (simp add: byte_of_char_def char_of_byte_def)

lemma char_byte_inverse [simp]: "char_of_byte (byte_of_char c) = c"
  by (simp add: byte_of_char_def char_of_byte_def unat_of_nat mod_less)

lemma str_bytes_inverse [simp]: "bytes_to_str (str_to_bytes s) = s"
  by (induction s) (simp_all add: bytes_to_str_def str_to_bytes_def)

lemma bytes_str_inverse [simp]: "str_to_bytes (bytes_to_str bs) = bs"
  by (induction bs) (simp_all add: bytes_to_str_def str_to_bytes_def)

lemma length_bytes_to_str [simp]: "length (bytes_to_str bs) = length bs"
  by (simp add: bytes_to_str_def)

subsection \<open>Package strings\<close>

definition lower_char :: "char \<Rightarrow> char" where
  "lower_char c =
     (if 65 \<le> (of_char c :: nat) \<and> (of_char c :: nat) \<le> 90 then char_of ((of_char c :: nat) + 32)
      else c)"

definition upper_char :: "char \<Rightarrow> char" where
  "upper_char c =
     (if 97 \<le> (of_char c :: nat) \<and> (of_char c :: nat) \<le> 122 then char_of ((of_char c :: nat) - 32)
      else c)"

definition to_lower :: "string \<Rightarrow> string" where
  [str_defs]: "to_lower s = map lower_char s"

definition to_upper :: "string \<Rightarrow> string" where
  [str_defs]: "to_upper s = map upper_char s"

definition equal_fold :: "string \<Rightarrow> string \<Rightarrow> bool" where
  [str_defs]: "equal_fold a b \<longleftrightarrow> to_lower a = to_lower b"

definition is_space :: "char \<Rightarrow> bool" where
  "is_space c \<longleftrightarrow> (of_char c :: nat) \<in> {9, 10, 11, 12, 13, 32}"

definition trim_left :: "string \<Rightarrow> string" where
  [str_defs]: "trim_left s = dropWhile is_space s"

definition trim_space :: "string \<Rightarrow> string" where
  [str_defs]: "trim_space s = rev (dropWhile is_space (rev (dropWhile is_space s)))"

definition has_prefix :: "string \<Rightarrow> string \<Rightarrow> bool" where
  [str_defs]: "has_prefix s p \<longleftrightarrow> take (length p) s = p"

definition has_suffix :: "string \<Rightarrow> string \<Rightarrow> bool" where
  [str_defs]: "has_suffix s p \<longleftrightarrow> length p \<le> length s \<and> drop (length s - length p) s = p"

definition trim_prefix :: "string \<Rightarrow> string \<Rightarrow> string" where
  [str_defs]: "trim_prefix s p = (if has_prefix s p then drop (length p) s else s)"

definition trim_suffix :: "string \<Rightarrow> string \<Rightarrow> string" where
  [str_defs]: "trim_suffix s p = (if has_suffix s p then take (length s - length p) s else s)"

fun str_contains :: "string \<Rightarrow> string \<Rightarrow> bool" where
  "str_contains [] p \<longleftrightarrow> p = []"
| "str_contains (c # s) p \<longleftrightarrow> has_prefix (c # s) p \<or> str_contains s p"

fun index_byte :: "string \<Rightarrow> char \<Rightarrow> nat option" where
  "index_byte [] b = None"
| "index_byte (c # s) b = (if c = b then Some 0 else map_option Suc (index_byte s b))"

definition last_index_byte :: "string \<Rightarrow> char \<Rightarrow> nat option" where
  [str_defs]: "last_index_byte s b =
     map_option (\<lambda>i. length s - 1 - i) (index_byte (rev s) b)"

text \<open>\<open>split_on c s\<close> is \<open>strings.Split(s, c)\<close> for a one-byte separator.\<close>

fun split_on :: "char \<Rightarrow> string \<Rightarrow> string list" where
  "split_on c [] = [[]]"
| "split_on c (x # xs) =
     (if x = c then [] # split_on c xs
      else (case split_on c xs of [] \<Rightarrow> [[x]] | y # ys \<Rightarrow> (x # y) # ys))"

text \<open>\<open>strings.Fields\<close> on ASCII white space.\<close>

fun fields_from :: "string \<Rightarrow> string \<Rightarrow> string list" where
  "fields_from acc [] = (if acc = [] then [] else [rev acc])"
| "fields_from acc (c # cs) =
     (if is_space c then (if acc = [] then fields_from [] cs else rev acc # fields_from [] cs)
      else fields_from (c # acc) cs)"

definition str_fields :: "string \<Rightarrow> string list" where
  "str_fields s = fields_from [] s"

fun join_with :: "string \<Rightarrow> string list \<Rightarrow> string" where
  "join_with sep [] = []"
| "join_with sep [x] = x"
| "join_with sep (x # y # ys) = x @ sep @ join_with sep (y # ys)"

lemma has_prefix_append [simp]: "has_prefix (p @ s) p"
  by (simp add: has_prefix_def)

lemma has_prefix_iff: "has_prefix s p \<longleftrightarrow> (\<exists>r. s = p @ r)"
  by (metis append_eq_conv_conj append_take_drop_id has_prefix_def)

lemma has_prefix_Nil [simp]: "has_prefix s []"
  by (simp add: has_prefix_def)

lemma has_suffix_iff: "has_suffix s p \<longleftrightarrow> (\<exists>r. s = r @ p)"
  unfolding has_suffix_def
  by (metis append_take_drop_id diff_diff_cancel diff_le_self length_append length_drop
      le_add2 append_eq_conv_conj add_diff_cancel_right')

lemma str_contains_iff: "str_contains s p \<longleftrightarrow> (\<exists>a b. s = a @ p @ b)"
proof (induction s)
  case Nil
  then show ?case by auto
next
  case (Cons c s)
  have "has_prefix (c # s) p \<longleftrightarrow> (\<exists>b. c # s = [] @ p @ b)"
    by (simp add: has_prefix_iff)
  with Cons show ?case
    by (auto simp: Cons_eq_append_conv)
qed

lemma trim_prefix_append [simp]: "trim_prefix (p @ s) p = s"
  by (simp add: trim_prefix_def)

lemma split_on_not_Nil [simp]: "split_on c s \<noteq> []"
  by (induction s) (auto split: list.splits)

lemma split_on_no_sep: "c \<notin> set s \<Longrightarrow> split_on c s = [s]"
  by (induction s) auto

lemma split_on_append: "c \<notin> set s \<Longrightarrow> split_on c (s @ c # t) = s # split_on c t"
  by (induction s) auto

lemma join_split_on: "join_with [c] (split_on c s) = s"
proof (induction s)
  case Nil
  then show ?case by simp
next
  case (Cons x s)
  obtain y ys where "split_on c s = y # ys" by (cases "split_on c s") auto
  with Cons show ?case by (cases ys) auto
qed

lemma split_on_pieces: "x \<in> set (split_on c s) \<Longrightarrow> c \<notin> set x"
proof (induction s arbitrary: x)
  case Nil
  then show ?case by simp
next
  case (Cons a s)
  then show ?case by (auto split: if_splits list.splits)
qed

lemma index_byte_None: "index_byte s b = None \<longleftrightarrow> b \<notin> set s"
  by (induction s) auto

lemma index_byte_Some:
  "index_byte s b = Some i \<Longrightarrow> i < length s \<and> s ! i = b \<and> b \<notin> set (take i s)"
  by (induction s arbitrary: i) (auto split: if_splits)

lemma set_trim_space: "set (trim_space s) \<subseteq> set s"
  by (auto simp: trim_space_def dest!: set_dropWhileD)

lemma dropWhile_idem_hd: "dropWhile P (dropWhile P xs) = dropWhile P xs"
  by (induction xs) auto

lemma length_to_lower [simp]: "length (to_lower s) = length s"
  by (simp add: to_lower_def)

lemma to_lower_append [simp]: "to_lower (a @ b) = to_lower a @ to_lower b"
  by (simp add: to_lower_def)

lemma lower_char_idem [simp]: "lower_char (lower_char c) = lower_char c"
  by (auto simp: lower_char_def of_char_of mod_less)

lemma to_lower_idem [simp]: "to_lower (to_lower s) = to_lower s"
  by (simp add: to_lower_def)

lemma equal_fold_refl [simp]: "equal_fold a a"
  by (simp add: equal_fold_def)

lemma equal_fold_lower: "equal_fold a b \<longleftrightarrow> equal_fold (to_lower a) b"
  by (simp add: equal_fold_def)

subsection \<open>Decimal and hexadecimal printing (strconv, fmt, encoding/hex)\<close>

definition digit_char :: "nat \<Rightarrow> char" where
  "digit_char d = char_of (48 + d)"

fun show_nat :: "nat \<Rightarrow> string" where
  "show_nat n = (if n < 10 then [digit_char n] else show_nat (n div 10) @ [digit_char (n mod 10)])"

declare show_nat.simps [simp del]

definition itoa :: "int \<Rightarrow> string" where
  "itoa i = (if i < 0 then CHR ''-'' # show_nat (nat (- i)) else show_nat (nat i))"

definition hex_digit :: "nat \<Rightarrow> char" where
  "hex_digit d = (if d < 10 then char_of (48 + d) else char_of (87 + d))"

definition hex_byte :: "byte \<Rightarrow> string" where
  "hex_byte b = [hex_digit (unat b div 16), hex_digit (unat b mod 16)]"

definition hex_encode :: "byte list \<Rightarrow> string" where
  "hex_encode bs = concat (map hex_byte bs)"

definition is_lower_hex :: "char \<Rightarrow> bool" where
  "is_lower_hex c \<longleftrightarrow>
     (48 \<le> (of_char c :: nat) \<and> (of_char c :: nat) \<le> 57) \<or>
     (97 \<le> (of_char c :: nat) \<and> (of_char c :: nat) \<le> 102)"

lemma of_char_of_small: "n < 256 \<Longrightarrow> (of_char (char_of n :: char) :: nat) = n"
  by (simp add: of_char_of mod_less)

lemma is_lower_hex_hex_digit: "d < 16 \<Longrightarrow> is_lower_hex (hex_digit d)"
  by (auto simp: is_lower_hex_def hex_digit_def of_char_of_small)

lemma byte_nibbles: "unat (b :: byte) div 16 < 16"
  by (rule less_mult_imp_div_less) simp

lemma hex_byte_hex: "c \<in> set (hex_byte b) \<Longrightarrow> is_lower_hex c"
  using byte_nibbles [of b] by (auto simp: hex_byte_def intro: is_lower_hex_hex_digit)

lemma length_hex_encode [simp]: "length (hex_encode bs) = 2 * length bs"
  by (induction bs) (simp_all add: hex_encode_def hex_byte_def)

lemma hex_encode_hex: "c \<in> set (hex_encode bs) \<Longrightarrow> is_lower_hex c"
  by (auto simp: hex_encode_def dest: hex_byte_hex)

text \<open>Reading decimal digits back, for the parsers of numbers.\<close>

fun atoi_digits :: "int \<Rightarrow> string \<Rightarrow> int option" where
  "atoi_digits n [] = Some n"
| "atoi_digits n (c # cs) =
     (if (of_char c :: nat) < 48 \<or> 57 < (of_char c :: nat) then None
      else atoi_digits (n * 10 + (of_char c - 48)) cs)"

lemma atoi_digits_append:
  "atoi_digits n (xs @ ys) = (case atoi_digits n xs of None \<Rightarrow> None | Some m \<Rightarrow> atoi_digits m ys)"
  by (induction n xs rule: atoi_digits.induct) auto

lemma of_char_digit_char: "d < 10 \<Longrightarrow> (of_char (digit_char d) :: nat) = 48 + d"
  by (simp add: digit_char_def of_char_of_small)

lemma of_char_digit_char_int: "d < 10 \<Longrightarrow> (of_char (digit_char d) :: int) = 48 + int d"
  using of_char_digit_char [of d] by (metis of_nat_add of_nat_numeral of_nat_of_char)

lemma atoi_digits_show_nat: "atoi_digits 0 (show_nat n) = Some (int n)"
proof (induction n rule: show_nat.induct)
  case (1 n)
  show ?case
  proof (cases "n < 10")
    case True
    then show ?thesis
      by (simp add: show_nat.simps [of n] of_char_digit_char of_char_digit_char_int)
  next
    case False
    have m: "n mod 10 < 10" by simp
    have "int (n div 10) * 10 + int (n mod 10) = int n" by presburger
    with 1 [OF False] False show ?thesis
      by (simp add: show_nat.simps [of n] atoi_digits_append of_char_digit_char [OF m]
          of_char_digit_char_int [OF m])
  qed
qed

lemma show_nat_digits: "c \<in> set (show_nat n) \<Longrightarrow> 48 \<le> (of_char c :: nat) \<and> (of_char c :: nat) \<le> 57"
proof (induction n rule: show_nat.induct)
  case (1 n)
  have m: "n mod 10 < 10" by simp
  show ?case
  proof (cases "n < 10")
    case True
    with "1.prems" show ?thesis by (simp add: show_nat.simps [of n] of_char_digit_char)
  next
    case False
    with "1.prems" "1.IH" m show ?thesis
      by (auto simp: show_nat.simps [of n] of_char_digit_char)
  qed
qed

lemma show_nat_nonempty: "show_nat n \<noteq> []"
  by (simp add: show_nat.simps [of n])

lemma hd_show_nat: "hd (show_nat n) \<noteq> CHR ''-''"
proof -
  have "48 \<le> (of_char (hd (show_nat n)) :: nat)"
    using show_nat_digits [of "hd (show_nat n)" n] show_nat_nonempty [of n] by simp
  then show ?thesis by (auto simp: of_char_def)
qed

subsection \<open>Line scanning (bufio.Scanner)\<close>

text \<open>
  The lines a scanner with the 64 KiB limit yields and whether it ended without an error. A
  last empty piece is no line, one trailing carriage return is dropped, and a line of 65536
  bytes or more ends the scan.
\<close>

definition drop_cr :: "string \<Rightarrow> string" where
  "drop_cr l = (if l \<noteq> [] \<and> last l = CHR 0x0D then butlast l else l)"

fun scan_pieces :: "string list \<Rightarrow> string list \<times> bool" where
  "scan_pieces [] = ([], True)"
| "scan_pieces (l # ls) =
     (if ls = [] \<and> l = [] then ([], True)
      else if length l \<ge> 65536 then ([], False)
      else (case scan_pieces ls of (rs, ok) \<Rightarrow> (drop_cr l # rs, ok)))"

definition scan_lines :: "string \<Rightarrow> string list \<times> bool" where
  "scan_lines s = scan_pieces (split_on (CHR 0x0A) s)"

subsection \<open>HTTP headers (net/http)\<close>

text \<open>
  A header is the list of its canonical keys with their values, in the order one
  iteration over Go's map happens to visit them (Go leaves that order open).
\<close>

type_synonym header = "(string \<times> string list) list"

fun canon_aux :: "bool \<Rightarrow> string \<Rightarrow> string" where
  "canon_aux up [] = []"
| "canon_aux up (c # cs) =
     (if up then upper_char c else lower_char c) # canon_aux (c = CHR ''-'') cs"

definition canonical_key :: "string \<Rightarrow> string" where
  "canonical_key k = canon_aux True k"

definition header_get :: "header \<Rightarrow> string \<Rightarrow> string" where
  "header_get h k =
     (case map_of h (canonical_key k) of
        Some (v # _) \<Rightarrow> v
      | _ \<Rightarrow> [])"

definition header_values :: "header \<Rightarrow> string \<Rightarrow> string list option" where
  "header_values h k = map_of h (canonical_key k)"

fun header_set_raw :: "string \<Rightarrow> string list \<Rightarrow> header \<Rightarrow> header" where
  "header_set_raw k vs [] = [(k, vs)]"
| "header_set_raw k vs ((k', ws) # h) =
     (if k' = k then (k, vs) # h else (k', ws) # header_set_raw k vs h)"

definition header_set :: "header \<Rightarrow> string \<Rightarrow> string \<Rightarrow> header" where
  "header_set h k v = header_set_raw (canonical_key k) [v] h"

definition header_add :: "header \<Rightarrow> string \<Rightarrow> string \<Rightarrow> header" where
  "header_add h k v =
     header_set_raw (canonical_key k)
       (case map_of h (canonical_key k) of None \<Rightarrow> [v] | Some vs \<Rightarrow> vs @ [v]) h"

lemma map_of_header_set_raw: "map_of (header_set_raw k vs h) = (map_of h)(k \<mapsto> vs)"
  by (induction k vs h rule: header_set_raw.induct) auto

lemma header_get_set_same [simp]: "header_get (header_set h k v) k = v"
  by (simp add: header_get_def header_set_def map_of_header_set_raw)

lemma header_get_set_other:
  "canonical_key k \<noteq> canonical_key k' \<Longrightarrow> header_get (header_set h k v) k' = header_get h k'"
  by (simp add: header_get_def header_set_def map_of_header_set_raw)

subsection \<open>Lists\<close>

definition last_n :: "nat \<Rightarrow> 'a list \<Rightarrow> 'a list" where
  "last_n n xs = drop (length xs - n) xs"

lemma length_last_n [simp]: "length (last_n n xs) = min n (length xs)"
  by (simp add: last_n_def)

lemma last_n_snoc: "last_n (Suc n) (xs @ [x]) = last_n n xs @ [x]"
  by (simp add: last_n_def)

lemma last_n_all: "length xs \<le> n \<Longrightarrow> last_n n xs = xs"
  by (simp add: last_n_def)

lemma last_n_nth: "i < min n (length xs) \<Longrightarrow> last_n n xs ! i = xs ! (length xs - min n (length xs) + i)"
  by (auto simp: last_n_def min_def)

subsection \<open>Streams of self-delimiting messages\<close>

text \<open>
  Everything a decoder reads from the front of a byte stream until it can read no more.
  Every message takes at least one byte, so the length of the stream is fuel enough.
\<close>

fun decode_upto :: "nat \<Rightarrow> (byte list \<Rightarrow> ('a \<times> byte list) option) \<Rightarrow> byte list \<Rightarrow> 'a list" where
  "decode_upto 0 dec s = []"
| "decode_upto (Suc n) dec s =
     (case dec s of None \<Rightarrow> [] | Some (x, r) \<Rightarrow> x # decode_upto n dec r)"

definition decode_all :: "(byte list \<Rightarrow> ('a \<times> byte list) option) \<Rightarrow> byte list \<Rightarrow> 'a list" where
  "decode_all dec s = decode_upto (length s) dec s"

text \<open>
  The contract of such a codec: a valid message, encoded with any valid key, is read back
  with the rest of the stream untouched; reading makes progress, and nothing can be read
  from the empty stream.
\<close>

locale stream_codec =
  fixes valid_key :: "'k \<Rightarrow> bool"
    and valid :: "'a \<Rightarrow> bool"
    and enc :: "'k \<Rightarrow> 'a \<Rightarrow> byte list"
    and dec :: "byte list \<Rightarrow> ('a \<times> byte list) option"
  assumes roundtrip: "valid_key k \<Longrightarrow> valid x \<Longrightarrow> dec (enc k x @ r) = Some (x, r)"
    and progress: "dec s = Some (x, r) \<Longrightarrow> length r < length s"
begin

lemma decode_upto_enough:
  "length s \<le> n \<Longrightarrow> length s \<le> m \<Longrightarrow> decode_upto n dec s = decode_upto m dec s"
proof (induction n arbitrary: s m)
  case 0
  then show ?case using progress [of "[]"] by (cases m) (auto split: option.split)
next
  case (Suc n)
  show ?case
  proof (cases m)
    case 0
    with Suc.prems show ?thesis using progress [of "[]"] by (auto split: option.split)
  next
    case (Suc k)
    show ?thesis
    proof (cases "dec s")
      case None
      then show ?thesis by (simp add: Suc)
    next
      case (Some y)
      obtain x r where y: "y = (x, r)" by (cases y)
      from progress [of s x r] Some y have "length r < length s" by simp
      with Suc.prems Suc Suc.IH [of r k] show ?thesis by (simp add: Some y)
    qed
  qed
qed

lemma decode_all_Cons:
  "dec s = Some (x, r) \<Longrightarrow> decode_all dec s = x # decode_all dec r"
proof -
  assume d: "dec s = Some (x, r)"
  from progress [OF d] obtain n where n: "length s = Suc n" "length r \<le> n"
    by (cases "length s") auto
  with d decode_upto_enough [of r n "length r"] show ?thesis by (simp add: decode_all_def)
qed

lemma decode_all_None: "dec s = None \<Longrightarrow> decode_all dec s = []"
  by (cases "length s") (simp_all add: decode_all_def)

lemma decode_all_enc:
  "valid_key k \<Longrightarrow> valid x \<Longrightarrow> decode_all dec (enc k x @ r) = x # decode_all dec r"
  by (rule decode_all_Cons [OF roundtrip])

end

end
