(* ===== verification/Http.thy ===== *)
theory Http
  imports Prelude
begin

text \<open>
  The part of net/http and net/url the gateway reads: requests and their URLs, query
  strings, cookies, forms, socket addresses, and JSON values as the sources build and
  walk them (\<open>map[string]any\<close>).
\<close>

subsection \<open>JSON values\<close>

text \<open>An object is the list of its members in the order one iteration visits them.\<close>

datatype json =
  JNull
| JBool bool
| JNum rat
| JStr string
| JArr "json list"
| JObj "(string \<times> json) list"

subsection \<open>Requests\<close>

text \<open>
  \<open>url_escaped\<close> is what \<open>URL.EscapedPath\<close> returns for the target that was parsed. A body
  is nil, the empty \<open>http.NoBody\<close>, a stream with bytes left, or a stream that was closed
  (reading it is an error). \<open>req_form\<close> is the form \<open>ParseForm\<close> caches.
\<close>

datatype body_stream = NilBody | EmptyBody | Unread string | ClosedBody

record url =
  url_scheme :: string
  url_host :: string
  url_path :: string
  url_escaped :: string
  url_raw_query :: string
  url_force_query :: bool

record request =
  req_method :: string
  req_url :: "url option"
  req_proto :: string
  req_proto_major :: nat
  req_host :: string
  req_remote :: string
  req_header :: header
  req_body :: body_stream
  req_form :: "(string \<times> string) list option"

definition request_uri :: "url \<Rightarrow> string" where
  "request_uri u =
     (let p = (if url_escaped u = [] then ''/'' else url_escaped u);
          p' = (if has_prefix p ''//'' then url_scheme u @ '':'' @ p else p)
      in if url_force_query u \<or> url_raw_query u \<noteq> [] then p' @ ''?'' @ url_raw_query u else p')"

subsection \<open>Query strings (net/url)\<close>

definition cut_at :: "char \<Rightarrow> string \<Rightarrow> string \<times> string" where
  "cut_at c s = (takeWhile (\<lambda>x. x \<noteq> c) s, drop 1 (dropWhile (\<lambda>x. x \<noteq> c) s))"

definition hex_val :: "char \<Rightarrow> nat option" where
  "hex_val c =
     (let n = (of_char c :: nat) in
      if 48 \<le> n \<and> n \<le> 57 then Some (n - 48)
      else if 97 \<le> n \<and> n \<le> 102 then Some (n - 87)
      else if 65 \<le> n \<and> n \<le> 70 then Some (n - 55)
      else None)"

fun query_unescape :: "string \<Rightarrow> string option" where
  "query_unescape [] = Some []"
| "query_unescape (c # cs) =
     (if c = CHR ''%'' then
        (case cs of
           a # b # r \<Rightarrow>
             (case (hex_val a, hex_val b) of
                (Some x, Some y) \<Rightarrow> map_option (\<lambda>t. char_of (16 * x + y) # t) (query_unescape r)
              | _ \<Rightarrow> None)
         | _ \<Rightarrow> None)
      else if c = CHR ''+'' then map_option (\<lambda>t. CHR '' '' # t) (query_unescape cs)
      else map_option (\<lambda>t. c # t) (query_unescape cs))"

text \<open>
  \<open>url.ParseQuery\<close>: the pairs in order, and whether every piece was well formed. A bad
  piece is skipped.
\<close>

fun parse_pieces :: "string list \<Rightarrow> (string \<times> string) list \<times> bool" where
  "parse_pieces [] = ([], True)"
| "parse_pieces (p # ps) =
     (case parse_pieces ps of
        (kvs, ok) \<Rightarrow>
          if CHR '';'' \<in> set p then (kvs, False)
          else if p = [] then (kvs, ok)
          else (case cut_at CHR ''='' p of
                  (k, v) \<Rightarrow>
                    (case (query_unescape k, query_unescape v) of
                       (Some k', Some v') \<Rightarrow> ((k', v') # kvs, ok)
                     | _ \<Rightarrow> (kvs, False))))"

definition parse_query :: "string \<Rightarrow> (string \<times> string) list \<times> bool" where
  "parse_query q = parse_pieces (split_on CHR ''&'' q)"

definition values_get :: "(string \<times> string) list \<Rightarrow> string \<Rightarrow> string" where
  "values_get kvs k = (case map_of kvs k of None \<Rightarrow> [] | Some v \<Rightarrow> v)"

definition query_get :: "url \<Rightarrow> string \<Rightarrow> string" where
  "query_get u k = values_get (fst (parse_query (url_raw_query u))) k"

text \<open>
  \<open>r.ParseForm\<close>: the fields of a form body come before those of the query, the result is
  cached, and a second call reports no error. The media type is the part of the header
  before its parameters, which are taken to be well formed. Only POST, PUT and PATCH
  bodies are read, up to 10 MiB.
\<close>

definition media_type :: "string \<Rightarrow> string" where
  "media_type ct = to_lower (trim_space (fst (cut_at CHR '';'' ct)))"

definition post_form :: "request \<Rightarrow> (string \<times> string) list \<times> bool" where
  "post_form r =
     (if req_method r \<in> {''POST'', ''PUT'', ''PATCH''} \<and>
         media_type (header_get (req_header r) ''Content-Type'')
           = ''application/x-www-form-urlencoded''
      then (case req_body r of
              NilBody \<Rightarrow> ([], True)
            | EmptyBody \<Rightarrow> ([], True)
            | Unread b \<Rightarrow> if length b > 10485760 then ([], False) else parse_query b
            | ClosedBody \<Rightarrow> ([], False))
      else ([], True))"

definition parse_form :: "request \<Rightarrow> request \<times> bool" where
  "parse_form r =
     (case req_form r of
        Some f \<Rightarrow> (r, True)
      | None \<Rightarrow>
          let p = post_form r;
              q = (case req_url r of
                     None \<Rightarrow> ([], True)
                   | Some u \<Rightarrow> parse_query (url_raw_query u))
          in (r\<lparr>req_form := Some (fst p @ fst q)\<rparr>, snd p \<and> snd q))"

definition form_get :: "request \<Rightarrow> string \<Rightarrow> string" where
  "form_get r k = (case req_form r of None \<Rightarrow> [] | Some f \<Rightarrow> values_get f k)"

subsection \<open>Cookies (net/http)\<close>

definition is_token_char :: "char \<Rightarrow> bool" where
  "is_token_char c =
     (let n = (of_char c :: nat) in
      (48 \<le> n \<and> n \<le> 57) \<or> (65 \<le> n \<and> n \<le> 90) \<or> (97 \<le> n \<and> n \<le> 122) \<or>
      n \<in> {33, 35, 36, 37, 38, 39, 42, 43, 45, 46, 94, 95, 96, 124, 126})"

definition is_token :: "string \<Rightarrow> bool" where
  "is_token s \<longleftrightarrow> s \<noteq> [] \<and> list_all is_token_char s"

definition valid_cookie_char :: "char \<Rightarrow> bool" where
  "valid_cookie_char c =
     (let n = (of_char c :: nat) in 32 \<le> n \<and> n < 127 \<and> n \<noteq> 34 \<and> n \<noteq> 59 \<and> n \<noteq> 92)"

definition parse_cookie_value :: "string \<Rightarrow> string option" where
  "parse_cookie_value v =
     (let q = CHR 0x22;
          v' = (if length v > 1 \<and> hd v = q \<and> last v = q then butlast (tl v) else v)
      in if list_all valid_cookie_char v' then Some v' else None)"

fun cookie_in_parts :: "string \<Rightarrow> string list \<Rightarrow> string option" where
  "cookie_in_parts name [] = None"
| "cookie_in_parts name (p # ps) =
     (let p' = trim_space p in
      if p' = [] then cookie_in_parts name ps
      else (case cut_at CHR ''='' p' of
              (n, v) \<Rightarrow>
                let n' = trim_space n in
                if is_token n' \<and> n' = name then
                  (case parse_cookie_value v of
                     Some v' \<Rightarrow> Some v'
                   | None \<Rightarrow> cookie_in_parts name ps)
                else cookie_in_parts name ps))"

definition request_cookie :: "request \<Rightarrow> string \<Rightarrow> string option" where
  "request_cookie r name =
     (case header_values (req_header r) ''Cookie'' of
        None \<Rightarrow> None
      | Some lines \<Rightarrow>
          if name = [] then None
          else cookie_in_parts name (concat (map (split_on CHR '';'') lines)))"

subsection \<open>Addresses (net)\<close>

text \<open>\<open>net.SplitHostPort\<close>, of which only the host is used.\<close>

definition split_host :: "string \<Rightarrow> string option" where
  "split_host hp =
     (case last_index_byte hp (CHR '':'') of
        None \<Rightarrow> None
      | Some i \<Rightarrow>
          if hd hp = CHR ''['' then
            (case index_byte hp (CHR '']'') of
               None \<Rightarrow> None
             | Some e \<Rightarrow>
                 if e + 1 = i \<and> CHR ''['' \<notin> set (drop 1 hp) \<and> CHR '']'' \<notin> set (drop (e + 1) hp)
                 then Some (drop 1 (take e hp)) else None)
          else if CHR '':'' \<in> set (take i hp) \<or> CHR ''['' \<in> set hp \<or> CHR '']'' \<in> set hp then None
          else Some (take i hp))"

subsection \<open>Lemmas\<close>

lemma cut_at_absent: "c \<notin> set s \<Longrightarrow> cut_at c s = (s, [])"
  unfolding cut_at_def by (induction s) auto

lemma cut_at_append: "c \<notin> set a \<Longrightarrow> cut_at c (a @ c # b) = (a, b)"
  unfolding cut_at_def by (induction a) auto

lemma query_unescape_plain:
  "CHR ''%'' \<notin> set s \<Longrightarrow> CHR ''+'' \<notin> set s \<Longrightarrow> query_unescape s = Some s"
  by (induction s) auto

lemma request_uri_nonempty: "request_uri u \<noteq> []"
  by (auto simp: request_uri_def Let_def)

end
