(* ===== verification/Regex.thy ===== *)
theory Regex
  imports Prelude
begin

text \<open>
  The part of Go's package regexp (RE2 syntax) that the sources' fixed patterns use:
  byte classes, sequence, alternation, greedy repetition, \<open>\b\<close> and the text anchors.
  \<open>ends\<close> lists where a match may end, in the preference order of a leftmost-first
  engine, so that its first element is the match the library reports.
  A position is the byte before it (if any) and the rest of the text.

  \<open>rmatch\<close> is the declarative meaning; \<open>ends_iff_rmatch\<close> says that the executable
  matcher decides it.
\<close>

type_synonym pos = "char option \<times> string"

datatype re =
    Eps
  | Cls "char \<Rightarrow> bool"
  | Sq re re
  | Alt re re
  | Star re
  | WordB
  | Bot
  | Eot

definition is_word :: "char \<Rightarrow> bool" where
  "is_word c \<longleftrightarrow>
     (48 \<le> (of_char c :: nat) \<and> (of_char c :: nat) \<le> 57) \<or>
     (65 \<le> (of_char c :: nat) \<and> (of_char c :: nat) \<le> 90) \<or>
     (97 \<le> (of_char c :: nat) \<and> (of_char c :: nat) \<le> 122) \<or> c = CHR ''_''"

definition at_word_boundary :: "pos \<Rightarrow> bool" where
  "at_word_boundary p \<longleftrightarrow>
     (case fst p of None \<Rightarrow> False | Some c \<Rightarrow> is_word c) \<noteq>
     (case snd p of [] \<Rightarrow> False | c # _ \<Rightarrow> is_word c)"

text \<open>
  Greedy repetition tries one more round first; a round that consumes nothing is not
  repeated, so \<open>length\<close> of the rest bounds the number of rounds.
\<close>

fun star_ends :: "(pos \<Rightarrow> pos list) \<Rightarrow> nat \<Rightarrow> pos \<Rightarrow> pos list" where
  "star_ends f 0 p = [p]"
| "star_ends f (Suc n) p =
     concat (map (\<lambda>q. if length (snd q) < length (snd p) then star_ends f n q else []) (f p)) @ [p]"

primrec ends :: "re \<Rightarrow> pos \<Rightarrow> pos list" where
  "ends Eps p = [p]"
| "ends (Cls P) p = (case snd p of [] \<Rightarrow> [] | c # cs \<Rightarrow> if P c then [(Some c, cs)] else [])"
| "ends (Sq a b) p = concat (map (ends b) (ends a p))"
| "ends (Alt a b) p = ends a p @ ends b p"
| "ends (Star a) p = star_ends (ends a) (length (snd p)) p"
| "ends WordB p = (if at_word_boundary p then [p] else [])"
| "ends Bot p = (if fst p = None then [p] else [])"
| "ends Eot p = (if snd p = [] then [p] else [])"

fun search_from :: "re \<Rightarrow> char option \<Rightarrow> string \<Rightarrow> bool" where
  "search_from r prev [] \<longleftrightarrow> ends r (prev, []) \<noteq> []"
| "search_from r prev (c # cs) \<longleftrightarrow> ends r (prev, c # cs) \<noteq> [] \<or> search_from r (Some c) cs"

text \<open>\<open>MatchString\<close> and the text that \<open>FindStringIndex\<close> delimits.\<close>

definition match_string :: "re \<Rightarrow> string \<Rightarrow> bool" where
  "match_string r s \<longleftrightarrow> search_from r None s"

fun find_from :: "re \<Rightarrow> char option \<Rightarrow> string \<Rightarrow> string option" where
  "find_from r prev [] = (case ends r (prev, []) of [] \<Rightarrow> None | _ \<Rightarrow> Some [])"
| "find_from r prev (c # cs) =
     (case ends r (prev, c # cs) of
        [] \<Rightarrow> find_from r (Some c) cs
      | q # _ \<Rightarrow> Some (take (length (c # cs) - length (snd q)) (c # cs)))"

definition find_string :: "re \<Rightarrow> string \<Rightarrow> string option" where
  "find_string r s = find_from r None s"

subsection \<open>Abbreviations for the patterns of the sources\<close>

definition any_of :: "string \<Rightarrow> re" where
  "any_of cs = Cls (\<lambda>c. c \<in> set cs)"

definition none_of :: "string \<Rightarrow> re" where
  "none_of cs = Cls (\<lambda>c. c \<notin> set cs)"

definition plus :: "re \<Rightarrow> re" where
  "plus r = Sq r (Star r)"

definition opt :: "re \<Rightarrow> re" where
  "opt r = Alt r Eps"

definition lit :: "string \<Rightarrow> re" where
  "lit w = foldr (\<lambda>c r. Sq (Cls (\<lambda>d. d = c)) r) w Eps"

text \<open>A literal under the flag \<open>(?i)\<close>; the pattern is written in lower case.\<close>

definition ilit :: "string \<Rightarrow> re" where
  "ilit w = foldr (\<lambda>c r. Sq (Cls (\<lambda>d. lower_char d = c)) r) w Eps"

fun alts :: "re list \<Rightarrow> re" where
  "alts [] = Cls (\<lambda>_. False)"
| "alts [r] = r"
| "alts (r # s # rs) = Alt r (alts (s # rs))"

fun seqs :: "re list \<Rightarrow> re" where
  "seqs [] = Eps"
| "seqs [r] = r"
| "seqs (r # s # rs) = Sq r (seqs (s # rs))"

fun repeat_re :: "nat \<Rightarrow> re \<Rightarrow> re" where
  "repeat_re 0 r = Eps"
| "repeat_re (Suc n) r = Sq r (repeat_re n r)"

text \<open>\<open>\s\<close> and \<open>.\<close> (which excludes the newline).\<close>

definition ws :: re where
  "ws = Cls (\<lambda>c. (of_char c :: nat) \<in> {9, 10, 12, 13, 32})"

definition dot :: re where
  "dot = Cls (\<lambda>c. (of_char c :: nat) \<noteq> 10)"

subsection \<open>Declarative semantics\<close>

inductive rmatch :: "re \<Rightarrow> pos \<Rightarrow> pos \<Rightarrow> bool" where
  rm_eps: "rmatch Eps p p"
| rm_cls: "P c \<Longrightarrow> rmatch (Cls P) (prev, c # cs) (Some c, cs)"
| rm_sq: "rmatch a p q \<Longrightarrow> rmatch b q r \<Longrightarrow> rmatch (Sq a b) p r"
| rm_altl: "rmatch a p q \<Longrightarrow> rmatch (Alt a b) p q"
| rm_altr: "rmatch b p q \<Longrightarrow> rmatch (Alt a b) p q"
| rm_star0: "rmatch (Star a) p p"
| rm_star1: "rmatch a p q \<Longrightarrow> rmatch (Star a) q r \<Longrightarrow> rmatch (Star a) p r"
| rm_wordb: "at_word_boundary p \<Longrightarrow> rmatch WordB p p"
| rm_bot: "rmatch Bot (None, s) (None, s)"
| rm_eot: "rmatch Eot (prev, []) (prev, [])"

inductive_cases rmatch_EpsE: "rmatch Eps p q"
inductive_cases rmatch_ClsE: "rmatch (Cls P) p q"
inductive_cases rmatch_SqE: "rmatch (Sq a b) p q"
inductive_cases rmatch_AltE: "rmatch (Alt a b) p q"
inductive_cases rmatch_StarE: "rmatch (Star a) p q"
inductive_cases rmatch_WordBE: "rmatch WordB p q"
inductive_cases rmatch_BotE: "rmatch Bot p q"
inductive_cases rmatch_EotE: "rmatch Eot p q"

lemmas rmatch_elims =
  rmatch_EpsE rmatch_ClsE rmatch_SqE rmatch_AltE rmatch_WordBE rmatch_BotE rmatch_EotE

text \<open>A match moves forward through the text, and stands still only where it started.\<close>

lemma rmatch_suffix: "rmatch r p q \<Longrightarrow> \<exists>w. snd p = w @ snd q \<and> (w = [] \<longrightarrow> q = p)"
proof (induction rule: rmatch.induct)
  case (rm_sq a p q b r)
  then show ?case by (metis append.assoc append_is_Nil_conv)
next
  case (rm_star1 a p q r)
  then show ?case by (metis append.assoc append_is_Nil_conv)
qed auto

lemma rmatch_length: "rmatch r p q \<Longrightarrow> length (snd q) < length (snd p) \<or> q = p"
  using rmatch_suffix [of r p q] by (auto simp: length_append)

lemma star_ends_sound:
  assumes "\<And>p q. q \<in> set (f p) \<Longrightarrow> rmatch a p q"
  shows "q \<in> set (star_ends f n p) \<Longrightarrow> rmatch (Star a) p q"
proof (induction n arbitrary: p)
  case 0
  then show ?case by (simp add: rm_star0)
next
  case (Suc n)
  then show ?case
    by (auto split: if_splits intro: rm_star0 rm_star1 assms)
qed

lemma ends_sound: "q \<in> set (ends r p) \<Longrightarrow> rmatch r p q"
proof (induction r arbitrary: p q)
  case (Cls P)
  then show ?case by (cases p) (auto split: list.splits if_splits intro: rm_cls)
next
  case (Star a)
  show ?case
    by (rule star_ends_sound [of "ends a"]) (use Star in auto)
next
  case Bot
  then show ?case by (cases p) (auto split: if_splits intro: rm_bot)
next
  case Eot
  then show ?case by (cases p) (auto split: if_splits intro: rm_eot)
next
  case (Sq a b)
  from Sq.prems obtain m where "m \<in> set (ends a p)" "q \<in> set (ends b m)" by auto
  then show ?case by (rule rm_sq [OF Sq.IH(1) Sq.IH(2)])
qed (auto split: if_splits intro: rmatch.intros)

lemma star_ends_complete:
  assumes step: "\<And>p q. rmatch a p q \<Longrightarrow> q \<in> set (f p)"
  shows "rmatch (Star a) p q \<Longrightarrow> length (snd p) \<le> n \<Longrightarrow> q \<in> set (star_ends f n p)"
proof (induction n arbitrary: p)
  case 0
  then have "q = p" using rmatch_length [of "Star a" p q] by auto
  then show ?case by simp
next
  case (Suc n)
  have "rmatch s p q \<Longrightarrow> s = Star a \<Longrightarrow> length (snd p) \<le> Suc n \<Longrightarrow>
      q = p \<or> (\<exists>m. rmatch a p m \<and> length (snd m) < length (snd p) \<and> rmatch (Star a) m q)" for s p q
  proof (induction rule: rmatch.induct)
    case (rm_star1 a' p m r)
    show ?case
    proof (cases "length (snd m) < length (snd p)")
      case True
      with rm_star1 show ?thesis by blast
    next
      case False
      with rm_star1 have "m = p" using rmatch_length [of a' p m] by auto
      with rm_star1 show ?thesis by blast
    qed
  qed auto
  from this [OF Suc.prems(1) refl Suc.prems(2)] consider "q = p"
    | m where "rmatch a p m" "length (snd m) < length (snd p)" "rmatch (Star a) m q"
    by blast
  then show ?case
  proof cases
    case 1
    then show ?thesis by simp
  next
    case (2 m)
    then have "q \<in> set (star_ends f n m)" using Suc.IH [of m] Suc.prems(2) by simp
    with step [OF 2(1)] 2(2) show ?thesis by auto
  qed
qed

lemma ends_complete: "rmatch r p q \<Longrightarrow> q \<in> set (ends r p)"
proof (induction r arbitrary: p q)
  case (Star a)
  from star_ends_complete [of a "ends a" p q, OF Star.IH Star.prems]
  show ?case by simp
next
  case (Sq a b)
  from Sq.prems obtain m where "rmatch a p m" "rmatch b m q" by (rule rmatch_SqE)
  then have "m \<in> set (ends a p)" "q \<in> set (ends b m)" by (auto intro: Sq.IH)
  then show ?case by (auto intro: bexI [of _ m])
qed (auto elim: rmatch_elims)

lemma ends_iff_rmatch: "q \<in> set (ends r p) \<longleftrightarrow> rmatch r p q"
  using ends_sound ends_complete by blast

lemma ends_nonempty: "ends r p \<noteq> [] \<longleftrightarrow> (\<exists>q. rmatch r p q)"
  using ends_iff_rmatch [of _ r p] by (metis all_not_in_conv set_empty)

lemma search_from_iff:
  "search_from r prev s \<longleftrightarrow>
     (\<exists>a b q. s = a @ b \<and> rmatch r (if a = [] then prev else Some (last a), b) q)"
proof (induction s arbitrary: prev)
  case Nil
  then show ?case by (auto simp: ends_nonempty)
next
  case (Cons c cs)
  have "search_from r prev (c # cs) \<longleftrightarrow>
      (\<exists>q. rmatch r (prev, c # cs) q) \<or>
      (\<exists>a b q. cs = a @ b \<and> rmatch r (if a = [] then Some c else Some (last a), b) q)"
    by (simp only: search_from.simps Cons.IH ends_nonempty)
  also have "\<dots> \<longleftrightarrow> (\<exists>a b q. c # cs = a @ b \<and> rmatch r (if a = [] then prev else Some (last a), b) q)"
    (is "?l \<longleftrightarrow> ?r")
  proof
    assume ?l
    then show ?r
    proof (elim disjE exE conjE)
      fix q assume "rmatch r (prev, c # cs) q"
      then show ?r by (intro exI [of _ "[]"] exI [of _ "c # cs"] exI [of _ q]) simp
    next
      fix a b q
      assume "cs = a @ b" "rmatch r (if a = [] then Some c else Some (last a), b) q"
      then have "c # cs = (c # a) @ b \<and> rmatch r (if c # a = [] then prev else Some (last (c # a)), b) q"
        by (simp split: if_splits)
      then show ?r by blast
    qed
  next
    assume ?r
    then obtain a b q where ab: "c # cs = a @ b"
      and m: "rmatch r (if a = [] then prev else Some (last a), b) q" by blast
    show ?l
    proof (cases a)
      case Nil
      with ab m have "rmatch r (prev, c # cs) q" by simp
      then show ?thesis by blast
    next
      case (Cons x a')
      with ab m have "cs = a' @ b \<and> rmatch r (if a' = [] then Some c else Some (last a'), b) q"
        by (auto split: if_splits)
      then show ?thesis by blast
    qed
  qed
  finally show ?case .
qed

lemma match_string_iff:
  "match_string r s \<longleftrightarrow>
     (\<exists>a b q. s = a @ b \<and> rmatch r (if a = [] then None else Some (last a), b) q)"
  by (simp add: match_string_def search_from_iff)

lemma rmatch_ilit:
  "to_lower v = w \<Longrightarrow> \<exists>prev'. rmatch (ilit w) (prev, v @ s) (prev', s)"
proof (induction w arbitrary: v prev)
  case Nil
  then show ?case by (auto simp: ilit_def to_lower_def intro: rm_eps)
next
  case (Cons c w)
  then obtain d u where v: "v = d # u" "lower_char d = c" "to_lower u = w"
    by (auto simp: to_lower_def)
  from Cons.IH [OF v(3), of "Some d"] obtain p where
    "rmatch (ilit w) (Some d, u @ s) (p, s)" by auto
  then have "rmatch (Sq (Cls (\<lambda>d. lower_char d = c)) (ilit w)) (prev, v @ s) (p, s)"
    unfolding v(1) append_Cons using v(2)
    by (intro rm_sq [of _ _ "(Some d, u @ s)"] rm_cls) auto
  then show ?case unfolding ilit_def by (auto simp: ilit_def)
qed

text \<open>A text that contains a case variant of the literal is found by the search.\<close>

lemma match_string_ilit:
  assumes "to_lower v = w"
  shows "match_string (ilit w) (a @ v @ b)"
  unfolding match_string_iff
  using rmatch_ilit [OF assms, of "if a = [] then None else Some (last a)" b] by blast

lemma match_string_Alt:
  "match_string (Alt r t) s \<longleftrightarrow> match_string r s \<or> match_string t s"
  unfolding match_string_iff by (blast elim: rmatch_AltE intro: rm_altl rm_altr)

lemma match_string_alts:
  "match_string (alts rs) s \<longleftrightarrow> (\<exists>r \<in> set rs. match_string r s)"
proof (induction rs rule: alts.induct)
  case 1
  then show ?case by (auto simp: match_string_iff elim: rmatch_ClsE)
qed (auto simp: match_string_Alt)

lemma find_from_match: "find_from r prev s \<noteq> None \<longleftrightarrow> search_from r prev s"
  by (induction s arbitrary: prev) (auto split: list.splits)

lemma find_string_match: "(\<exists>m. find_string r s = Some m) \<longleftrightarrow> match_string r s"
  using find_from_match [of r None s] by (auto simp: find_string_def match_string_def)

subsection \<open>Texts a pattern accepts wherever they stand\<close>

definition accepts :: "re \<Rightarrow> string \<Rightarrow> bool" where
  "accepts r v \<longleftrightarrow> (\<forall>prev b. \<exists>p. rmatch r (prev, v @ b) (p, b))"

named_theorems accepts_intros

lemma accepts_ilit [accepts_intros]: "to_lower v = w \<Longrightarrow> accepts (ilit w) v"
  by (auto simp: accepts_def intro: rmatch_ilit)

lemma accepts_eps [accepts_intros]: "accepts Eps []"
  by (auto simp: accepts_def intro: rm_eps)

lemma accepts_cls [accepts_intros]: "P c \<Longrightarrow> accepts (Cls P) [c]"
  by (auto simp: accepts_def intro: rm_cls)

lemma accepts_sq:
  assumes "accepts r v" and "accepts t w"
  shows "accepts (Sq r t) (v @ w)"
  unfolding accepts_def
proof (intro allI)
  fix prev b
  from assms(1) obtain p where 1: "rmatch r (prev, v @ w @ b) (p, w @ b)"
    unfolding accepts_def by blast
  from assms(2) obtain p' where "rmatch t (p, w @ b) (p', b)"
    unfolding accepts_def by blast
  with 1 show "\<exists>p. rmatch (Sq r t) (prev, (v @ w) @ b) (p, b)" by (auto intro: rm_sq)
qed

lemma accepts_altl: "accepts r v \<Longrightarrow> accepts (Alt r t) v"
  unfolding accepts_def by (blast intro: rm_altl)

lemma accepts_altr: "accepts t v \<Longrightarrow> accepts (Alt r t) v"
  unfolding accepts_def by (blast intro: rm_altr)

lemma accepts_alts: "r \<in> set rs \<Longrightarrow> accepts r v \<Longrightarrow> accepts (alts rs) v"
  by (induction rs rule: alts.induct) (auto intro: accepts_altl accepts_altr)

lemma accepts_opt [accepts_intros]: "accepts r v \<Longrightarrow> accepts (opt r) v" "accepts (opt r) []"
  by (auto simp: opt_def intro: accepts_altl accepts_altr accepts_eps)

lemma accepts_match_string:
  assumes "accepts r v"
  shows "match_string r (a @ v @ b)"
  using assms unfolding accepts_def match_string_iff by blast

subsection \<open>Where a match ends, and word boundaries around it\<close>

lemma rmatch_prev:
  "rmatch r p q \<Longrightarrow> \<exists>w. snd p = w @ snd q \<and> fst q = (if w = [] then fst p else Some (last w))"
proof (induction rule: rmatch.induct)
  case (rm_sq a p q b r)
  then obtain v w where "snd p = v @ w @ snd r" "fst q = (if v = [] then fst p else Some (last v))"
    "fst r = (if w = [] then fst q else Some (last w))" by auto
  then show ?case by (intro exI [of _ "v @ w"]) auto
next
  case (rm_star1 a p q r)
  then obtain v w where "snd p = v @ w @ snd r" "fst q = (if v = [] then fst p else Some (last v))"
    "fst r = (if w = [] then fst q else Some (last w))" by auto
  then show ?case by (intro exI [of _ "v @ w"]) auto
qed auto

lemma rmatch_last: "rmatch r (prev, v @ b) (p, b) \<Longrightarrow> v \<noteq> [] \<Longrightarrow> p = Some (last v)"
  using rmatch_prev [of r "(prev, v @ b)" "(p, b)"] by auto

lemma accepts_star_cls: "list_all P s \<Longrightarrow> accepts (Star (Cls P)) s"
proof (induction s)
  case Nil
  then show ?case by (auto simp: accepts_def intro: rm_star0)
next
  case (Cons c s)
  then have P: "P c" and s: "accepts (Star (Cls P)) s" by simp_all
  show ?case unfolding accepts_def
  proof (intro allI)
    fix prev b
    from s obtain p where "rmatch (Star (Cls P)) (Some c, s @ b) (p, b)"
      unfolding accepts_def by blast
    with rm_cls [of P c prev "s @ b", OF P]
    show "\<exists>p. rmatch (Star (Cls P)) (prev, (c # s) @ b) (p, b)"
      unfolding append_Cons by (blast intro: rm_star1)
  qed
qed

definition is_ws :: "char \<Rightarrow> bool" where
  "is_ws c \<longleftrightarrow> (of_char c :: nat) \<in> {9, 10, 12, 13, 32}"

lemma accepts_plus_ws: "s \<noteq> [] \<Longrightarrow> list_all is_ws s \<Longrightarrow> accepts (plus ws) s"
proof (cases s)
  case (Cons c t)
  assume "list_all is_ws s"
  then have "is_ws c" "list_all is_ws t" by (simp_all add: Cons)
  then have "accepts (Sq ws (Star ws)) ([c] @ t)"
    unfolding ws_def is_ws_def [symmetric]
    by (intro accepts_sq accepts_cls accepts_star_cls)
  then show ?thesis by (simp add: plus_def Cons)
qed simp

text \<open>A whole-word pattern is found where no word character touches the text.\<close>

lemma match_string_word:
  assumes "accepts r v" and "v \<noteq> []" and "is_word (hd v)" and "is_word (last v)"
    and "a = [] \<or> \<not> is_word (last a)" and "b = [] \<or> \<not> is_word (hd b)"
  shows "match_string (Sq WordB (Sq r WordB)) (a @ v @ b)"
proof -
  let ?prev = "if a = [] then None else Some (last a)"
  from assms(1) obtain p where m: "rmatch r (?prev, v @ b) (p, b)"
    unfolding accepts_def by blast
  have p: "p = Some (last v)" by (rule rmatch_last [OF m assms(2)])
  have "at_word_boundary (?prev, v @ b)"
    using assms(2,3,5) by (cases v) (auto simp: at_word_boundary_def)
  moreover have "at_word_boundary (p, b)"
    using assms(4,6) by (cases b) (auto simp: at_word_boundary_def p)
  ultimately have "rmatch (Sq WordB (Sq r WordB)) (?prev, v @ b) (p, b)"
    using m by (blast intro: rm_sq rm_wordb)
  then show ?thesis unfolding match_string_iff by blast
qed

end
