(* ===== verification/RuleEngine.thy ===== *)
theory RuleEngine
  imports Http Regex
begin

text \<open>
  Package ruleengine: the custom rule language (custom.go), the native raw-body and
  traversal patterns with the CRS class toggles (crs.go), and the engine that merges them
  with the results of a Coraza transaction (engine.go).

  Coraza is an argument: a compiled WAF maps what a transaction is fed to what it reports.
  So is \<open>regexp.Compile\<close> on patterns written by the operator; the patterns of the source
  itself are \<open>re\<close> values. Actions, phases, targets and operators are strings, as in the
  source, because rule files may hold any string there.
\<close>

subsection \<open>Rules and matches\<close>

record rule_match =
  m_rule_id :: string
  m_name :: string
  m_message :: string
  m_severity :: string
  m_tags :: "string list"
  m_action :: string
  m_phase :: string
  m_engine :: string
  m_data :: "(string \<times> json) list"
  m_matched :: string

record rule =
  rule_id :: string
  rule_name :: string
  rule_description :: string
  rule_phase :: string
  rule_severity :: string
  rule_tags :: "string list"
  rule_action :: string
  rule_status :: int
  rule_target :: string
  rule_field :: string
  rule_operator :: string
  rule_value :: string
  rule_re :: "re option"

definition trunc_str :: "string \<Rightarrow> nat \<Rightarrow> string" where
  "trunc_str s n = (if length s \<le> n then s else take n s @ ''...'')"

text \<open>\<open>clientIP\<close> of this package: the remote address up to its last colon.\<close>

definition engine_client_ip :: "request \<Rightarrow> string" where
  "engine_client_ip r =
     (if req_remote r \<noteq> [] then
        (case last_index_byte (req_remote r) (CHR '':'') of
           Some i \<Rightarrow> take i (req_remote r)
         | None \<Rightarrow> ''0.0.0.0'')
      else ''0.0.0.0'')"

subsection \<open>Custom rules (custom.go)\<close>

text \<open>
  The values a rule looks at. URL targets dereference \<open>req.URL\<close>, so a request without a
  URL panics. Looking at a form field parses the form, which the request remembers.
\<close>

definition with_url ::
    "request \<Rightarrow> (url \<Rightarrow> request \<times> string list) \<Rightarrow> (unit, request \<times> string list) go" where
  "with_url q f = (case req_url q of None \<Rightarrow> Panic | Some u \<Rightarrow> Ok (f u))"

definition target_values ::
    "rule \<Rightarrow> request \<Rightarrow> string \<Rightarrow> (unit, request \<times> string list) go" where
  "target_values r q body =
     (if rule_target r = ''request_uri'' then with_url q (\<lambda>u. (q, [request_uri u]))
      else if rule_target r = ''path'' then with_url q (\<lambda>u. (q, [url_path u]))
      else if rule_target r = ''query'' then with_url q (\<lambda>u. (q, [url_raw_query u]))
      else if rule_target r = ''method'' then Ok (q, [req_method q])
      else if rule_target r = ''host'' then Ok (q, [req_host q])
      else if rule_target r = ''body'' then Ok (q, [body])
      else if rule_target r = ''header'' then
        (if rule_field r = [] then Ok (q, [])
         else (case header_values (req_header q) (rule_field r) of
                 None \<Rightarrow> Ok (q, [])
               | Some vs \<Rightarrow> Ok (q, vs)))
      else if rule_target r = ''cookie'' then
        (if rule_field r = [] then Ok (q, [])
         else (case request_cookie q (rule_field r) of
                 None \<Rightarrow> Ok (q, [])
               | Some v \<Rightarrow> Ok (q, [v])))
      else if rule_target r = ''arg'' then
        (if rule_field r = [] then Ok (q, [])
         else with_url q (\<lambda>u.
           let v = query_get u (rule_field r) in
           if v \<noteq> [] then (q, [v])
           else if body \<noteq> [] \<and>
                   str_contains (to_lower (header_get (req_header q) ''Content-Type''))
                     ''x-www-form-urlencoded''
           then (case parse_form q of
                   (q', ok) \<Rightarrow>
                     let w = form_get q' (rule_field r) in
                     (q', if ok \<and> w \<noteq> [] then [w] else []))
           else (q, [])))
      else if rule_target r = ''client_ip'' then Ok (q, [engine_client_ip q])
      else Ok (q, []))"

definition op_match :: "rule \<Rightarrow> string \<Rightarrow> bool" where
  "op_match r v =
     (if rule_operator r = ''regex'' \<or> rule_operator r = [] then
        (case rule_re r of Some re \<Rightarrow> match_string re v | None \<Rightarrow> False)
      else if rule_operator r = ''contains'' then str_contains v (rule_value r)
      else if rule_operator r = ''eq'' then v = rule_value r
      else if rule_operator r = ''prefix'' then has_prefix v (rule_value r)
      else if rule_operator r = ''suffix'' then has_suffix v (rule_value r)
      else False)"

definition match_target ::
    "rule \<Rightarrow> request \<Rightarrow> string \<Rightarrow> (unit, request \<times> string option) go" where
  "match_target r q body =
     go_bind (target_values r q body) (\<lambda>(q', vs). Ok (q', find (op_match r) vs))"

definition custom_match :: "rule \<Rightarrow> string \<Rightarrow> rule_match" where
  "custom_match r got =
     \<lparr>m_rule_id = rule_id r, m_name = rule_name r, m_message = rule_description r,
      m_severity = rule_severity r, m_tags = rule_tags r, m_action = rule_action r,
      m_phase = rule_phase r, m_engine = ''custom'',
      m_data = [(''target'', JStr (rule_target r)), (''field'', JStr (rule_field r))],
      m_matched = trunc_str got 256\<rparr>"

definition rule_evaluate ::
    "rule \<Rightarrow> request \<Rightarrow> string \<Rightarrow> (unit, request \<times> rule_match option) go" where
  "rule_evaluate r q body =
     (if rule_phase r \<noteq> ''request'' then Ok (q, None)
      else go_bind (match_target r q body)
             (\<lambda>(q', got). Ok (q', map_option (custom_match r) got)))"

datatype rule_error =
  EmptyRule nat
| MissingId nat
| DuplicateId string
| InvalidPhase string
| InvalidAction string
| InvalidOperator string
| InvalidRegex string
| InvalidFile

definition valid_operators :: "string list" where
  "valid_operators = [''regex'', ''contains'', ''eq'', ''prefix'', ''suffix'']"

definition valid_actions :: "string list" where
  "valid_actions = [''block'', ''challenge'', ''log'', ''allow'']"

definition or_else :: "'a \<Rightarrow> 'a \<Rightarrow> 'a \<Rightarrow> 'a" where
  "or_else z x d = (if x = z then d else x)"

text \<open>Operator, status and severity get their defaults; a regex rule is compiled.\<close>

definition rule_defaults :: "rule \<Rightarrow> re option \<Rightarrow> rule" where
  "rule_defaults r c =
     r\<lparr>rule_operator := or_else [] (rule_operator r) ''regex'',
       rule_re := c,
       rule_status := or_else 0 (rule_status r) 403,
       rule_severity := or_else [] (rule_severity r) ''MEDIUM''\<rparr>"

fun validate_rules ::
    "(string \<Rightarrow> re option) \<Rightarrow> nat \<Rightarrow> string list \<Rightarrow> rule option list \<Rightarrow> (rule_error, rule list) go" where
  "validate_rules compile i seen [] = Ok []"
| "validate_rules compile i seen (None # rs) = Fail (EmptyRule i)"
| "validate_rules compile i seen (Some r # rs) =
     (if rule_id r = [] then Fail (MissingId i)
      else if rule_id r \<in> set seen then Fail (DuplicateId (rule_id r))
      else if rule_phase r \<noteq> ''request'' \<and> rule_phase r \<noteq> ''response''
      then Fail (InvalidPhase (rule_id r))
      else if rule_action r \<notin> set valid_actions then Fail (InvalidAction (rule_id r))
      else
        let op = or_else [] (rule_operator r) ''regex'' in
        if op \<notin> set valid_operators then Fail (InvalidOperator (rule_id r))
        else if op = ''regex'' then
          (case compile (rule_value r) of
             None \<Rightarrow> Fail (InvalidRegex (rule_id r))
           | Some c \<Rightarrow> go_bind (validate_rules compile (i + 1) (rule_id r # seen) rs)
                        (\<lambda>rs'. Ok (rule_defaults r (Some c) # rs')))
        else go_bind (validate_rules compile (i + 1) (rule_id r # seen) rs)
               (\<lambda>rs'. Ok (rule_defaults r (rule_re r) # rs')))"

text \<open>\<open>ParseRules\<close>: YAML first, JSON if that fails (both parsers are arguments).\<close>

definition parse_rules ::
    "(string \<Rightarrow> re option) \<Rightarrow> (string \<Rightarrow> rule option list option) \<Rightarrow>
     (string \<Rightarrow> rule option list option) \<Rightarrow> string \<Rightarrow> (rule_error, rule list) go" where
  "parse_rules compile yaml jsn data =
     (case (case yaml data of Some rs \<Rightarrow> Some rs | None \<Rightarrow> jsn data) of
        None \<Rightarrow> Fail InvalidFile
      | Some rs \<Rightarrow> validate_rules compile 0 [] rs)"

subsection \<open>The embedded CRS rules and their toggles (crs.go)\<close>

record crs_toggles =
  t_sqli :: bool
  t_xss :: bool
  t_rce :: bool
  t_path_traversal :: bool
  t_lfi :: bool
  t_protocol :: bool

text \<open>
  A SecLang rule by its parts: variables, whether the \<open>@rx\<close> operator is positive, pattern,
  id, message, and whether it logs the matched variable. In the patterns the tilde stands
  for the backslash, which HOL string literals do not have.
\<close>

record sec_rule =
  sr_vars :: string
  sr_positive :: bool
  sr_pattern :: string
  sr_id :: nat
  sr_msg :: string
  sr_logdata :: bool

definition sec_rule :: "string \<Rightarrow> bool \<Rightarrow> string \<Rightarrow> nat \<Rightarrow> string \<Rightarrow> bool \<Rightarrow> sec_rule" where
  "sec_rule vars pos pat i msg ld =
     \<lparr>sr_vars = vars, sr_positive = pos, sr_pattern = pat, sr_id = i, sr_msg = msg, sr_logdata = ld\<rparr>"

definition backslashes :: "string \<Rightarrow> string" where
  "backslashes s = map (\<lambda>c. if c = CHR ''~'' then CHR 0x5C else c) s"

definition quot :: string where
  "quot = [CHR 0x22]"

definition apos :: string where
  "apos = [CHR 0x27]"

definition crs_deny :: string where
  "crs_deny = ''deny,status:403,log,tag:'' @ apos @ ''CRS'' @ apos"

text \<open>A rule line. Logged data comes after the closing quotation mark, as in the source.\<close>

definition print_sec_rule :: "sec_rule \<Rightarrow> string" where
  "print_sec_rule r =
     ''SecRule '' @ sr_vars r @ '' '' @ quot @ (if sr_positive r then ''@rx '' else ''!@rx '') @
     backslashes (sr_pattern r) @ quot @ '' '' @ quot @ ''id:'' @ show_nat (sr_id r) @ '','' @
     crs_deny @ '',msg:'' @ apos @ sr_msg r @ apos @ quot @
     (if sr_logdata r then '',logdata:'' @ apos @ ''%{MATCHED_VAR}'' @ apos @ quot else [])"

definition protocol_rules :: "sec_rule list" where
  \<open>protocol_rules =
    [sec_rule ''REQUEST_METHOD'' False ''^(GET|POST|PUT|DELETE|PATCH|HEAD|OPTIONS|CONNECT|TRACE)$''
        920100 ''Invalid HTTP Request Line'' True,
     sec_rule ''REQUEST_PROTOCOL'' False ''^HTTP/~d(?:~.~d)?$''
        920110 ''Invalid HTTP version'' False,
     sec_rule ''REQUEST_METHOD'' True ''^CONNECT$''
        920160 ''Method CONNECT is not allowed'' False,
     sec_rule ''REQUEST_URI'' True ''(?:~.~./|~.~.~~)''
        920280 ''Request has an invalid range header'' False,
     sec_rule ''REQUEST_HEADERS:Content-Length'' False ''^~s*(~d+)~s*$''
        920170 ''Invalid Content-Length header'' False,
     sec_rule ''REQUEST_HEADERS_NAMES'' True ''(?:~x00|~n|~r)''
        920180 ''Invalid character in request header name'' False,
     sec_rule ''REQUEST_HEADERS'' True ''(?:~x00|[~n~r])''
        920181 ''Invalid character in request header'' False,
     sec_rule ''REQUEST_URI'' True ''[~x00-~x08~x0b~x0c~x0e-~x1f~x7f]''
        920270 ''Invalid character in request'' False]\<close>

definition path_traversal_rules :: "sec_rule list" where
  \<open>path_traversal_rules =
    [sec_rule ''REQUEST_URI_RAW|ARGS'' True ''(?:~.~./|~.~.~~)+''
        931130 ''Possible Remote File Inclusion (RFI) Attack'' False,
     sec_rule ''REQUEST_URI_RAW|ARGS'' True ''(?:^|[~?&])(?:file|path|dir|url|uri)=.*(?:~.~.%2f|%2e%2e)''
        931150 ''Path traversal attempt'' False,
     sec_rule ''REQUEST_URI_RAW|ARGS'' True ''/(?:etc|boot|home|root|proc)/''
        930120 ''OS File Access Attempt'' False]\<close>

definition lfi_rules :: "sec_rule list" where
  \<open>lfi_rules =
    [sec_rule ''REQUEST_URI_RAW|ARGS'' True ''(?:file|path|include|require)(?:~.php)?=.*~.(?:php|inc|conf|ini|log|txt|env)''
        930110 ''Possible Local File Inclusion'' True,
     sec_rule ''ARGS'' True ''(?:php|data|file|expect|zip|phar)://''
        930121 ''PHP/Stream wrapper used'' False]\<close>

definition rce_rules :: "sec_rule list" where
  \<open>rce_rules =
    [sec_rule ''ARGS|REQUEST_URI_RAW'' True ''(?:;|&&|~|~|)~s*(?:id|whoami|cat|ls|pwd|uname|wget|curl|nc|bash|sh|perl|python|ruby|php|nmap|sqlmap|ping)~b''
        932160 ''Remote Command Execution: Unix Command Injection'' False,
     sec_rule ''ARGS|REQUEST_URI_RAW'' True ''(?:cmd|command|exec|run)=.*(?:cmd~.exe|powershell|wmic|netstat|ipconfig|whoami)''
        932170 ''Remote Command Execution: Windows Command Injection'' False,
     sec_rule ''ARGS|REQUEST_URI_RAW'' True ''(?:~(~)~s*~{|~{:[^}]+~}|java|javac|groovy|jshell|eval~s*~()''
        932180 ''RCE injection attempt (shell metacharacters)'' False,
     sec_rule ''ARGS|REQUEST_URI_RAW'' True ''(?:~~~~x[0-9a-f]{2}|~~~~[0-7]{3}){2,}''
        932185 ''Escaped byte sequence in RCE attempt'' False,
     sec_rule ''ARGS|REQUEST_URI_RAW'' True ''(?:system|passthru|exec|shell_exec|proc_open|popen|pcntl_exec|assert)~s*~(''
        932200 ''RCE PHP function call'' False]\<close>

definition xss_rules :: "sec_rule list" where
  \<open>xss_rules =
    [sec_rule ''ARGS|REQUEST_URI_RAW'' True ''(?i)(?:<script[~s>]|<~/script>|javascript:)''
        941100 ''XSS Attack Detected via libinjection'' False,
     sec_rule ''ARGS|REQUEST_URI_RAW'' True ''(?i)(?:on(?:load|error|click|mouseover|focus|blur|submit|keydown|keyup|change)~s*=)''
        941110 ''XSS Filter - Category 1: Script Tag Vector'' False,
     sec_rule ''ARGS|REQUEST_URI_RAW'' True ''(?i)(?:<svg|iframe|object|embed|video|audio|math)[~s/>]''
        941140 ''XSS Attack Detected - Object/Embed/Script'' False,
     sec_rule ''ARGS|REQUEST_URI_RAW'' True ''(?i)(?:alert|prompt|confirm)~s*~(''
        941160 ''NoScript XSS InjectionChecker'' False,
     sec_rule ''ARGS|REQUEST_URI_RAW'' True ''(?i)(?:%3c(?:script|svg|iframe)|%3e)''
        941170 ''XSS - HTML encoded attack'' False,
     sec_rule ''ARGS|REQUEST_URI_RAW'' True ''(?i)(?:document~.cookie|window~.location|~.innerHTML|document~.location)''
        941190 ''XSS using HTML/JS mutation'' False]\<close>

definition sqli_rules :: "sec_rule list" where
  \<open>sqli_rules =
    [sec_rule ''ARGS|REQUEST_URI_RAW'' True ''(?i)(?:'|~")~s*(?:--|#|;)''
        942100 ''SQL Injection Attack detected via libinjection'' False,
     sec_rule ''ARGS|REQUEST_URI_RAW'' True ''(?i)(?:union~s+(?:all~s+|distinct~s+)?select|select~s+.*~s+from~s+)''
        942120 ''SQL Injection Attack Detected via libinjection'' False,
     sec_rule ''ARGS|REQUEST_URI_RAW'' True ''(?i)(?:sleep~s*~(|~bwaitfor~s+delay~b|benchmark~s*~()''
        942160 ''Detects blind sqli tests using sleep() or benchmark()'' False,
     sec_rule ''ARGS|REQUEST_URI_RAW'' True ''(?i)(?:information_schema|sys~.|pg_catalog|sqlite_master)''
        942200 ''Detects MySQL comment / space obfuscated injection'' False,
     sec_rule ''ARGS|REQUEST_URI_RAW'' True ''(?i)(?:1~s*=~s*1|1~s*=~s*2|~sor~s+.*=~s*|and~s+.*=~s*)''
        942230 ''Detects conditional SQL injection attempts'' False,
     sec_rule ''ARGS|REQUEST_URI_RAW'' True ''(?i)(?:insert~s+into|update~s+~w+~s+set|delete~s+from|drop~s+table|create~s+table|alter~s+table)''
        942251 ''Detects MySQL in-band SQL injection attacks'' False,
     sec_rule ''ARGS|REQUEST_URI_RAW'' True ''(?i)(?:;)~s*(?:drop|delete|insert|update|select|union|alter)~s''
        942270 ''Basic SQL injection'' False,
     sec_rule ''ARGS|REQUEST_URI_RAW'' True ''(?i)(?:~~~~x[0-9a-f]{2}|%27|%22|%u0027|%u0022)''
        942300 ''Detects MySQL comment / space obfuscated injection and backtick termination'' False]\<close>

text \<open>The lines of one class are joined by newlines; the classes are written one after another.\<close>

definition newline :: char where
  "newline = CHR 0x0A"

definition class_text :: "sec_rule list \<Rightarrow> string" where
  "class_text rs = join_with [newline] (map print_sec_rule rs)"

definition crs_preamble :: string where
  "crs_preamble = concat (map (\<lambda>l. l @ [newline])
     [''SecRuleEngine On'', ''SecRequestBodyAccess On'', ''SecRequestBodyLimit 4194304'',
      ''SecRequestBodyNoFilesLimit 1048576'', ''SecResponseBodyAccess Off'',
      ''SecDefaultAction '' @ quot @ ''phase:2,pass,log'' @ quot, ''SecAuditEngine Off''])"

definition crs_directives_for :: "crs_toggles \<Rightarrow> string" where
  "crs_directives_for t =
     crs_preamble @
     (if t_protocol t then class_text protocol_rules else []) @
     (if t_path_traversal t then class_text path_traversal_rules else []) @
     (if t_lfi t then class_text lfi_rules else []) @
     (if t_rce t then class_text rce_rules else []) @
     (if t_xss t then class_text xss_rules else []) @
     (if t_sqli t then class_text sqli_rules else [])"

definition describe_toggles :: "crs_toggles \<Rightarrow> string list" where
  "describe_toggles t =
     (if t_protocol t then [''920-protocol''] else []) @
     (if t_path_traversal t then [''931/930-path-traversal''] else []) @
     (if t_lfi t then [''930-lfi''] else []) @
     (if t_rce t then [''932-rce''] else []) @
     (if t_xss t then [''941-xss''] else []) @
     (if t_sqli t then [''942-sqli''] else [])"

subsection \<open>Native patterns (crs.go)\<close>

type_synonym native_rule = "string \<times> string \<times> re"

definition ilits :: "string list \<Rightarrow> re" where
  "ilits lits = alts (map ilit lits)"

definition quote_cls :: re where
  "quote_cls = any_of [CHR 0x27, CHR 0x22]"

definition native_xss :: "native_rule list" where
  "native_xss =
    [(''NATIVE-941100'', ''XSS in raw request body'',
      alts [seqs [ilit ''<'', ilits [''script'', ''svg'', ''iframe'', ''object'', ''embed''],
                  Alt ws (any_of ''/>'')],
            seqs [ilit ''<'', opt (ilit ''/''), ilit ''script''],
            ilit ''javascript:'']),
     (''NATIVE-941110'', ''XSS event-handler vector'',
      seqs [ilit ''on'', ilits [''load'', ''error'', ''click'', ''mouseover'', ''focus'', ''blur'',
                            ''submit'', ''change'', ''keydown'', ''keyup''], Star ws, ilit ''=''])]"

definition native_sqli :: "native_rule list" where
  "native_sqli =
    [(''NATIVE-942100'', ''SQLi quote-terminator'',
      seqs [quote_cls, Star ws, ilits [''--'', ''#'', '';'', ''/*'']]),
     (''NATIVE-942120'', ''SQLi union select'',
      seqs [ilit ''union'', plus ws,
            opt (Alt (Sq (ilit ''all'') (plus ws)) (Sq (ilit ''distinct'') (plus ws))),
            ilit ''select'', WordB]),
     (''NATIVE-942160'', ''SQLi time-based'',
      alts [seqs [ilit ''sleep'', Star ws, ilit ''(''],
            seqs [WordB, ilit ''waitfor'', plus ws, ilit ''delay'', WordB],
            seqs [ilit ''benchmark'', Star ws, ilit ''('']]),
     (''NATIVE-942200'', ''SQLi metadata tables'',
      ilits [''information_schema'', ''pg_catalog'', ''sqlite_master'', ''sys.tables'']),
     (''NATIVE-942230'', ''SQLi conditional'',
      alts [seqs [WordB, ilit ''1'', Star ws, ilit ''='', Star ws, any_of ''12'', WordB],
            seqs [WordB, ilit ''or'', plus ws, quote_cls],
            seqs [lit [CHR 0x27], ilit '' or '', lit [CHR 0x27]],
            seqs [WordB, ilits [''and'', ''or''], plus ws, Star dot, ilit ''='', Star ws]])]"

definition native_rce :: "native_rule list" where
  "native_rce =
    [(''NATIVE-932200'', ''RCE function call'',
      seqs [WordB, ilits [''system'', ''passthru'', ''shell_exec'', ''exec'', ''proc_open'', ''popen'',
                          ''eval'', ''assert''], Star ws, ilit ''('']),
     (''NATIVE-932160'', ''RCE command chaining'',
      seqs [alts [ilit '';'', ilit ''&&'', ilit ''||''], Star ws,
            alts [ilit ''id'', ilit ''whoami'', Sq (ilit ''cat'') (plus ws), Sq (ilit ''ls'') ws,
                  Sq (ilit ''rm'') ws, Sq (ilit ''curl'') ws, Sq (ilit ''wget'') ws,
                  Sq (ilit ''nc'') ws, Sq (ilit ''bash'') ws, Sq (ilit ''sh'') ws,
                  ilit ''python'', ilit ''perl'', ilit ''php'', ilit ''nmap'', ilit ''sqlmap''],
            WordB]),
     (''NATIVE-932180'', ''RCE shell metacharacters'',
      alts [lit ''$('', lit ''${'', lit [CHR ''$'', CHR 0x60],
            seqs [lit [CHR 0x60], plus (none_of [CHR 0x60]), lit [CHR 0x60]]])]"

definition native_traversal_raw :: re where
  "native_traversal_raw =
     alts [seqs [ilit ''%2e%2e'', Cls (\<lambda>c. lower_char c \<in> set (''%2f'' @ [CHR 0x5C]))],
           ilits [''%252e%252e%252f'', ''..%2f'', ''..%5c'', ''..%252f'', ''%2e.%2f'', ''.%2e%2f'',
                  ''%00'']]"

definition native_traversal_decoded :: re where
  "native_traversal_decoded = Sq (lit ''..'') (any_of [CHR ''/'', CHR 0x5C])"

definition matched_substr :: "re \<Rightarrow> string \<Rightarrow> string" where
  "matched_substr r s = (case find_string r s of None \<Rightarrow> [] | Some m \<Rightarrow> m)"

definition native_match :: "string \<Rightarrow> string \<Rightarrow> re \<Rightarrow> string \<Rightarrow> rule_match" where
  "native_match i msg r s =
     \<lparr>m_rule_id = i, m_name = [], m_message = msg, m_severity = ''CRITICAL'', m_tags = [],
      m_action = ''block'', m_phase = ''request'', m_engine = ''native'', m_data = [],
      m_matched = trunc_str (matched_substr r s) 128\<rparr>"

definition native_uri_rules :: "string \<Rightarrow> string \<Rightarrow> (string \<times> string \<times> re \<times> string) list" where
  "native_uri_rules raw decoded =
     [(''NATIVE-920280'', ''Encoded path traversal'', native_traversal_raw, raw),
      (''NATIVE-920281'', ''Path traversal'', native_traversal_decoded, decoded)]"

definition evaluate_native_uri :: "crs_toggles \<Rightarrow> string \<Rightarrow> string \<Rightarrow> rule_match list" where
  "evaluate_native_uri t raw decoded =
     (if \<not> t_path_traversal t then []
      else map (\<lambda>(i, msg, r, s). native_match i msg r s)
             (filter (\<lambda>(i, msg, r, s). match_string r s) (native_uri_rules raw decoded)))"

definition native_body_rules :: "crs_toggles \<Rightarrow> native_rule list" where
  "native_body_rules t =
     (if t_xss t then native_xss else []) @ (if t_sqli t then native_sqli else []) @
     (if t_rce t then native_rce else [])"

definition evaluate_native_body :: "crs_toggles \<Rightarrow> string \<Rightarrow> rule_match list" where
  "evaluate_native_body t body =
     (if body = [] then []
      else map (\<lambda>(i, msg, r). native_match i msg r body)
             (filter (\<lambda>(i, msg, r). match_string r body) (native_body_rules t)))"

subsection \<open>The engine (engine.go)\<close>

text \<open>What a Coraza transaction is fed and what it reports.\<close>

record interruption =
  it_rule_id :: int
  it_action :: string
  it_status :: int
  it_data :: string

record matched_rule =
  mr_id :: int
  mr_severity :: string
  mr_message :: string
  mr_data :: string
  mr_disruptive :: bool
  mr_datas :: "string list"

record tx_input =
  tx_client :: string
  tx_uri :: string
  tx_method :: string
  tx_proto :: string
  tx_headers :: "(string \<times> string) list"
  tx_body :: string

record tx_output =
  to_write :: "interruption option"
  to_process :: "interruption option"
  to_matched :: "matched_rule list"
  to_interruption :: "interruption option"

type_synonym waf = "tx_input \<Rightarrow> tx_output"

record engine =
  e_waf :: "waf option"
  e_rules :: "rule list"
  e_enabled :: crs_toggles
  e_fail_mode :: string

record match_result =
  res_matches :: "rule_match list"
  res_blocked :: bool
  res_challenged :: bool
  res_err :: bool

definition no_toggles :: crs_toggles where
  "no_toggles = \<lparr>t_sqli = False, t_xss = False, t_rce = False, t_path_traversal = False,
                 t_lfi = False, t_protocol = False\<rparr>"

definition new_engine :: engine where
  "new_engine = \<lparr>e_waf = None, e_rules = [], e_enabled = no_toggles, e_fail_mode = ''closed''\<rparr>"

definition set_fail_mode :: "engine \<Rightarrow> string \<Rightarrow> engine" where
  "set_fail_mode e m = e\<lparr>e_fail_mode := m\<rparr>"

text \<open>
  \<open>coraza.NewWAF\<close> on a directive text is an argument; a failed build keeps the old WAF but
  not the old rules or toggles. The second component says whether the build worked.
\<close>

definition rebuild :: "(string \<Rightarrow> waf option) \<Rightarrow> engine \<Rightarrow> engine \<times> bool" where
  "rebuild new_waf e =
     (case new_waf (crs_directives_for (e_enabled e)) of
        None \<Rightarrow> (e, False)
      | Some w \<Rightarrow> (e\<lparr>e_waf := Some w\<rparr>, True))"

definition set_crs_toggles :: "(string \<Rightarrow> waf option) \<Rightarrow> engine \<Rightarrow> crs_toggles \<Rightarrow> engine \<times> bool" where
  "set_crs_toggles new_waf e t = rebuild new_waf (e\<lparr>e_enabled := t\<rparr>)"

definition set_custom_rules :: "(string \<Rightarrow> waf option) \<Rightarrow> engine \<Rightarrow> rule list \<Rightarrow> engine \<times> bool" where
  "set_custom_rules new_waf e rs = rebuild new_waf (e\<lparr>e_rules := rs\<rparr>)"

text \<open>A file of SecLang rules replaces the embedded set.\<close>

definition load_crs_file ::
    "(string \<Rightarrow> waf option) \<Rightarrow> (string \<Rightarrow> waf option) \<Rightarrow> engine \<Rightarrow> string \<Rightarrow> engine \<times> bool" where
  "load_crs_file new_waf waf_of_file e path =
     (case (if e_waf e = None then rebuild new_waf e else (e, True)) of
        (e', False) \<Rightarrow> (e', False)
      | (e', True) \<Rightarrow>
          (case waf_of_file path of
             None \<Rightarrow> (e', False)
           | Some w \<Rightarrow> (e'\<lparr>e_waf := Some w\<rparr>, True)))"

definition merge_interruption :: "interruption option \<Rightarrow> rule_match list" where
  "merge_interruption it =
     (case it of
        None \<Rightarrow> []
      | Some i \<Rightarrow>
          [\<lparr>m_rule_id = ''CRS-'' @ itoa (it_rule_id i), m_name = [],
            m_message = ''Request blocked by CRS rule'', m_severity = ''CRITICAL'', m_tags = [],
            m_action = ''block'', m_phase = [], m_engine = ''crs'',
            m_data = [(''status'', JNum (of_int (it_status i))),
                      (''action'', JStr (it_action i)), (''data'', JStr (it_data i))],
            m_matched = []\<rparr>])"

definition crs_action :: "interruption option \<Rightarrow> matched_rule \<Rightarrow> string" where
  "crs_action it mr =
     (case it of
        Some i \<Rightarrow> if it_action i = ''allow'' then ''allow''
                  else if it_action i = ''challenge'' \<or> it_action i = ''redirect'' then ''challenge''
                  else ''block''
      | None \<Rightarrow> if mr_disruptive mr then ''log'' else ''block'')"

definition crs_match :: "interruption option \<Rightarrow> matched_rule \<Rightarrow> rule_match" where
  "crs_match it mr =
     \<lparr>m_rule_id = ''CRS-'' @ itoa (mr_id mr), m_name = [], m_message = mr_message mr,
      m_severity = mr_severity mr, m_tags = [], m_action = crs_action it mr, m_phase = [],
      m_engine = ''crs'', m_data = [(''data'', JStr (mr_data mr))],
      m_matched = (case mr_datas mr of [] \<Rightarrow> [] | d # _ \<Rightarrow> trunc_str d 256)\<rparr>"

definition engine_uri :: "request \<Rightarrow> string" where
  "engine_uri q = (case req_url q of None \<Rightarrow> ''/'' | Some u \<Rightarrow> request_uri u)"

definition tx_of :: "request \<Rightarrow> string \<Rightarrow> tx_input" where
  "tx_of q body =
     \<lparr>tx_client = engine_client_ip q, tx_uri = engine_uri q, tx_method = req_method q,
      tx_proto = (if req_proto q = [] then ''HTTP/1.1'' else req_proto q),
      tx_headers = concat (map (\<lambda>(k, vs). map (\<lambda>v. (k, v)) vs) (req_header q)),
      tx_body = body\<rparr>"

text \<open>The loop over the custom rules; a panicking rule ends the evaluation.\<close>

fun custom_matches :: "rule list \<Rightarrow> request \<Rightarrow> string \<Rightarrow> (unit, request \<times> rule_match list) go" where
  "custom_matches [] q body = Ok (q, [])"
| "custom_matches (r # rs) q body =
     go_bind (rule_evaluate r q body) (\<lambda>(q', m).
       go_bind (custom_matches rs q' body) (\<lambda>(q'', ms).
         Ok (q'', (case m of None \<Rightarrow> ms | Some x \<Rightarrow> x # ms))))"

definition is_multipart :: "request \<Rightarrow> bool" where
  "is_multipart q \<longleftrightarrow>
     has_prefix (to_lower (header_get (req_header q) ''Content-Type'')) ''multipart/''"

definition crs_matches :: "waf \<Rightarrow> request \<Rightarrow> string \<Rightarrow> rule_match list" where
  "crs_matches w q body =
     (let out = w (tx_of q body) in
      (if body \<noteq> [] then merge_interruption (to_write out) else []) @
      merge_interruption (to_process out) @
      map (crs_match (to_interruption out)) (to_matched out))"

definition evaluate_locked ::
    "waf \<Rightarrow> rule list \<Rightarrow> crs_toggles \<Rightarrow> request \<Rightarrow> string \<Rightarrow> (unit, request \<times> rule_match list) go" where
  "evaluate_locked w rules t q body =
     go_bind (custom_matches rules q body) (\<lambda>(q', cms).
       Ok (q', crs_matches w q body @ cms @
               (if is_multipart q then [] else evaluate_native_body t body) @
               evaluate_native_uri t (engine_uri q)
                 (case req_url q of None \<Rightarrow> [] | Some u \<Rightarrow> url_path u)))"

definition timeout_match :: rule_match where
  "timeout_match =
     \<lparr>m_rule_id = ''ENGINE-TIMEOUT'', m_name = [],
      m_message = ''rule engine timed out; fail-closed'', m_severity = ''CRITICAL'', m_tags = [],
      m_action = ''block'', m_phase = [], m_engine = ''native'', m_data = [], m_matched = []\<rparr>"

text \<open>The loop at the end of \<open>Evaluate\<close> sets the flags from the actions.\<close>

definition result_of :: "rule_match list \<Rightarrow> bool \<Rightarrow> match_result" where
  "result_of ms err =
     \<lparr>res_matches = ms, res_blocked = (\<exists>m \<in> set ms. m_action m = ''block''),
      res_challenged = (\<exists>m \<in> set ms. m_action m = ''challenge''), res_err = err\<rparr>"

text \<open>
  \<open>Evaluate\<close>; \<open>slow\<close> says that two seconds passed before the evaluation was done. The
  evaluation runs in its own goroutine without a recover, so its panic ends the process.
\<close>

definition engine_evaluate ::
    "engine \<Rightarrow> bool \<Rightarrow> request \<Rightarrow> string \<Rightarrow> (unit, request \<times> match_result) go" where
  "engine_evaluate e slow q body =
     (case e_waf e of
        None \<Rightarrow> Ok (q, result_of [] False)
      | Some w \<Rightarrow>
          if slow then
            Ok (q, result_of (if e_fail_mode e = ''closed'' then [timeout_match] else []) True)
          else go_bind (evaluate_locked w (e_rules e) (e_enabled e) q body)
                 (\<lambda>(q', ms). Ok (q', result_of ms False)))"

subsection \<open>Lemmas\<close>

lemma res_blocked_result [simp]:
  "res_blocked (result_of ms err) \<longleftrightarrow> (\<exists>m \<in> set ms. m_action m = ''block'')"
  by (simp add: result_of_def)

lemma res_matches_result [simp]:
  "res_matches (result_of ms err) = ms" "res_err (result_of ms err) = err"
  by (simp_all add: result_of_def)

lemma native_match_blocks [simp]: "m_action (native_match i msg r s) = ''block''"
  by (simp add: native_match_def)

text \<open>Targets that do not look at the URL, and requests that have one, never panic.\<close>

lemma target_values_ok:
  "req_url q \<noteq> None \<Longrightarrow>
     \<exists>q' vs. target_values r q body = Ok (q', vs) \<and> req_url q' = req_url q"
  by (auto simp: target_values_def with_url_def Let_def parse_form_def
      split: option.splits)

lemma rule_evaluate_ok:
  assumes "req_url q \<noteq> None"
  shows "\<exists>q' m. rule_evaluate r q body = Ok (q', m) \<and> req_url q' = req_url q"
  using target_values_ok [OF assms, of r body]
  by (auto simp: rule_evaluate_def match_target_def)

lemma custom_matches_ok:
  "req_url q \<noteq> None \<Longrightarrow> \<exists>q' ms. custom_matches rs q body = Ok (q', ms) \<and> req_url q' = req_url q"
proof (induction rs arbitrary: q)
  case Nil
  then show ?case by simp
next
  case (Cons r rs)
  from rule_evaluate_ok [OF Cons.prems, of r body] obtain q' m where
    1: "rule_evaluate r q body = Ok (q', m)" "req_url q' = req_url q" by blast
  with Cons.IH [of q'] Cons.prems obtain q'' ms where
    "custom_matches rs q' body = Ok (q'', ms)" "req_url q'' = req_url q'" by auto
  with 1 show ?case by simp
qed

lemma evaluate_locked_ok:
  assumes "req_url q \<noteq> None"
  obtains q' cms where "evaluate_locked w rules t q body =
    Ok (q', crs_matches w q body @ cms @
            (if is_multipart q then [] else evaluate_native_body t body) @
            evaluate_native_uri t (engine_uri q)
              (case req_url q of None \<Rightarrow> [] | Some u \<Rightarrow> url_path u))"
proof -
  from custom_matches_ok [OF assms, of rules body] obtain q' cms where
    "custom_matches rules q body = Ok (q', cms)" by blast
  with that show ?thesis by (simp add: evaluate_locked_def)
qed

text \<open>A native hit in body or target makes the whole evaluation block.\<close>

lemma native_hit_blocks:
  assumes "e_waf e = Some w" and "req_url q = Some u"
    and "(\<not> is_multipart q \<and> evaluate_native_body (e_enabled e) body \<noteq> []) \<or>
         evaluate_native_uri (e_enabled e) (engine_uri q) (url_path u) \<noteq> []"
  shows "\<exists>q' res. engine_evaluate e False q body = Ok (q', res) \<and> res_blocked res"
proof -
  have native: "m_action m = ''block''"
    if "m \<in> set (evaluate_native_body t b) \<union> set (evaluate_native_uri t' x y)" for m t b t' x y
    using that by (auto simp: evaluate_native_body_def evaluate_native_uri_def split: if_splits)
  from assms(2) have "req_url q \<noteq> None" by simp
  from evaluate_locked_ok [OF this, of w "e_rules e" "e_enabled e" body] obtain q' cms where
    ev: "evaluate_locked w (e_rules e) (e_enabled e) q body =
      Ok (q', crs_matches w q body @ cms @
            (if is_multipart q then [] else evaluate_native_body (e_enabled e) body) @
            evaluate_native_uri (e_enabled e) (engine_uri q) (url_path u))"
    using assms(2) by auto
  obtain m where "m \<in> set ((if is_multipart q then [] else evaluate_native_body (e_enabled e) body) @
      evaluate_native_uri (e_enabled e) (engine_uri q) (url_path u))"
    using assms(3) by (cases "evaluate_native_body (e_enabled e) body";
        cases "evaluate_native_uri (e_enabled e) (engine_uri q) (url_path u)") force+
  moreover from this have "m_action m = ''block''" by (auto intro: native split: if_splits)
  ultimately show ?thesis
    by (auto simp: engine_evaluate_def assms(1) ev)
qed

lemma native_body_hit:
  assumes "(i, msg, r) \<in> set (native_body_rules t)" and "accepts r v" and "a @ v @ b \<noteq> []"
  shows "evaluate_native_body t (a @ v @ b) \<noteq> []"
  using assms accepts_match_string [OF assms(2), of a b]
  by (force simp: evaluate_native_body_def filter_empty_conv)

lemma script_tag_accepted:
  assumes "to_lower v = ''<script'' \<or> to_lower v = ''</script''"
  shows "accepts (seqs [ilit ''<'', opt (ilit ''/''), ilit ''script'']) v"
  using assms
proof
  assume "to_lower v = ''<script''"
  then have "accepts (Sq (ilit ''<'') (Sq (opt (ilit ''/'')) (ilit ''script''))) (take 1 v @ [] @ drop 1 v)"
    by (intro accepts_sq accepts_intros) (simp_all add: to_lower_def take_map [symmetric] drop_map [symmetric])
  then show ?thesis by simp
next
  assume *: "to_lower v = ''</script''"
  have "accepts (Sq (ilit ''<'') (Sq (opt (ilit ''/'')) (ilit ''script'')))
          (take 1 v @ take 1 (drop 1 v) @ drop 1 (drop 1 v))"
    using * by (intro accepts_sq accepts_intros)
      (simp_all add: to_lower_def take_map [symmetric] drop_map [symmetric] del: drop_drop)
  then show ?thesis by (simp add: append_take_drop_id del: drop_drop)
qed

text \<open>With the XSS class on, a script tag anywhere in the body is a native hit.\<close>

lemma script_tag_hit:
  assumes "t_xss t" and "to_lower v = ''<script'' \<or> to_lower v = ''</script''"
  shows "evaluate_native_body t (a @ v @ b) \<noteq> []"
proof -
  let ?r = "alts [seqs [ilit ''<'', ilits [''script'', ''svg'', ''iframe'', ''object'', ''embed''],
                  Alt ws (any_of ''/>'')],
            seqs [ilit ''<'', opt (ilit ''/''), ilit ''script''],
            ilit ''javascript:'']"
  have "(''NATIVE-941100'', ''XSS in raw request body'', ?r) \<in> set (native_body_rules t)"
    using assms(1) by (simp add: native_body_rules_def native_xss_def)
  moreover have "accepts ?r v"
    by (rule accepts_alts [OF _ script_tag_accepted [OF assms(2)]]) simp
  moreover have "a @ v @ b \<noteq> []" using assms(2) by (auto simp: to_lower_def)
  ultimately show ?thesis by (rule native_body_hit)
qed

text \<open>What the validation of a rule file guarantees.\<close>

definition rule_ok :: "rule \<Rightarrow> bool" where
  "rule_ok r \<longleftrightarrow>
     rule_id r \<noteq> [] \<and> rule_phase r \<in> {''request'', ''response''} \<and>
     rule_action r \<in> set valid_actions \<and> rule_operator r \<in> set valid_operators \<and>
     (rule_operator r = ''regex'' \<longrightarrow> rule_re r \<noteq> None) \<and> rule_status r \<noteq> 0 \<and>
     rule_severity r \<noteq> []"

lemma rule_defaults_simps [simp]:
  "rule_id (rule_defaults r c) = rule_id r"
  "rule_phase (rule_defaults r c) = rule_phase r"
  "rule_action (rule_defaults r c) = rule_action r"
  "rule_re (rule_defaults r c) = c"
  "rule_operator (rule_defaults r c) = or_else [] (rule_operator r) ''regex''"
  "rule_status (rule_defaults r c) \<noteq> 0"
  "rule_severity (rule_defaults r c) \<noteq> []"
  by (simp_all add: rule_defaults_def or_else_def)

lemma validate_rules_ok:
  "validate_rules compile i seen rs = Ok rs' \<Longrightarrow>
     list_all rule_ok rs' \<and> distinct (map rule_id rs') \<and> set (map rule_id rs') \<inter> set seen = {} \<and>
     map (rule_id \<circ> the) rs = map rule_id rs' \<and> None \<notin> set rs"
proof (induction rs arbitrary: i seen rs')
  case Nil
  then show ?case by simp
next
  case (Cons x rs)
  then obtain r where x: "x = Some r" by (cases x) auto
  from Cons.prems obtain c ts where
    ts: "validate_rules compile (i + 1) (rule_id r # seen) rs = Ok ts"
    and rs': "rs' = rule_defaults r c # ts"
    and ok: "rule_ok (rule_defaults r c)" and new: "rule_id r \<notin> set seen"
    by (auto simp: x Let_def go_bind_Ok_iff rule_ok_def split: if_splits option.splits)
  from Cons.IH [OF ts] ok new show ?case by (auto simp: x rs')
qed

subsection \<open>Properties\<close>

text \<open>
  With the XSS class on, a request whose body contains \<open><script\<close> or \<open></script\<close> in any
  case, anywhere, is blocked, whatever Coraza and the custom rules say; only multipart
  bodies are exempt from the raw scan.
\<close>

theorem script_body_blocked:
  assumes "e_waf e = Some w" and "req_url q = Some u" and "t_xss (e_enabled e)"
    and "\<not> is_multipart q"
    and "to_lower v = ''<script'' \<or> to_lower v = ''</script''"
  shows "\<exists>q' res. engine_evaluate e False q (a @ v @ b) = Ok (q', res) \<and> res_blocked res"
  using native_hit_blocks [OF assms(1,2)] script_tag_hit [OF assms(3,5)] assms(4) by blast

definition demo_url :: url where
  "demo_url = \<lparr>url_scheme = [], url_host = [], url_path = ''/a'', url_escaped = ''/a'',
               url_raw_query = [], url_force_query = False\<rparr>"

definition demo_request :: request where
  "demo_request = \<lparr>req_method = ''POST'', req_url = Some demo_url, req_proto = ''HTTP/1.1'',
     req_proto_major = 1, req_host = ''a.example'', req_remote = ''10.0.0.1:4711'',
     req_header = [(''Content-Type'', [''application/json''])], req_body = ClosedBody,
     req_form = None\<rparr>"

text \<open>A WAF that reports nothing, and an engine with the XSS class on.\<close>

definition silent_waf :: waf where
  "silent_waf t = \<lparr>to_write = None, to_process = None, to_matched = [], to_interruption = None\<rparr>"

definition demo_engine :: engine where
  "demo_engine = fst (set_crs_toggles (\<lambda>_. Some silent_waf) new_engine
     (no_toggles\<lparr>t_xss := True, t_path_traversal := True\<rparr>))"

lemma demo_engine_simps [simp]:
  "e_waf demo_engine = Some silent_waf" "t_xss (e_enabled demo_engine)"
  "t_path_traversal (e_enabled demo_engine)" "req_url demo_request = Some demo_url"
  by (simp_all add: demo_engine_def set_crs_toggles_def rebuild_def new_engine_def demo_request_def)

theorem script_body_blocked_witness:
  "\<exists>q' res. engine_evaluate demo_engine False demo_request
              (''{x:'' @ ''<ScRiPt'' @ ''>}'') = Ok (q', res) \<and> res_blocked res"
proof (rule script_body_blocked [of demo_engine silent_waf demo_request demo_url])
  show "\<not> is_multipart demo_request" by code_simp
  show "to_lower ''<ScRiPt'' = ''<script'' \<or> to_lower ''<ScRiPt'' = ''</script''" by code_simp
qed simp_all

text \<open>
  With the path-traversal class on, a request target that contains the encoded
  sequences \<open>..%2f\<close>, \<open>..%5c\<close>, \<open>%00\<close> or their double-encoded forms, in any case, is
  blocked.
\<close>

theorem encoded_traversal_blocked:
  assumes "e_waf e = Some w" and "req_url q = Some u" and "t_path_traversal (e_enabled e)"
    and "to_lower v \<in> {''%252e%252e%252f'', ''..%2f'', ''..%5c'', ''..%252f'', ''%2e.%2f'', ''.%2e%2f'', ''%00''}"
    and "request_uri u = a @ v @ b"
  shows "\<exists>q' res. engine_evaluate e False q body = Ok (q', res) \<and> res_blocked res"
proof -
  have "accepts native_traversal_raw v"
    unfolding native_traversal_raw_def alts.simps ilits_def
    using assms(4)
    by (intro accepts_altr accepts_alts [OF imageI [where f = ilit and x = "to_lower v",
          THEN subsetD [OF eq_refl [OF set_map [symmetric]]]]] accepts_ilit) auto
  then have "match_string native_traversal_raw (engine_uri q)"
    by (simp add: engine_uri_def assms(2,5) accepts_match_string)
  then have "evaluate_native_uri (e_enabled e) (engine_uri q) (url_path u) \<noteq> []"
    using assms(3) by (simp add: evaluate_native_uri_def native_uri_rules_def)
  with native_hit_blocks [OF assms(1,2)] show ?thesis by blast
qed

theorem encoded_traversal_blocked_witness:
  "\<exists>q' res. engine_evaluate demo_engine False
      (demo_request\<lparr>req_url := Some (demo_url\<lparr>url_escaped := ''/x/..%2Fetc''\<rparr>)\<rparr>) []
      = Ok (q', res) \<and> res_blocked res"
proof (rule encoded_traversal_blocked
    [where a = "''/x/''" and v = "''..%2F''" and b = "''etc''" and w = silent_waf
       and u = "demo_url\<lparr>url_escaped := ''/x/..%2Fetc''\<rparr>"])
  show "to_lower ''..%2F'' \<in> {''%252e%252e%252f'', ''..%2f'', ''..%5c'', ''..%252f'', ''%2e.%2f'', ''.%2e%2f'', ''%00''}"
    by code_simp
  show "request_uri (demo_url\<lparr>url_escaped := ''/x/..%2Fetc''\<rparr>) = ''/x/'' @ ''..%2F'' @ ''etc''"
    by code_simp
qed simp_all

text \<open>
  C36. The engine returns a result for every request that has a URL, and its verdict flag
  says exactly whether a match blocks. A request without a URL (the synthetic requests of
  the WebSocket and SSE inspectors) makes a custom rule on a URL target panic in a
  goroutine that has no recover, so \<open>Evaluate\<close> can end the process.
\<close>

theorem engine_evaluate_total:
  "(req_url q \<noteq> None \<longrightarrow>
      (\<exists>q' res. engine_evaluate e slow q body = Ok (q', res) \<and>
         (res_blocked res \<longleftrightarrow> (\<exists>m \<in> set (res_matches res). m_action m = ''block'')))) \<and>
   (req_url q = None \<and> e_waf e = Some w \<and> e_rules e = [r] \<and> rule_phase r = ''request'' \<and>
      rule_target r \<in> {''request_uri'', ''path'', ''query''} \<longrightarrow>
      engine_evaluate e False q body = Panic)"
proof (intro conjI impI)
  assume url: "req_url q \<noteq> None"
  show "\<exists>q' res. engine_evaluate e slow q body = Ok (q', res) \<and>
         (res_blocked res \<longleftrightarrow> (\<exists>m \<in> set (res_matches res). m_action m = ''block''))"
  proof (cases "e_waf e")
    case None
    then show ?thesis by (simp add: engine_evaluate_def)
  next
    case (Some w)
    from evaluate_locked_ok [OF url, of w "e_rules e" "e_enabled e" body] obtain q' ms where
      "evaluate_locked w (e_rules e) (e_enabled e) q body = Ok (q', ms)" by blast
    then show ?thesis by (cases slow) (simp_all add: engine_evaluate_def Some)
  qed
next
  assume "req_url q = None \<and> e_waf e = Some w \<and> e_rules e = [r] \<and> rule_phase r = ''request'' \<and>
      rule_target r \<in> {''request_uri'', ''path'', ''query''}"
  then show "engine_evaluate e False q body = Panic"
    by (auto simp: engine_evaluate_def evaluate_locked_def rule_evaluate_def match_target_def
        target_values_def with_url_def)
qed

definition path_rule :: rule where
  "path_rule = \<lparr>rule_id = ''r1'', rule_name = [], rule_description = [], rule_phase = ''request'',
     rule_severity = [], rule_tags = [], rule_action = ''block'', rule_status = 403,
     rule_target = ''path'', rule_field = [], rule_operator = ''prefix'', rule_value = ''/admin'',
     rule_re = None\<rparr>"

theorem engine_evaluate_total_witness:
  "engine_evaluate (demo_engine\<lparr>e_rules := [path_rule]\<rparr>) False (demo_request\<lparr>req_url := None\<rparr>) []
     = Panic"
  using engine_evaluate_total
    [of "demo_request\<lparr>req_url := None\<rparr>" "demo_engine\<lparr>e_rules := [path_rule]\<rparr>" False "[]"
        silent_waf path_rule]
  by (simp add: path_rule_def)

text \<open>
  A rule engine that times out follows the site's fail mode: \<open>closed\<close> blocks, any
  other mode reports the error without a match.
\<close>

theorem engine_timeout_fail_mode:
  assumes "e_waf e = Some w"
  shows "\<exists>res. engine_evaluate e True q body = Ok (q, res) \<and> res_err res \<and>
           (res_blocked res \<longleftrightarrow> e_fail_mode e = ''closed'') \<and>
           (e_fail_mode e \<noteq> ''closed'' \<longrightarrow> res_matches res = [])"
  by (simp add: engine_evaluate_def assms timeout_match_def)

theorem engine_timeout_fail_mode_witness:
  "\<exists>res. engine_evaluate demo_engine True demo_request [] = Ok (demo_request, res) \<and> res_blocked res"
  using engine_timeout_fail_mode [of demo_engine silent_waf demo_request "[]"]
  by (auto simp: demo_engine_def set_crs_toggles_def rebuild_def new_engine_def)

text \<open>
  An accepted rule file holds only usable rules: ids are distinct and non-empty,
  phase, action and operator are known, every regex rule carries its compiled pattern (so
  it can fire), and no entry of the file was dropped or reordered.
\<close>

theorem parse_rules_accepts_only_valid:
  assumes "parse_rules compile yaml jsn data = Ok rs"
  shows "list_all rule_ok rs \<and> distinct (map rule_id rs) \<and>
         (\<exists>raw. (yaml data = Some raw \<or> jsn data = Some raw) \<and>
                map rule_id rs = map (\<lambda>r. rule_id (the r)) raw \<and> None \<notin> set raw)"
proof -
  from assms obtain raw where raw: "yaml data = Some raw \<or> jsn data = Some raw"
    and v: "validate_rules compile 0 [] raw = Ok rs"
    by (auto simp: parse_rules_def split: option.splits)
  from validate_rules_ok [OF v] raw show ?thesis by (force simp: o_def)
qed

theorem parse_rules_accepts_only_valid_witness:
  "list_all rule_ok [path_rule\<lparr>rule_severity := ''MEDIUM''\<rparr>]"
  using parse_rules_accepts_only_valid
    [of "\<lambda>_. None" "\<lambda>_. Some [Some path_rule]" "\<lambda>_. None" "[]" "[path_rule\<lparr>rule_severity := ''MEDIUM''\<rparr>]"]
  by (simp add: parse_rules_def path_rule_def valid_actions_def valid_operators_def or_else_def
      rule_defaults_def Let_def)

text \<open>The active classes, in the order they are written.\<close>

definition crs_classes :: "crs_toggles \<Rightarrow> sec_rule list list" where
  "crs_classes t =
     (if t_protocol t then [protocol_rules] else []) @
     (if t_path_traversal t then [path_traversal_rules] else []) @
     (if t_lfi t then [lfi_rules] else []) @ (if t_rce t then [rce_rules] else []) @
     (if t_xss t then [xss_rules] else []) @ (if t_sqli t then [sqli_rules] else [])"

lemma crs_directives_classes:
  "crs_directives_for t = crs_preamble @ concat (map class_text (crs_classes t))"
  by (simp add: crs_directives_for_def crs_classes_def)

lemma crs_classes_nonempty: "rs \<in> set (crs_classes t) \<Longrightarrow> rs \<noteq> []"
  by (auto simp: crs_classes_def protocol_rules_def path_traversal_rules_def lfi_rules_def
      rce_rules_def xss_rules_def sqli_rules_def split: if_splits)

lemma join_with_first: "xs \<noteq> [] \<Longrightarrow> \<exists>b. join_with sep xs = hd xs @ b"
  by (induction sep xs rule: join_with.induct) auto

lemma join_with_last: "xs \<noteq> [] \<Longrightarrow> \<exists>a. join_with sep xs = a @ last xs"
proof (induction sep xs rule: join_with.induct)
  case (3 sep x y ys)
  then obtain a where "join_with sep (y # ys) = a @ last (y # ys)" by auto
  then have "join_with sep (x # y # ys) = (x @ sep @ a) @ last (x # y # ys)" by simp
  then show ?case by blast
qed auto

lemma concat_adjacent:
  "Suc i < length xs \<Longrightarrow> \<exists>a b. concat (map f xs) = a @ f (xs ! i) @ f (xs ! Suc i) @ b"
proof (induction xs arbitrary: i)
  case Nil
  then show ?case by simp
next
  case (Cons x xs)
  show ?case
  proof (cases i)
    case 0
    with Cons.prems obtain y ys where "xs = y # ys" by (cases xs) auto
    with 0 show ?thesis
      by (intro exI [of _ "[]"] exI [of _ "concat (map f ys)"]) simp
  next
    case (Suc j)
    with Cons.IH [of j] Cons.prems obtain a b where
      "concat (map f xs) = a @ f (xs ! j) @ f (xs ! Suc j) @ b" by auto
    with Suc show ?thesis by (intro exI [of _ "f x @ a"] exI [of _ b]) simp
  qed
qed

text \<open>
  The directive text handed to Coraza puts no line break between two active rule
  classes: whenever two classes are on (all six are, by default), the first rule of the
  later one stands on the same line as the last rule of the class before it.
\<close>

theorem crs_classes_share_a_line:
  assumes "Suc i < length (crs_classes t)"
  shows "\<exists>a b. crs_directives_for t =
           a @ print_sec_rule (last (crs_classes t ! i)) @
           print_sec_rule (hd (crs_classes t ! Suc i)) @ b"
proof -
  let ?r = "crs_classes t ! i" and ?s = "crs_classes t ! Suc i"
  from assms have ne: "?r \<noteq> []" "?s \<noteq> []" by (auto intro!: crs_classes_nonempty [of _ t])
  from join_with_last [of "map print_sec_rule ?r" "[newline]"] ne obtain p where
    "class_text ?r = p @ print_sec_rule (last ?r)" by (auto simp: class_text_def last_map)
  moreover from join_with_first [of "map print_sec_rule ?s" "[newline]"] ne obtain q where
    "class_text ?s = print_sec_rule (hd ?s) @ q" by (auto simp: class_text_def hd_map)
  moreover from concat_adjacent [OF assms, of class_text] obtain a b where
    "concat (map class_text (crs_classes t)) = a @ class_text ?r @ class_text ?s @ b" by blast
  ultimately have "crs_directives_for t =
      (crs_preamble @ a @ p) @ print_sec_rule (last ?r) @ print_sec_rule (hd ?s) @ (q @ b)"
    by (simp add: crs_directives_classes)
  then show ?thesis by blast
qed

theorem crs_classes_share_a_line_witness:
  "\<exists>a b. crs_directives_for (no_toggles\<lparr>t_xss := True, t_sqli := True\<rparr>) =
     a @ print_sec_rule (last xss_rules) @ print_sec_rule (hd sqli_rules) @ b"
  using crs_classes_share_a_line [of 0 "no_toggles\<lparr>t_xss := True, t_sqli := True\<rparr>"]
  by (simp add: crs_classes_def no_toggles_def)

end
