(* ===== verification/Ratelimit.thy ===== *)
theory Ratelimit
  imports Prelude
begin

text \<open>
  Package ratelimit: the policies, the limiter and its two backends (memory.go, redis.go).
  Times and durations are integer nanoseconds. The code's float64 arithmetic is exact
  rational arithmetic here; policies have a positive window, as every caller in the
  repository gives them (\<open>time.Minute\<close>). A backend call runs under the backend's mutex,
  so it is one step.
\<close>

subsection \<open>Policies and results (ratelimit.go)\<close>

datatype scope = ScopeIP | ScopeAPIKey | ScopeGraphQLOp | ScopeWSMessage

fun scope_str :: "scope \<Rightarrow> string" where
  "scope_str ScopeIP = ''ip''"
| "scope_str ScopeAPIKey = ''api_key''"
| "scope_str ScopeGraphQLOp = ''graphql_op''"
| "scope_str ScopeWSMessage = ''ws_message''"

record policy =
  pol_scope :: scope
  pol_key :: string
  pol_limit :: int
  pol_window :: int
  pol_burst :: int
  pol_algorithm :: string

record rl_result =
  allowed :: bool
  remaining :: int
  retry_after :: int

datatype rl_error = CtxErr | BackendErr

definition bucket_key :: "policy \<Rightarrow> string" where
  "bucket_key p = ''rl:'' @ scope_str (pol_scope p) @ '':'' @ pol_key p"

definition fail_open_result :: rl_result where
  "fail_open_result = \<lparr>allowed = True, remaining = -1, retry_after = 0\<rparr>"

text \<open>
  \<open>Limiter.Allow\<close>: a nil limiter or backend is \<open>None\<close>. A storage error allows the
  request.
\<close>

type_synonym 'b backend_allow =
  "'b \<Rightarrow> string \<Rightarrow> policy \<Rightarrow> int \<Rightarrow> 'b \<times> (rl_error, rl_result) go"

definition limiter_allow ::
    "'b backend_allow \<Rightarrow> 'b option \<Rightarrow> policy \<Rightarrow> int \<Rightarrow> 'b option \<times> rl_result" where
  "limiter_allow allow l p now =
     (case l of
        None \<Rightarrow> (None, fail_open_result)
      | Some b \<Rightarrow>
          if pol_limit p \<le> 0 then (Some b, fail_open_result)
          else (case allow b (bucket_key p) p now of
                  (b', Ok r) \<Rightarrow> (Some b', r)
                | (b', _) \<Rightarrow> (Some b', fail_open_result)))"

text \<open>\<open>Limiter.Check\<close>: the first denying policy ends the loop and names its scope.\<close>

fun limiter_check ::
    "'b backend_allow \<Rightarrow> 'b option \<Rightarrow> policy list \<Rightarrow> int \<Rightarrow> 'b option \<times> rl_result \<times> string" where
  "limiter_check allow l [] now = (l, fail_open_result, [])"
| "limiter_check allow l (p # ps) now =
     (case limiter_allow allow l p now of
        (l', r) \<Rightarrow>
          if \<not> allowed r then (l', r, scope_str (pol_scope p))
          else limiter_check allow l' ps now)"

subsection \<open>The in-memory backend (memory.go)\<close>

record sw_entry =
  sw_window :: int
  sw_prev :: int
  sw_curr :: int

record tb_entry =
  tb_tokens :: rat
  tb_last :: int

record mem_backend =
  mem_sw :: "string \<Rightarrow> sw_entry option"
  mem_tb :: "string \<Rightarrow> tb_entry option"

definition new_memory_backend :: mem_backend where
  "new_memory_backend = \<lparr>mem_sw = (\<lambda>_. None), mem_tb = (\<lambda>_. None)\<rparr>"

definition seconds :: "int \<Rightarrow> rat" where
  "seconds d = of_int d / 1000000000"

text \<open>Conversion of a float to an integer truncates towards zero.\<close>

definition trunc_rat :: "rat \<Rightarrow> int" where
  "trunc_rat x = (if x < 0 then - \<lfloor>- x\<rfloor> else \<lfloor>x\<rfloor>)"

definition sliding_window ::
    "mem_backend \<Rightarrow> string \<Rightarrow> policy \<Rightarrow> int \<Rightarrow> mem_backend \<times> rl_result" where
  "sliding_window m bucket p now =
     (let e = (case mem_sw m bucket of
                 None \<Rightarrow> \<lparr>sw_window = now, sw_prev = 0, sw_curr = 0\<rparr>
               | Some e \<Rightarrow>
                   if now - sw_window e \<ge> pol_window p
                   then \<lparr>sw_window = now, sw_prev = 0, sw_curr = 0\<rparr> else e);
          elapsed = seconds (now - sw_window e);
          weight = of_int (sw_prev e) * (1 - elapsed / seconds (pol_window p));
          current = weight + of_int (sw_curr e)
      in if current \<ge> of_int (pol_limit p)
         then (m\<lparr>mem_sw := (mem_sw m)(bucket \<mapsto> e)\<rparr>,
               \<lparr>allowed = False, remaining = 0,
                retry_after = pol_window p - (now - sw_window e)\<rparr>)
         else (m\<lparr>mem_sw := (mem_sw m)(bucket \<mapsto> e\<lparr>sw_curr := sw_curr e + 1\<rparr>)\<rparr>,
               \<lparr>allowed = True, remaining = trunc_rat (of_int (pol_limit p) - current - 1),
                retry_after = 0\<rparr>))"

definition tb_burst :: "policy \<Rightarrow> int" where
  "tb_burst p = (if pol_burst p \<le> 0 then pol_limit p else pol_burst p)"

definition tb_rate :: "policy \<Rightarrow> rat" where
  "tb_rate p = of_int (pol_limit p) / seconds (pol_window p)"

definition token_bucket ::
    "mem_backend \<Rightarrow> string \<Rightarrow> policy \<Rightarrow> int \<Rightarrow> mem_backend \<times> rl_result" where
  "token_bucket m bucket p now =
     (let burst = tb_burst p;
          rate = tb_rate p;
          e = (case mem_tb m bucket of
                 None \<Rightarrow> \<lparr>tb_tokens = of_int burst, tb_last = now\<rparr>
               | Some e \<Rightarrow> e);
          refilled = tb_tokens e + rate * seconds (now - tb_last e);
          tokens = (if refilled > of_int burst then of_int burst else refilled)
      in if tokens \<ge> 1
         then (m\<lparr>mem_tb := (mem_tb m)(bucket \<mapsto> \<lparr>tb_tokens = tokens - 1, tb_last = now\<rparr>)\<rparr>,
               \<lparr>allowed = True, remaining = trunc_rat (tokens - 1), retry_after = 0\<rparr>)
         else (m\<lparr>mem_tb := (mem_tb m)(bucket \<mapsto> \<lparr>tb_tokens = tokens, tb_last = now\<rparr>)\<rparr>,
               \<lparr>allowed = False, remaining = 0,
                retry_after = trunc_rat ((1 - tokens) / rate * 1000000000)\<rparr>))"

text \<open>\<open>MemoryBackend.Allow\<close>; \<open>cancelled\<close> is \<open>ctx.Err() != nil\<close>.\<close>

definition mem_allow :: "bool \<Rightarrow> mem_backend backend_allow" where
  "mem_allow cancelled m bucket p now =
     (if cancelled then (m, Fail CtxErr)
      else if pol_algorithm p = ''token_bucket''
      then (case token_bucket m bucket p now of (m', r) \<Rightarrow> (m', Ok r))
      else (case sliding_window m bucket p now of (m', r) \<Rightarrow> (m', Ok r)))"

definition mem_prune :: "mem_backend \<Rightarrow> int \<Rightarrow> int \<Rightarrow> mem_backend" where
  "mem_prune m now max_age =
     \<lparr>mem_sw = (\<lambda>k. case mem_sw m k of
          None \<Rightarrow> None
        | Some e \<Rightarrow> if sw_window e < now - max_age then None else Some e),
      mem_tb = (\<lambda>k. case mem_tb m k of
          None \<Rightarrow> None
        | Some e \<Rightarrow> if tb_last e < now - max_age then None else Some e)\<rparr>"

subsection \<open>The Redis backend (redis.go)\<close>

text \<open>
  The Redis server is not modelled: \<open>pipe cur prev\<close> is the outcome of the pipeline
  \<open>INCR cur; EXPIRE cur; GET prev\<close>, the new counter and the stored text of the previous
  window's counter.
\<close>

definition atoi :: "string \<Rightarrow> int" where
  "atoi s =
     (case s of
        CHR ''-'' # cs \<Rightarrow> (case atoi_digits 0 cs of None \<Rightarrow> 0 | Some n \<Rightarrow> - n)
      | _ \<Rightarrow> (case atoi_digits 0 s of None \<Rightarrow> 0 | Some n \<Rightarrow> n))"

definition redis_allow ::
    "(string \<Rightarrow> string \<Rightarrow> (rl_error, int \<times> string) go) \<Rightarrow>
     string \<Rightarrow> policy \<Rightarrow> int \<Rightarrow> (rl_error, rl_result) go" where
  "redis_allow pipe bucket p now =
     (let window_ms = pol_window p div 1000000;
          now_ms = now div 1000000;
          cur = bucket @ '':'' @ itoa (now_ms div window_ms);
          prev = bucket @ '':'' @ itoa (now_ms div window_ms - 1)
      in go_bind (pipe cur prev) (\<lambda>(cur_val, prev_str).
           let prev_val = atoi prev_str;
               elapsed_frac = of_int (now_ms mod window_ms) / of_int window_ms :: rat;
               weighted = of_int prev_val * (1 - elapsed_frac) + of_int cur_val
           in if weighted > of_int (pol_limit p)
              then Ok \<lparr>allowed = False, remaining = 0,
                       retry_after = pol_window p - (now_ms mod window_ms) * 1000000\<rparr>
              else Ok \<lparr>allowed = True, remaining = pol_limit p - trunc_rat weighted,
                       retry_after = 0\<rparr>))"


subsection \<open>The backend interface and key isolation\<close>

text \<open>
  The contract the limiter relies on: a call on one bucket does not touch what another
  bucket holds, and its outcome depends on its own bucket only.
\<close>

locale keyed_backend =
  fixes allow :: "'b backend_allow"
    and view :: "'b \<Rightarrow> string \<Rightarrow> 'v"
  assumes frame: "k' \<noteq> k \<Longrightarrow> view (fst (allow b k p now)) k' = view b k'"
    and local_result: "view b k = view c k \<Longrightarrow> snd (allow b k p now) = snd (allow c k p now)"
    and local_state:
      "view b k = view c k \<Longrightarrow> view (fst (allow b k p now)) k = view (fst (allow c k p now)) k"

text \<open>The outcomes of a sequence of backend calls, each with its bucket.\<close>

fun backend_results ::
    "'b backend_allow \<Rightarrow> 'b \<Rightarrow> (string \<times> policy \<times> int) list \<Rightarrow>
     (string \<times> (rl_error, rl_result) go) list" where
  "backend_results allow b [] = []"
| "backend_results allow b ((k, p, now) # rs) =
     (k, snd (allow b k p now)) # backend_results allow (fst (allow b k p now)) rs"

fun backend_after :: "'b backend_allow \<Rightarrow> 'b \<Rightarrow> (string \<times> policy \<times> int) list \<Rightarrow> 'b" where
  "backend_after allow b [] = b"
| "backend_after allow b ((k, p, now) # rs) = backend_after allow (fst (allow b k p now)) rs"

context keyed_backend
begin

lemma isolated_views:
  "view b k = view c k \<Longrightarrow>
   filter (\<lambda>x. fst x = k) (backend_results allow b rs) =
   backend_results allow c (filter (\<lambda>x. fst x = k) rs)"
proof (induction rs arbitrary: b c)
  case Nil
  then show ?case by simp
next
  case (Cons r rs)
  obtain k' p now where r: "r = (k', p, now)" by (cases r)
  show ?case
  proof (cases "k' = k")
    case True
    with Cons.prems have "view (fst (allow b k p now)) k = view (fst (allow c k p now)) k"
      by (rule_tac local_state)
    from Cons.IH [OF this] Cons.prems show ?thesis
      using local_result [OF Cons.prems] by (simp add: r True)
  next
    case False
    then have "view (fst (allow b k' p now)) k = view c k"
      using frame [of k k' b p now] Cons.prems by simp
    from Cons.IH [OF this] show ?thesis using False by (simp add: r)
  qed
qed

lemma isolated:
  "filter (\<lambda>x. fst x = k) (backend_results allow b rs) =
   backend_results allow b (filter (\<lambda>x. fst x = k) rs)"
  by (rule isolated_views) simp

lemma untouched: "\<forall>x\<in>set rs. fst x \<noteq> k \<Longrightarrow> view (backend_after allow b rs) k = view b k"
proof (induction rs arbitrary: b)
  case (Cons x rs)
  obtain k' p now where "x = (k', p, now)" by (cases x)
  with Cons.prems have "view (fst (allow b k' p now)) k = view b k" by (intro frame) auto
  with Cons \<open>x = (k', p, now)\<close> show ?case by simp
qed simp

end

lemma sliding_window_frame:
  "k' \<noteq> k \<Longrightarrow> mem_sw (fst (sliding_window m k p now)) k' = mem_sw m k'"
  by (simp add: sliding_window_def Let_def)

lemma sliding_window_tb [simp]: "mem_tb (fst (sliding_window m k p now)) = mem_tb m"
  by (simp add: sliding_window_def Let_def)

lemma token_bucket_frame:
  "k' \<noteq> k \<Longrightarrow> mem_tb (fst (token_bucket m k p now)) k' = mem_tb m k'"
  by (simp add: token_bucket_def Let_def)

lemma token_bucket_sw [simp]: "mem_sw (fst (token_bucket m k p now)) = mem_sw m"
  by (simp add: token_bucket_def Let_def)

lemma fst_mem_allow:
  "fst (mem_allow cancelled m k p now) =
     (if cancelled then m
      else if pol_algorithm p = ''token_bucket'' then fst (token_bucket m k p now)
      else fst (sliding_window m k p now))"
  by (simp add: mem_allow_def split: prod.split)

lemma snd_mem_allow:
  "snd (mem_allow cancelled m k p now) =
     (if cancelled then Fail CtxErr
      else if pol_algorithm p = ''token_bucket'' then Ok (snd (token_bucket m k p now))
      else Ok (snd (sliding_window m k p now)))"
  by (simp add: mem_allow_def split: prod.split)

interpretation mem: keyed_backend "mem_allow cancelled" "\<lambda>m k. (mem_sw m k, mem_tb m k)"
proof unfold_locales
  fix k' k :: string and b :: mem_backend and p now
  assume "k' \<noteq> k"
  then show "(mem_sw (fst (mem_allow cancelled b k p now)) k',
              mem_tb (fst (mem_allow cancelled b k p now)) k') = (mem_sw b k', mem_tb b k')"
    by (simp add: fst_mem_allow sliding_window_frame token_bucket_frame)
next
  fix b c :: mem_backend and k p now
  assume "(mem_sw b k, mem_tb b k) = (mem_sw c k, mem_tb c k)"
  then show "snd (mem_allow cancelled b k p now) = snd (mem_allow cancelled c k p now)"
    by (simp add: snd_mem_allow sliding_window_def token_bucket_def Let_def)
next
  fix b c :: mem_backend and k p now
  assume "(mem_sw b k, mem_tb b k) = (mem_sw c k, mem_tb c k)"
  then show "(mem_sw (fst (mem_allow cancelled b k p now)) k,
              mem_tb (fst (mem_allow cancelled b k p now)) k) =
             (mem_sw (fst (mem_allow cancelled c k p now)) k,
              mem_tb (fst (mem_allow cancelled c k p now)) k)"
    by (simp add: fst_mem_allow sliding_window_def token_bucket_def Let_def)
qed

lemma bucket_key_inject:
  "bucket_key p = bucket_key q \<longleftrightarrow> pol_scope p = pol_scope q \<and> pol_key p = pol_key q"
  by (cases "pol_scope p"; cases "pol_scope q") (auto simp: bucket_key_def)

subsection \<open>The sliding window is a fixed window\<close>

text \<open>The states the memory backend can reach from its constructor.\<close>

inductive mem_reach :: "mem_backend \<Rightarrow> bool" where
  mr_new: "mem_reach new_memory_backend"
| mr_allow: "mem_reach m \<Longrightarrow> mem_reach (fst (mem_allow cancelled m k p now))"
| mr_prune: "mem_reach m \<Longrightarrow> mem_reach (mem_prune m now max_age)"

definition sw_inv :: "mem_backend \<Rightarrow> bool" where
  "sw_inv m \<longleftrightarrow> (\<forall>k e. mem_sw m k = Some e \<longrightarrow> sw_prev e = 0 \<and> 0 \<le> sw_curr e)"

lemma sliding_window_inv: "sw_inv m \<Longrightarrow> sw_inv (fst (sliding_window m k p now))"
  by (auto simp: sw_inv_def sliding_window_def Let_def split: option.splits if_splits)

lemma mem_reach_sw_inv: "mem_reach m \<Longrightarrow> sw_inv m"
proof (induction rule: mem_reach.induct)
  case mr_new
  show ?case by (simp add: sw_inv_def new_memory_backend_def)
next
  case (mr_allow m cancelled k p now)
  then have "sw_inv (fst (token_bucket m k p now))" by (simp add: sw_inv_def)
  with mr_allow.IH show ?case by (simp add: fst_mem_allow sliding_window_inv)
next
  case (mr_prune m now max_age)
  then show ?case by (auto simp: sw_inv_def mem_prune_def split: option.splits if_splits)
qed

text \<open>The reference: one counter per window, restarted by the first request after it.\<close>

fun fixed_window :: "int \<Rightarrow> int \<Rightarrow> (int \<times> int) option \<Rightarrow> int \<Rightarrow> (int \<times> int) \<times> bool" where
  "fixed_window W L None now = (if L \<le> 0 then ((now, 0), False) else ((now, 1), True))"
| "fixed_window W L (Some (s, c)) now =
     (if now - s \<ge> W then (if L \<le> 0 then ((now, 0), False) else ((now, 1), True))
      else if L \<le> c then ((s, c), False) else ((s, c + 1), True))"

definition sw_abs :: "sw_entry \<Rightarrow> int \<times> int" where
  "sw_abs e = (sw_window e, sw_curr e)"

lemma sliding_window_fixed:
  assumes "sw_inv m"
  shows "map_option sw_abs (mem_sw (fst (sliding_window m k p now)) k) =
           Some (fst (fixed_window (pol_window p) (pol_limit p)
                        (map_option sw_abs (mem_sw m k)) now)) \<and>
         allowed (snd (sliding_window m k p now)) =
           snd (fixed_window (pol_window p) (pol_limit p) (map_option sw_abs (mem_sw m k)) now)"
proof (cases "mem_sw m k")
  case None
  then show ?thesis by (simp add: sliding_window_def Let_def sw_abs_def)
next
  case (Some e)
  with assms have "sw_prev e = 0" by (simp add: sw_inv_def)
  with Some show ?thesis by (simp add: sliding_window_def Let_def sw_abs_def)
qed

subsection \<open>How much the two algorithms admit\<close>

fun outcome_allowed :: "(rl_error, rl_result) go \<Rightarrow> bool" where
  "outcome_allowed (Ok r) = allowed r"
| "outcome_allowed _ = False"

text \<open>Requests admitted on one bucket under one policy at the given instants.\<close>

definition admitted :: "mem_backend \<Rightarrow> string \<Rightarrow> policy \<Rightarrow> int list \<Rightarrow> nat" where
  "admitted m k p ts =
     length (filter (\<lambda>x. outcome_allowed (snd x))
       (backend_results (mem_allow False) m (map (\<lambda>t. (k, p, t)) ts)))"

lemma admitted_Nil [simp]: "admitted m k p [] = 0"
  by (simp add: admitted_def)

lemma admitted_Cons:
  "admitted m k p (t # ts) =
     (if outcome_allowed (snd (mem_allow False m k p t)) then 1 else 0) +
     admitted (fst (mem_allow False m k p t)) k p ts"
  by (simp add: admitted_def)

fun fw_count :: "int \<Rightarrow> int \<Rightarrow> (int \<times> int) option \<Rightarrow> int list \<Rightarrow> nat" where
  "fw_count W L st [] = 0"
| "fw_count W L st (t # ts) =
     (if snd (fixed_window W L st t) then 1 else 0) +
     fw_count W L (Some (fst (fixed_window W L st t))) ts"

lemma admitted_fw_count:
  assumes "sw_inv m" and "pol_algorithm p \<noteq> ''token_bucket''"
  shows "admitted m k p ts =
           fw_count (pol_window p) (pol_limit p) (map_option sw_abs (mem_sw m k)) ts"
  using assms(1)
proof (induction ts arbitrary: m)
  case Nil
  then show ?case by simp
next
  case (Cons t ts)
  have step: "mem_allow False m k p t =
      (fst (sliding_window m k p t), Ok (snd (sliding_window m k p t)))"
    using assms(2) by (simp add: mem_allow_def split: prod.split)
  note fixed = sliding_window_fixed [OF Cons.prems, of k p t]
  from Cons.IH [OF sliding_window_inv [OF Cons.prems], of k p t] fixed
  show ?case by (simp add: admitted_Cons step)
qed

lemma fw_count_within:
  "\<forall>t \<in> set ts. t < s + W \<Longrightarrow> fw_count W L (Some (s, c)) ts \<le> nat (L - c)"
proof (induction ts arbitrary: c)
  case Nil
  then show ?case by simp
next
  case (Cons t ts)
  then have ts: "\<forall>t \<in> set ts. t < s + W" and t: "\<not> t - s \<ge> W" by auto
  show ?case
  proof (cases "L \<le> c")
    case True
    with t Cons.IH [OF ts, of c] show ?thesis by simp
  next
    case False
    with t Cons.IH [OF ts, of "c + 1"] show ?thesis by simp
  qed
qed

text \<open>
  Any stretch as long as the window touches at most two counting windows, so it admits
  at most twice the limit.
\<close>

lemma fw_count_reset:
  assumes "0 < W" and "\<forall>u \<in> set ts. u < t + W"
  shows "(if snd (fixed_window W L None t) then 1 else 0) +
           fw_count W L (Some (fst (fixed_window W L None t))) ts \<le> nat L"
proof (cases "L \<le> 0")
  case True
  then show ?thesis using fw_count_within [OF assms(2), of L 0] by simp
next
  case False
  then show ?thesis using fw_count_within [OF assms(2), of L 1] by simp
qed

lemma fw_count_two_windows:
  assumes "0 < W" and "sorted ts" and "\<forall>t \<in> set ts. a \<le> t \<and> t < a + W"
  shows "fw_count W L (Some (s, c)) ts \<le> nat (L - c) + nat L"
  using assms(2-)
proof (induction ts arbitrary: c)
  case Nil
  then show ?case by simp
next
  case (Cons t ts)
  show ?case
  proof (cases "t - s \<ge> W")
    case True
    have "\<forall>u \<in> set ts. u < t + W" using Cons.prems(2) by force
    from fw_count_reset [OF assms(1) this, of L] True show ?thesis
      by (cases "L \<le> 0") auto
  next
    case False
    with Cons.IH [of "c + 1"] Cons.IH [of c] Cons.prems show ?thesis
      by (cases "L \<le> c") auto
  qed
qed

lemma admitted_sliding_bound:
  assumes "sw_inv m" and "pol_algorithm p \<noteq> ''token_bucket''"
    and "0 < pol_window p" and "sorted ts"
    and "\<forall>t \<in> set ts. a \<le> t \<and> t < a + pol_window p"
  shows "admitted m k p ts \<le> 2 * nat (pol_limit p)"
proof (cases "mem_sw m k")
  case None
  show ?thesis
  proof (cases ts)
    case (Cons t us)
    have "\<forall>u \<in> set us. u < t + pol_window p" using assms(5) by (force simp: Cons)
    from fw_count_reset [OF assms(3) this, of "pol_limit p"] show ?thesis
      by (simp add: admitted_fw_count [OF assms(1,2)] None Cons)
  qed simp
next
  case (Some e)
  with assms(1) have "0 \<le> sw_curr e" by (simp add: sw_inv_def)
  then have "nat (pol_limit p - sw_curr e) \<le> nat (pol_limit p)" by simp
  with fw_count_two_windows [OF assms(3-5), of "pol_limit p" "sw_window e" "sw_curr e"]
  show ?thesis by (simp add: admitted_fw_count [OF assms(1,2)] Some sw_abs_def)
qed

subsection \<open>Token bucket\<close>

lemma seconds_mono: "a \<le> b \<Longrightarrow> seconds a \<le> seconds b"
  by (simp add: seconds_def divide_right_mono)

lemma seconds_nonneg: "0 \<le> a \<Longrightarrow> 0 \<le> seconds a"
  by (simp add: seconds_def)

lemma seconds_add: "seconds (a - b) + seconds (b - c) = seconds (a - c)"
  by (simp add: seconds_def add_divide_distrib [symmetric])

lemma tb_rate_nonneg: "0 \<le> pol_limit p \<Longrightarrow> 0 < pol_window p \<Longrightarrow> 0 \<le> tb_rate p"
  by (simp add: tb_rate_def seconds_def)

text \<open>The tokens a request finds after the refill, and what one request does to them.\<close>

definition tb_available :: "mem_backend \<Rightarrow> string \<Rightarrow> policy \<Rightarrow> int \<Rightarrow> rat" where
  "tb_available m k p now =
     (case mem_tb m k of
        None \<Rightarrow> of_int (tb_burst p)
      | Some e \<Rightarrow> min (of_int (tb_burst p))
                   (tb_tokens e + tb_rate p * seconds (now - tb_last e)))"

lemma token_bucket_step:
  "token_bucket m k p now =
     (let a = tb_available m k p now in
      if 1 \<le> a
      then (m\<lparr>mem_tb := (mem_tb m)(k \<mapsto> \<lparr>tb_tokens = a - 1, tb_last = now\<rparr>)\<rparr>,
            \<lparr>allowed = True, remaining = trunc_rat (a - 1), retry_after = 0\<rparr>)
      else (m\<lparr>mem_tb := (mem_tb m)(k \<mapsto> \<lparr>tb_tokens = a, tb_last = now\<rparr>)\<rparr>,
            \<lparr>allowed = False, remaining = 0,
             retry_after = trunc_rat ((1 - a) / tb_rate p * 1000000000)\<rparr>))"
  by (cases "mem_tb m k")
     (simp_all add: token_bucket_def tb_available_def Let_def seconds_def min_def not_le)

lemma admitted_token_bound:
  assumes "pol_algorithm p = ''token_bucket''" and "0 \<le> tb_rate p"
  shows "0 \<le> tb_available m k p t \<Longrightarrow> sorted (t # ts) \<Longrightarrow>
    of_nat (admitted m k p (t # ts)) \<le>
      tb_available m k p t + tb_rate p * seconds (last (t # ts) - t)"
proof (induction ts arbitrary: m t)
  case Nil
  then show ?case
    by (auto simp: admitted_Cons snd_mem_allow assms token_bucket_step Let_def seconds_def)
next
  case (Cons u ts)
  let ?a = "tb_available m k p t"
  let ?m = "fst (mem_allow False m k p t)"
  let ?left = "if 1 \<le> ?a then ?a - 1 else ?a"
  from Cons.prems have tu: "t \<le> u" and srt: "sorted (u # ts)" and a0: "0 \<le> ?a" by auto
  have rate: "0 \<le> tb_rate p * seconds (u - t)"
    using assms(2) tu by (simp add: seconds_nonneg)
  have tb: "mem_tb ?m k = Some \<lparr>tb_tokens = ?left, tb_last = t\<rparr>"
    by (simp add: fst_mem_allow assms(1) token_bucket_step Let_def)
  have burst: "?a \<le> of_int (tb_burst p)" by (simp add: tb_available_def split: option.split)
  then have next_le: "tb_available ?m k p u \<le> ?left + tb_rate p * seconds (u - t)"
    and next_ge: "0 \<le> tb_available ?m k p u"
    using a0 rate by (auto simp: tb_available_def tb)
  have "of_nat (admitted ?m k p (u # ts)) \<le>
      tb_available ?m k p u + tb_rate p * seconds (last (u # ts) - u)"
    by (rule Cons.IH [OF next_ge srt])
  also have "\<dots> \<le> ?left + tb_rate p * (seconds (last (u # ts) - u) + seconds (u - t))"
    using next_le by (simp add: distrib_left)
  also have "\<dots> = ?left + tb_rate p * seconds (last (t # u # ts) - t)"
    by (simp add: seconds_add)
  finally show ?case
    by (auto simp: admitted_Cons [of m] snd_mem_allow assms(1) token_bucket_step Let_def)
qed

subsection \<open>The limiter loop and the decimal counter\<close>

text \<open>Every policy of the list tried in turn, without stopping at a denial.\<close>

fun limiter_run ::
    "'b backend_allow \<Rightarrow> 'b option \<Rightarrow> policy list \<Rightarrow> int \<Rightarrow> 'b option \<times> rl_result list" where
  "limiter_run allow l [] now = (l, [])"
| "limiter_run allow l (p # ps) now =
     (case limiter_allow allow l p now of
        (l', r) \<Rightarrow> (case limiter_run allow l' ps now of (l'', rs) \<Rightarrow> (l'', r # rs)))"

lemma atoi_no_sign: "s \<noteq> [] \<Longrightarrow> hd s \<noteq> CHR ''-'' \<Longrightarrow>
    atoi s = (case atoi_digits 0 s of None \<Rightarrow> 0 | Some n \<Rightarrow> n)"
  by (cases s) (auto simp: atoi_def split: char.splits bool.splits)

subsection \<open>Properties\<close>

text \<open>
  C34. The sliding-window limiter is a fixed-window counter: in every state the memory
  backend can reach, the weighted previous window is always zero, and the decision and the
  stored window are those of the reference counter that restarts with the first request
  after a window has passed.
\<close>

theorem sliding_window_is_fixed_window:
  assumes "mem_reach m"
  shows "map_option sw_abs (mem_sw (fst (sliding_window m k p now)) k) =
           Some (fst (fixed_window (pol_window p) (pol_limit p)
                        (map_option sw_abs (mem_sw m k)) now)) \<and>
         allowed (snd (sliding_window m k p now)) =
           snd (fixed_window (pol_window p) (pol_limit p) (map_option sw_abs (mem_sw m k)) now)"
  by (rule sliding_window_fixed [OF mem_reach_sw_inv [OF assms]])

definition demo_policy :: "string \<Rightarrow> policy" where
  "demo_policy alg = \<lparr>pol_scope = ScopeIP, pol_key = ''10.0.0.1'', pol_limit = 2,
     pol_window = 60000000000, pol_burst = 0, pol_algorithm = alg\<rparr>"

theorem sliding_window_is_fixed_window_witness:
  "mem_reach new_memory_backend \<and>
   allowed (snd (sliding_window new_memory_backend ''k'' (demo_policy ''sliding_window'') 5))"
  using sliding_window_is_fixed_window [OF mr_new, of "''k''" "demo_policy ''sliding_window''" 5] mr_new
  by (simp add: new_memory_backend_def demo_policy_def Let_def)

text \<open>
  Bound of the sliding-window limiter: in a reachable backend, the requests of one
  bucket that arrive (in time order) within any stretch of one window length are admitted
  at most twice the limit times.
\<close>

theorem sliding_window_admits_at_most_twice:
  assumes "mem_reach m" and "pol_algorithm p \<noteq> ''token_bucket''"
    and "0 < pol_window p" and "sorted ts"
    and "\<forall>t \<in> set ts. a \<le> t \<and> t < a + pol_window p"
  shows "admitted m k p ts \<le> 2 * nat (pol_limit p)"
  using admitted_sliding_bound [OF mem_reach_sw_inv [OF assms(1)] assms(2-)] .

theorem sliding_window_admits_at_most_twice_witness:
  "admitted new_memory_backend ''k'' (demo_policy ''sliding_window'') [0, 1, 2, 3, 4] \<le> 4"
  using sliding_window_admits_at_most_twice
    [OF mr_new, of "demo_policy ''sliding_window''" "[0, 1, 2, 3, 4]" 0 "''k''"]
  by (simp add: demo_policy_def)

text \<open>
  C35. Token bucket: starting from a bucket that holds between zero and its capacity of
  tokens, a time-ordered run of requests on it is admitted at most capacity plus refill
  rate times elapsed time often.
\<close>

theorem token_bucket_admits_at_most:
  assumes "pol_algorithm p = ''token_bucket''" and "0 < pol_limit p" and "0 < pol_window p"
    and "\<And>e. mem_tb m k = Some e \<Longrightarrow> 0 \<le> tb_tokens e \<and> tb_last e \<le> t"
    and "sorted (t # ts)"
  shows "of_nat (admitted m k p (t # ts)) \<le>
           of_int (tb_burst p) + tb_rate p * seconds (last (t # ts) - t)"
proof -
  have rate: "0 \<le> tb_rate p" using assms(2,3) by (simp add: tb_rate_nonneg)
  have burst: "0 < tb_burst p" using assms(2) by (simp add: tb_burst_def)
  have "0 \<le> tb_available m k p t"
    using assms(4) rate burst
    by (auto simp: tb_available_def seconds_nonneg split: option.split)
  moreover have "tb_available m k p t \<le> of_int (tb_burst p)"
    by (simp add: tb_available_def split: option.split)
  ultimately show ?thesis
    using admitted_token_bound [OF assms(1) rate _ assms(5), of m k] by linarith
qed

theorem token_bucket_admits_at_most_witness:
  "of_nat (admitted new_memory_backend ''k'' (demo_policy ''token_bucket'') [0, 7, 60000000000]) \<le>
     (4 :: rat)"
  using token_bucket_admits_at_most
    [of "demo_policy ''token_bucket''" new_memory_backend "''k''" 0 "[7, 60000000000]"]
  by (simp add: demo_policy_def new_memory_backend_def tb_burst_def tb_rate_def seconds_def)

lemma sliding_window_recovers:
  assumes "sw_inv m" "0 < pol_limit p" "sliding_window m k p now = (m', r)" "\<not> allowed r"
    and "mem_sw b k = mem_sw m' k" "now + retry_after r \<le> t"
  shows "allowed (snd (sliding_window b k p t))"
proof -
  from assms(1-4) obtain e where "mem_sw m' k = Some e" "retry_after r = pol_window p - (now - sw_window e)"
    by (auto simp: sliding_window_def Let_def split: if_splits)
  with assms(2,5,6) show ?thesis by (simp add: sliding_window_def Let_def)
qed

lemma token_bucket_recovers:
  assumes "0 < pol_limit p" "0 < pol_window p" "token_bucket m k p now = (m', r)" "\<not> allowed r"
    and "mem_tb b k = mem_tb m' k" "now + retry_after r < t"
  shows "allowed (snd (token_bucket b k p t))"
proof -
  have rate: "0 < tb_rate p" using assms(1,2) by (simp add: tb_rate_def seconds_def)
  have burst: "1 \<le> tb_burst p" using assms(1) by (simp add: tb_burst_def)
  from assms(3,4) obtain x where e: "mem_tb m' k = Some \<lparr>tb_tokens = x, tb_last = now\<rparr>" "x < 1"
    and ra: "retry_after r = trunc_rat ((1 - x) / tb_rate p * 1000000000)"
    by (auto simp: token_bucket_def Let_def split: if_splits)
  let ?y = "(1 - x) / tb_rate p * 1000000000"
  have "0 \<le> ?y" using e(2) rate by simp
  then have "retry_after r = \<lfloor>?y\<rfloor>" by (simp add: ra trunc_rat_def)
  with assms(6) have "\<lfloor>?y\<rfloor> + 1 \<le> t - now" by simp
  then have "?y \<le> of_int (t - now)" by linarith
  then have "1 - x \<le> tb_rate p * seconds (t - now)"
    using rate by (simp add: seconds_def field_simps)
  with e burst assms(5) show ?thesis by (auto simp: token_bucket_def Let_def)
qed

text \<open>
  C29. A denial is temporary, with both algorithms: whatever the requests of other keys do in
  the meantime, the next request of the key after the advertised retry time is admitted.
\<close>

theorem denied_key_recovers:
  assumes "mem_reach m" and "0 < pol_limit p" and "0 < pol_window p"
    and "mem_allow False m k p now = (m', Ok r)" and "\<not> allowed r"
    and "\<forall>x\<in>set others. fst x \<noteq> k" and "now + retry_after r < t"
  shows "outcome_allowed (snd (mem_allow False (backend_after (mem_allow False) m' others) k p t))"
proof -
  let ?b = "backend_after (mem_allow False) m' others"
  have same: "mem_sw ?b k = mem_sw m' k" "mem_tb ?b k = mem_tb m' k"
    using mem.untouched [OF assms(6), of False m'] by simp_all
  show ?thesis
  proof (cases "pol_algorithm p = ''token_bucket''")
    case True
    with assms(4) have "token_bucket m k p now = (m', r)" by (simp add: mem_allow_def split: prod.splits)
    from token_bucket_recovers [OF assms(2,3) this assms(5) same(2) assms(7)] True show ?thesis
      by (simp add: snd_mem_allow)
  next
    case False
    with assms(4) have "sliding_window m k p now = (m', r)" by (simp add: mem_allow_def split: prod.splits)
    from sliding_window_recovers [OF mem_reach_sw_inv [OF assms(1)] assms(2) this assms(5) same(1)] assms(7) False
    show ?thesis by (simp add: snd_mem_allow)
  qed
qed

theorem denied_key_recovers_witness:
  "outcome_allowed (snd (mem_allow False
     (fst (mem_allow False (fst (mem_allow False new_memory_backend ''k'' (demo_policy ''token_bucket''\<lparr>pol_limit := 1\<rparr>) 0))
        ''k'' (demo_policy ''token_bucket''\<lparr>pol_limit := 1\<rparr>) 0))
     ''k'' (demo_policy ''token_bucket''\<lparr>pol_limit := 1\<rparr>) 70000000000))"
proof -
  let ?p = "demo_policy ''token_bucket''\<lparr>pol_limit := 1\<rparr>"
  let ?m = "fst (mem_allow False new_memory_backend ''k'' ?p 0)"
  have p: "pol_limit ?p = 1" "pol_window ?p = 60000000000" "pol_algorithm ?p = ''token_bucket''" "pol_burst ?p = 0"
    by (simp_all add: demo_policy_def)
  have m: "mem_tb ?m ''k'' = Some \<lparr>tb_tokens = 0, tb_last = 0\<rparr>"
    by (simp add: fst_mem_allow p token_bucket_def new_memory_backend_def tb_burst_def seconds_def Let_def)
  then have "snd (mem_allow False ?m ''k'' ?p 0) = Ok \<lparr>allowed = False, remaining = 0, retry_after = 60000000000\<rparr>"
    by (simp add: snd_mem_allow p token_bucket_def tb_burst_def tb_rate_def seconds_def trunc_rat_def Let_def)
  then have "mem_allow False ?m ''k'' ?p 0 =
      (fst (mem_allow False ?m ''k'' ?p 0), Ok \<lparr>allowed = False, remaining = 0, retry_after = 60000000000\<rparr>)"
    by (metis prod.collapse)
  from denied_key_recovers [OF mr_allow [OF mr_new] _ _ this, of "[]" 70000000000] show ?thesis
    by (simp add: p)
qed

text \<open>
  Clients do not share counters: whatever other scopes and keys do in between, the
  outcomes a client's own policy key sees are those of its own requests alone.
\<close>

theorem limiter_keys_isolated:
  "filter (\<lambda>x. fst x = bucket_key q)
     (backend_results (mem_allow cancelled) m (map (\<lambda>(p, t). (bucket_key p, p, t)) reqs)) =
   backend_results (mem_allow cancelled) m
     (map (\<lambda>(p, t). (bucket_key p, p, t))
       (filter (\<lambda>(p, t). pol_scope p = pol_scope q \<and> pol_key p = pol_key q) reqs))"
proof -
  have "filter (\<lambda>x. fst x = bucket_key q) (map (\<lambda>(p, t). (bucket_key p, p, t)) reqs) =
      map (\<lambda>(p, t). (bucket_key p, p, t))
        (filter (\<lambda>(p, t). pol_scope p = pol_scope q \<and> pol_key p = pol_key q) reqs)"
    by (induction reqs) (auto simp: bucket_key_inject)
  then show ?thesis using mem.isolated [of "bucket_key q" cancelled m] by simp
qed

text \<open>
  The limiter loop: with any backend, \<open>Check\<close> consults the policies in order up to
  and including the first that denies, returns that denial with the policy's scope, leaves
  the later policies' counters untouched, and allows when no policy denies.
\<close>

theorem limiter_check_first_denial:
  "limiter_check allow l ps now =
     (let rs = snd (limiter_run allow l ps now); n = length (takeWhile allowed rs)
      in if n = length ps then (fst (limiter_run allow l ps now), fail_open_result, [])
         else (fst (limiter_run allow l (take (Suc n) ps) now), rs ! n,
               scope_str (pol_scope (ps ! n))))"
proof (induction ps arbitrary: l)
  case Nil
  then show ?case by simp
next
  case (Cons p ps)
  obtain l' r where "limiter_allow allow l p now = (l', r)" by fastforce
  with Cons [of l'] show ?case
    by (simp add: Let_def split: prod.split)
qed

text \<open>
  Decimal counters survive the round trip through Redis: \<open>atoi\<close> reads back every
  integer that was printed in decimal.
\<close>

theorem atoi_itoa: "atoi (itoa i) = i"
proof (cases "i < 0")
  case True
  then show ?thesis by (simp add: itoa_def atoi_def atoi_digits_show_nat)
next
  case False
  then show ?thesis
    by (simp add: itoa_def atoi_no_sign [OF show_nat_nonempty hd_show_nat] atoi_digits_show_nat)
qed
end
