(* ===== verification/Configuration.thy ===== *)
theory Configuration
  imports Http
begin

text \<open>
  Package config: the configuration records, the environment overlay, validation with its
  defaults, site lookup and the hot-reload store. The file parsers (encoding/json,
  yaml.v3), the file system and the environment are arguments. \<open>Validate\<close> works on the
  caller's configuration in place, so it returns the configuration it leaves behind
  together with its error.
\<close>

subsection \<open>Records (config.go)\<close>

record listener =
  l_address :: string
  l_tls :: bool
  l_cert_path :: string
  l_key_path :: string
  l_client_ca :: string
  l_http3 :: bool
  l_allow_0rtt :: bool

record crs_config =
  crs_enabled :: bool
  crs_sqli :: bool
  crs_xss :: bool
  crs_rce :: bool
  crs_path_traversal :: bool
  crs_lfi :: bool
  crs_protocol :: bool

record graphql_config =
  gql_enabled :: bool
  gql_max_depth :: int
  gql_max_complexity :: int
  gql_block_introspection :: bool
  gql_block_batching :: bool
  gql_max_aliases :: int

record grpc_config =
  grpc_enabled :: bool
  grpc_schema_dir :: string
  grpc_import_dirs :: "string list"

record ws_config =
  ws_enabled :: bool
  ws_max_messages_per_min :: int
  ws_max_message_bytes :: int

record site_rate_limit =
  srl_per_ip :: int
  srl_per_api_key :: int
  srl_per_graphql_op :: int
  srl_burst :: int

record bot_config =
  bot_enabled :: bool
  bot_challenge_enabled :: bool
  bot_challenge_threshold :: rat
  bot_block_threshold :: rat
  bot_pow_difficulty :: int
  bot_max_challenges :: int

record site =
  s_id :: string
  s_name :: string
  s_domains :: "string list"
  s_backend :: string
  s_preserve_host :: bool
  s_max_body_bytes :: int
  s_fail_mode :: string
  s_status :: string
  s_path_prefix :: string
  s_crs :: "crs_config option"
  s_custom_rules :: "string list"
  s_graphql :: "graphql_config option"
  s_grpc :: "grpc_config option"
  s_websocket :: "ws_config option"
  s_sse :: "bool option"
  s_rate_limit :: "site_rate_limit option"
  s_bot_score :: "bot_config option"
  s_llm_routes :: "string list"

definition llm_protect_enabled :: "site \<Rightarrow> bool" where
  "llm_protect_enabled s \<longleftrightarrow> s_llm_routes s \<noteq> []"

record rate_limit_config =
  rlc_backend :: string
  rlc_redis_address :: string
  rlc_redis_password :: string
  rlc_redis_db :: int

record event_config =
  ev_log_path :: string
  ev_webhook_url :: string
  ev_webhook_schema :: string
  ev_webhook_timeout :: int
  ev_redact_fields :: "string list"
  ev_body_truncate :: int

record plugin_config =
  plug_dir :: string
  plug_timeout :: int
  plug_max_memory :: int

record fingerprint_config =
  fp_enabled :: bool
  fp_blocklist :: "string list"
  fp_blocklist_file :: string

record ml_config =
  ml_enabled :: bool
  ml_url :: string
  ml_timeout :: int
  ml_fail_mode :: string
  ml_threshold :: rat
  ml_circuit_open :: int

record llm_config =
  llm_enabled :: bool
  llm_fail_mode :: string
  llm_rules :: "string list"

record ebpf_config =
  ebpf_enabled :: bool
  ebpf_device :: string
  ebpf_drop_port :: int

record admin_config =
  adm_enabled :: bool
  adm_address :: string

record agent_config =
  agt_enabled :: bool
  agt_listen :: string
  agt_tls_cert :: string
  agt_tls_key :: string
  agt_token_ttl :: int

record auth_config =
  auth_jwt_secret :: string
  auth_admin_user :: string
  auth_admin_password_hash :: string
  auth_token_ttl :: int

record config =
  c_version :: int
  c_listeners :: "listener list"
  c_sites :: "site list"
  c_admin :: admin_config
  c_agent :: agent_config
  c_db_path :: string
  c_auth :: auth_config
  c_rate_limit :: rate_limit_config
  c_events :: event_config
  c_plugins :: plugin_config
  c_fingerprint :: fingerprint_config
  c_ml :: ml_config
  c_llm :: llm_config
  c_ebpf :: ebpf_config
  c_envoy_listen :: string

text \<open>The zero value of every record, which is what a parser starts from.\<close>

definition empty_config :: config where
  "empty_config =
     \<lparr>c_version = 0, c_listeners = [], c_sites = [],
      c_admin = \<lparr>adm_enabled = False, adm_address = []\<rparr>,
      c_agent = \<lparr>agt_enabled = False, agt_listen = [], agt_tls_cert = [], agt_tls_key = [],
                 agt_token_ttl = 0\<rparr>,
      c_db_path = [],
      c_auth = \<lparr>auth_jwt_secret = [], auth_admin_user = [], auth_admin_password_hash = [],
                auth_token_ttl = 0\<rparr>,
      c_rate_limit = \<lparr>rlc_backend = [], rlc_redis_address = [], rlc_redis_password = [],
                      rlc_redis_db = 0\<rparr>,
      c_events = \<lparr>ev_log_path = [], ev_webhook_url = [], ev_webhook_schema = [],
                  ev_webhook_timeout = 0, ev_redact_fields = [], ev_body_truncate = 0\<rparr>,
      c_plugins = \<lparr>plug_dir = [], plug_timeout = 0, plug_max_memory = 0\<rparr>,
      c_fingerprint = \<lparr>fp_enabled = False, fp_blocklist = [], fp_blocklist_file = []\<rparr>,
      c_ml = \<lparr>ml_enabled = False, ml_url = [], ml_timeout = 0, ml_fail_mode = [],
              ml_threshold = 0, ml_circuit_open = 0\<rparr>,
      c_llm = \<lparr>llm_enabled = False, llm_fail_mode = [], llm_rules = []\<rparr>,
      c_ebpf = \<lparr>ebpf_enabled = False, ebpf_device = [], ebpf_drop_port = 0\<rparr>,
      c_envoy_listen = []\<rparr>"

definition empty_site :: site where
  "empty_site =
     \<lparr>s_id = [], s_name = [], s_domains = [], s_backend = [], s_preserve_host = False,
      s_max_body_bytes = 0, s_fail_mode = [], s_status = [], s_path_prefix = [],
      s_crs = None, s_custom_rules = [], s_graphql = None, s_grpc = None, s_websocket = None,
      s_sse = None, s_rate_limit = None, s_bot_score = None, s_llm_routes = []\<rparr>"

subsection \<open>The environment overlay (env.go)\<close>

definition env_or :: "(string \<Rightarrow> string option) \<Rightarrow> string \<Rightarrow> string \<Rightarrow> string" where
  "env_or lookup k def = (case lookup k of Some v \<Rightarrow> v | None \<Rightarrow> def)"

text \<open>An unset or empty variable keeps the field.\<close>

definition env_field :: "(string \<Rightarrow> string option) \<Rightarrow> string \<Rightarrow> string \<Rightarrow> string" where
  "env_field lookup k old = (let v = env_or lookup k [] in if v \<noteq> [] then v else old)"

definition apply_env_overrides :: "(string \<Rightarrow> string option) \<Rightarrow> config \<Rightarrow> config" where
  "apply_env_overrides env c =
     c\<lparr>c_rate_limit := (c_rate_limit c)
         \<lparr>rlc_backend := env_field env ''RATE_LIMIT_BACKEND'' (rlc_backend (c_rate_limit c)),
          rlc_redis_address := env_field env ''REDIS_ADDR'' (rlc_redis_address (c_rate_limit c)),
          rlc_redis_password :=
            env_field env ''REDIS_PASSWORD'' (rlc_redis_password (c_rate_limit c))\<rparr>,
       c_events := (c_events c)
         \<lparr>ev_log_path := env_field env ''EVENT_LOG_PATH'' (ev_log_path (c_events c)),
          ev_webhook_url := env_field env ''WEBHOOK_URL'' (ev_webhook_url (c_events c)),
          ev_webhook_schema := env_field env ''WEBHOOK_SCHEMA'' (ev_webhook_schema (c_events c))\<rparr>,
       c_auth := (c_auth c)
         \<lparr>auth_jwt_secret := env_field env ''JWT_SECRET'' (auth_jwt_secret (c_auth c)),
          auth_admin_user := env_field env ''ADMIN_USER'' (auth_admin_user (c_auth c)),
          auth_admin_password_hash :=
            env_field env ''ADMIN_PASSWORD_HASH'' (auth_admin_password_hash (c_auth c))\<rparr>,
       c_ml := (c_ml c)
         \<lparr>ml_url := (if ml_url (c_ml c) = [] then env_field env ''ML_SERVICE_URL'' []
                    else ml_url (c_ml c))\<rparr>,
       c_plugins := (c_plugins c)
         \<lparr>plug_dir := env_field env ''WASM_PLUGINS_DIR'' (plug_dir (c_plugins c))\<rparr>\<rparr>"

subsection \<open>Validate\<close>

datatype config_error =
  NothingConfigured
| ListenerNoAddress nat
| Http3NeedsTls string
| TlsNeedsCert string
| SiteNoBackend string
| DuplicateSite string
| AuthNeedsSecret
| ReadError
| ParseError

fun validate_listeners :: "nat \<Rightarrow> listener list \<Rightarrow> config_error option" where
  "validate_listeners i [] = None"
| "validate_listeners i (l # ls) =
     (if l_address l = [] then Some (ListenerNoAddress (i + 1))
      else if l_http3 l \<and> \<not> l_tls l then Some (Http3NeedsTls (l_address l))
      else if l_tls l \<and> (l_cert_path l = [] \<or> l_key_path l = []) then Some (TlsNeedsCert (l_address l))
      else validate_listeners (i + 1) ls)"

definition or_str :: "string \<Rightarrow> string \<Rightarrow> string" where
  "or_str s d = (if s = [] then d else s)"

definition or_num :: "('a :: zero) \<Rightarrow> 'a \<Rightarrow> 'a" where
  "or_num n d = (if n = 0 then d else n)"

definition site_names :: "nat \<Rightarrow> site \<Rightarrow> site" where
  "site_names i s =
     (let id' = or_str (s_id s) (''site-'' @ show_nat (i + 1))
      in s\<lparr>s_id := id', s_name := or_str (s_name s) id'\<rparr>)"

definition full_crs :: crs_config where
  "full_crs = \<lparr>crs_enabled = True, crs_sqli = True, crs_xss = True, crs_rce = True,
               crs_path_traversal = True, crs_lfi = True, crs_protocol = True\<rparr>"

definition site_defaults :: "site \<Rightarrow> site" where
  "site_defaults s =
     s\<lparr>s_fail_mode := or_str (s_fail_mode s) ''closed'',
       s_status := or_str (s_status s) ''enabled'',
       s_max_body_bytes := or_num (s_max_body_bytes s) 4194304,
       s_crs := Some (case s_crs s of None \<Rightarrow> full_crs | Some c \<Rightarrow> c),
       s_graphql := map_option (\<lambda>g. g\<lparr>gql_max_depth := or_num (gql_max_depth g) 10,
                                      gql_max_complexity := or_num (gql_max_complexity g) 1000\<rparr>)
                      (s_graphql s),
       s_rate_limit := map_option (\<lambda>r. r\<lparr>srl_burst := or_num (srl_burst r) 20,
                                         srl_per_ip := or_num (srl_per_ip r) 120\<rparr>)
                         (s_rate_limit s),
       s_bot_score := map_option
                        (\<lambda>b. b\<lparr>bot_challenge_threshold := or_num (bot_challenge_threshold b) (1/2),
                              bot_block_threshold := or_num (bot_block_threshold b) (9/10),
                              bot_pow_difficulty := or_num (bot_pow_difficulty b) 3\<rparr>)
                        (s_bot_score s),
       s_websocket := map_option
                        (\<lambda>w. w\<lparr>ws_max_messages_per_min := or_num (ws_max_messages_per_min w) 60,
                              ws_max_message_bytes := or_num (ws_max_message_bytes w) 65536\<rparr>)
                        (s_websocket s)\<rparr>"

text \<open>The loop over the sites stops at the first bad one and leaves the later ones untouched.\<close>

fun validate_sites :: "nat \<Rightarrow> string list \<Rightarrow> site list \<Rightarrow> site list \<times> config_error option" where
  "validate_sites i seen [] = ([], None)"
| "validate_sites i seen (s # ss) =
     (let s' = site_names i s in
      if s_backend s' = [] then (s' # ss, Some (SiteNoBackend (s_id s')))
      else if s_id s' \<in> set seen then (s' # ss, Some (DuplicateSite (s_id s')))
      else (case validate_sites (i + 1) (s_id s' # seen) ss of
              (ss', e) \<Rightarrow> (site_defaults s' # ss', e)))"

text \<open>The defaults after the last check. Durations are nanoseconds.\<close>

definition global_defaults :: "config \<Rightarrow> config" where
  "global_defaults c =
     c\<lparr>c_rate_limit := (c_rate_limit c)\<lparr>rlc_backend := or_str (rlc_backend (c_rate_limit c)) ''memory''\<rparr>,
       c_events := (c_events c)
         \<lparr>ev_log_path := or_str (ev_log_path (c_events c)) ''data/events.log'',
          ev_webhook_timeout := or_num (ev_webhook_timeout (c_events c)) 5000000000,
          ev_body_truncate := or_num (ev_body_truncate (c_events c)) 2048\<rparr>,
       c_plugins := (c_plugins c)
         \<lparr>plug_timeout := or_num (plug_timeout (c_plugins c)) 100000000,
          plug_max_memory := or_num (plug_max_memory (c_plugins c)) 33554432\<rparr>,
       c_ml := (c_ml c)
         \<lparr>ml_timeout := or_num (ml_timeout (c_ml c)) 250000000,
          ml_circuit_open := or_num (ml_circuit_open (c_ml c)) 5\<rparr>,
       c_auth := (c_auth c)\<lparr>auth_token_ttl := or_num (auth_token_ttl (c_auth c)) 28800000000000\<rparr>,
       c_admin := (c_admin c)
         \<lparr>adm_address := (if adm_enabled (c_admin c) then or_str (adm_address (c_admin c)) '':9090''
                         else adm_address (c_admin c))\<rparr>,
       c_agent := (c_agent c)
         \<lparr>agt_listen := (if agt_enabled (c_agent c) then or_str (agt_listen (c_agent c)) '':9443''
                        else agt_listen (c_agent c)),
          agt_token_ttl := or_num (agt_token_ttl (c_agent c)) 86400000000000\<rparr>,
       c_db_path := (if adm_enabled (c_admin c) \<or> agt_enabled (c_agent c)
                     then or_str (c_db_path c) ''data/swipeshield.db'' else c_db_path c)\<rparr>"

definition validate :: "config \<Rightarrow> config \<times> config_error option" where
  "validate c0 =
     (let c = c0\<lparr>c_version := or_num (c_version c0) 1\<rparr> in
      if c_sites c = [] \<and> c_listeners c = [] \<and> \<not> adm_enabled (c_admin c) \<and>
         \<not> agt_enabled (c_agent c)
      then (c, Some NothingConfigured)
      else (case validate_listeners 0 (c_listeners c) of
              Some e \<Rightarrow> (c, Some e)
            | None \<Rightarrow>
                (case validate_sites 0 [] (c_sites c) of
                   (ss, Some e) \<Rightarrow> (c\<lparr>c_sites := ss\<rparr>, Some e)
                 | (ss, None) \<Rightarrow>
                     let c' = c\<lparr>c_sites := ss\<rparr> in
                     if auth_jwt_secret (c_auth c') = [] \<and>
                        (auth_admin_user (c_auth c') \<noteq> [] \<or>
                         auth_admin_password_hash (c_auth c') \<noteq> [])
                     then (c', Some AuthNeedsSecret)
                     else (global_defaults c', None))))"

subsection \<open>Lookups and the listener list\<close>

definition listener_list :: "config \<Rightarrow> listener list" where
  "listener_list c =
     (if c_listeners c = []
      then [\<lparr>l_address = '':8080'', l_tls = False, l_cert_path = [], l_key_path = [],
             l_client_ca = [], l_http3 = False, l_allow_0rtt = False\<rparr>]
      else c_listeners c)"

definition host_name :: "string \<Rightarrow> string" where
  "host_name host =
     (let h = trim_suffix (to_lower (trim_space host)) ''.'' in
      case index_byte h (CHR '':'') of Some i \<Rightarrow> take i h | None \<Rightarrow> h)"

fun find_site :: "string \<Rightarrow> site list \<Rightarrow> site option" where
  "find_site h [] = None"
| "find_site h (s # ss) =
     (if \<exists>d \<in> set (s_domains s). to_lower d = h
      then (if s_status s = ''disabled'' then None else Some s)
      else find_site h ss)"

definition site_by_domain :: "config \<Rightarrow> string \<Rightarrow> site option" where
  "site_by_domain c host = find_site (host_name host) (c_sites c)"

definition site_by_id :: "config \<Rightarrow> string \<Rightarrow> site option" where
  "site_by_id c i = find (\<lambda>s. s_id s = i) (c_sites c)"

subsection \<open>Loading and the hot-reload store\<close>

text \<open>\<open>filepath.Ext\<close>: from the last dot of the last path element.\<close>

definition file_ext :: "string \<Rightarrow> string" where
  "file_ext p =
     (let base = last (split_on CHR ''/'' p) in
      case last_index_byte base CHR ''.'' of None \<Rightarrow> [] | Some i \<Rightarrow> drop i base)"

type_synonym config_io =
  "(string \<Rightarrow> string option) \<times> (string \<Rightarrow> config option) \<times> (string \<Rightarrow> config option)
     \<times> (string \<Rightarrow> string option)"

definition load_config :: "config_io \<Rightarrow> string \<Rightarrow> (config_error, config) go" where
  "load_config io path =
     (case io of (read_file, parse_json, parse_yaml, env) \<Rightarrow>
        (case read_file path of
           None \<Rightarrow> Fail ReadError
         | Some data \<Rightarrow>
             (case (if to_lower (file_ext path) = ''.json'' then parse_json data
                    else parse_yaml data) of
                None \<Rightarrow> Fail ParseError
              | Some c \<Rightarrow>
                  (case validate (apply_env_overrides env c) of
                     (c', None) \<Rightarrow> Ok c'
                   | (_, Some e) \<Rightarrow> Fail e))))"

text \<open>
  The store: its snapshot, its path, the registered callbacks (by name) and the calls made
  to them so far.
\<close>

record config_store =
  st_cfg :: "config option"
  st_path :: string
  st_callbacks :: "string list"
  st_notified :: "(string \<times> config) list"

definition new_store :: "string \<Rightarrow> config_store" where
  "new_store path = \<lparr>st_cfg = None, st_path = path, st_callbacks = [], st_notified = []\<rparr>"

definition store_set :: "config_store \<Rightarrow> config \<Rightarrow> config_store" where
  "store_set st c =
     st\<lparr>st_cfg := Some c,
        st_notified := st_notified st @ map (\<lambda>f. (f, c)) (st_callbacks st)\<rparr>"

definition store_on_change :: "config_store \<Rightarrow> string \<Rightarrow> config_store" where
  "store_on_change st f = st\<lparr>st_callbacks := st_callbacks st @ [f]\<rparr>"

definition store_reload :: "config_io \<Rightarrow> config_store \<Rightarrow> config_store \<times> config_error option" where
  "store_reload io st =
     (case load_config io (st_path st) of
        Ok c \<Rightarrow> (store_set st c, None)
      | Fail e \<Rightarrow> (st, Some e)
      | Panic \<Rightarrow> (st, None))"

subsection \<open>What validation establishes\<close>

text \<open>A site as the rest of the gateway may assume it.\<close>

definition site_ok :: "site \<Rightarrow> bool" where
  "site_ok s \<longleftrightarrow>
     s_id s \<noteq> [] \<and> s_name s \<noteq> [] \<and> s_backend s \<noteq> [] \<and> s_fail_mode s \<noteq> [] \<and> s_status s \<noteq> [] \<and>
     s_max_body_bytes s \<noteq> 0 \<and> s_crs s \<noteq> None \<and>
     (case s_graphql s of None \<Rightarrow> True | Some g \<Rightarrow> gql_max_depth g \<noteq> 0 \<and> gql_max_complexity g \<noteq> 0) \<and>
     (case s_rate_limit s of None \<Rightarrow> True | Some r \<Rightarrow> srl_burst r \<noteq> 0 \<and> srl_per_ip r \<noteq> 0) \<and>
     (case s_bot_score s of None \<Rightarrow> True
      | Some b \<Rightarrow> bot_challenge_threshold b \<noteq> 0 \<and> bot_block_threshold b \<noteq> 0 \<and>
                 bot_pow_difficulty b \<noteq> 0) \<and>
     (case s_websocket s of None \<Rightarrow> True
      | Some w \<Rightarrow> ws_max_messages_per_min w \<noteq> 0 \<and> ws_max_message_bytes w \<noteq> 0)"

definition listener_ok :: "listener \<Rightarrow> bool" where
  "listener_ok l \<longleftrightarrow>
     l_address l \<noteq> [] \<and> (l_http3 l \<longrightarrow> l_tls l) \<and>
     (l_tls l \<longrightarrow> l_cert_path l \<noteq> [] \<and> l_key_path l \<noteq> [])"

definition globals_ok :: "config \<Rightarrow> bool" where
  "globals_ok c \<longleftrightarrow>
     c_version c \<noteq> 0 \<and>
     (c_sites c \<noteq> [] \<or> c_listeners c \<noteq> [] \<or> adm_enabled (c_admin c) \<or> agt_enabled (c_agent c)) \<and>
     (auth_admin_user (c_auth c) \<noteq> [] \<or> auth_admin_password_hash (c_auth c) \<noteq> [] \<longrightarrow>
        auth_jwt_secret (c_auth c) \<noteq> []) \<and>
     rlc_backend (c_rate_limit c) \<noteq> [] \<and> ev_log_path (c_events c) \<noteq> [] \<and>
     ev_webhook_timeout (c_events c) \<noteq> 0 \<and> ev_body_truncate (c_events c) \<noteq> 0 \<and>
     plug_timeout (c_plugins c) \<noteq> 0 \<and> plug_max_memory (c_plugins c) \<noteq> 0 \<and>
     ml_timeout (c_ml c) \<noteq> 0 \<and> ml_circuit_open (c_ml c) \<noteq> 0 \<and>
     auth_token_ttl (c_auth c) \<noteq> 0 \<and> agt_token_ttl (c_agent c) \<noteq> 0 \<and>
     (adm_enabled (c_admin c) \<longrightarrow> adm_address (c_admin c) \<noteq> []) \<and>
     (agt_enabled (c_agent c) \<longrightarrow> agt_listen (c_agent c) \<noteq> []) \<and>
     (adm_enabled (c_admin c) \<or> agt_enabled (c_agent c) \<longrightarrow> c_db_path c \<noteq> [])"

definition config_ok :: "config \<Rightarrow> bool" where
  "config_ok c \<longleftrightarrow>
     globals_ok c \<and> list_all listener_ok (c_listeners c) \<and> list_all site_ok (c_sites c) \<and>
     distinct (map s_id (c_sites c))"

lemma or_str_simps [simp]:
  "or_str s d = [] \<longleftrightarrow> s = [] \<and> d = []"
  "or_str (or_str s d) d = or_str s d"
  "s \<noteq> [] \<Longrightarrow> or_str s d = s"
  by (simp_all add: or_str_def)

lemma or_num_simps [simp]:
  "or_num n d = 0 \<longleftrightarrow> n = 0 \<and> d = 0"
  "n \<noteq> 0 \<Longrightarrow> or_num n d = n"
  by (simp_all add: or_num_def)

lemma site_names_simps [simp]:
  "s_id (site_names i s) \<noteq> []"
  "s_name (site_names i s) \<noteq> []"
  "s_backend (site_names i s) = s_backend s"
  by (simp_all add: site_names_def Let_def or_str_def)

lemma site_defaults_simps [simp]:
  "s_id (site_defaults s) = s_id s"
  "s_name (site_defaults s) = s_name s"
  "s_backend (site_defaults s) = s_backend s"
  "s_domains (site_defaults s) = s_domains s"
  by (simp_all add: site_defaults_def)

lemma site_names_id: "s_id s \<noteq> [] \<Longrightarrow> s_name s \<noteq> [] \<Longrightarrow> site_names i s = s"
  by (simp add: site_names_def Let_def)

lemma site_defaults_ok:
  "s_id s \<noteq> [] \<Longrightarrow> s_name s \<noteq> [] \<Longrightarrow> s_backend s \<noteq> [] \<Longrightarrow> site_ok (site_defaults s)"
  by (simp add: site_ok_def site_defaults_def split: option.split)

lemma site_ok_fixed: "site_ok s \<Longrightarrow> site_defaults s = s"
  by (cases s) (auto simp: site_ok_def site_defaults_def split: option.splits)

lemma validate_sites_ok:
  "validate_sites i seen ss = (ss', None) \<Longrightarrow>
     list_all site_ok ss' \<and> distinct (map s_id ss') \<and> set (map s_id ss') \<inter> set seen = {}"
proof (induction i seen ss arbitrary: ss' rule: validate_sites.induct)
  case (1 i seen)
  then show ?case by simp
next
  case (2 i seen s ss)
  let ?s = "site_names i s"
  from "2.prems" have b: "s_backend s \<noteq> []" and n: "s_id ?s \<notin> set seen"
    by (auto simp: Let_def split: if_splits)
  with "2.prems" obtain ts where ts: "validate_sites (i + 1) (s_id ?s # seen) ss = (ts, None)"
    and ss': "ss' = site_defaults ?s # ts"
    by (auto simp: Let_def split: prod.splits)
  from "2.IH" [OF refl _ _ ts] b n have
    "list_all site_ok ts \<and> distinct (map s_id ts) \<and> set (map s_id ts) \<inter> set (s_id ?s # seen) = {}"
    by simp
  with n b show ?case by (auto simp: ss' intro: site_defaults_ok)
qed

lemma validate_sites_fixed:
  "list_all site_ok ss \<Longrightarrow> distinct (map s_id ss) \<Longrightarrow> set (map s_id ss) \<inter> set seen = {} \<Longrightarrow>
     validate_sites i seen ss = (ss, None)"
proof (induction ss arbitrary: i seen)
  case Nil
  then show ?case by simp
next
  case (Cons s ss)
  then have ok: "site_ok s" by simp
  then have names: "site_names i s = s" by (simp add: site_ok_def site_names_id)
  have "validate_sites (i + 1) (s_id s # seen) ss = (ss, None)"
    using Cons.prems by (intro Cons.IH) auto
  moreover have "s_backend s \<noteq> []" using ok by (simp add: site_ok_def)
  ultimately show ?case
    using Cons.prems by (simp add: Let_def names site_ok_fixed [OF ok])
qed

lemma validate_listeners_None: "validate_listeners i ls = None \<longleftrightarrow> list_all listener_ok ls"
  by (induction i ls rule: validate_listeners.induct) (auto simp: listener_ok_def)

lemma global_defaults_simps [simp]:
  "c_version (global_defaults c) = c_version c"
  "c_sites (global_defaults c) = c_sites c"
  "c_listeners (global_defaults c) = c_listeners c"
  by (simp_all add: global_defaults_def)

lemma validate_None:
  assumes "validate c = (c', None)"
  obtains ss where "validate_sites 0 [] (c_sites c) = (ss, None)"
    and "list_all listener_ok (c_listeners c)"
    and "c' = global_defaults (c\<lparr>c_version := or_num (c_version c) 1, c_sites := ss\<rparr>)"
    and "c_sites c \<noteq> [] \<or> c_listeners c \<noteq> [] \<or> adm_enabled (c_admin c) \<or> agt_enabled (c_agent c)"
    and "auth_admin_user (c_auth c) \<noteq> [] \<or> auth_admin_password_hash (c_auth c) \<noteq> [] \<longrightarrow>
           auth_jwt_secret (c_auth c) \<noteq> []"
  using assms that
  by (auto simp: validate_def Let_def validate_listeners_None
      split: if_splits option.splits prod.splits)

lemma validate_sites_Nil: "validate_sites i seen ss = (ss', e) \<Longrightarrow> ss' = [] \<longleftrightarrow> ss = []"
  by (cases ss) (auto simp: Let_def split: if_splits prod.splits)

lemma globals_ok_defaults:
  assumes "c_version c \<noteq> 0"
    and "c_sites c \<noteq> [] \<or> c_listeners c \<noteq> [] \<or> adm_enabled (c_admin c) \<or> agt_enabled (c_agent c)"
    and "auth_admin_user (c_auth c) \<noteq> [] \<or> auth_admin_password_hash (c_auth c) \<noteq> [] \<longrightarrow>
           auth_jwt_secret (c_auth c) \<noteq> []"
  shows "globals_ok (global_defaults c)"
  using assms by (simp add: globals_ok_def global_defaults_def)

lemma globals_ok_fixed: "globals_ok c \<Longrightarrow> global_defaults c = c"
  by (cases c) (auto simp: globals_ok_def global_defaults_def)

lemma validate_config_ok:
  assumes "validate c = (c', None)"
  shows "config_ok c'"
proof -
  from assms obtain ss where ss: "validate_sites 0 [] (c_sites c) = (ss, None)"
    and ls: "list_all listener_ok (c_listeners c)"
    and c': "c' = global_defaults (c\<lparr>c_version := or_num (c_version c) 1, c_sites := ss\<rparr>)"
    and some: "c_sites c \<noteq> [] \<or> c_listeners c \<noteq> [] \<or> adm_enabled (c_admin c) \<or> agt_enabled (c_agent c)"
    and auth: "auth_admin_user (c_auth c) \<noteq> [] \<or> auth_admin_password_hash (c_auth c) \<noteq> [] \<longrightarrow>
           auth_jwt_secret (c_auth c) \<noteq> []"
    by (rule validate_None)
  have "globals_ok c'" unfolding c'
    using some auth validate_sites_Nil [OF ss] by (intro globals_ok_defaults) auto
  with validate_sites_ok [OF ss] ls show ?thesis
    by (simp add: config_ok_def c')
qed

lemma config_ok_validate:
  assumes "config_ok c"
  shows "validate c = (c, None)"
proof -
  from assms have g: "globals_ok c" and l: "list_all listener_ok (c_listeners c)"
    and s: "validate_sites 0 [] (c_sites c) = (c_sites c, None)"
    by (auto simp: config_ok_def intro!: validate_sites_fixed)
  from l have "validate_listeners 0 (c_listeners c) = None" by (simp add: validate_listeners_None)
  with g s globals_ok_fixed [OF g] show ?thesis
    by (auto simp: validate_def Let_def globals_ok_def)
qed

subsection \<open>Site lookup\<close>

lemma find_site_Some:
  "find_site h ss = Some s \<Longrightarrow>
     s \<in> set ss \<and> s_status s \<noteq> ''disabled'' \<and> (\<exists>d \<in> set (s_domains s). to_lower d = h)"
  by (induction h ss rule: find_site.induct) (auto split: if_splits)

definition serves :: "string \<Rightarrow> site \<Rightarrow> bool" where
  "serves h s \<longleftrightarrow> h \<in> set (map to_lower (s_domains s))"

lemma find_site_first:
  "find_site h ss =
     (case find (serves h) ss of
        None \<Rightarrow> None | Some s \<Rightarrow> if s_status s = ''disabled'' then None else Some s)"
  by (induction ss) (auto simp: serves_def)

lemma find_append: "find P (xs @ ys) = (case find P xs of None \<Rightarrow> find P ys | Some x \<Rightarrow> Some x)"
  by (induction xs) auto

lemma host_name_no_port: "CHR '':'' \<notin> set (host_name h)"
proof (cases "index_byte (trim_suffix (to_lower (trim_space h)) ''.'') (CHR '':'')")
  case None
  with None [unfolded index_byte_None] show ?thesis by (simp add: host_name_def Let_def None)
next
  case (Some i)
  with index_byte_Some [OF Some] show ?thesis by (simp add: host_name_def Let_def)
qed

lemma is_space_lower [simp]: "is_space (lower_char c) = is_space c"
proof -
  have "is_space (lower_char c) \<longleftrightarrow> is_space c" if "65 \<le> (of_char c :: nat)" "(of_char c :: nat) \<le> 90"
    using that by (auto simp: is_space_def lower_char_def of_char_of_small)
  then show ?thesis by (auto simp: lower_char_def)
qed

lemma trim_space_lower: "trim_space (to_lower s) = to_lower (trim_space s)"
  by (simp add: trim_space_def to_lower_def dropWhile_map rev_map o_def)

lemma host_name_case: "host_name (to_lower h) = host_name h"
  by (simp add: host_name_def trim_space_lower)

subsection \<open>Hot reload as an interface\<close>

text \<open>
  What a component that reloads configurations owes its clients: a rejected reload keeps
  what is being served, an accepted one serves a configuration that passed the check.
\<close>

locale hot_reload =
  fixes serving :: "'s \<Rightarrow> 'c option"
    and reload :: "'i \<Rightarrow> 's \<Rightarrow> 's \<times> 'e option"
    and good :: "'c \<Rightarrow> bool"
  assumes reject_keeps: "reload i s = (s', Some e) \<Longrightarrow> serving s' = serving s"
    and accept_good: "reload i s = (s', None) \<Longrightarrow> \<exists>c. serving s' = Some c \<and> good c"
begin

lemma reload_good:
  assumes "serving s = Some c" and "good c"
  shows "\<exists>c'. serving (fst (reload i s)) = Some c' \<and> good c'"
proof (cases "reload i s")
  case (Pair s' e)
  with assms reject_keeps [of i s s'] accept_good [of i s s'] show ?thesis
    by (cases e) auto
qed

lemma reloads_good:
  "serving s = Some c \<Longrightarrow> good c \<Longrightarrow> \<exists>c'. serving (foldl (\<lambda>s i. fst (reload i s)) s is) = Some c' \<and> good c'"
proof (induction "is" arbitrary: s c)
  case Nil
  then show ?case by simp
next
  case (Cons i "is")
  from reload_good [OF Cons.prems, of i] Cons.IH show ?case by auto
qed

lemma all_rejected_keep:
  "(\<And>i s. i \<in> set is \<Longrightarrow> snd (reload i s) \<noteq> None) \<Longrightarrow> serving (foldl (\<lambda>s i. fst (reload i s)) s is) = serving s"
proof (induction "is" arbitrary: s)
  case Nil
  then show ?case by simp
next
  case (Cons i "is")
  from Cons.prems [of i s] obtain s' e where "reload i s = (s', Some e)"
    by (cases "reload i s") auto
  with reject_keeps [OF this] Cons show ?case by simp
qed

end

lemma load_config_ok: "load_config io p = Ok c \<Longrightarrow> config_ok c"
  by (auto simp: load_config_def Let_def intro: validate_config_ok
      split: prod.splits option.splits if_splits)

lemma load_config_total: "load_config io p \<noteq> Panic"
  by (auto simp: load_config_def Let_def split: prod.splits option.splits)

interpretation file_store: hot_reload st_cfg store_reload config_ok
proof unfold_locales
  fix i s s' and e :: config_error
  show "store_reload i s = (s', Some e) \<Longrightarrow> st_cfg s' = st_cfg s"
    by (auto simp: store_reload_def split: go.splits)
  show "store_reload i s = (s', None) \<Longrightarrow> \<exists>c. st_cfg s' = Some c \<and> config_ok c"
    using load_config_total [of i "st_path s"]
    by (auto simp: store_reload_def store_set_def dest: load_config_ok split: go.splits)
qed

text \<open>Any sequence of reloads, each with its own view of the file system.\<close>

definition store_reloads :: "config_io list \<Rightarrow> config_store \<Rightarrow> config_store" where
  "store_reloads ios st = foldl (\<lambda>s io. fst (store_reload io s)) st ios"

subsection \<open>Properties\<close>

text \<open>
  C37. A configuration \<open>Validate\<close> accepts is well formed: listeners are usable, site ids
  are distinct and non-empty, every site has a backend, a fail mode, a body limit and CRS
  toggles, every zero threshold was replaced by its default, and configured credentials
  come with a signing secret.
\<close>

theorem validate_establishes_config_ok:
  "validate c = (c', None) \<Longrightarrow> config_ok c'"
  by (rule validate_config_ok)

definition demo_config :: config where
  "demo_config = empty_config\<lparr>c_sites := [empty_site\<lparr>s_domains := [''a.example''],
     s_backend := ''http://127.0.0.1:9000''\<rparr>]\<rparr>"

lemma demo_config_valid: "snd (validate demo_config) = None"
  by (simp add: validate_def demo_config_def empty_config_def empty_site_def Let_def)

theorem validate_establishes_config_ok_witness: "config_ok (fst (validate demo_config))"
  by (rule validate_establishes_config_ok [of demo_config])
     (metis demo_config_valid prod.collapse)

text \<open>
  Validation is idempotent: validating an accepted configuration again accepts it and
  changes nothing.
\<close>

theorem validate_idempotent:
  assumes "validate c = (c', None)"
  shows "validate c' = (c', None)"
  by (rule config_ok_validate [OF validate_config_ok [OF assms]])

theorem validate_idempotent_witness:
  "validate (fst (validate demo_config)) = (fst (validate demo_config), None)"
  by (rule validate_idempotent [of demo_config]) (metis demo_config_valid prod.collapse)

text \<open>
  C33. A malformed reload never drops protection: once the store serves a validated
  configuration, any sequence of reloads of the file, whatever the file then holds, leaves
  it serving a validated configuration, and a reload that fails changes nothing and calls
  no callback.
\<close>

theorem reload_keeps_known_good:
  assumes "st_cfg st = Some c" and "config_ok c"
  shows "(\<exists>c'. st_cfg (store_reloads ios st) = Some c' \<and> config_ok c') \<and>
         (\<forall>io e. snd (store_reload io st) = Some e \<longrightarrow> fst (store_reload io st) = st)"
proof
  show "\<exists>c'. st_cfg (store_reloads ios st) = Some c' \<and> config_ok c'"
    unfolding store_reloads_def by (rule file_store.reloads_good [OF assms])
  show "\<forall>io e. snd (store_reload io st) = Some e \<longrightarrow> fst (store_reload io st) = st"
    by (auto simp: store_reload_def split: go.splits)
qed

theorem reload_keeps_known_good_witness:
  "\<exists>c'. st_cfg (store_reloads
            [(\<lambda>_. None, \<lambda>_. None, \<lambda>_. None, \<lambda>_. None)]
            (store_set (new_store ''c.yaml'') (fst (validate demo_config)))) = Some c' \<and> config_ok c'"
  using reload_keeps_known_good
    [of "store_set (new_store ''c.yaml'') (fst (validate demo_config))"
        "fst (validate demo_config)" "[(\<lambda>_. None, \<lambda>_. None, \<lambda>_. None, \<lambda>_. None)]"]
    config_ok_validate validate_config_ok demo_config_valid
  by (auto simp: store_set_def) (metis prod.collapse)

text \<open>
  Routing by host: the site chosen is the first one that lists the lower-cased host
  name without port, and only if it is enabled; a disabled site shadows every later site
  with that domain. Case does not matter.
\<close>

theorem site_by_domain_first:
  "site_by_domain c h =
     (case find (serves (host_name h)) (c_sites c) of
        None \<Rightarrow> None
      | Some s \<Rightarrow> if s_status s = ''disabled'' then None else Some s) \<and>
   site_by_domain c (to_lower h) = site_by_domain c h"
  by (simp add: site_by_domain_def find_site_first host_name_case)

end
