(* ===== verification/Decision.thy ===== *)
theory Decision
  imports Configuration
begin

text \<open>
  Package decision: reasons, verdicts and the inspection context of one request, with the
  fold of reasons into a verdict (decision.go) and the gateway's own aggregation
  (\<open>summarize\<close> in proxy/inspect.go). Scores are exact rationals.
\<close>

subsection \<open>Actions, ordered by severity\<close>

datatype action = Allow | Log | Challenge | Block

fun action_str :: "action \<Rightarrow> string" where
  "action_str Allow = ''allow''"
| "action_str Block = ''block''"
| "action_str Challenge = ''challenge''"
| "action_str Log = ''log''"

fun severity_rank :: "action \<Rightarrow> nat" where
  "severity_rank Allow = 0"
| "severity_rank Log = 1"
| "severity_rank Challenge = 2"
| "severity_rank Block = 3"

lemma severity_rank_inject: "severity_rank a = severity_rank b \<Longrightarrow> a = b"
  by (cases a; cases b) simp_all

instantiation action :: linorder
begin

definition less_eq_action :: "action \<Rightarrow> action \<Rightarrow> bool" where
  "less_eq_action a b \<longleftrightarrow> severity_rank a \<le> severity_rank b"

definition less_action :: "action \<Rightarrow> action \<Rightarrow> bool" where
  "less_action a b \<longleftrightarrow> severity_rank a < severity_rank b"

instance
  by standard
     (auto simp: less_eq_action_def less_action_def intro: severity_rank_inject)

end

lemma action_bounds [simp]: "Allow \<le> a" "a \<le> Block"
  by (cases a; simp add: less_eq_action_def)+

lemma action_order [simp]: "Allow < Log" "Log < Challenge" "Challenge < Block"
  by (simp_all add: less_action_def)

subsection \<open>Reasons and verdicts\<close>

record reason =
  r_module :: string
  r_rule_id :: string
  r_message :: string
  r_score :: rat
  r_status :: int
  r_data :: "(string \<times> json) list"

record verdict =
  v_decision :: action
  v_status :: int
  v_reasons :: "reason list"
  v_body :: string

definition no_reason :: reason where
  "no_reason = \<lparr>r_module = [], r_rule_id = [], r_message = [], r_score = 0, r_status = 0, r_data = []\<rparr>"

definition highest_severity :: "reason list \<Rightarrow> action \<Rightarrow> verdict" where
  "highest_severity rs dflt =
     (let v = \<lparr>v_decision = dflt, v_status = (if dflt = Block then 403 else 200),
               v_reasons = [], v_body = []\<rparr>
      in foldl (\<lambda>v r. if r_status r \<noteq> 0 then v\<lparr>v_status := r_status r\<rparr> else v) v rs)"

subsection \<open>The inspection context\<close>

record graphql_info =
  gi_operation :: string
  gi_depth :: int
  gi_complexity :: int
  gi_aliases :: int
  gi_introspection :: bool
  gi_query :: string

record grpc_info =
  gr_service :: string
  gr_method :: string

record inspect_ctx =
  x_request :: request
  x_site :: "site option"
  x_client_ip :: string
  x_api_key :: string
  x_host :: string
  x_path :: string
  x_method :: string
  x_body :: string
  x_protocol :: string
  x_transport :: string
  x_zero_rtt :: bool
  x_graphql :: "graphql_info option"
  x_grpc :: "grpc_info option"
  x_ja3 :: string
  x_ja4 :: string
  x_h2fp :: string
  x_bot_score :: rat
  x_ml_score :: rat
  x_llm_score :: rat
  x_reasons :: "reason list"
  x_status :: int

definition add_reason :: "inspect_ctx \<Rightarrow> reason \<Rightarrow> inspect_ctx" where
  "add_reason c r = c\<lparr>x_reasons := x_reasons c @ [r]\<rparr>"

definition fired :: "inspect_ctx \<Rightarrow> string \<Rightarrow> bool" where
  "fired c m \<longleftrightarrow> (\<exists>r \<in> set (x_reasons c). r_module r = m)"

definition ctx_allowed :: "inspect_ctx \<Rightarrow> bool" where
  "ctx_allowed c \<longleftrightarrow> (\<forall>r \<in> set (x_reasons c). r_module r \<noteq> ''log'' \<longrightarrow> r_status r < 400)"

subsection \<open>Aggregation (summarize, proxy/inspect.go)\<close>

definition is_challenge :: "reason \<Rightarrow> bool" where
  "is_challenge r \<longleftrightarrow> r_module r = ''botscoring'' \<and> r_rule_id r = ''BOT-CHALLENGE''"

text \<open>One turn of the loop, on the pair of blockStatus and hasChallenge.\<close>

definition summarize_step :: "int \<times> bool \<Rightarrow> reason \<Rightarrow> int \<times> bool" where
  "summarize_step acc r =
     (case acc of (blockst, chal) \<Rightarrow>
        if is_challenge r then (blockst, True)
        else if r_status r \<ge> 400 \<and> r_status r > blockst then (r_status r, chal)
        else (blockst, chal))"

definition summarize :: "reason list \<Rightarrow> verdict" where
  "summarize rs =
     (case foldl summarize_step (0, False) rs of (blockst, chal) \<Rightarrow>
        if blockst \<ge> 400
        then \<lparr>v_decision = Block, v_status = blockst, v_reasons = rs, v_body = []\<rparr>
        else if chal
        then \<lparr>v_decision = Challenge, v_status = 429, v_reasons = rs, v_body = []\<rparr>
        else \<lparr>v_decision = (if rs \<noteq> [] then Log else Allow), v_status = 200,
              v_reasons = rs, v_body = []\<rparr>)"

text \<open>What a single reason asks for, and the statuses that block.\<close>

definition reason_action :: "reason \<Rightarrow> action" where
  "reason_action r =
     (if is_challenge r then Challenge else if r_status r \<ge> 400 then Block else Log)"

definition block_statuses :: "reason list \<Rightarrow> int list" where
  "block_statuses rs = map r_status (filter (\<lambda>r. reason_action r = Block) rs)"

lemma block_statuses_simps [simp]:
  "block_statuses [] = []"
  "block_statuses (r # rs) =
     (if reason_action r = Block then [r_status r] else []) @ block_statuses rs"
  by (simp_all add: block_statuses_def)

lemma summarize_step_eq:
  "summarize_step (b, h) r =
     (if reason_action r = Block then max b (r_status r) else b, h \<or> is_challenge r)"
  by (auto simp: summarize_step_def reason_action_def)

lemma summarize_fold:
  "foldl summarize_step (b, h) rs =
     (foldl max b (block_statuses rs), h \<or> (\<exists>r \<in> set rs. is_challenge r))"
  by (induction rs arbitrary: b h) (simp_all add: summarize_step_eq del: disj_assoc, auto)

lemma foldl_max_ge: "(a :: int) \<le> foldl max b xs \<longleftrightarrow> a \<le> b \<or> (\<exists>x \<in> set xs. a \<le> x)"
  by (induction xs arbitrary: b) (auto simp: le_max_iff_disj)

lemma foldl_max_Max: "foldl max (b :: int) xs = Max (set (b # xs))"
proof (induction xs arbitrary: b)
  case Nil
  then show ?case by simp
next
  case (Cons x xs)
  have "insert (max b x) (set xs) \<noteq> {}" by simp
  show ?case
    by (cases "set xs = {}") (simp_all add: Cons max.assoc)
qed

lemma block_status_ge: "s \<in> set (block_statuses rs) \<Longrightarrow> 400 \<le> s"
  by (auto simp: block_statuses_def reason_action_def split: if_splits)

lemma block_statuses_empty:
  "block_statuses rs = [] \<longleftrightarrow> (\<forall>r \<in> set rs. reason_action r \<noteq> Block)"
  by (auto simp: block_statuses_def filter_empty_conv)

lemma blocks_iff: "400 \<le> foldl max 0 (block_statuses rs) \<longleftrightarrow> (\<exists>r \<in> set rs. reason_action r = Block)"
proof -
  have "(400 :: int) \<le> foldl max 0 (block_statuses rs) \<longleftrightarrow> block_statuses rs \<noteq> []"
    unfolding foldl_max_ge using block_status_ge [of _ rs]
    by (cases "block_statuses rs") auto
  then show ?thesis by (auto simp: block_statuses_empty)
qed

lemma summarize_decision:
  "v_decision (summarize rs) =
     (if \<exists>r \<in> set rs. reason_action r = Block then Block
      else if \<exists>r \<in> set rs. is_challenge r then Challenge
      else if rs \<noteq> [] then Log else Allow)"
  by (simp add: summarize_def summarize_fold blocks_iff)

lemma summarize_blocks_iff:
  "v_decision (summarize rs) = Block \<longleftrightarrow> (\<exists>r \<in> set rs. reason_action r = Block)"
  by (simp add: summarize_decision)

lemma summarize_reasons [simp]: "v_reasons (summarize rs) = rs"
  by (simp add: summarize_def split: prod.split)

lemma summarize_Allow_iff: "v_decision (summarize rs) = Allow \<longleftrightarrow> rs = []"
  by (auto simp: summarize_decision)

subsection \<open>Modules that only add reasons\<close>

text \<open>
  Every inspection module extends the context: the reasons that were there stay, in order,
  and new ones come after them. Such modules compose, and a reason that blocks can not be
  taken back by a later module.
\<close>

locale reason_adder =
  fixes reasons_of :: "'c \<Rightarrow> reason list"
    and module :: "'i \<Rightarrow> 'c \<Rightarrow> 'c"
  assumes extends: "\<exists>rs. reasons_of (module i c) = reasons_of c @ rs"
begin

lemma run_extends: "\<exists>rs. reasons_of (foldl (\<lambda>c i. module i c) c ms) = reasons_of c @ rs"
proof (induction ms arbitrary: c)
  case Nil
  then show ?case by simp
next
  case (Cons i ms)
  from extends [of i c] Cons [of "module i c"] show ?case by fastforce
qed

lemma block_stays:
  assumes "v_decision (summarize (reasons_of c)) = Block"
  shows "v_decision (summarize (reasons_of (foldl (\<lambda>c i. module i c) c ms))) = Block"
  using assms run_extends [of c ms] by (auto simp: summarize_blocks_iff)

lemma reasons_kept:
  "r \<in> set (reasons_of c) \<Longrightarrow> r \<in> set (reasons_of (foldl (\<lambda>c i. module i c) c ms))"
  using run_extends [of c ms] by auto

end

interpretation ctx_reasons: reason_adder x_reasons "\<lambda>r c. add_reason c r"
  by unfold_locales (simp add: add_reason_def)

subsection \<open>Properties\<close>

text \<open>
  The verdict is the most severe action any reason asks for (block over challenge over
  log over allow), and a block carries the largest blocking status.
\<close>

theorem summarize_most_severe:
  "v_decision (summarize rs) = Max (insert Allow (reason_action ` set rs)) \<and>
   (v_decision (summarize rs) = Block \<longrightarrow> v_status (summarize rs) = Max (set (block_statuses rs)))"
proof
  let ?M = "insert Allow (reason_action ` set rs)"
  show "v_decision (summarize rs) = Max ?M"
  proof (rule sym, rule Max_eqI)
    show "finite ?M" by simp
  next
    fix a assume "a \<in> ?M"
    then consider "a = Allow" | r where "r \<in> set rs" "a = reason_action r" by auto
    then show "a \<le> v_decision (summarize rs)"
    proof cases
      case 1
      then show ?thesis by simp
    next
      case 2
      then show ?thesis
        by (auto simp: summarize_decision reason_action_def less_eq_action_def)
    qed
  next
    show "v_decision (summarize rs) \<in> ?M"
    proof (cases "\<exists>r \<in> set rs. reason_action r = Block \<or> is_challenge r")
      case True
      then show ?thesis
        by (auto simp: summarize_decision reason_action_def image_iff)
    next
      case False
      then show ?thesis
        by (cases rs) (auto simp: summarize_decision reason_action_def)
    qed
  qed
  show "v_decision (summarize rs) = Block \<longrightarrow> v_status (summarize rs) = Max (set (block_statuses rs))"
  proof
    assume "v_decision (summarize rs) = Block"
    then have ne: "block_statuses rs \<noteq> []"
      by (simp add: block_statuses_empty summarize_blocks_iff)
    have "v_status (summarize rs) = foldl max 0 (block_statuses rs)"
      using \<open>v_decision (summarize rs) = Block\<close>
      by (auto simp: summarize_def summarize_fold split: if_splits)
    also have "\<dots> = Max (insert 0 (set (block_statuses rs)))"
      using foldl_max_Max by simp
    also have "\<dots> = Max (set (block_statuses rs))"
    proof -
      from ne obtain s where "s \<in> set (block_statuses rs)" by (cases "block_statuses rs") auto
      with block_status_ge [OF this] have "0 \<le> Max (set (block_statuses rs))"
        by (meson List.finite_set Max_ge dual_order.trans zero_le_numeral)
      with ne show ?thesis by simp
    qed
    finally show "v_status (summarize rs) = Max (set (block_statuses rs))" .
  qed
qed

theorem summarize_most_severe_witness:
  "v_status (summarize [no_reason\<lparr>r_status := 503\<rparr>, no_reason\<lparr>r_status := 400\<rparr>]) = 503"
  using summarize_most_severe
    [of "[no_reason\<lparr>r_status := 503\<rparr>, no_reason\<lparr>r_status := 400\<rparr>]"]
  by (simp add: summarize_def summarize_step_def is_challenge_def no_reason_def)

end
