(* ===== verification/WebSocket.thy ===== *)
theory WebSocket
  imports RuleEngine Ratelimit Decision
begin

unbundle bit_operations_syntax

text \<open>
  Package websocket: the RFC 6455 frame codec (frame.go), the per-message inspector
  (inspect.go) and the relay between the two peers (relay.go).

  A connection that is read is the list of bytes it will still deliver before it ends; a
  connection that is written is a sink with the bytes accepted so far and the number of
  further \<open>Write\<close> calls that succeed (\<open>None\<close>: all of them). Masking keys come from
  \<open>crypto/rand\<close> and are an argument.
\<close>

subsection \<open>Frames\<close>

record frame =
  fr_fin :: bool
  fr_rsv1 :: bool
  fr_rsv2 :: bool
  fr_rsv3 :: bool
  fr_opcode :: byte
  fr_masked :: bool
  fr_payload :: "byte list"

datatype ws_error = EofErr | UnexpectedEof | FrameTooLarge | WriteError | RandError | Rejected

definition max_frame_bytes :: nat where
  "max_frame_bytes = 16777216"

definition op_text :: byte where "op_text = 1"
definition op_close :: byte where "op_close = 8"

text \<open>Big-endian numbers (encoding/binary).\<close>

fun be_bytes :: "nat \<Rightarrow> nat \<Rightarrow> byte list" where
  "be_bytes 0 x = []"
| "be_bytes (Suc n) x = word_of_nat (x div 256 ^ n) # be_bytes n x"

definition be_value :: "byte list \<Rightarrow> nat" where
  "be_value bs = foldl (\<lambda>a b. a * 256 + unat b) 0 bs"

text \<open>\<open>io.ReadFull\<close> for n bytes.\<close>

definition read_full :: "nat \<Rightarrow> byte list \<Rightarrow> (ws_error, byte list \<times> byte list) go" where
  "read_full n s =
     (if n \<le> length s then Ok (take n s, drop n s)
      else if s = [] then Fail EofErr else Fail UnexpectedEof)"

definition mask_payload :: "byte list \<Rightarrow> byte list \<Rightarrow> byte list" where
  "mask_payload key bs = map (\<lambda>(i, b). b XOR key ! (i mod 4)) (enumerate 0 bs)"

definition read_length :: "byte \<Rightarrow> byte list \<Rightarrow> (ws_error, nat \<times> byte list) go" where
  "read_length b1 s =
     (let l = unat (b1 AND 0x7f) in
      if l = 126 then go_bind (read_full 2 s) (\<lambda>(ext, s'). Ok (be_value ext, s'))
      else if l = 127 then go_bind (read_full 8 s) (\<lambda>(ext, s'). Ok (be_value ext, s'))
      else Ok (l, s))"

definition read_frame :: "byte list \<Rightarrow> (ws_error, frame \<times> byte list) go" where
  "read_frame s0 =
     go_bind (read_full 1 s0) (\<lambda>(b0s, s1).
     let b0 = hd b0s in
     go_bind (read_full 1 s1) (\<lambda>(b1s, s2).
     let b1 = hd b1s; masked = (b1 AND 0x80 \<noteq> 0) in
     go_bind (read_length b1 s2) (\<lambda>(len, s3).
     if len > max_frame_bytes then Fail FrameTooLarge
     else go_bind (if masked then read_full 4 s3 else Ok ([0, 0, 0, 0], s3)) (\<lambda>(key, s4).
     go_bind (read_full len s4) (\<lambda>(payload, s5).
       Ok (\<lparr>fr_fin = (b0 AND 0x80 \<noteq> 0), fr_rsv1 = (b0 AND 0x40 \<noteq> 0),
            fr_rsv2 = (b0 AND 0x20 \<noteq> 0), fr_rsv3 = (b0 AND 0x10 \<noteq> 0),
            fr_opcode = b0 AND 0x0f, fr_masked = masked,
            fr_payload = (if masked then mask_payload key payload else payload)\<rparr>, s5))))))"

record sink =
  sk_bytes :: "byte list"
  sk_left :: "nat option"

definition w_write :: "sink \<Rightarrow> byte list \<Rightarrow> sink \<times> bool" where
  "w_write w bs =
     (case sk_left w of
        Some 0 \<Rightarrow> (w, False)
      | Some (Suc n) \<Rightarrow> (w\<lparr>sk_bytes := sk_bytes w @ bs, sk_left := Some n\<rparr>, True)
      | None \<Rightarrow> (w\<lparr>sk_bytes := sk_bytes w @ bs\<rparr>, True))"

definition flag_bits :: "frame \<Rightarrow> byte" where
  "flag_bits f =
     fr_opcode f OR (if fr_fin f then 0x80 else 0) OR (if fr_rsv1 f then 0x40 else 0)
       OR (if fr_rsv2 f then 0x20 else 0) OR (if fr_rsv3 f then 0x10 else 0)"

definition frame_header :: "frame \<Rightarrow> bool \<Rightarrow> byte list" where
  "frame_header f msk =
     (let l = length (fr_payload f); m = (if msk then 0x80 else 0 :: byte) in
      if l \<le> 125 then [flag_bits f, m OR word_of_nat l]
      else if l \<le> 0xffff then [flag_bits f, m OR 126] @ be_bytes 2 l
      else [flag_bits f, m OR 127] @ be_bytes 8 l)"

text \<open>\<open>writeFrame\<close>; \<open>key\<close> is what \<open>rand.Read\<close> yields (\<open>None\<close>: an error).\<close>

definition write_frame_raw ::
    "byte list option \<Rightarrow> sink \<Rightarrow> frame \<Rightarrow> bool \<Rightarrow> sink \<times> ws_error option" where
  "write_frame_raw key w f msk =
     (if length (fr_payload f) > max_frame_bytes then (w, Some FrameTooLarge)
      else (case w_write w (frame_header f msk) of
              (w1, False) \<Rightarrow> (w1, Some WriteError)
            | (w1, True) \<Rightarrow>
                if msk then
                  (case key of
                     None \<Rightarrow> (w1, Some RandError)
                   | Some k \<Rightarrow>
                       (case w_write w1 k of
                          (w2, False) \<Rightarrow> (w2, Some WriteError)
                        | (w2, True) \<Rightarrow>
                            (case w_write w2 (mask_payload k (fr_payload f)) of
                               (w3, ok) \<Rightarrow> (w3, if ok then None else Some WriteError))))
                else (case w_write w1 (fr_payload f) of
                        (w2, ok) \<Rightarrow> (w2, if ok then None else Some WriteError))))"

definition write_frame :: "byte list option \<Rightarrow> sink \<Rightarrow> frame \<Rightarrow> sink \<times> ws_error option" where
  "write_frame key w f = write_frame_raw key w f (fr_masked f)"

definition write_frame_server :: "sink \<Rightarrow> frame \<Rightarrow> sink \<times> ws_error option" where
  "write_frame_server w f = write_frame_raw None w f False"

definition text_frame :: "byte list \<Rightarrow> frame" where
  "text_frame data = \<lparr>fr_fin = True, fr_rsv1 = False, fr_rsv2 = False, fr_rsv3 = False,
                      fr_opcode = op_text, fr_masked = True, fr_payload = data\<rparr>"

definition write_text :: "byte list option \<Rightarrow> sink \<Rightarrow> byte list \<Rightarrow> sink \<times> ws_error option" where
  "write_text key w data = write_frame key w (text_frame data)"

definition is_control :: "byte \<Rightarrow> bool" where
  "is_control op \<longleftrightarrow> op \<ge> 8"

subsection \<open>The codec is a stream codec\<close>

text \<open>The bytes of a frame that is written without an error.\<close>

definition frame_bytes :: "byte list \<Rightarrow> frame \<Rightarrow> byte list" where
  "frame_bytes key f =
     frame_header f (fr_masked f) @
     (if fr_masked f then key @ mask_payload key (fr_payload f) else fr_payload f)"

definition frame_ok :: "frame \<Rightarrow> bool" where
  "frame_ok f \<longleftrightarrow> fr_opcode f < 16 \<and> length (fr_payload f) \<le> max_frame_bytes"

definition dec_frame :: "byte list \<Rightarrow> (frame \<times> byte list) option" where
  "dec_frame s = (case read_frame s of Ok x \<Rightarrow> Some x | _ \<Rightarrow> None)"

lemma length_be_bytes [simp]: "length (be_bytes n x) = n"
  by (induction n) simp_all

lemma unat_byte_of_nat: "unat (word_of_nat n :: byte) = n mod 256"
  by (simp add: unat_of_nat take_bit_eq_mod)

lemma foldl_be: "foldl (\<lambda>a b. a * 256 + unat (b :: byte)) c (be_bytes n x) = c * 256 ^ n + x mod 256 ^ n"
proof (induction n arbitrary: c)
  case 0
  then show ?case by simp
next
  case (Suc n)
  have "x mod 256 ^ Suc n = (x div 256 ^ n mod 256) * 256 ^ n + x mod 256 ^ n"
    by (simp add: mod_mult2_eq mult.commute [of 256])
  then show ?case
    by (simp add: Suc unat_byte_of_nat add_mult_distrib)
qed

lemma be_value_bytes: "x < 256 ^ n \<Longrightarrow> be_value (be_bytes n x) = x"
  by (simp add: be_value_def foldl_be)

lemma length_mask [simp]: "length (mask_payload k bs) = length bs"
  by (simp add: mask_payload_def)

lemma mask_involution: "mask_payload k (mask_payload k bs) = bs"
  by (rule nth_equalityI) (simp_all add: mask_payload_def nth_enumerate_eq xor.assoc)

lemma read_full_append: "length a = n \<Longrightarrow> read_full n (a @ b) = Ok (a, b)"
  by (auto simp: read_full_def)

text \<open>The first byte, by enumeration of the sixteen opcodes and the four flags.\<close>

lemma opcode_enum: "(op :: byte) < 16 \<Longrightarrow> op \<in> set (map word_of_nat [0..<16])"
proof -
  assume "op < 16"
  then have "unat op < 16" by (simp add: word_less_nat_alt)
  then have "op = word_of_nat (unat op) \<and> unat op \<in> set [0..<16]" by simp
  then show ?thesis unfolding set_map by blast
qed

lemma flag_bits_fields:
  assumes "fr_opcode f < 16"
  shows "flag_bits f AND 0x80 \<noteq> 0 \<longleftrightarrow> fr_fin f"
    and "flag_bits f AND 0x40 \<noteq> 0 \<longleftrightarrow> fr_rsv1 f"
    and "flag_bits f AND 0x20 \<noteq> 0 \<longleftrightarrow> fr_rsv2 f"
    and "flag_bits f AND 0x10 \<noteq> 0 \<longleftrightarrow> fr_rsv3 f"
    and "flag_bits f AND 0x0f = fr_opcode f"
  using opcode_enum [OF assms] unfolding flag_bits_def
  by (cases "fr_fin f"; cases "fr_rsv1 f"; cases "fr_rsv2 f"; cases "fr_rsv3 f";
      auto simp: upt_rec)+

lemma len7_fields:
  assumes "l \<le> 127"
  shows "((if m then 0x80 else 0 :: byte) OR word_of_nat l) AND 0x80 \<noteq> 0 \<longleftrightarrow> m"
    and "unat (((if m then 0x80 else 0 :: byte) OR word_of_nat l) AND 0x7f) = l"
proof -
  have a: "l \<in> set [0..<128]" using assms by auto
  have b: "\<forall>l \<in> set [0..<128].
      ((0x80 :: byte) OR word_of_nat l) AND 0x80 \<noteq> 0 \<and> (0 OR word_of_nat l :: byte) AND 0x80 = 0 \<and>
      unat (((0x80 :: byte) OR word_of_nat l) AND 0x7f) = l \<and>
      unat ((0 OR word_of_nat l :: byte) AND 0x7f) = l" by code_simp
  from bspec [OF b a]
  show "((if m then 0x80 else 0 :: byte) OR word_of_nat l) AND 0x80 \<noteq> 0 \<longleftrightarrow> m"
    and "unat (((if m then 0x80 else 0 :: byte) OR word_of_nat l) AND 0x7f) = l"
    by (cases m; simp)+
qed

lemma read_length_header:
  assumes "length (fr_payload f) \<le> max_frame_bytes"
  shows "\<exists>b1 t. frame_header f msk = flag_bits f # b1 # t \<and> (b1 AND 0x80 \<noteq> 0 \<longleftrightarrow> msk) \<and>
           (\<forall>r. read_length b1 (t @ r) = Ok (length (fr_payload f), r))"
proof -
  let ?l = "length (fr_payload f)"
  consider "?l \<le> 125" | "125 < ?l" "?l \<le> 0xffff" | "0xffff < ?l" by linarith
  then show ?thesis
  proof cases
    case 1
    then show ?thesis using len7_fields [of ?l msk]
      by (auto simp: frame_header_def Let_def read_length_def)
  next
    case 2
    have "be_value (be_bytes 2 ?l) = ?l" using 2 by (intro be_value_bytes) simp
    with 2 show ?thesis using len7_fields [of 126 msk]
      by (auto simp: frame_header_def Let_def read_length_def read_full_append)
  next
    case 3
    have "be_value (be_bytes 8 ?l) = ?l"
      using assms by (intro be_value_bytes) (simp add: max_frame_bytes_def)
    with 3 show ?thesis using len7_fields [of 127 msk]
      by (auto simp: frame_header_def Let_def read_length_def read_full_append)
  qed
qed

lemma read_frame_bytes:
  assumes "frame_ok f" and "length key = 4"
  shows "read_frame (frame_bytes key f @ r) = Ok (f, r)"
proof -
  from assms(1) have op: "fr_opcode f < 16" and len: "length (fr_payload f) \<le> max_frame_bytes"
    by (simp_all add: frame_ok_def)
  from read_length_header [OF len, of "fr_masked f"] obtain b1 t where
    hdr: "frame_header f (fr_masked f) = flag_bits f # b1 # t"
    and b1: "b1 AND 0x80 \<noteq> 0 \<longleftrightarrow> fr_masked f"
    and rl: "\<And>r. read_length b1 (t @ r) = Ok (length (fr_payload f), r)" by blast
  have one: "read_full (Suc 0) (b # s) = Ok ([b], s)" for b s by (simp add: read_full_def)
  show ?thesis
  proof (cases "fr_masked f")
    case True
    have hdr': "frame_header f True = flag_bits f # b1 # t" using hdr True by simp
    from True have "read_full 4 (key @ mask_payload key (fr_payload f) @ r) =
        Ok (key, mask_payload key (fr_payload f) @ r)"
      using assms(2) by (intro read_full_append)
    with True show ?thesis
      using b1 len flag_bits_fields [OF op]
      by (simp add: frame_bytes_def hdr' read_frame_def one rl Let_def
          read_full_append mask_involution)
  next
    case False
    have hdr': "frame_header f False = flag_bits f # b1 # t" using hdr False by simp
    from False show ?thesis
      using b1 len flag_bits_fields [OF op]
      by (simp add: frame_bytes_def hdr' read_frame_def one rl Let_def
          read_full_append)
  qed
qed

lemma read_full_Ok:
  "read_full n s = Ok (a, r) \<longleftrightarrow> s = a @ r \<and> length a = n"
  by (auto simp: read_full_def)

lemma read_length_suffix: "read_length b s = Ok (l, r) \<Longrightarrow> \<exists>c. s = c @ r"
  by (auto simp: read_length_def Let_def go_bind_Ok_iff read_full_Ok split: if_splits)

lemma low_nibble: "(b :: byte) AND 15 < 16"
proof -
  have "b AND 15 \<le> 15" by (rule word_and_le1)
  then show ?thesis by (rule le_less_trans) simp
qed

text \<open>What a successful read guarantees, for any input.\<close>

lemma read_frame_Ok:
  assumes "read_frame s = Ok (f, r)"
  shows "frame_ok f" and "length r < length s" and "\<exists>c. s = c @ r"
  using assms low_nibble
  by (auto simp: read_frame_def frame_ok_def go_bind_Ok_iff read_full_Ok Let_def
      split: if_splits dest!: read_length_suffix)

interpretation frames: stream_codec "\<lambda>k. length k = 4" frame_ok frame_bytes dec_frame
proof unfold_locales
  fix k :: "byte list" and x r
  show "length k = 4 \<Longrightarrow> frame_ok x \<Longrightarrow> dec_frame (frame_bytes k x @ r) = Some (x, r)"
    by (simp add: dec_frame_def read_frame_bytes)
next
  fix s x and r :: "byte list"
  show "dec_frame s = Some (x, r) \<Longrightarrow> length r < length s"
    by (auto simp: dec_frame_def dest: read_frame_Ok split: go.splits)
qed

text \<open>A frame that is written without an error adds its bytes and nothing else.\<close>

lemma write_frame_open:
  assumes "sk_left w = None" and "length (fr_payload f) \<le> max_frame_bytes"
  shows "write_frame (Some k) w f = (w\<lparr>sk_bytes := sk_bytes w @ frame_bytes k f\<rparr>, None)"
  using assms by (simp add: write_frame_def write_frame_raw_def w_write_def frame_bytes_def)

lemma write_frame_server_open:
  assumes "sk_left w = None" and "length (fr_payload f) \<le> max_frame_bytes" and "\<not> fr_masked f"
  shows "write_frame_server w f = (w\<lparr>sk_bytes := sk_bytes w @ frame_bytes [] f\<rparr>, None)"
  using assms by (simp add: write_frame_server_def write_frame_raw_def w_write_def frame_bytes_def)

subsection \<open>Inspection (inspect.go)\<close>

definition is_upgrade :: "request \<Rightarrow> bool" where
  "is_upgrade r \<longleftrightarrow>
     equal_fold (header_get (req_header r) ''Connection'') ''Upgrade'' \<and>
     equal_fold (header_get (req_header r) ''Upgrade'') ''websocket''"

record inspector =
  i_rules :: "engine option"
  i_cfg :: "ws_config option"

definition ws_policies :: "inspector \<Rightarrow> string \<Rightarrow> policy list" where
  "ws_policies i client_ip =
     (case i_cfg i of
        None \<Rightarrow> []
      | Some c \<Rightarrow>
          if \<not> ws_enabled c then []
          else if ws_max_messages_per_min c > 0 then
            [\<lparr>pol_scope = ScopeWSMessage, pol_key = client_ip,
              pol_limit = ws_max_messages_per_min c, pol_window = 60000000000, pol_burst = 0,
              pol_algorithm = ''token_bucket''\<rparr>]
          else [])"

definition ws_reason :: "string \<Rightarrow> string \<Rightarrow> reason" where
  "ws_reason rid msg = no_reason\<lparr>r_module := ''websocket'', r_rule_id := rid, r_message := msg,
                                r_status := 1008\<rparr>"

text \<open>The request a message is inspected as. It has no URL.\<close>

definition message_request :: "string \<Rightarrow> string \<Rightarrow> byte \<Rightarrow> request" where
  "message_request client_ip api_key ftype =
     (let h0 = header_set [] ''Content-Type'' ''application/octet-stream'';
          h1 = (if api_key \<noteq> [] then header_set h0 ''X-Api-Key'' api_key else h0);
          h2 = (if ftype = op_text then header_set h1 ''Content-Type'' ''text/plain'' else h1)
      in \<lparr>req_method = ''POST'', req_url = None, req_proto = [], req_proto_major = 0,
          req_host = [], req_remote = client_ip, req_header = h2, req_body = NilBody,
          req_form = None\<rparr>)"

text \<open>The loop over the policies stops at the first that denies.\<close>

fun first_denied ::
    "'b backend_allow \<Rightarrow> 'b option \<Rightarrow> policy list \<Rightarrow> int \<Rightarrow> 'b option \<times> bool" where
  "first_denied allow l [] now = (l, False)"
| "first_denied allow l (p # ps) now =
     (case limiter_allow allow l p now of
        (l', r) \<Rightarrow> if \<not> allowed r then (l', True) else first_denied allow l' ps now)"

definition inspect_message ::
    "'b backend_allow \<Rightarrow> inspector \<Rightarrow> 'b option \<Rightarrow> int \<Rightarrow> bool \<Rightarrow> string \<Rightarrow> string \<Rightarrow>
     byte list \<Rightarrow> byte \<Rightarrow> (unit, 'b option \<times> reason list \<times> bool) go" where
  "inspect_message allow i l now slow client_ip api_key payload ftype =
     (if (case i_cfg i of None \<Rightarrow> False
          | Some c \<Rightarrow> ws_max_message_bytes c > 0 \<and> int (length payload) > ws_max_message_bytes c)
      then Ok (l, [ws_reason [] ''message exceeds per-message size limit''], False)
      else (case first_denied allow l (ws_policies i client_ip) now of
              (l', True) \<Rightarrow> Ok (l', [ws_reason ''WS-RATE'' ''websocket message rate limit exceeded''], False)
            | (l', False) \<Rightarrow>
                (case i_rules i of
                   None \<Rightarrow> Ok (l', [], True)
                 | Some e \<Rightarrow>
                     go_bind (engine_evaluate e slow (message_request client_ip api_key ftype)
                                (bytes_to_str payload))
                       (\<lambda>(_, res). Ok (l',
                          map (\<lambda>m. ws_reason (m_rule_id m)
                                     (''websocket message matched rule: '' @ m_message m))
                            (res_matches res),
                          \<not> (res_blocked res \<or> res_challenged res))))))"

subsection \<open>The relay (relay.go)\<close>

text \<open>
  One direction of a connection: what is still to be read, the two sinks, the limiter, how
  many frames were read and keys drawn, and the violations reported so far. \<open>now\<close>, \<open>slow\<close>
  and \<open>keys\<close> give the clock, the engine's timeouts and the random keys by frame and draw.
\<close>

record 'b relay =
  rl_in :: "byte list"
  rl_client_out :: sink
  rl_backend_out :: sink
  rl_limiter :: "'b option"
  rl_frames :: nat
  rl_draws :: nat
  rl_violations :: "reason list list"

record 'b relay_env =
  re_allow :: "'b backend_allow"
  re_insp :: "inspector option"
  re_client_ip :: string
  re_api_key :: string
  re_now :: "nat \<Rightarrow> int"
  re_slow :: "nat \<Rightarrow> bool"
  re_keys :: "nat \<Rightarrow> byte list option"

definition close_frame :: "bool \<Rightarrow> frame" where
  "close_frame masked = \<lparr>fr_fin = True, fr_rsv1 = False, fr_rsv2 = False, fr_rsv3 = False,
     fr_opcode = op_close, fr_masked = masked, fr_payload = [0x03, 0xf0]\<rparr>"

definition to_backend :: "'b relay_env \<Rightarrow> 'b relay \<Rightarrow> frame \<Rightarrow> 'b relay \<times> ws_error option" where
  "to_backend env st f =
     (case write_frame (re_keys env (rl_draws st)) (rl_backend_out st) f of
        (w, e) \<Rightarrow> (st\<lparr>rl_backend_out := w,
                     rl_draws := rl_draws st + (if fr_masked f then 1 else 0)\<rparr>, e))"

text \<open>One round of \<open>relayClientToBackend\<close>; \<open>Some e\<close> is the error it returns with.\<close>

definition relay_step :: "'b relay_env \<Rightarrow> 'b relay \<Rightarrow> (unit, 'b relay \<times> ws_error option) go" where
  "relay_step env st =
     (case read_frame (rl_in st) of
        Fail e \<Rightarrow> Ok (st, Some e)
      | Panic \<Rightarrow> Panic
      | Ok (f, rest) \<Rightarrow>
          let st1 = st\<lparr>rl_in := rest, rl_frames := rl_frames st + 1\<rparr> in
          if is_control (fr_opcode f) then Ok (to_backend env st1 f)
          else (case re_insp env of
                  None \<Rightarrow> Ok (to_backend env st1 f)
                | Some i \<Rightarrow>
                    go_bind (inspect_message (re_allow env) i (rl_limiter st1)
                               (re_now env (rl_frames st)) (re_slow env (rl_frames st))
                               (re_client_ip env) (re_api_key env) (fr_payload f) (fr_opcode f))
                      (\<lambda>(l, reasons, ok).
                        let st2 = st1\<lparr>rl_limiter := l\<rparr> in
                        if ok then Ok (to_backend env st2 f)
                        else
                          let st3 = st2\<lparr>rl_violations := rl_violations st2 @ [reasons],
                                       rl_client_out :=
                                         fst (write_frame_server (rl_client_out st2) (close_frame False))\<rparr>
                          in Ok (fst (to_backend env st3 (close_frame True)), Some Rejected))))"

lemma to_backend_in [simp]: "rl_in (fst (to_backend env st f)) = rl_in st"
  by (simp add: to_backend_def split: prod.split)

lemma relay_step_progress:
  "relay_step env st = Ok (st', None) \<Longrightarrow> length (rl_in st') < length (rl_in st)"
proof -
  assume step: "relay_step env st = Ok (st', None)"
  then obtain f rest where r: "read_frame (rl_in st) = Ok (f, rest)"
    by (auto simp: relay_step_def split: go.splits)
  have tb: "rl_in s = rl_in t" if "to_backend env t f = (s, e)" for s t e
    using to_backend_in [of env t f] that by simp
  from step r have "rl_in st' = rest"
    by (auto simp: relay_step_def Let_def go_bind_Ok_iff split: if_splits option.splits
        dest!: tb)
  with read_frame_Ok(2) [OF r] show ?thesis by simp
qed

function relay_client_to_backend ::
    "'b relay_env \<Rightarrow> 'b relay \<Rightarrow> (unit, 'b relay \<times> ws_error) go" where
  "relay_client_to_backend env st =
     (case relay_step env st of
        Ok (st', None) \<Rightarrow> relay_client_to_backend env st'
      | Ok (st', Some e) \<Rightarrow> Ok (st', e)
      | Fail u \<Rightarrow> Fail u
      | Panic \<Rightarrow> Panic)"
  by pat_completeness auto
termination
  by (relation "measure (\<lambda>(env, st). length (rl_in st))") (auto dest: relay_step_progress)

declare relay_client_to_backend.simps [simp del]

text \<open>
  \<open>relayBackendToClient\<close>: the bytes from the backend, the client's sink and the error it
  ends with.
\<close>

function relay_backend_to_client :: "byte list \<Rightarrow> sink \<Rightarrow> sink \<times> ws_error" where
  "relay_backend_to_client s w =
     (case read_frame s of
        Ok (f, rest) \<Rightarrow>
          (case write_frame_server w f of
             (w', Some e) \<Rightarrow> (w', e)
           | (w', None) \<Rightarrow> relay_backend_to_client rest w')
      | Fail e \<Rightarrow> (w, e)
      | Panic \<Rightarrow> (w, EofErr))"
  by pat_completeness auto
termination
  by (relation "measure (\<lambda>(s, w). length s)") (auto dest: read_frame_Ok)

declare relay_backend_to_client.simps [simp del]

subsection \<open>The relay against its specification on frames\<close>

text \<open>
  What the relay promises, on frames instead of bytes: control frames and frames that pass
  inspection go to the backend in order; the first frame that fails is replaced by a close
  frame and ends the session. The result is what the backend gets, the violations reported
  and whether the session was cut.
\<close>

definition inspect_frame ::
    "'b relay_env \<Rightarrow> 'b option \<Rightarrow> nat \<Rightarrow> frame \<Rightarrow> (unit, 'b option \<times> reason list \<times> bool) go" where
  "inspect_frame env l n f =
     (if is_control (fr_opcode f) then Ok (l, [], True)
      else (case re_insp env of
              None \<Rightarrow> Ok (l, [], True)
            | Some i \<Rightarrow> inspect_message (re_allow env) i l (re_now env n) (re_slow env n)
                         (re_client_ip env) (re_api_key env) (fr_payload f) (fr_opcode f)))"

fun relay_frames ::
    "'b relay_env \<Rightarrow> 'b option \<Rightarrow> nat \<Rightarrow> frame list \<Rightarrow>
     (unit, frame list \<times> reason list list \<times> bool) go" where
  "relay_frames env l n [] = Ok ([], [], False)"
| "relay_frames env l n (f # fs) =
     go_bind (inspect_frame env l n f) (\<lambda>(l', reasons, ok).
       if ok then go_bind (relay_frames env l' (n + 1) fs)
                    (\<lambda>(out, viol, rej). Ok (f # out, viol, rej))
       else Ok ([close_frame True], [reasons], True))"

definition keys_ok :: "'b relay_env \<Rightarrow> bool" where
  "keys_ok env \<longleftrightarrow> (\<forall>n. \<exists>k. re_keys env n = Some k \<and> length k = 4)"

definition sinks_open :: "'b relay \<Rightarrow> bool" where
  "sinks_open st \<longleftrightarrow> sk_left (rl_client_out st) = None \<and> sk_left (rl_backend_out st) = None"

lemma frame_ok_close [simp]: "frame_ok (close_frame m)"
  by (simp add: frame_ok_def close_frame_def op_close_def max_frame_bytes_def)

lemma close_frame_simps [simp]:
  "fr_masked (close_frame m) = m" "length (fr_payload (close_frame m)) = 2"
  by (simp_all add: close_frame_def)

lemma to_backend_open:
  assumes "sinks_open st" and "keys_ok env" and "frame_ok f"
  obtains k st' where "to_backend env st f = (st', None)" and "length k = 4" and "sinks_open st'"
    and "sk_bytes (rl_backend_out st') = sk_bytes (rl_backend_out st) @ frame_bytes k f"
    and "rl_client_out st' = rl_client_out st" and "rl_violations st' = rl_violations st"
    and "rl_limiter st' = rl_limiter st" and "rl_frames st' = rl_frames st"
    and "rl_in st' = rl_in st"
proof -
  from assms(2) obtain k where k: "re_keys env (rl_draws st) = Some k" "length k = 4"
    unfolding keys_ok_def by blast
  have "write_frame (Some k) (rl_backend_out st) f =
      ((rl_backend_out st)\<lparr>sk_bytes := sk_bytes (rl_backend_out st) @ frame_bytes k f\<rparr>, None)"
    using assms(1,3) by (intro write_frame_open) (simp_all add: sinks_open_def frame_ok_def)
  with k assms(1) show ?thesis
    by (intro that [of "fst (to_backend env st f)" k])
       (simp_all add: to_backend_def sinks_open_def)
qed

lemma relay_step_cases:
  assumes "read_frame (rl_in st) = Ok (f, rest)"
  shows "relay_step env st =
    (let st1 = st\<lparr>rl_in := rest, rl_frames := rl_frames st + 1\<rparr> in
     go_bind (inspect_frame env (rl_limiter st) (rl_frames st) f) (\<lambda>(l, reasons, ok).
       let st2 = st1\<lparr>rl_limiter := l\<rparr> in
       if ok then Ok (to_backend env st2 f)
       else Ok (fst (to_backend env (st2\<lparr>rl_violations := rl_violations st2 @ [reasons],
                      rl_client_out := fst (write_frame_server (rl_client_out st2) (close_frame False))\<rparr>)
                    (close_frame True)), Some Rejected)))"
  by (auto simp: relay_step_def assms inspect_frame_def Let_def split: option.split
      intro!: arg_cong [of _ _ "go_bind _"])

lemma read_full_no:
  "read_full n s \<noteq> Fail Rejected" "read_full n s \<noteq> Panic"
  by (simp_all add: read_full_def)

lemma read_length_no: "read_length b s \<noteq> Fail Rejected" "read_length b s \<noteq> Panic"
  by (auto simp: read_length_def Let_def go_bind_Fail_iff go_bind_Panic_iff read_full_no)

lemma read_frame_no: "read_frame s \<noteq> Fail Rejected" "read_frame s \<noteq> Panic"
  by (auto simp: read_frame_def Let_def go_bind_Fail_iff go_bind_Panic_iff read_full_no
      read_length_no split: if_splits)

lemma inspect_message_no_fail: "inspect_message allow i l now slow ip key p t \<noteq> Fail u"
proof -
  have cm: "custom_matches rs q b \<noteq> Fail u" for rs q b u
  proof (induction rs arbitrary: q)
    case (Cons r rs)
    have "rule_evaluate r q b \<noteq> Fail v" for v
    proof -
      have "target_values r q b \<noteq> Fail v"
        by (auto simp: target_values_def with_url_def split: option.split)
      then show ?thesis
        by (cases "target_values r q b") (auto simp: rule_evaluate_def match_target_def)
    qed
    moreover have "custom_matches rs q' b \<noteq> Fail v" for q' v using Cons by simp
    ultimately show ?case
      by (cases "rule_evaluate r q b")
         (auto split: prod.splits simp: go_bind_Fail_iff)
  qed simp
  have "engine_evaluate e s q b \<noteq> Fail v" for e s q b v
    using cm [of "e_rules e" q b]
    by (auto simp: engine_evaluate_def evaluate_locked_def go_bind_Fail_iff split: option.split)
  then show ?thesis
    by (auto simp: inspect_message_def go_bind_Fail_iff split: option.splits prod.splits bool.splits)
qed

lemma inspect_frame_no_fail: "inspect_frame env l n f \<noteq> Fail u"
  by (auto simp: inspect_frame_def inspect_message_no_fail split: option.split)

lemma dec_frame_read: "read_frame s = Ok (f, r) \<Longrightarrow> dec_frame s = Some (f, r)"
  by (simp add: dec_frame_def)

lemma relay_refines_frames:
  assumes "keys_ok env" and "sinks_open st"
  shows "case relay_frames env (rl_limiter st) (rl_frames st) (decode_all dec_frame (rl_in st)) of
      Ok (out, viol, rej) \<Rightarrow>
        (\<exists>st' e bs. relay_client_to_backend env st = Ok (st', e) \<and>
           sk_bytes (rl_backend_out st') = sk_bytes (rl_backend_out st) @ bs \<and>
           decode_all dec_frame bs = out \<and>
           rl_violations st' = rl_violations st @ viol \<and> (e = Rejected \<longleftrightarrow> rej) \<and>
           sk_bytes (rl_client_out st') = sk_bytes (rl_client_out st) @
             (if rej then frame_bytes [] (close_frame False) else []))
    | _ \<Rightarrow> relay_client_to_backend env st = Panic"
  using assms(2)
proof (induction "length (rl_in st)" arbitrary: st rule: less_induct)
  case less
  show ?case
  proof (cases "read_frame (rl_in st)")
    case (Fail e)
    have "decode_all dec_frame (rl_in st) = []"
      by (rule frames.decode_all_None) (simp add: dec_frame_def Fail)
    moreover have "relay_client_to_backend env st = Ok (st, e)"
      by (subst relay_client_to_backend.simps) (simp add: relay_step_def Fail)
    moreover have "e \<noteq> Rejected" using read_frame_no(1) [of "rl_in st"] Fail by auto
    moreover have "decode_all dec_frame [] = []" by (simp add: decode_all_def)
    ultimately show ?thesis by simp
  next
    case Panic
    then show ?thesis using read_frame_no(2) by simp
  next
    case (Ok p)
    obtain f rest where p: "p = (f, rest)" by (cases p)
    note rd = Ok [unfolded p]
    have dec: "decode_all dec_frame (rl_in st) = f # decode_all dec_frame rest"
      by (rule frames.decode_all_Cons [OF dec_frame_read [OF rd]])
    let ?st1 = "st\<lparr>rl_in := rest, rl_frames := rl_frames st + 1\<rparr>"
    show ?thesis
    proof (cases "inspect_frame env (rl_limiter st) (rl_frames st) f")
      case (Fail u)
      then show ?thesis by (simp add: inspect_frame_no_fail)
    next
      case Panic
      then show ?thesis
        by (simp add: dec relay_client_to_backend.simps [of env st] relay_step_cases [OF rd] Let_def)
    next
      case (Ok q)
      obtain l reasons ok where q: "q = (l, reasons, ok)" by (cases q)
      note insp = Ok [unfolded q]
      show ?thesis
      proof (cases ok)
        case True
        let ?st2 = "?st1\<lparr>rl_limiter := l\<rparr>"
        have "sinks_open ?st2" using less.prems by (simp add: sinks_open_def)
        from to_backend_open [OF this assms(1) read_frame_Ok(1) [OF rd]] obtain k st' where
          tb: "to_backend env ?st2 f = (st', None)" and k: "length k = 4" and open': "sinks_open st'"
          and bs: "sk_bytes (rl_backend_out st') = sk_bytes (rl_backend_out ?st2) @ frame_bytes k f"
          and same: "rl_client_out st' = rl_client_out ?st2" "rl_violations st' = rl_violations ?st2"
            "rl_limiter st' = rl_limiter ?st2" "rl_frames st' = rl_frames ?st2"
            "rl_in st' = rl_in ?st2" by blast
        have step: "relay_client_to_backend env st = relay_client_to_backend env st'"
          by (simp add: relay_client_to_backend.simps [of env st] relay_step_cases [OF rd]
              insp True Let_def tb [simplified])
        have "length (rl_in st') < length (rl_in st)"
          using read_frame_Ok(2) [OF rd] by (simp add: same)
        note IH = less.hyps [OF this open']
        note all = frames.decode_all_enc [OF k read_frame_Ok(1) [OF rd]]
        show ?thesis
        proof (cases "relay_frames env l (rl_frames st + 1) (decode_all dec_frame rest)")
          case (Ok y)
          obtain out viol rej where y: "y = (out, viol, rej)" by (cases y)
          from IH Ok y obtain st'' e bs' where
            r: "relay_client_to_backend env st' = Ok (st'', e)"
            and b: "sk_bytes (rl_backend_out st'') =
                (sk_bytes (rl_backend_out st) @ frame_bytes k f) @ bs'"
            and d: "decode_all dec_frame bs' = out"
            and v: "rl_violations st'' = rl_violations st @ viol" "e = Rejected \<longleftrightarrow> rej"
              "sk_bytes (rl_client_out st'') = sk_bytes (rl_client_out st) @
                     (if rej then frame_bytes [] (close_frame False) else [])"
            by (auto simp: same bs)
          show ?thesis
            using Ok y r b all [of bs'] d v
            by (auto simp: dec insp True step)
        next
          case (Fail u)
          with IH show ?thesis by (simp add: dec insp True step same)
        next
          case Panic
          with IH show ?thesis by (simp add: dec insp True step same)
        qed
      next
        case False
        let ?st3 = "?st1\<lparr>rl_limiter := l, rl_violations := rl_violations st @ [reasons],
            rl_client_out := fst (write_frame_server (rl_client_out st) (close_frame False))\<rparr>"
        have cl: "write_frame_server (rl_client_out st) (close_frame False) =
            ((rl_client_out st)\<lparr>sk_bytes := sk_bytes (rl_client_out st) @
               frame_bytes [] (close_frame False)\<rparr>, None)"
          using less.prems
          by (intro write_frame_server_open) (simp_all add: sinks_open_def max_frame_bytes_def)
        have "sinks_open ?st3" using less.prems by (simp add: sinks_open_def cl)
        from to_backend_open [OF this assms(1) frame_ok_close] obtain k st' where
          tb: "to_backend env ?st3 (close_frame True) = (st', None)" and k: "length k = 4"
          and bs: "sk_bytes (rl_backend_out st') =
            sk_bytes (rl_backend_out ?st3) @ frame_bytes k (close_frame True)"
          and same: "rl_client_out st' = rl_client_out ?st3" "rl_violations st' = rl_violations ?st3"
          by blast
        have step: "relay_client_to_backend env st = Ok (st', Rejected)"
          by (simp add: relay_client_to_backend.simps [of env st] relay_step_cases [OF rd]
              insp False Let_def tb [simplified])
        have "decode_all dec_frame (frame_bytes k (close_frame True)) = [close_frame True]"
          using frames.decode_all_enc [OF k frame_ok_close, of True "[]"]
          by (simp add: decode_all_def)
        then show ?thesis
          by (simp add: dec insp False step same bs cl)
      qed
    qed
  qed
qed

subsection \<open>Properties\<close>

definition fresh_sink :: sink where
  "fresh_sink = \<lparr>sk_bytes = [], sk_left = None\<rparr>"

text \<open>
  C32. Frame codec round trip: a frame with a four-bit opcode and at most 16 MiB of payload
  that is written, masked with any key or unmasked, is read back exactly, and the bytes
  behind it stay unread.
\<close>

theorem ws_frame_roundtrip:
  assumes "frame_ok f" and "length key = 4"
  shows "\<exists>w. write_frame (Some key) fresh_sink f = (w, None) \<and>
           read_frame (sk_bytes w @ rest) = Ok (f, rest)"
  using write_frame_open [of fresh_sink f key] read_frame_bytes [OF assms] assms(1)
  by (simp add: fresh_sink_def frame_ok_def)

theorem ws_frame_roundtrip_witness:
  "\<exists>w. write_frame (Some [1, 2, 3, 4]) fresh_sink (text_frame [72, 105]) = (w, None) \<and>
     read_frame (sk_bytes w @ [7]) = Ok (text_frame [72, 105], [7])"
  by (rule ws_frame_roundtrip)
     (simp_all add: frame_ok_def text_frame_def op_text_def max_frame_bytes_def)

text \<open>
  Reading a frame from any peer is bounded and never panics: a frame that is returned
  has at most 16 MiB of payload and a four-bit opcode, consumed at least one byte, and left
  the rest of the stream in place.
\<close>

theorem ws_read_frame_bounded:
  "read_frame s \<noteq> Panic \<and>
   (\<forall>f r. read_frame s = Ok (f, r) \<longrightarrow>
      length (fr_payload f) \<le> 16777216 \<and> fr_opcode f < 16 \<and> length r < length s \<and>
      (\<exists>c. s = c @ r))"
  using read_frame_no(2) [of s] read_frame_Ok [of s]
  by (auto simp: frame_ok_def max_frame_bytes_def)

lemma text_frame_ok: "length bs \<le> 16777216 \<Longrightarrow> frame_ok (text_frame bs)"
  by (simp add: frame_ok_def text_frame_def op_text_def max_frame_bytes_def)

theorem ws_read_frame_bounded_witness:
  "read_frame (frame_bytes [1, 2, 3, 4] (text_frame [72, 105]) @ [9]) = Ok (text_frame [72, 105], [9]) \<and>
   length ([9] :: byte list) < length (frame_bytes [1, 2, 3, 4] (text_frame [72, 105]) @ [9])"
proof
  show r: "read_frame (frame_bytes [1, 2, 3, 4] (text_frame [72, 105]) @ [9])
      = Ok (text_frame [72, 105], [9])"
    by (rule read_frame_bytes) (simp_all add: text_frame_ok)
  show "length ([9] :: byte list) < length (frame_bytes [1, 2, 3, 4] (text_frame [72, 105]) @ [9])"
    using ws_read_frame_bounded [of "frame_bytes [1, 2, 3, 4] (text_frame [72, 105]) @ [9]"] r by blast
qed

text \<open>
  The relay lets nothing uninspected through: whatever bytes the client sends, what the
  backend decodes is the client's own frames, unchanged and in order, up to the first data
  frame that fails inspection; that frame and everything after it is replaced by one masked
  close frame, the client gets an unmasked close frame, the violation is reported, and the
  relay ends with the rejection error exactly in that case.
\<close>

theorem relay_forwards_only_inspected:
  assumes "keys_ok env" and "rl_in st = stream" and "rl_client_out st = fresh_sink"
    and "rl_backend_out st = fresh_sink"
    and "relay_frames env (rl_limiter st) (rl_frames st) (decode_all dec_frame stream)
           = Ok (out, viol, rej)"
  shows "\<exists>st' e. relay_client_to_backend env st = Ok (st', e) \<and>
           decode_all dec_frame (sk_bytes (rl_backend_out st')) = out \<and>
           rl_violations st' = rl_violations st @ viol \<and> (e = Rejected \<longleftrightarrow> rej) \<and>
           decode_all dec_frame (sk_bytes (rl_client_out st')) =
             (if rej then [close_frame False] else [])"
proof -
  have "sinks_open st" using assms(3,4) by (simp add: sinks_open_def fresh_sink_def)
  from relay_refines_frames [OF assms(1) this, unfolded assms(2-5) go.case prod.case]
  obtain st' e bs where 0: "relay_client_to_backend env st = Ok (st', e)"
    "sk_bytes (rl_backend_out st') = sk_bytes fresh_sink @ bs" "decode_all dec_frame bs = out"
    "rl_violations st' = rl_violations st @ viol" "e = Rejected \<longleftrightarrow> rej"
    "sk_bytes (rl_client_out st') =
       sk_bytes fresh_sink @ (if rej then frame_bytes [] (close_frame False) else [])" by blast
  have "sk_bytes fresh_sink = []" by (simp add: fresh_sink_def)
  with 0 have 1: "relay_client_to_backend env st = Ok (st', e)"
    "decode_all dec_frame (sk_bytes (rl_backend_out st')) = out"
    "rl_violations st' = rl_violations st @ viol" "e = Rejected \<longleftrightarrow> rej"
    "sk_bytes (rl_client_out st') = (if rej then frame_bytes [] (close_frame False) else [])"
    by simp_all
  moreover have "frame_bytes [] (close_frame False) = frame_bytes [0, 0, 0, 0] (close_frame False)"
    by (simp add: frame_bytes_def)
  moreover have "decode_all dec_frame (frame_bytes [0, 0, 0, 0] (close_frame False)) = [close_frame False]"
    using frames.decode_all_enc [of "[0, 0, 0, 0]" "close_frame False" "[]"]
    by (simp add: decode_all_def)
  moreover have "decode_all dec_frame [] = []" by (simp add: decode_all_def)
  ultimately show ?thesis by (cases rej) auto
qed

definition demo_env :: "mem_backend relay_env" where
  "demo_env = \<lparr>re_allow = mem_allow False,
     re_insp = Some \<lparr>i_rules = None, i_cfg = Some \<lparr>ws_enabled = True, ws_max_messages_per_min = 0,
                                                  ws_max_message_bytes = 2\<rparr>\<rparr>,
     re_client_ip = ''10.0.0.1'', re_api_key = [], re_now = (\<lambda>_. 0), re_slow = (\<lambda>_. False),
     re_keys = (\<lambda>_. Some [1, 2, 3, 4])\<rparr>"

definition demo_relay :: "byte list \<Rightarrow> mem_backend relay" where
  "demo_relay s = \<lparr>rl_in = s, rl_client_out = fresh_sink, rl_backend_out = fresh_sink,
     rl_limiter = None, rl_frames = 0, rl_draws = 0, rl_violations = []\<rparr>"

lemma demo_env_keys: "keys_ok demo_env"
  by (simp add: keys_ok_def demo_env_def)

lemma demo_relay_simps:
  "rl_in (demo_relay s) = s" "rl_client_out (demo_relay s) = fresh_sink"
  "rl_backend_out (demo_relay s) = fresh_sink" "rl_limiter (demo_relay s) = None"
  "rl_frames (demo_relay s) = 0"
  by (simp_all add: demo_relay_def)

text \<open>A short message, then one that is too long for the configured limit.\<close>

definition demo_stream :: "byte list" where
  "demo_stream = frame_bytes [9, 9, 9, 9] (text_frame [72]) @
     frame_bytes [1, 2, 3, 4] (text_frame [1, 2, 3]) @ frame_bytes [7, 7, 7, 7] (text_frame [73])"

lemma demo_stream_frames:
  "decode_all dec_frame demo_stream = [text_frame [72], text_frame [1, 2, 3], text_frame [73]]"
  using frames.decode_all_enc [of "[7, 7, 7, 7]" "text_frame [73]" "[]"]
  by (simp add: demo_stream_def frames.decode_all_enc text_frame_ok) (simp add: decode_all_def)

lemma text_not_control [simp]: "\<not> is_control 1"
  by (simp add: is_control_def word_le_nat_alt)

theorem relay_forwards_only_inspected_witness:
  "\<exists>st' e. relay_client_to_backend demo_env (demo_relay demo_stream) = Ok (st', e) \<and>
     decode_all dec_frame (sk_bytes (rl_backend_out st')) = [text_frame [72], close_frame True] \<and>
     e = Rejected"
proof -
  have r: "relay_frames demo_env (rl_limiter (demo_relay demo_stream))
      (rl_frames (demo_relay demo_stream)) (decode_all dec_frame demo_stream) =
      Ok ([text_frame [72], close_frame True],
          [[ws_reason [] ''message exceeds per-message size limit'']], True)"
    by (simp add: demo_stream_frames inspect_frame_def demo_env_def text_frame_def op_text_def
        inspect_message_def ws_policies_def demo_relay_simps)
  from relay_forwards_only_inspected [OF demo_env_keys demo_relay_simps(1-3) r]
  show ?thesis by blast
qed

text \<open>
  The upgrade test compares the whole \<open>Connection\<close> header, so the token list that browsers
  such as Firefox send is not recognised as a WebSocket upgrade.
\<close>

lemma upgrade_token_list_missed:
  "\<not> is_upgrade (q\<lparr>req_header := [(''Connection'', [''keep-alive, Upgrade'']), (''Upgrade'', [''websocket''])]\<rparr>)"
proof -
  have "\<not> equal_fold (header_get [(''Connection'', [''keep-alive, Upgrade'']), (''Upgrade'', [''websocket''])]
            ''Connection'') ''Upgrade''" by code_simp
  then show ?thesis by (simp add: is_upgrade_def)
qed

end
