(* ===== verification/Fingerprint.thy ===== *)
theory Fingerprint
  imports Http "HOL-Library.List_Lexorder" "HOL-Library.Multiset"
begin

text \<open>
  Package fingerprint: the ClientHello parser and the JA4/JA3 fingerprints (ja4.go), the
  HTTP/2 heuristic (h2fp.go), and the connection wrapper that peeks at the hello and
  replays it (capture.go). SHA-256 and MD5 are arguments, functions from bytes to digests.
  An index beyond the packet is a \<open>Panic\<close>. \<open>sort\<close> on strings is bytewise, as
  \<open>sort.Strings\<close>.
\<close>

subsection \<open>The ClientHello (ja4.go)\<close>

type_synonym u16 = "16 word"

definition u16_of :: "byte \<Rightarrow> byte \<Rightarrow> u16" where
  "u16_of hi lo = word_of_nat (unat hi * 256 + unat lo)"

definition len16 :: "byte \<Rightarrow> byte \<Rightarrow> nat" where
  "len16 hi lo = unat hi * 256 + unat lo"

definition is_grease :: "u16 \<Rightarrow> bool" where
  "is_grease v \<longleftrightarrow> and v 0x0f0f = 0x0a0a"

record tls_ext =
  ext_type :: u16
  ext_bytes :: "byte list"

record client_hello =
  ch_legacy_version :: u16
  ch_record_version :: u16
  ch_ciphers :: "u16 list"
  ch_extensions :: "u16 list"
  ch_extensions_raw :: "tls_ext list"
  ch_supported_versions :: "u16 list"
  ch_groups :: "u16 list"
  ch_point_formats :: "byte list"
  ch_sigalgs :: "u16 list"
  ch_alpn :: "string list"
  ch_sni :: bool

datatype hello_error = PacketTooShort | NotHandshake | TruncatedRecord | NotClientHello
  | TruncatedSession | TruncatedCiphers

definition ext_data :: "client_hello \<Rightarrow> u16 \<Rightarrow> byte list option" where
  "ext_data c t = map_option ext_bytes (find (\<lambda>e. ext_type e = t) (ch_extensions_raw c))"

definition byte_at :: "byte list \<Rightarrow> nat \<Rightarrow> (hello_error, byte) go" where
  "byte_at pkt i = (if i < length pkt then Ok (pkt ! i) else Panic)"

text \<open>The pairs of bytes of a list; an odd byte at the end is left over.\<close>

fun u16s :: "byte list \<Rightarrow> u16 list" where
  "u16s (a # b # r) = u16_of a b # u16s r"
| "u16s _ = []"

text \<open>The loop over the extensions, on the bytes of the extension block.\<close>

function parse_exts :: "byte list \<Rightarrow> tls_ext list" where
  "parse_exts s =
     (case s of
        a # b # c # d # r \<Rightarrow>
          (let n = len16 c d in
           if n \<le> length r
           then \<lparr>ext_type = u16_of a b, ext_bytes = take n r\<rparr> # parse_exts (drop n r)
           else [])
      | _ \<Rightarrow> [])"
  by pat_completeness auto
termination
  by (relation "measure length") auto

declare parse_exts.simps [simp del]

text \<open>The list of protocol names; \<open>n\<close> bytes of it are left according to its length field.\<close>

function alpn_names :: "nat \<Rightarrow> byte list \<Rightarrow> string list" where
  "alpn_names n s =
     (case s of
        [] \<Rightarrow> []
      | l # r \<Rightarrow>
          if n = 0 then []
          else (if unat l \<le> length r then [bytes_to_str (take (unat l) r)] else []) @
               alpn_names (n - 1 - unat l) (drop (unat l) r))"
  by pat_completeness auto
termination
  by (relation "measure (\<lambda>(n, s). length s)") auto

declare alpn_names.simps [simp del]

definition no_grease :: "u16 list \<Rightarrow> u16 list" where
  "no_grease vs = filter (\<lambda>v. \<not> is_grease v) vs"

text \<open>A list of two-byte values behind a two-byte length.\<close>

definition prefixed_u16s :: "byte list \<Rightarrow> u16 list" where
  "prefixed_u16s d =
     (case d of a # b # r \<Rightarrow> u16s (take (len16 a b) r) | _ \<Rightarrow> [])"

definition parse_versions :: "byte list \<Rightarrow> u16 list" where
  "parse_versions d =
     (case d of
        [] \<Rightarrow> []
      | n # r \<Rightarrow>
          if unat n = length d - 1 \<and> even (unat n) then no_grease (u16s r)
          else if length d \<ge> 3 then no_grease (prefixed_u16s d)
          else [])"

definition parse_points :: "byte list \<Rightarrow> byte list" where
  "parse_points d = (case d of [] \<Rightarrow> [] | n # r \<Rightarrow> take (unat n) r)"

definition parse_alpn :: "byte list \<Rightarrow> string list" where
  "parse_alpn d = (case d of a # b # r \<Rightarrow> alpn_names (len16 a b) r | _ \<Rightarrow> [])"

definition ext_list :: "client_hello \<Rightarrow> u16 \<Rightarrow> (byte list \<Rightarrow> 'a list) \<Rightarrow> 'a list" where
  "ext_list c t f = (case ext_data c t of None \<Rightarrow> [] | Some d \<Rightarrow> f d)"

definition parse_extensions :: "client_hello \<Rightarrow> client_hello" where
  "parse_extensions c =
     c\<lparr>ch_sni := (case ext_data c 0x0000 of None \<Rightarrow> False | Some d \<Rightarrow> d \<noteq> []),
       ch_alpn := ext_list c 0x0010 parse_alpn,
       ch_supported_versions := ext_list c 0x002b parse_versions,
       ch_sigalgs := ext_list c 0x000d prefixed_u16s,
       ch_groups := ext_list c 0x000a (\<lambda>d. no_grease (prefixed_u16s d)),
       ch_point_formats := ext_list c 0x000b parse_points\<rparr>"

definition empty_hello :: client_hello where
  "empty_hello = \<lparr>ch_legacy_version = 0, ch_record_version = 0, ch_ciphers = [],
     ch_extensions = [], ch_extensions_raw = [], ch_supported_versions = [], ch_groups = [],
     ch_point_formats = [], ch_sigalgs = [], ch_alpn = [], ch_sni = False\<rparr>"

text \<open>The part after the cipher suites; short input is not an error here.\<close>

definition parse_tail :: "client_hello \<Rightarrow> byte list \<Rightarrow> nat \<Rightarrow> client_hello" where
  "parse_tail ch pkt off =
     (if off \<ge> length pkt then ch
      else
        let off1 = off + 1 + unat (pkt ! off) in
        if off1 + 2 > length pkt then ch
        else
          let off2 = off1 + 2;
              end' = min (off2 + len16 (pkt ! off1) (pkt ! (off1 + 1))) (length pkt);
              exts = parse_exts (take (end' - off2) (drop off2 pkt))
          in parse_extensions
               (ch\<lparr>ch_extensions_raw := exts,
                   ch_extensions := no_grease (map ext_type exts)\<rparr>))"

definition parse_client_hello :: "byte list \<Rightarrow> (hello_error, client_hello) go" where
  "parse_client_hello pkt =
     (if length pkt < 9 then Fail PacketTooShort
      else if pkt ! 0 \<noteq> 0x16 then Fail NotHandshake
      else if length pkt < 5 + len16 (pkt ! 3) (pkt ! 4) then Fail TruncatedRecord
      else if pkt ! 5 \<noteq> 0x01 then Fail NotClientHello
      else
        go_bind (byte_at pkt 9) (\<lambda>v1.
        go_bind (byte_at pkt 10) (\<lambda>v2.
        go_bind (byte_at pkt 43) (\<lambda>sid.
          let off = 44 + unat sid in
          if off + 2 > length pkt then Fail TruncatedSession
          else
            let cs = len16 (pkt ! off) (pkt ! (off + 1)); off' = off + 2 in
            if off' + cs > length pkt then Fail TruncatedCiphers
            else Ok (parse_tail
                   (empty_hello\<lparr>ch_record_version := u16_of (pkt ! 1) (pkt ! 2),
                                ch_legacy_version := u16_of v1 v2,
                                ch_ciphers := no_grease (u16s (take cs (drop off' pkt)))\<rparr>)
                   pkt (off' + cs))))))"

subsection \<open>JA4 and JA3 (ja4.go)\<close>

definition hex4 :: "u16 \<Rightarrow> string" where
  "hex4 v = hex_byte (word_of_nat (unat v div 256)) @ hex_byte (word_of_nat (unat v))"

definition version_to_ja4 :: "u16 \<Rightarrow> string" where
  "version_to_ja4 v =
     (if v = 0x0304 then ''13'' else if v = 0x0303 then ''12'' else if v = 0x0302 then ''11''
      else if v = 0x0301 then ''10'' else if v = 0x0300 then ''s3'' else if v = 0x0002 then ''s2''
      else if v = 0xfeff then ''d1'' else if v = 0xfefd then ''d2'' else if v = 0xfefc then ''d3''
      else ''00'')"

definition tls_version_string :: "client_hello \<Rightarrow> string" where
  "tls_version_string c =
     (if ch_supported_versions c \<noteq> [] then version_to_ja4 (foldl max 0 (ch_supported_versions c))
      else version_to_ja4 (ch_legacy_version c))"

text \<open>\<open>%02d\<close>, capped at 99.\<close>

definition count_str :: "nat \<Rightarrow> string" where
  "count_str n =
     (if n > 99 then ''99''
      else if n < 10 then CHR ''0'' # show_nat n else show_nat n)"

definition is_alnum :: "char \<Rightarrow> bool" where
  "is_alnum c \<longleftrightarrow>
     (48 \<le> (of_char c :: nat) \<and> (of_char c :: nat) \<le> 57) \<or>
     (65 \<le> (of_char c :: nat) \<and> (of_char c :: nat) \<le> 90) \<or>
     (97 \<le> (of_char c :: nat) \<and> (of_char c :: nat) \<le> 122)"

definition alpn_pair :: "client_hello \<Rightarrow> string" where
  "alpn_pair c =
     (case ch_alpn c of
        [] \<Rightarrow> ''00''
      | first # _ \<Rightarrow>
          if first = [] then ''00''
          else if length first = 1 then
            (if is_alnum (hd first) then [hd first, hd first]
             else hex_encode (str_to_bytes first) @ hex_encode (str_to_bytes first))
          else if is_alnum (hd first) \<and> is_alnum (last first) then [hd first, last first]
          else [hd (hex_encode (str_to_bytes first)), last (hex_encode (str_to_bytes first))])"

type_synonym hash = "byte list \<Rightarrow> byte list"

definition hash12 :: "hash \<Rightarrow> string \<Rightarrow> string" where
  "hash12 sha s = hex_encode (take 6 (sha (str_to_bytes s)))"

definition sorted_ciphers :: "client_hello \<Rightarrow> string list" where
  "sorted_ciphers c = sort (map hex4 (ch_ciphers c))"

definition sorted_exts :: "client_hello \<Rightarrow> string list" where
  "sorted_exts c = sort (map hex4 (filter (\<lambda>v. v \<noteq> 0x0000 \<and> v \<noteq> 0x0010) (ch_extensions c)))"

definition ja4_a :: "client_hello \<Rightarrow> string" where
  "ja4_a c =
     ''t'' @ tls_version_string c @ (if ch_sni c then ''d'' else ''i'') @
     count_str (length (ch_ciphers c)) @ count_str (length (ch_extensions c)) @ alpn_pair c"

definition ja4_b :: "hash \<Rightarrow> client_hello \<Rightarrow> string" where
  "ja4_b sha c =
     (if sorted_ciphers c = [] then ''000000000000''
      else hash12 sha (join_with '','' (sorted_ciphers c)))"

definition ja4_c :: "hash \<Rightarrow> client_hello \<Rightarrow> string" where
  "ja4_c sha c =
     (if sorted_exts c = [] then ''000000000000''
      else hash12 sha (join_with '','' (sorted_exts c) @
             (if ch_sigalgs c \<noteq> []
              then ''_'' @ join_with '','' (map hex4 (ch_sigalgs c)) else [])))"

definition ja4 :: "hash \<Rightarrow> client_hello \<Rightarrow> string" where
  "ja4 sha c = ja4_a c @ ''_'' @ ja4_b sha c @ ''_'' @ ja4_c sha c"

definition ja4_raw :: "client_hello \<Rightarrow> string" where
  "ja4_raw c =
     tls_version_string c @ ''_'' @ join_with '','' (sorted_ciphers c) @ ''_'' @
     join_with '','' (sorted_exts c) @ ''_'' @ join_with '','' (map hex4 (ch_sigalgs c))"

definition dec16 :: "u16 \<Rightarrow> string" where
  "dec16 v = show_nat (unat v)"

definition ja3_input :: "client_hello \<Rightarrow> string" where
  "ja3_input c =
     join_with '','' [dec16 (ch_legacy_version c), join_with '','' (map dec16 (ch_ciphers c)),
                     join_with '','' (map dec16 (ch_extensions c)),
                     join_with '','' (map dec16 (ch_groups c)),
                     join_with '','' (map (\<lambda>p. show_nat (unat p)) (ch_point_formats c))]"

definition ja3 :: "hash \<Rightarrow> client_hello \<Rightarrow> string" where
  "ja3 md5 c = hex_encode (md5 (str_to_bytes (ja3_input c)))"

subsection \<open>The HTTP/2 heuristic (h2fp.go)\<close>

definition string_key :: "hash \<Rightarrow> string \<Rightarrow> string" where
  "string_key sha s = hex_encode (take 4 (sha (str_to_bytes (take 48 s))))"

definition h2_features :: "hash \<Rightarrow> request \<Rightarrow> string list" where
  "h2_features sha r =
     (if has_prefix (req_proto r) ''HTTP/2'' then [''h2''] else []) @
     concat (map (\<lambda>k. let v = header_get (req_header r) k in
                      if v \<noteq> [] then [k @ ''='' @ string_key sha v] else [])
        [''User-Agent'', ''Accept'', ''Accept-Language'', ''Accept-Encoding'']) @
     (if header_get (req_header r) ''Sec-Fetch-Site'' \<noteq> [] then [''sec-fetch''] else []) @
     (if header_get (req_header r) ''Priority'' \<noteq> [] then [''priority''] else []) @
     (if header_get (req_header r) ''Origin'' \<noteq> [] then [''origin''] else [])"

definition compute_h2 :: "hash \<Rightarrow> request \<Rightarrow> string \<Rightarrow> string" where
  "compute_h2 sha r alpn =
     ''h2fp_'' @ hex_encode (take 8 (sha (str_to_bytes
       (join_with ''|'' ([alpn, req_proto r] @ sort (h2_features sha r))))))"

subsection \<open>Capturing the hello (capture.go)\<close>

text \<open>
  A buffered reader over a connection: the bytes buffered and those the peer will still
  send. \<open>Peek\<close> fills the buffer, never consumes, and fails at the end of the stream or
  beyond the default buffer size of 4096 bytes, which it then has filled.
\<close>

record conn =
  cn_buffered :: "byte list"
  cn_incoming :: "byte list"
  cn_hello :: "client_hello option"

definition peek :: "conn \<Rightarrow> nat \<Rightarrow> conn \<times> byte list option" where
  "peek c n =
     (let need = min n 4096 - length (cn_buffered c);
          c' = c\<lparr>cn_buffered := cn_buffered c @ take need (cn_incoming c),
                 cn_incoming := drop need (cn_incoming c)\<rparr>
      in if n \<le> 4096 \<and> n \<le> length (cn_buffered c') then (c', Some (take n (cn_buffered c'))) else (c', None))"

definition conn_capture :: "conn \<Rightarrow> (hello_error, conn \<times> client_hello option) go" where
  "conn_capture c =
     (case peek c 5 of
        (c1, None) \<Rightarrow> Ok (c1, None)
      | (c1, Some h) \<Rightarrow>
          if h ! 0 \<noteq> 0x16 then Ok (c1, None)
          else
            let n = len16 (h ! 3) (h ! 4) in
            if n = 0 \<or> n > 1048576 then Ok (c1, None)
            else (case peek c1 (5 + n) of
                    (c2, None) \<Rightarrow> Ok (c2, None)
                  | (c2, Some full) \<Rightarrow>
                      (case parse_client_hello full of
                         Ok ch \<Rightarrow> Ok (c2, Some ch)
                       | Fail _ \<Rightarrow> Ok (c2, None)
                       | Panic \<Rightarrow> Panic)))"

definition wrap_conn :: "byte list \<Rightarrow> (hello_error, conn) go" where
  "wrap_conn stream =
     go_bind (conn_capture \<lparr>cn_buffered = [], cn_incoming = stream, cn_hello = None\<rparr>)
       (\<lambda>(c, h). Ok (c\<lparr>cn_hello := h\<rparr>))"

text \<open>\<open>Read\<close> with room for n bytes: what is buffered first, then the connection.\<close>

definition conn_read :: "conn \<Rightarrow> nat \<Rightarrow> conn \<times> byte list" where
  "conn_read c n =
     (if cn_buffered c \<noteq> []
      then (c\<lparr>cn_buffered := drop n (cn_buffered c)\<rparr>, take n (cn_buffered c))
      else (c\<lparr>cn_incoming := drop n (cn_incoming c)\<rparr>, take n (cn_incoming c)))"

definition conn_stream :: "conn \<Rightarrow> byte list" where
  "conn_stream c = cn_buffered c @ cn_incoming c"

fun read_chunks :: "conn \<Rightarrow> nat list \<Rightarrow> conn \<times> byte list" where
  "read_chunks c [] = (c, [])"
| "read_chunks c (n # ns) =
     (case conn_read c n of (c', bs) \<Rightarrow> case read_chunks c' ns of (c'', bs') \<Rightarrow> (c'', bs @ bs'))"

subsection \<open>Lemmas\<close>

lemma length_hex4 [simp]: "length (hex4 v) = 4"
  by (simp add: hex4_def hex_byte_def)

lemma length_hash12: "length (sha (str_to_bytes s)) = 32 \<Longrightarrow> length (hash12 sha s) = 12"
  by (simp add: hash12_def)

lemma hash12_hex: "c \<in> set (hash12 sha s) \<Longrightarrow> is_lower_hex c"
  unfolding hash12_def by (rule hex_encode_hex)

lemma length_count_str [simp]: "length (count_str n) = 2"
proof -
  have "length (show_nat n) = 2" if "\<not> n < 10" "n \<le> 99"
    using that less_mult_imp_div_less [of n 10 10]
    by (simp add: show_nat.simps [of n] show_nat.simps [of "n div 10"])
  moreover have "length (show_nat n) = 1" if "n < 10"
    using that by (simp add: show_nat.simps [of n])
  ultimately show ?thesis by (auto simp: count_str_def)
qed

lemma length_tls_version [simp]: "length (tls_version_string c) = 2"
  by (simp add: tls_version_string_def version_to_ja4_def)

text \<open>The protocol name of a hello, if any, is printable in two characters.\<close>

definition plain_alpn :: "client_hello \<Rightarrow> bool" where
  "plain_alpn c \<longleftrightarrow>
     (case ch_alpn c of [] \<Rightarrow> True | first # _ \<Rightarrow> length first = 1 \<longrightarrow> is_alnum (hd first))"

lemma length_alpn_pair: "length (alpn_pair c) = (if plain_alpn c then 2 else 4)"
  by (auto simp: alpn_pair_def plain_alpn_def str_to_bytes_def split: list.split)

lemma length_ja4_a: "plain_alpn c \<Longrightarrow> length (ja4_a c) = 10"
  by (simp add: ja4_a_def length_alpn_pair)

lemma ja4_b_shape:
  assumes "\<And>x. length (sha x) = 32"
  shows "length (ja4_b sha c) = 12" and "list_all is_lower_hex (ja4_b sha c)"
proof -
  have z: "is_lower_hex (CHR ''0'')" by code_simp
  show "length (ja4_b sha c) = 12" by (simp add: ja4_b_def length_hash12 assms)
  show "list_all is_lower_hex (ja4_b sha c)"
    using z by (auto simp: ja4_b_def list_all_iff dest: hash12_hex)
qed

lemma ja4_c_shape:
  assumes "\<And>x. length (sha x) = 32"
  shows "length (ja4_c sha c) = 12" and "list_all is_lower_hex (ja4_c sha c)"
proof -
  have z: "is_lower_hex (CHR ''0'')" by code_simp
  show "length (ja4_c sha c) = 12" by (simp add: ja4_c_def length_hash12 assms)
  show "list_all is_lower_hex (ja4_c sha c)"
    using z by (auto simp: ja4_c_def list_all_iff dest: hash12_hex)
qed

lemma sort_map_perm: "mset xs = mset ys \<Longrightarrow> sort (map hex4 xs) = sort (map hex4 ys)"
  by (rule properties_for_sort) (simp_all add: mset_map)

lemma foldl_max_Max16: "foldl max (b :: u16) xs = Max (set (b # xs))"
proof (induction xs arbitrary: b)
  case Nil
  then show ?case by simp
next
  case (Cons x xs)
  show ?case by (cases "set xs = {}") (simp_all add: Cons max.assoc)
qed

lemma byte_at_simps:
  "byte_at pkt i = Panic \<longleftrightarrow> length pkt \<le> i"
  "byte_at pkt i = Ok b \<longleftrightarrow> i < length pkt \<and> b = pkt ! i"
  "byte_at pkt i \<noteq> Fail e"
  by (auto simp: byte_at_def)

lemma peek_stream:
  "conn_stream (fst (peek c n)) = conn_stream c" "cn_hello (fst (peek c n)) = cn_hello c"
  by (simp_all add: peek_def Let_def conn_stream_def)

lemma conn_capture_stream:
  assumes "conn_capture c = Ok (c', h)"
  shows "conn_stream c' = conn_stream c"
proof -
  have *: "conn_stream c1 = conn_stream c" if "peek c n = (c1, r)" for c c1 n r
    using peek_stream(1) [of c n] that by simp
  from assms show ?thesis
    by (auto simp: conn_capture_def Let_def split: prod.splits option.splits if_splits go.splits
        dest!: *)
qed

lemma conn_read_stream: "conn_read c n = (c', bs) \<Longrightarrow> bs @ conn_stream c' = conn_stream c"
  by (auto simp: conn_read_def conn_stream_def split: if_splits)

lemma read_chunks_stream: "read_chunks c ns = (c', bs) \<Longrightarrow> bs @ conn_stream c' = conn_stream c"
proof (induction ns arbitrary: c c' bs)
  case Nil
  then show ?case by simp
next
  case (Cons n ns)
  obtain c1 b1 where 1: "conn_read c n = (c1, b1)" by fastforce
  obtain c2 b2 where 2: "read_chunks c1 ns = (c2, b2)" by fastforce
  from Cons.prems 1 2 Cons.IH [OF 2] conn_read_stream [OF 1] show ?case by auto
qed

subsection \<open>Properties\<close>

text \<open>
  The fingerprint listener is transparent: whatever the client sends, what the TLS
  library then reads through the wrapped connection, in pieces of any size, is a prefix of
  exactly those bytes, and nothing behind it is lost.
\<close>

theorem captured_bytes_replayed:
  assumes "wrap_conn stream = Ok c" and "read_chunks c ns = (c', bs)"
  shows "bs @ conn_stream c' = stream"
proof -
  from assms(1) obtain c0 h where
    "conn_capture \<lparr>cn_buffered = [], cn_incoming = stream, cn_hello = None\<rparr> = Ok (c0, h)"
    and c: "c = c0\<lparr>cn_hello := h\<rparr>"
    by (auto simp: wrap_conn_def go_bind_Ok_iff)
  from conn_capture_stream [OF this(1)] have "conn_stream c = stream"
    by (simp add: conn_stream_def c)
  with read_chunks_stream [OF assms(2)] show ?thesis by simp
qed

theorem captured_bytes_replayed_witness:
  "\<exists>c c'. wrap_conn [1, 2, 3, 4, 5, 6] = Ok c \<and> read_chunks c [4] = (c', [1, 2, 3, 4]) \<and>
     [1, 2, 3, 4] @ conn_stream c' = [1, 2, 3, 4, 5, 6]"
proof -
  let ?c = "\<lparr>cn_buffered = [1, 2, 3, 4, 5], cn_incoming = [6], cn_hello = None\<rparr> :: conn"
  let ?c' = "\<lparr>cn_buffered = [5], cn_incoming = [6], cn_hello = None\<rparr> :: conn"
  have 1: "wrap_conn [1, 2, 3, 4, 5, 6] = Ok ?c"
    by (simp add: wrap_conn_def conn_capture_def peek_def Let_def)
  have 2: "read_chunks ?c [4] = (?c', [1, 2, 3, 4])" by (simp add: conn_read_def)
  from 1 2 captured_bytes_replayed [OF 1 2] show ?thesis by blast
qed

text \<open>
  The ClientHello parser indexes beyond the packet exactly for handshake records of at
  most 43 bytes that pass its own length checks. Such a record can be sent by any client,
  and the panic is not an error return; on every other input the parser returns.
\<close>

theorem parse_client_hello_panics_iff:
  "parse_client_hello pkt = Panic \<longleftrightarrow>
     9 \<le> length pkt \<and> length pkt < 44 \<and> pkt ! 0 = 0x16 \<and> pkt ! 5 = 0x01 \<and>
     5 + len16 (pkt ! 3) (pkt ! 4) \<le> length pkt"
  by (auto simp: parse_client_hello_def go_bind_Panic_iff byte_at_simps Let_def)

text \<open>
  JA4 ignores order: two hellos whose cipher suites and extensions are permutations of
  each other, and that agree on the rest, have the same fingerprint.
\<close>

theorem ja4_permutation_invariant:
  assumes "mset (ch_ciphers c) = mset (ch_ciphers d)"
    and "mset (ch_extensions c) = mset (ch_extensions d)"
    and "mset (ch_supported_versions c) = mset (ch_supported_versions d)"
    and "ch_legacy_version c = ch_legacy_version d" and "ch_sni c = ch_sni d"
    and "ch_alpn c = ch_alpn d" and "ch_sigalgs c = ch_sigalgs d"
  shows "ja4 sha c = ja4 sha d"
proof -
  have "length (ch_ciphers c) = length (ch_ciphers d)"
    and "length (ch_extensions c) = length (ch_extensions d)"
    using assms(1,2) by (metis size_mset)+
  moreover have "sorted_ciphers c = sorted_ciphers d"
    by (simp add: sorted_ciphers_def sort_map_perm [OF assms(1)])
  moreover have "sorted_exts c = sorted_exts d"
    unfolding sorted_exts_def by (rule sort_map_perm) (simp add: mset_filter assms(2))
  moreover have "tls_version_string c = tls_version_string d"
  proof -
    have "set (ch_supported_versions c) = set (ch_supported_versions d)"
      using assms(3) by (rule mset_eq_setD)
    then show ?thesis
      by (auto simp: tls_version_string_def foldl_max_Max16 assms(4))
  qed
  ultimately show ?thesis
    by (simp add: ja4_def ja4_a_def ja4_b_def ja4_c_def alpn_pair_def assms(5-7))
qed

theorem ja4_permutation_invariant_witness:
  "ja4 (\<lambda>_. replicate 32 7) (empty_hello\<lparr>ch_ciphers := [0x1301, 0x1302]\<rparr>) =
   ja4 (\<lambda>_. replicate 32 7) (empty_hello\<lparr>ch_ciphers := [0x1302, 0x1301]\<rparr>)"
  by (rule ja4_permutation_invariant) (simp_all add: add_mset_commute)

text \<open>
  Shape of JA4: with a 32-byte digest, the fingerprint is a ten-character prefix and
  two groups of twelve lower-case hexadecimal digits, joined by underscores, whenever the
  first protocol name is absent, longer than one byte or alphanumeric. (Otherwise the
  prefix has twelve characters.)
\<close>

theorem ja4_shape:
  assumes "\<And>x. length (sha x) = 32"
  shows "\<exists>a b d. ja4 sha c = a @ ''_'' @ b @ ''_'' @ d \<and>
           length a = (if plain_alpn c then 10 else 12) \<and> length b = 12 \<and> length d = 12 \<and>
           list_all is_lower_hex b \<and> list_all is_lower_hex d"
proof (intro exI conjI)
  show "ja4 sha c = ja4_a c @ ''_'' @ ja4_b sha c @ ''_'' @ ja4_c sha c" by (rule ja4_def)
  show "length (ja4_a c) = (if plain_alpn c then 10 else 12)"
    by (simp add: ja4_a_def length_alpn_pair)
qed (simp_all add: ja4_b_shape ja4_c_shape assms)

theorem ja4_shape_witness:
  "\<exists>a b d. ja4 (\<lambda>_. replicate 32 7) empty_hello = a @ ''_'' @ b @ ''_'' @ d \<and> length a = 10 \<and>
     length b = 12 \<and> length d = 12"
  using ja4_shape [of "\<lambda>_. replicate 32 7" empty_hello]
  by (force simp: plain_alpn_def empty_hello_def)

end
