(* ===== verification/Events.thy ===== *)
theory Events
  imports Decision "HOL-Library.Sublist"
begin

text \<open>
  Package eventpipeline: the audit event and its SIEM shapes, the redactor, the buffered
  pipeline with its file and webhook sinks, and the live feed. The JSON codec, the time
  format, the file system's answers and the HTTP client's outcomes are arguments; times
  are integer nanoseconds.
\<close>

subsection \<open>Events (eventpipeline.go)\<close>

record graphql_snapshot =
  gs_operation :: string
  gs_depth :: int
  gs_complexity :: int
  gs_aliases :: int
  gs_introspection :: bool

record event =
  e_id :: string
  e_timestamp :: int
  e_schema :: string
  e_site_id :: string
  e_site_name :: string
  e_protocol :: string
  e_transport :: string
  e_zero_rtt :: bool
  e_method :: string
  e_host :: string
  e_path :: string
  e_client_ip :: string
  e_status :: int
  e_decision :: string
  e_blocked :: bool
  e_reasons :: "reason list"
  e_ja3 :: string
  e_ja4 :: string
  e_h2fp :: string
  e_bot_score :: rat
  e_ml_score :: rat
  e_llm_score :: rat
  e_graphql :: "graphql_snapshot option"
  e_body :: string
  e_headers :: "(string \<times> string) list"
  e_duration_ms :: rat

text \<open>The JSON of an event, with the empty members that \<open>omitempty\<close> drops left out.\<close>

definition opt_str :: "string \<Rightarrow> string \<Rightarrow> (string \<times> json) list" where
  "opt_str k s = (if s = [] then [] else [(k, JStr s)])"

definition opt_num :: "string \<Rightarrow> rat \<Rightarrow> (string \<times> json) list" where
  "opt_num k n = (if n = 0 then [] else [(k, JNum n)])"

definition json_of_reason :: "reason \<Rightarrow> json" where
  "json_of_reason r = JObj ([(''module'', JStr (r_module r))] @ opt_str ''rule_id'' (r_rule_id r) @
     [(''message'', JStr (r_message r))] @ opt_num ''score'' (r_score r) @
     opt_num ''status'' (of_int (r_status r)) @
     (if r_data r = [] then [] else [(''data'', JObj (r_data r))]))"

definition json_of_snapshot :: "graphql_snapshot \<Rightarrow> json" where
  "json_of_snapshot g = JObj [(''operation'', JStr (gs_operation g)), (''depth'', JNum (of_int (gs_depth g))),
     (''complexity'', JNum (of_int (gs_complexity g))), (''alias_count'', JNum (of_int (gs_aliases g))),
     (''introspection'', JBool (gs_introspection g))]"

definition json_of_event :: "(int \<Rightarrow> string) \<Rightarrow> event \<Rightarrow> json" where
  "json_of_event fmt e = JObj (
     [(''id'', JStr (e_id e)), (''timestamp'', JStr (fmt (e_timestamp e))),
      (''schema'', JStr (e_schema e))] @
     opt_str ''site_id'' (e_site_id e) @ opt_str ''site_name'' (e_site_name e) @
     [(''protocol'', JStr (e_protocol e))] @ opt_str ''transport'' (e_transport e) @
     (if e_zero_rtt e then [(''zero_rtt'', JBool True)] else []) @
     opt_str ''method'' (e_method e) @ opt_str ''host'' (e_host e) @ opt_str ''path'' (e_path e) @
     [(''client_ip'', JStr (e_client_ip e)), (''status'', JNum (of_int (e_status e))),
      (''decision'', JStr (e_decision e)), (''blocked'', JBool (e_blocked e)),
      (''reasons'', JArr (map json_of_reason (e_reasons e)))] @
     opt_str ''ja3'' (e_ja3 e) @ opt_str ''ja4'' (e_ja4 e) @ opt_str ''h2_fingerprint'' (e_h2fp e) @
     [(''bot_score'', JNum (e_bot_score e))] @ opt_num ''ml_score'' (e_ml_score e) @
     opt_num ''llm_score'' (e_llm_score e) @
     (case e_graphql e of None \<Rightarrow> [] | Some g \<Rightarrow> [(''graphql'', json_of_snapshot g)]) @
     opt_str ''request_body'' (e_body e) @
     (if e_headers e = [] then []
      else [(''headers'', JObj (map (\<lambda>(k, v). (k, JStr v)) (e_headers e)))]) @
     [(''duration_ms'', JNum (e_duration_ms e))])"

definition level_for :: "event \<Rightarrow> int" where
  "level_for e =
     (if e_decision e = ''block'' then 8 else if e_decision e = ''challenge'' then 6
      else if e_decision e = ''log'' then 4 else 1)"

definition wazuh_event :: "(int \<Rightarrow> string) \<Rightarrow> event \<Rightarrow> json" where
  "wazuh_event fmt e = JObj
     [(''timestamp'', JStr (fmt (e_timestamp e))),
      (''agent'', JObj [(''name'', JStr (e_site_id e))]),
      (''manager'', JObj [(''name'', JStr ''swipeshield'')]),
      (''rule'', JObj [(''level'', JNum (of_int (level_for e))), (''id'', JStr (e_decision e)),
        (''description'', JStr (''SwipeShield '' @ e_decision e @ '' for '' @ e_path e))]),
      (''decoder'', JObj [(''name'', JStr ''swipeshield'')]),
      (''data'', JObj [(''srcip'', JStr (e_client_ip e)), (''srcport'', JNum 0),
        (''protocol'', JStr (e_protocol e)), (''transport'', JStr (e_transport e)),
        (''zero_rtt'', JBool (e_zero_rtt e)), (''url'', JStr (e_path e)),
        (''method'', JStr (e_method e)), (''status'', JNum (of_int (e_status e))),
        (''reasons'', JArr (map json_of_reason (e_reasons e))),
        (''bot_score'', JNum (e_bot_score e)), (''ja4'', JStr (e_ja4 e))]),
      (''full_log'', JStr (''SwipeShield '' @ e_decision e @ '' '' @ e_method e @ '' '' @ e_path e @
                         '' from '' @ e_client_ip e))]"

definition prajna_event :: "(int \<Rightarrow> string) \<Rightarrow> event \<Rightarrow> json" where
  "prajna_event fmt e = JObj
     [(''timestamp'', JStr (fmt (e_timestamp e))), (''source'', JStr ''swipeshield''),
      (''threat'', JBool (e_decision e = ''block'' \<or> e_decision e = ''challenge'')),
      (''rule'', JArr (map json_of_reason (e_reasons e))), (''event'', json_of_event fmt e)]"

definition map_to_schema :: "(int \<Rightarrow> string) \<Rightarrow> event \<Rightarrow> string \<Rightarrow> json" where
  "map_to_schema fmt e schema =
     (if schema = ''wazuh'' then wazuh_event fmt e
      else if schema = ''prajna'' then prajna_event fmt e
      else JObj [(''timestamp'', JStr (fmt (e_timestamp e))), (''source'', JStr ''swipeshield''),
                 (''event'', json_of_event fmt e)])"

subsection \<open>Redaction (redactor.go)\<close>

record redactor =
  rd_fields :: "string list"
  rd_trunc :: int

definition always_fields :: "string list" where
  "always_fields = [''authorization'', ''cookie'', ''set-cookie'', ''x-api-key'', ''apikey'',
     ''password'', ''passwd'', ''secret'', ''token'', ''access_token'', ''refresh_token'', ''jwt'',
     ''credential'', ''x-auth-token'', ''client-secret'']"

text \<open>The keys of the map \<open>special\<close>; every one maps to the same replacement.\<close>

definition special_fields :: "string list" where
  "special_fields = [''authorization'', ''cookie'', ''set-cookie'', ''x-api-key'', ''apikey'',
     ''api-key'', ''password'', ''passwd'', ''secret'', ''token'', ''access_token'',
     ''refresh_token'', ''jwt'', ''credential'', ''x-auth-token'', ''client-secret'']"

definition redacted :: json where
  "redacted = JStr ''[REDACTED]''"

definition new_redactor :: "string list \<Rightarrow> int \<Rightarrow> redactor" where
  "new_redactor flds trunc =
     \<lparr>rd_fields = flds @ always_fields, rd_trunc = (if trunc \<le> 0 then 2048 else trunc)\<rparr>"

definition is_sensitive :: "redactor \<Rightarrow> string \<Rightarrow> bool" where
  "is_sensitive r k \<longleftrightarrow>
     to_lower k \<in> set special_fields \<or> (\<exists>f \<in> set (rd_fields r). equal_fold k f)"

text \<open>
  \<open>redactMap\<close> and \<open>redactSlice\<close> on one member: objects and arrays are entered, whatever
  their key; of an array only the elements that are objects are.
\<close>

fun redact_value :: "redactor \<Rightarrow> string \<Rightarrow> json \<Rightarrow> json"
  and redact_elem :: "redactor \<Rightarrow> json \<Rightarrow> json" where
  "redact_value r k (JObj m) = JObj (map (\<lambda>(k', v). (k', redact_value r k' v)) m)"
| "redact_value r k (JArr s) = JArr (map (redact_elem r) s)"
| "redact_value r k v = (if is_sensitive r k then redacted else v)"
| "redact_elem r (JObj m) = JObj (map (\<lambda>(k', v). (k', redact_value r k' v)) m)"
| "redact_elem r v = v"

definition redact_map :: "redactor \<Rightarrow> (string \<times> json) list \<Rightarrow> (string \<times> json) list" where
  "redact_map r m = map (\<lambda>(k, v). (k, redact_value r k v)) m"

definition is_jsonish :: "string \<Rightarrow> bool" where
  "is_jsonish b \<longleftrightarrow>
     has_prefix (trim_space b) ''{'' \<or> has_prefix (trim_space b) ''[''"

definition rd_truncate :: "redactor \<Rightarrow> string \<Rightarrow> string" where
  "rd_truncate r body =
     (if int (length body) > rd_trunc r then take (nat (rd_trunc r)) body @ ''...(truncated)''
      else body)"

text \<open>The codec: \<open>unmarshal\<close> into a Go map succeeds on JSON objects only.\<close>

type_synonym json_codec =
  "(string \<Rightarrow> (string \<times> json) list option) \<times> ((string \<times> json) list \<Rightarrow> string)"

definition redact_body :: "json_codec \<Rightarrow> redactor \<Rightarrow> string \<Rightarrow> string" where
  "redact_body codec r body =
     rd_truncate r
       (if is_jsonish body then
          (case fst codec body of
             Some m \<Rightarrow> snd codec (redact_map r m)
           | None \<Rightarrow> body)
        else body)"

subsection \<open>The pipeline (eventpipeline.go)\<close>

text \<open>
  The queue is a channel with a capacity; \<open>pl_delivered\<close> lists what was handed to which
  sink (by name), \<open>pl_dropped\<close> counts as a 64-bit word.
\<close>

record pipeline =
  pl_queue :: "event list"
  pl_cap :: nat
  pl_sinks :: "string list"
  pl_redactor :: redactor
  pl_schema :: string
  pl_dropped :: "64 word"
  pl_closed :: bool
  pl_delivered :: "(string \<times> event) list"

record pl_options =
  po_buffer :: int
  po_redact :: "string list"
  po_truncate :: int
  po_schema :: string

definition new_pipeline :: "pl_options \<Rightarrow> string list \<Rightarrow> pipeline" where
  "new_pipeline opts sinks =
     \<lparr>pl_queue = [], pl_cap = nat (if po_buffer opts \<le> 0 then 4096 else po_buffer opts),
      pl_sinks = sinks,
      pl_redactor = new_redactor (po_redact opts) (if po_truncate opts \<le> 0 then 2048 else po_truncate opts),
      pl_schema = (if po_schema opts = [] then ''swipeshield'' else po_schema opts),
      pl_dropped = 0, pl_closed = False, pl_delivered = []\<rparr>"

definition schema_or_default :: "pipeline \<Rightarrow> string \<Rightarrow> string" where
  "schema_or_default p s = (if s = [] \<or> s = ''swipeshield'' then pl_schema p else s)"

definition redact_reasons :: "reason list \<Rightarrow> reason list" where
  "redact_reasons rs = map (\<lambda>r. r) rs"

definition prepare_event :: "json_codec \<Rightarrow> pipeline \<Rightarrow> event \<Rightarrow> event" where
  "prepare_event codec p e =
     e\<lparr>e_schema := schema_or_default p (e_schema e),
       e_body := redact_body codec (pl_redactor p) (e_body e),
       e_reasons := redact_reasons (e_reasons e)\<rparr>"

definition emit_event :: "json_codec \<Rightarrow> pipeline \<Rightarrow> event \<Rightarrow> pipeline" where
  "emit_event codec p e =
     (if pl_closed p then p
      else if length (pl_queue p) < pl_cap p
      then p\<lparr>pl_queue := pl_queue p @ [prepare_event codec p e]\<rparr>
      else p\<lparr>pl_dropped := pl_dropped p + 1\<rparr>)"

definition dispatch :: "pipeline \<Rightarrow> event \<Rightarrow> pipeline" where
  "dispatch p e = p\<lparr>pl_delivered := pl_delivered p @ map (\<lambda>s. (s, e)) (pl_sinks p)\<rparr>"

text \<open>One round of the drain loop.\<close>

definition drain_one :: "pipeline \<Rightarrow> pipeline" where
  "drain_one p =
     (case pl_queue p of [] \<Rightarrow> p | e # q \<Rightarrow> dispatch (p\<lparr>pl_queue := q\<rparr>) e)"

definition add_sink :: "pipeline \<Rightarrow> string \<Rightarrow> pipeline" where
  "add_sink p s = p\<lparr>pl_sinks := pl_sinks p @ [s]\<rparr>"

text \<open>\<open>Close\<close> drains at most as many events as fit before its deadline.\<close>

definition close_pipeline :: "pipeline \<Rightarrow> nat \<Rightarrow> pipeline" where
  "close_pipeline p n = (if pl_closed p then p else (drain_one ^^ n) (p\<lparr>pl_closed := True\<rparr>))"

subsection \<open>The file and webhook sinks\<close>

text \<open>A file sink by its lines; \<open>os.Create\<close> truncates the file it re-opens.\<close>

record file_sink =
  fk_lines :: "string list"
  fk_max :: int

definition new_file_sink :: "string list \<Rightarrow> int \<Rightarrow> file_sink" where
  "new_file_sink existing max_bytes =
     \<lparr>fk_lines = existing, fk_max = (if max_bytes \<le> 0 then 104857600 else max_bytes)\<rparr>"

definition fk_size :: "file_sink \<Rightarrow> int" where
  "fk_size s = int (sum_list (map (\<lambda>l. length l + 1) (fk_lines s)))"

definition file_sink_write :: "(json \<Rightarrow> string) \<Rightarrow> (int \<Rightarrow> string) \<Rightarrow> file_sink \<Rightarrow> event \<Rightarrow> file_sink" where
  "file_sink_write enc fmt s e =
     (let ls = (if fk_size s > fk_max s then [] else fk_lines s)
      in s\<lparr>fk_lines := ls @ [enc (json_of_event fmt e)]\<rparr>)"

text \<open>
  The webhook's retry loop. \<open>post i\<close> says whether attempt i succeeds, \<open>gone i\<close> whether the
  context ends while waiting after it. The result is the number of attempts and success.
\<close>

function webhook_try :: "(nat \<Rightarrow> bool) \<Rightarrow> (nat \<Rightarrow> bool) \<Rightarrow> nat \<Rightarrow> nat \<Rightarrow> nat \<times> bool" where
  "webhook_try post gone retries i =
     (if i > retries then (i, False)
      else if post i then (i + 1, True)
      else if gone i then (i + 1, False)
      else webhook_try post gone retries (i + 1))"
  by pat_completeness auto
termination
  by (relation "measure (\<lambda>(p, g, n, i). n + 1 - i)") auto

declare webhook_try.simps [simp del]

definition webhook_write :: "(nat \<Rightarrow> bool) \<Rightarrow> (nat \<Rightarrow> bool) \<Rightarrow> nat \<times> bool" where
  "webhook_write post gone = webhook_try post gone 3 0"

subsection \<open>The live feed (livefeed.go)\<close>

text \<open>Go's remainder truncates towards zero.\<close>

definition go_rem :: "int \<Rightarrow> int \<Rightarrow> int" where
  "go_rem a b = (if a < 0 then - ((- a) mod b) else a mod b)"

record 'e channel =
  ch_buf :: "'e list"
  ch_cap :: nat
  ch_closed :: bool

text \<open>The ring; subscribers are channels by number. A channel that was dropped stays here.\<close>

record 'e live_feed =
  lf_events :: "'e list"
  lf_head :: nat
  lf_size :: nat
  lf_chans :: "nat \<Rightarrow> 'e channel option"
  lf_subs :: "nat list"
  lf_next :: nat
  lf_closed :: bool

definition new_live_feed :: "int \<Rightarrow> 'e live_feed" where
  "new_live_feed capacity =
     \<lparr>lf_events = [], lf_head = 0, lf_size = nat (if capacity \<le> 0 then 256 else capacity),
      lf_chans = (\<lambda>_. None), lf_subs = [], lf_next = 0, lf_closed = False\<rparr>"

definition offer :: "'e \<Rightarrow> 'e channel \<Rightarrow> 'e channel" where
  "offer e c = (if length (ch_buf c) < ch_cap c then c\<lparr>ch_buf := ch_buf c @ [e]\<rparr> else c)"

definition feed_write :: "'e live_feed \<Rightarrow> 'e \<Rightarrow> 'e live_feed" where
  "feed_write f e =
     (if lf_closed f then f
      else f\<lparr>lf_events := (if length (lf_events f) < lf_size f then lf_events f @ [e]
                          else (lf_events f)[lf_head f := e]),
             lf_head := (lf_head f + 1) mod lf_size f,
             lf_chans := (\<lambda>i. if i \<in> set (lf_subs f) then map_option (offer e) (lf_chans f i)
                             else lf_chans f i)\<rparr>)"

definition ring_index :: "'e live_feed \<Rightarrow> nat \<Rightarrow> nat \<Rightarrow> int" where
  "ring_index f n i =
     (let idx = go_rem (int (lf_head f) - int n + int i) (int (lf_size f))
      in if idx < 0 then idx + int (lf_size f) else idx)"

definition ring_tail :: "'e live_feed \<Rightarrow> nat \<Rightarrow> 'e list" where
  "ring_tail f n =
     concat (map (\<lambda>i. let idx = ring_index f n i in
                      if idx < int (length (lf_events f)) then [lf_events f ! nat idx] else [])
              [0..<n])"

definition recent :: "'e live_feed \<Rightarrow> int \<Rightarrow> 'e list" where
  "recent f n =
     ring_tail f (if n \<le> 0 \<or> n > int (length (lf_events f)) then length (lf_events f) else nat n)"

text \<open>A new subscriber; on a closed feed its channel is never registered.\<close>

definition subscribe :: "'e live_feed \<Rightarrow> int \<Rightarrow> 'e live_feed \<times> nat" where
  "subscribe f buf =
     (let b = nat (if buf \<le> 0 then 64 else buf); i = lf_next f;
          history = (if lf_closed f then [] else ring_tail f (min (length (lf_events f)) b))
      in (f\<lparr>lf_chans := (lf_chans f)(i \<mapsto> \<lparr>ch_buf = history, ch_cap = b, ch_closed = False\<rparr>),
            lf_subs := (if lf_closed f then lf_subs f else lf_subs f @ [i]),
            lf_next := i + 1\<rparr>, i))"

text \<open>The function \<open>Subscribe\<close> returns, called for the first time.\<close>

definition unsubscribe :: "'e live_feed \<Rightarrow> nat \<Rightarrow> 'e live_feed" where
  "unsubscribe f i =
     f\<lparr>lf_subs := removeAll i (lf_subs f),
       lf_chans := (if lf_closed f then lf_chans f
                    else (lf_chans f)(i := map_option (\<lambda>c. c\<lparr>ch_closed := True\<rparr>) (lf_chans f i)))\<rparr>"

definition close_feed :: "'e live_feed \<Rightarrow> 'e live_feed" where
  "close_feed f =
     (if lf_closed f then f
      else f\<lparr>lf_closed := True, lf_subs := [],
             lf_chans := (\<lambda>i. if i \<in> set (lf_subs f)
                              then map_option (\<lambda>c. c\<lparr>ch_closed := True\<rparr>) (lf_chans f i)
                              else lf_chans f i)\<rparr>)"

subsection \<open>The ring refines the history\<close>

text \<open>
  The ring of a feed that was written \<open>hist\<close>: slot \<open>j\<close> holds the latest event whose number
  is \<open>j\<close> modulo the size.
\<close>

definition ring_of :: "'e live_feed \<Rightarrow> 'e list \<Rightarrow> bool" where
  "ring_of f hist \<longleftrightarrow>
     lf_size f > 0 \<and> length (lf_events f) = min (lf_size f) (length hist) \<and>
     lf_head f = length hist mod lf_size f \<and>
     (\<forall>i < length hist. length hist \<le> i + lf_size f \<longrightarrow> lf_events f ! (i mod lf_size f) = hist ! i)"

lemma ring_of_new: "ring_of (new_live_feed c) []"
  by (simp add: ring_of_def new_live_feed_def)

lemma mod_distinct_window:
  assumes "(i :: nat) mod s = n mod s" and "i < n" and "n < i + s" shows False
proof -
  have "i \<le> n" using assms(2) by simp
  then have "s dvd n - i" using assms(1) mod_eq_dvd_iff_nat [of i n s] by metis
  moreover have "0 < n - i" "n - i < s" using assms(2,3) by auto
  ultimately show False by (auto dest: dvd_imp_le)
qed

lemma ring_of_write:
  assumes "ring_of f hist" and "\<not> lf_closed f"
  shows "ring_of (feed_write f e) (hist @ [e])"
proof -
  let ?s = "lf_size f" and ?n = "length hist"
  from assms(1) have s: "?s > 0" and len: "length (lf_events f) = min ?s ?n"
    and head: "lf_head f = ?n mod ?s"
    and slot: "\<And>i. i < ?n \<Longrightarrow> ?n \<le> i + ?s \<Longrightarrow> lf_events f ! (i mod ?s) = hist ! i"
    by (auto simp: ring_of_def)
  have head': "(?n mod ?s + 1) mod ?s = Suc ?n mod ?s" by (simp add: mod_Suc_eq)
  show ?thesis
  proof (cases "?n < ?s")
    case True
    then have "lf_events f ! i = hist ! i" if "i < ?n" for i
      using slot [OF that] that by simp
    with True len s show ?thesis
      using assms(2) head head'
      by (auto simp: ring_of_def feed_write_def nth_append less_Suc_eq)
  next
    case False
    have upd: "(lf_events f)[?n mod ?s := e] ! (i mod ?s) = (hist @ [e]) ! i"
      if "i < Suc ?n" "Suc ?n \<le> i + ?s" for i
    proof (cases "i = ?n")
      case True
      then show ?thesis using False len s by simp
    next
      case neq: False
      with that have i: "i < ?n" "?n < i + ?s" by auto
      then have "i mod ?s \<noteq> ?n mod ?s" using mod_distinct_window by blast
      with i slot [of i] show ?thesis by (simp add: nth_append)
    qed
    with False len s show ?thesis
      using assms(2) head head' by (simp add: ring_of_def feed_write_def)
  qed
qed

lemma go_rem_index:
  assumes "ring_of f hist" and "n \<le> length (lf_events f)" and "i < n"
  shows "ring_index f n i = int ((length hist - n + i) mod lf_size f)"
proof -
  let ?s = "int (lf_size f)" and ?a = "int (lf_head f) - int n + int i"
  from assms(1) have s: "?s > 0" by (simp add: ring_of_def)
  have n: "n \<le> length hist" using assms(1,2) by (simp add: ring_of_def)
  have pos: "(let idx = go_rem a ?s in if idx < 0 then idx + ?s else idx) = a mod ?s" for a
  proof (cases "a < 0")
    case False
    moreover have "\<not> a mod ?s < 0" using pos_mod_sign [OF s] by (simp add: not_less)
    ultimately show ?thesis by (simp add: go_rem_def Let_def)
  next
    case True
    show ?thesis
    proof (cases "(- a) mod ?s = 0")
      case t: True
      then show ?thesis using True s by (simp add: go_rem_def Let_def mod_eq_0_iff_dvd)
    next
      case f: False
      then have "0 < (- a) mod ?s" using s pos_mod_sign [of ?s "- a"] by linarith
      moreover have "a mod ?s = ?s - (- a) mod ?s"
        using f zmod_zminus1_eq_if [of "- a" ?s] by simp
      ultimately show ?thesis using True by (simp add: go_rem_def Let_def)
    qed
  qed
  have "ring_index f n i = ?a mod ?s" unfolding ring_index_def by (rule pos)
  also have "?a mod ?s = ((int (length hist) mod ?s - int n) mod ?s + int i) mod ?s"
    using assms(1) by (simp only: ring_of_def zmod_int mod_add_left_eq)
  also have "\<dots> = (int (length hist) - int n + int i) mod ?s"
    by (simp only: mod_diff_left_eq mod_add_left_eq)
  also have "\<dots> = int ((length hist - n + i) mod lf_size f)"
    using n by (simp add: zmod_int of_nat_diff diff_add_eq)
  finally show ?thesis .
qed

lemma ring_tail_last_n:
  assumes "ring_of f hist" and "n \<le> length (lf_events f)"
  shows "ring_tail f n = last_n n hist"
proof -
  let ?s = "lf_size f" and ?N = "length hist"
  from assms have s: "?s > 0" and n: "n \<le> ?N" "n \<le> ?s" "length (lf_events f) = min ?s ?N"
    by (auto simp: ring_of_def)
  have "ring_index f n i < int (length (lf_events f)) \<and>
      lf_events f ! nat (ring_index f n i) = hist ! (?N - n + i)" if "i < n" for i
  proof -
    have "?N - n + i < ?N" "?N \<le> ?N - n + i + ?s" using that n by auto
    with assms(1) have "lf_events f ! ((?N - n + i) mod ?s) = hist ! (?N - n + i)"
      by (simp add: ring_of_def)
    moreover have "(?N - n + i) mod ?s < min ?s ?N"
    proof (cases "?N \<le> ?s")
      case True
      have "(?N - n + i) mod ?s \<le> ?N - n + i" by simp
      with that n s True show ?thesis by (simp add: order.strict_trans1)
    qed (use s in simp)
    ultimately show ?thesis using n(3) by (simp add: go_rem_index [OF assms that])
  qed
  then have "ring_tail f n = concat (map (\<lambda>i. [hist ! (?N - n + i)]) [0..<n])"
    unfolding ring_tail_def by (intro arg_cong [of _ _ concat] map_cong) (auto simp: Let_def)
  also have "\<dots> = map (\<lambda>i. hist ! (?N - n + i)) [0..<n]" by (induction n) simp_all
  also have "\<dots> = last_n n hist"
    using n by (intro nth_equalityI) (simp_all add: last_n_def)
  finally show ?thesis .
qed

text \<open>
  What a bounded feed promises its readers: after any sequence of writes it shows the last
  ones, in order. \<open>shows s h\<close> relates a state to the history it has seen.
\<close>

locale bounded_feed =
  fixes shows_hist :: "'s \<Rightarrow> 'e list \<Rightarrow> bool"
    and push :: "'s \<Rightarrow> 'e \<Rightarrow> 's"
    and view :: "'s \<Rightarrow> nat \<Rightarrow> 'e list"
    and kept :: "'s \<Rightarrow> nat"
  assumes push_shows: "shows_hist s h \<Longrightarrow> shows_hist (push s e) (h @ [e])"
    and kept_push: "kept (push s e) = kept s"
    and view_last: "shows_hist s h \<Longrightarrow> n \<le> min (kept s) (length h) \<Longrightarrow> view s n = last_n n h"
begin

lemma writes_show: "shows_hist s h \<Longrightarrow> shows_hist (foldl push s es) (h @ es)"
proof (induction es arbitrary: s h)
  case Nil
  then show ?case by simp
next
  case (Cons e es)
  from Cons.IH [OF push_shows [OF Cons.prems, of e]] show ?case by simp
qed

lemma kept_writes: "kept (foldl push s es) = kept s"
  by (induction es arbitrary: s) (simp_all add: kept_push)

lemma view_after_writes:
  "shows_hist s h \<Longrightarrow> n \<le> min (kept s) (length h + length es) \<Longrightarrow>
     view (foldl push s es) n = last_n n (h @ es)"
  using view_last [OF writes_show] by (simp add: kept_writes)

end

definition open_ring :: "'e live_feed \<Rightarrow> 'e list \<Rightarrow> bool" where
  "open_ring f hist \<longleftrightarrow> ring_of f hist \<and> \<not> lf_closed f"

lemma feed_write_simps [simp]:
  "lf_size (feed_write f e) = lf_size f" "lf_closed (feed_write f e) = lf_closed f"
  by (simp_all add: feed_write_def)

interpretation feed: bounded_feed open_ring feed_write ring_tail lf_size
proof unfold_locales
  fix f :: "'e live_feed" and h e
  show "open_ring f h \<Longrightarrow> open_ring (feed_write f e) (h @ [e])"
    by (simp add: open_ring_def ring_of_write)
next
  fix f :: "'e live_feed" and e
  show "lf_size (feed_write f e) = lf_size f" by simp
next
  fix f :: "'e live_feed" and h n
  show "open_ring f h \<Longrightarrow> n \<le> min (lf_size f) (length h) \<Longrightarrow> ring_tail f n = last_n n h"
    by (auto simp: open_ring_def intro!: ring_tail_last_n) (simp add: ring_of_def)
qed

subsection \<open>Redaction by paths\<close>

text \<open>A step into a member of an object or an element of an array, and the value there.\<close>

datatype jstep = Key string | Idx nat

fun json_at :: "json \<Rightarrow> jstep list \<Rightarrow> json option" where
  "json_at v [] = Some v"
| "json_at (JObj m) (Key k # p) = (case map_of m k of None \<Rightarrow> None | Some v \<Rightarrow> json_at v p)"
| "json_at (JArr s) (Idx i # p) = (if i < length s then json_at (s ! i) p else None)"
| "json_at v (s # p) = None"

fun is_scalar :: "json \<Rightarrow> bool" where
  "is_scalar (JObj m) = False"
| "is_scalar (JArr s) = False"
| "is_scalar v = True"

text \<open>No array directly inside an array on the way.\<close>

fun no_nested_arrays :: "jstep list \<Rightarrow> bool" where
  "no_nested_arrays (Idx i # Idx j # p) = False"
| "no_nested_arrays (s # p) = no_nested_arrays p"
| "no_nested_arrays [] = True"

lemma map_of_redact: "map_of (map (\<lambda>(k, v). (k, f k v)) m) k = map_option (f k) (map_of m k)"
  by (induction m) auto

lemma redact_elem_obj: "redact_elem r (JObj m) = JObj (redact_map r m)"
  by (simp add: redact_map_def)

lemma redact_value_obj: "redact_value r k (JObj m) = JObj (redact_map r m)"
  by (simp add: redact_map_def)

lemma redact_scalar:
  "is_scalar v \<Longrightarrow> redact_value r k v = (if is_sensitive r k then redacted else v)"
  "is_scalar v \<Longrightarrow> redact_elem r v = v"
  by (cases v; simp)+

lemma no_nested_arrays_Cons: "no_nested_arrays (s # p) \<Longrightarrow> no_nested_arrays p"
  by (cases s; cases p) (auto elim: no_nested_arrays.elims)

text \<open>What becomes of the scalar at the end of a path, by the key it stands under.\<close>

definition redacted_leaf :: "redactor \<Rightarrow> jstep list \<Rightarrow> json \<Rightarrow> json" where
  "redacted_leaf r p x =
     (case last p of Key k \<Rightarrow> if is_sensitive r k then redacted else x | Idx i \<Rightarrow> x)"

lemma redact_at:
  "json_at v p = Some x \<Longrightarrow> is_scalar x \<Longrightarrow> no_nested_arrays p \<Longrightarrow> p \<noteq> [] \<Longrightarrow>
     json_at (redact_value r k v) p = Some (redacted_leaf r p x) \<and>
     ((\<forall>i q. p \<noteq> Idx i # q) \<longrightarrow> json_at (redact_elem r v) p = Some (redacted_leaf r p x))"
proof (induction p arbitrary: v k)
  case Nil
  then show ?case by simp
next
  case (Cons s p)
  note nn = no_nested_arrays_Cons [OF Cons.prems(3)]
  show ?case
  proof (cases s)
    case (Key k0)
    with Cons.prems(1) obtain m w where v: "v = JObj m" and w: "map_of m k0 = Some w"
      "json_at w p = Some x" by (cases v) (auto split: option.splits)
    have "json_at (JObj (redact_map r m)) (Key k0 # p) = json_at (redact_value r k0 w) p"
      by (simp add: redact_map_def map_of_redact w(1))
    moreover have "json_at (redact_value r k0 w) p =
        Some (redacted_leaf r (s # p) x)"
    proof (cases "p = []")
      case True
      with w(2) Cons.prems(2) show ?thesis by (simp add: Key redact_scalar redacted_leaf_def)
    next
      case False
      with Cons.IH [OF w(2) Cons.prems(2) nn False] show ?thesis by (simp add: redacted_leaf_def)
    qed
    ultimately show ?thesis
      by (simp add: v Key redact_value_obj redact_elem_obj del: redact_value.simps redact_elem.simps
          json_at.simps)
  next
    case (Idx i)
    with Cons.prems(1) obtain l where v: "v = JArr l" and i: "i < length l"
      and x: "json_at (l ! i) p = Some x" by (cases v) (auto split: if_splits)
    have "json_at (redact_elem r (l ! i)) p =
        Some (redacted_leaf r (s # p) x)"
    proof (cases "p = []")
      case True
      with x Cons.prems(2) show ?thesis by (simp add: Idx redact_scalar redacted_leaf_def)
    next
      case False
      from Cons.prems(3) have "\<forall>j q. p \<noteq> Idx j # q" by (auto simp: Idx)
      with Cons.IH [OF x Cons.prems(2) nn False, of k] False show ?thesis by (simp add: redacted_leaf_def)
    qed
    with i show ?thesis by (simp add: v Idx)
  qed
qed

subsection \<open>Pipeline accounting\<close>

datatype pl_op = Emit event | Drain | AddSink string

fun pl_step :: "json_codec \<Rightarrow> pipeline \<Rightarrow> pl_op \<Rightarrow> pipeline" where
  "pl_step codec p (Emit e) = emit_event codec p e"
| "pl_step codec p Drain = drain_one p"
| "pl_step codec p (AddSink s) = add_sink p s"

fun emitted :: "pl_op list \<Rightarrow> event list" where
  "emitted [] = []"
| "emitted (Emit e # ops) = e # emitted ops"
| "emitted (_ # ops) = emitted ops"

definition delivered_to :: "string \<Rightarrow> pipeline \<Rightarrow> event list" where
  "delivered_to s p = map snd (filter (\<lambda>d. fst d = s) (pl_delivered p))"

lemma emitted_append: "emitted (a @ b) = emitted a @ emitted b"
  by (induction a rule: emitted.induct) auto

lemma delivered_dispatch:
  "delivered_to s (dispatch p e) =
     delivered_to s p @ replicate (count_list (pl_sinks p) s) e"
proof -
  have "map snd (filter (\<lambda>d. fst d = s) (map (\<lambda>s. (s, e)) xs)) = replicate (count_list xs s) e"
    for xs by (induction xs) auto
  then show ?thesis by (simp add: delivered_to_def dispatch_def)
qed

text \<open>
  The invariant of an open pipeline with one registration of sink \<open>s\<close>: what \<open>s\<close> got
  followed by what is queued is a subsequence of the prepared emitted events, and with the
  dropped ones it accounts for every event.
\<close>

definition accounted :: "json_codec \<Rightarrow> string \<Rightarrow> pipeline \<Rightarrow> pipeline \<Rightarrow> event list \<Rightarrow> bool" where
  "accounted codec s p0 p es \<longleftrightarrow>
     \<not> pl_closed p \<and> count_list (pl_sinks p) s = 1 \<and> length (pl_queue p) \<le> pl_cap p \<and>
     pl_redactor p = pl_redactor p0 \<and> pl_schema p = pl_schema p0 \<and>
     subseq (delivered_to s p @ pl_queue p) (map (prepare_event codec p0) es) \<and>
     (\<exists>d. d + length (delivered_to s p @ pl_queue p) = length es \<and> pl_dropped p = of_nat d)"

lemma prepare_event_cong:
  "pl_redactor p = pl_redactor q \<Longrightarrow> pl_schema p = pl_schema q \<Longrightarrow>
     prepare_event codec p e = prepare_event codec q e"
  by (simp add: prepare_event_def schema_or_default_def)

lemma accounted_step:
  assumes "accounted codec s p0 p es" and "op \<noteq> AddSink s"
  shows "accounted codec s p0 (pl_step codec p op) (es @ emitted [op])"
proof -
  from assms(1) have open': "\<not> pl_closed p" and one: "count_list (pl_sinks p) s = 1"
    and cap: "length (pl_queue p) \<le> pl_cap p"
    and same: "pl_redactor p = pl_redactor p0" "pl_schema p = pl_schema p0"
    and sub: "subseq (delivered_to s p @ pl_queue p) (map (prepare_event codec p0) es)"
    and ex: "\<exists>d. d + length (delivered_to s p @ pl_queue p) = length es \<and> pl_dropped p = of_nat d"
    by (auto simp: accounted_def)
  from ex obtain d where d: "d + length (delivered_to s p @ pl_queue p) = length es"
    "pl_dropped p = of_nat d" by blast
  show ?thesis
  proof (cases op)
    case (Emit e)
    show ?thesis
    proof (cases "length (pl_queue p) < pl_cap p")
      case True
      have "subseq ((delivered_to s p @ pl_queue p) @ [prepare_event codec p0 e])
              (map (prepare_event codec p0) es @ [prepare_event codec p0 e])"
        using sub by (rule list_emb_append_mono) simp
      with True open' one cap same d show ?thesis
        by (auto simp: accounted_def Emit emit_event_def delivered_to_def
            prepare_event_cong [OF same])
    next
      case False
      have "subseq (delivered_to s p @ pl_queue p)
              (map (prepare_event codec p0) es @ [prepare_event codec p0 e])"
        using sub by (rule list_emb_prefix)
      moreover have "Suc d + length (delivered_to s p @ pl_queue p) = length (es @ [e])"
        using d by simp
      ultimately show ?thesis
        using False open' one cap same d(2)
        by (auto simp: accounted_def Emit emit_event_def delivered_to_def intro!: exI [of _ "Suc d"])
    qed
  next
    case Drain
    show ?thesis
    proof (cases "pl_queue p")
      case Nil
      with assms(1) show ?thesis by (simp add: Drain drain_one_def)
    next
      case (Cons e q)
      have del: "delivered_to s (dispatch (p\<lparr>pl_queue := q\<rparr>) e) = delivered_to s p @ [e]"
        using one by (simp add: delivered_dispatch) (simp add: delivered_to_def)
      have "accounted codec s p0 (dispatch (p\<lparr>pl_queue := q\<rparr>) e) es"
        using open' one cap same sub d Cons
        by (auto simp: accounted_def del) (auto simp: dispatch_def)
      then show ?thesis by (simp add: Drain drain_one_def Cons)
    qed
  next
    case (AddSink t)
    with assms show ?thesis
      by (auto simp: accounted_def add_sink_def delivered_to_def)
  qed
qed

lemma accounted_steps:
  "accounted codec s p0 p es \<Longrightarrow> AddSink s \<notin> set ops \<Longrightarrow>
     accounted codec s p0 (foldl (pl_step codec) p ops) (es @ emitted ops)"
proof (induction ops arbitrary: p es)
  case Nil
  then show ?case by simp
next
  case (Cons op ops)
  from Cons.prems have "accounted codec s p0 (pl_step codec p op) (es @ emitted [op])"
    by (intro accounted_step) auto
  from Cons.IH [OF this] Cons.prems(2) show ?case
    using emitted_append [of "[op]" ops] by simp
qed

lemma webhook_try_bound: "i \<le> r + 1 \<Longrightarrow> fst (webhook_try post gone r i) \<le> r + 1"
proof (induction post gone r i rule: webhook_try.induct)
  case (1 post gone r i)
  then show ?case by (subst webhook_try.simps) auto
qed

subsection \<open>Properties\<close>

definition feed_after :: "int \<Rightarrow> 'e list \<Rightarrow> 'e live_feed" where
  "feed_after c es = foldl feed_write (new_live_feed c) es"

definition pl_run :: "json_codec \<Rightarrow> pipeline \<Rightarrow> pl_op list \<Rightarrow> pipeline" where
  "pl_run codec p ops = foldl (pl_step codec) p ops"

text \<open>
  The live feed shows the most recent events: after any number of writes to a fresh
  feed of any capacity, \<open>Recent n\<close> is the last \<open>n\<close> events in the order they were written,
  or everything retained when \<open>n\<close> is not positive or too large; the ring never holds more
  than its capacity.
\<close>

theorem live_feed_recent:
  "length (lf_events (feed_after c es)) = min (nat (if c \<le> 0 then 256 else c)) (length es) \<and>
   recent (feed_after c es) n =
     last_n (if n \<le> 0 \<or> n > int (length (lf_events (feed_after c es)))
             then length (lf_events (feed_after c es)) else nat n) es"
proof -
  let ?f = "feed_after c es"
  have "open_ring (new_live_feed c) []"
    using ring_of_new [of c] by (simp add: open_ring_def new_live_feed_def)
  from feed.writes_show [OF this, of es] have o: "open_ring ?f es" by (simp add: feed_after_def)
  have sz: "lf_size ?f = nat (if c \<le> 0 then 256 else c)"
    unfolding feed_after_def feed.kept_writes by (simp add: new_live_feed_def)
  from o have ring: "ring_of ?f es" by (simp add: open_ring_def)
  then have "length (lf_events ?f) = min (lf_size ?f) (length es)" by (simp add: ring_of_def)
  moreover have "recent ?f n = last_n (if n \<le> 0 \<or> n > int (length (lf_events ?f))
      then length (lf_events ?f) else nat n) es"
    unfolding recent_def by (rule ring_tail_last_n [OF ring]) auto
  ultimately show ?thesis by (simp add: sz)
qed

text \<open>
  C38. Redaction: in a JSON object, every scalar that stands under a sensitive key (built in
  or configured, in any case), at any depth through objects and through arrays of objects,
  is replaced, and every other scalar is kept.
\<close>

theorem redaction_complete:
  assumes "json_at (JObj m) p = Some x" and "is_scalar x" and "no_nested_arrays p"
  shows "json_at (JObj (redact_map r m)) p =
           Some (case last p of Key k \<Rightarrow> if is_sensitive r k then redacted else x | Idx i \<Rightarrow> x)"
proof -
  from assms(1,2) have "p \<noteq> []" by auto
  from redact_at [OF assms this, of r] show ?thesis
    by (simp add: redact_value_obj redacted_leaf_def del: redact_value.simps)
qed

theorem redaction_complete_witness:
  "json_at (JObj (redact_map (new_redactor [] 0)
      [(''users'', JArr [JObj [(''Password'', JStr ''x''), (''name'', JStr ''n'')]])]))
      [Key ''users'', Idx 0, Key ''Password''] = Some redacted"
proof -
  have "is_sensitive (new_redactor [] 0) ''Password''" by code_simp
  then show ?thesis
    using redaction_complete [of "[(''users'', JArr [JObj [(''Password'', JStr ''x''), (''name'', JStr ''n'')]])]"
        "[Key ''users'', Idx 0, Key ''Password'']" "JStr ''x''" "new_redactor [] 0"]
    by simp
qed

text \<open>A secret in an array under a sensitive key is not replaced.\<close>

lemma redaction_misses_arrays:
  "redact_map r [(''password'', JArr [JStr s])] = [(''password'', JArr [JStr s])]"
  by (simp add: redact_map_def)

text \<open>
  C39. Accounting of the audit pipeline: as long as it is open, for any interleaving of
  emitting, draining and adding other sinks, what a sink has got followed by what is queued
  is a subsequence of the emitted events in their order, each with its body redacted and
  truncated, and the events missing from it are exactly the ones the drop counter counts.
\<close>

theorem pipeline_accounts_for_events:
  assumes "AddSink s \<notin> set ops" and "count_list sinks s = 1"
  shows "subseq (delivered_to s (pl_run codec (new_pipeline opts sinks) ops) @
                   pl_queue (pl_run codec (new_pipeline opts sinks) ops))
           (map (prepare_event codec (new_pipeline opts sinks)) (emitted ops)) \<and>
         (\<exists>d. d + length (delivered_to s (pl_run codec (new_pipeline opts sinks) ops)) +
                length (pl_queue (pl_run codec (new_pipeline opts sinks) ops)) = length (emitted ops) \<and>
              pl_dropped (pl_run codec (new_pipeline opts sinks) ops) = of_nat d) \<and>
         length (pl_queue (pl_run codec (new_pipeline opts sinks) ops)) \<le>
           pl_cap (pl_run codec (new_pipeline opts sinks) ops)"
proof -
  have "accounted codec s (new_pipeline opts sinks) (new_pipeline opts sinks) []"
    using assms(2) by (simp add: accounted_def new_pipeline_def delivered_to_def)
  from accounted_steps [OF this assms(1)] show ?thesis
    unfolding accounted_def pl_run_def append_Nil length_append add.assoc by blast
qed

definition demo_event :: event where
  "demo_event = \<lparr>e_id = ''1'', e_timestamp = 0, e_schema = [], e_site_id = [], e_site_name = [],
     e_protocol = ''rest'', e_transport = ''h1'', e_zero_rtt = False, e_method = ''GET'',
     e_host = [], e_path = ''/'', e_client_ip = ''10.0.0.1'', e_status = 200, e_decision = ''allow'',
     e_blocked = False, e_reasons = [], e_ja3 = [], e_ja4 = [], e_h2fp = [], e_bot_score = 0,
     e_ml_score = 0, e_llm_score = 0, e_graphql = None, e_body = [], e_headers = [],
     e_duration_ms = 0\<rparr>"

definition demo_options :: pl_options where
  "demo_options = \<lparr>po_buffer = 1, po_redact = [], po_truncate = 0, po_schema = []\<rparr>"

theorem pipeline_accounts_for_events_witness:
  "length (pl_queue (pl_run (\<lambda>_. None, \<lambda>_. []) (new_pipeline demo_options [''file''])
     [Emit demo_event, Emit demo_event, Drain])) \<le>
   pl_cap (pl_run (\<lambda>_. None, \<lambda>_. []) (new_pipeline demo_options [''file''])
     [Emit demo_event, Emit demo_event, Drain])"
  using pipeline_accounts_for_events
    [of "''file''" "[Emit demo_event, Emit demo_event, Drain]" "[''file'']"
        "(\<lambda>_. None, \<lambda>_. [])" demo_options]
  by simp

text \<open>
  A dead webhook cannot stall the pipeline for ever: one write makes at most four
  attempts, and it succeeds when the first attempt that is not preceded by the end of the
  context does.
\<close>

theorem webhook_attempts_bounded:
  "fst (webhook_write post gone) \<le> 4 \<and>
   (post 0 \<longrightarrow> webhook_write post gone = (1, True)) \<and>
   (\<not> post 0 \<and> \<not> gone 0 \<and> post 1 \<longrightarrow> webhook_write post gone = (2, True))"
  using webhook_try_bound [of 0 3 post gone]
  by (auto simp: webhook_write_def webhook_try.simps)

theorem webhook_attempts_bounded_witness: "webhook_write (\<lambda>_. True) (\<lambda>_. False) = (1, True)"
  using webhook_attempts_bounded [of "\<lambda>_. True" "\<lambda>_. False"] by simp

end
