(* ===== verification/Graphql.thy ===== *)
theory Graphql
  imports Decision
begin

text \<open>
  Package graphql: query extraction and the depth, complexity, alias and introspection
  analysis of a parsed query. The JSON decoder and the GraphQL parser (gqlparser) are
  arguments; the parser yields the operations of a document with their selection sets, and
  gives a field without an alias its own name as alias.
\<close>

subsection \<open>Requests\<close>

record gql_request =
  gq_query :: string
  gq_operation :: string

record gql_report =
  gp_info :: graphql_info
  gp_issues :: "string list"
  gp_malformed :: bool

datatype gql_error = BadJson | NoQuery

definition extract_query ::
    "(string \<Rightarrow> (string \<times> string) option) \<Rightarrow> string \<Rightarrow> string \<Rightarrow> string \<Rightarrow> (gql_error, gql_request) go" where
  "extract_query decode body query_param ct =
     (if str_contains (to_lower ct) ''graphql'' \<and> \<not> str_contains (to_lower ct) ''json''
      then Ok \<lparr>gq_query = trim_space body, gq_operation = []\<rparr>
      else
        let trimmed = trim_space body in
        if has_prefix trimmed ''{'' then
          (case decode body of
             None \<Rightarrow> Fail BadJson
           | Some (q, op) \<Rightarrow> Ok \<lparr>gq_query = q, gq_operation = op\<rparr>)
        else if query_param \<noteq> [] then Ok \<lparr>gq_query = query_param, gq_operation = []\<rparr>
        else if trimmed \<noteq> [] then Ok \<lparr>gq_query = trimmed, gq_operation = []\<rparr>
        else Fail NoQuery)"

subsection \<open>The walk over a selection set\<close>

datatype selection =
  Field string string "selection list"
| InlineFragment "selection list"
| FragmentSpread string

record walk_result =
  wk_depth :: nat
  wk_complexity :: nat
  wk_aliases :: nat
  wk_introspection :: bool

definition introspection_name :: "string \<Rightarrow> bool" where
  "introspection_name n \<longleftrightarrow> n \<in> {''__schema'', ''__type'', ''__typename''}"

text \<open>
  \<open>walk ss level\<close>, with the body of its loop as \<open>walk_sel\<close>, which updates the
  accumulated result for one selection.
\<close>

function walk :: "selection list \<Rightarrow> nat \<Rightarrow> walk_result"
  and walk_sel :: "nat \<Rightarrow> selection \<Rightarrow> walk_result \<Rightarrow> walk_result"
  and walk_loop :: "nat \<Rightarrow> selection list \<Rightarrow> walk_result \<Rightarrow> walk_result" where
  "walk ss level =
     walk_loop level ss
       \<lparr>wk_depth = level, wk_complexity = 0, wk_aliases = 0, wk_introspection = False\<rparr>"
| "walk_sel level (Field alias name ss) acc =
     (let c = walk ss (level + 1) in
      \<lparr>wk_depth = (if wk_depth c > wk_depth acc then wk_depth c else wk_depth acc),
       wk_complexity = wk_complexity acc + 1 + wk_complexity c,
       wk_aliases = wk_aliases acc + (if alias \<noteq> [] \<and> alias \<noteq> name then 1 else 0) + wk_aliases c,
       wk_introspection = wk_introspection acc \<or> introspection_name name \<or> wk_introspection c\<rparr>)"
| "walk_sel level (InlineFragment ss) acc =
     (let c = walk ss level in
      \<lparr>wk_depth = (if wk_depth c > wk_depth acc then wk_depth c else wk_depth acc),
       wk_complexity = wk_complexity acc + wk_complexity c,
       wk_aliases = wk_aliases acc + wk_aliases c,
       wk_introspection = wk_introspection acc \<or> wk_introspection c\<rparr>)"
| "walk_sel level (FragmentSpread n) acc = acc\<lparr>wk_complexity := wk_complexity acc + 1\<rparr>"
| "walk_loop level [] acc = acc"
| "walk_loop level (s # ss) acc = walk_loop level ss (walk_sel level s acc)"
  by pat_completeness auto
termination
  by (relation "measure (\<lambda>x. case x of
        Inl (ss, l) \<Rightarrow> 2 * size_list size ss + 1
      | Inr (Inl (l, s, a)) \<Rightarrow> 2 * size s
      | Inr (Inr (l, ss, a)) \<Rightarrow> 2 * size_list size ss)") auto

subsection \<open>Inspection\<close>

type_synonym operation = "string \<times> selection list"

definition gql_truncate :: "string \<Rightarrow> nat \<Rightarrow> string" where
  "gql_truncate s n = (if length s \<le> n then s else take n s @ ''...'')"

definition first_err :: "string \<Rightarrow> string" where
  "first_err s =
     (let s' = (case index_byte s (CHR 0x0A) of Some i \<Rightarrow> take i s | None \<Rightarrow> s)
      in if length s' > 200 then take 200 s' @ ''...'' else s')"

definition add_operation :: "graphql_info \<Rightarrow> operation \<Rightarrow> graphql_info" where
  "add_operation i op =
     (let w = walk (snd op) 0 in
      i\<lparr>gi_operation := (if fst op \<noteq> [] then fst op else gi_operation i),
        gi_depth := (if int (wk_depth w) > gi_depth i then int (wk_depth w) else gi_depth i),
        gi_complexity := gi_complexity i + int (wk_complexity w),
        gi_aliases := gi_aliases i + int (wk_aliases w),
        gi_introspection := (if wk_introspection w then True else gi_introspection i)\<rparr>)"

definition policy_issues :: "graphql_config \<Rightarrow> graphql_info \<Rightarrow> nat \<Rightarrow> string list" where
  "policy_issues c i ops =
     (if gql_max_depth c > 0 \<and> gi_depth i > gql_max_depth c
      then [''depth bomb: depth '' @ itoa (gi_depth i) @ '' exceeds limit '' @ itoa (gql_max_depth c)]
      else []) @
     (if gql_max_complexity c > 0 \<and> gi_complexity i > gql_max_complexity c
      then [''complexity: cost '' @ itoa (gi_complexity i) @ '' exceeds limit '' @
            itoa (gql_max_complexity c)] else []) @
     (if gql_block_introspection c \<and> gi_introspection i then [''introspection query''] else []) @
     (if gql_block_batching c \<and> ops > 1 then [''batching attack blocked''] else []) @
     (if gql_max_aliases c > 0 \<and> gi_aliases i > gql_max_aliases c
      then [''alias abuse: '' @ itoa (gi_aliases i) @ '' aliases exceeds limit '' @
            itoa (gql_max_aliases c)] else [])"

text \<open>The parser's error is its message.\<close>

definition gql_inspect ::
    "(string \<Rightarrow> (string, operation list) go) \<Rightarrow> gql_request \<Rightarrow> graphql_config option \<Rightarrow> gql_report" where
  "gql_inspect parse req cfg =
     (let info0 = \<lparr>gi_operation = gq_operation req, gi_depth = 0, gi_complexity = 0,
                   gi_aliases = 0, gi_introspection = False,
                   gi_query = gql_truncate (gq_query req) 2048\<rparr>
      in if trim_space (gq_query req) = []
         then \<lparr>gp_info = info0, gp_issues = [''empty query''], gp_malformed = True\<rparr>
         else (case parse (gq_query req) of
                 Ok ops \<Rightarrow>
                   let info = foldl add_operation info0 ops in
                   \<lparr>gp_info = info,
                    gp_issues =
                      (if length ops > 1
                       then [''batching: '' @ itoa (int (length ops)) @ '' operations in one request'']
                       else []) @
                      (case cfg of None \<Rightarrow> [] | Some c \<Rightarrow> policy_issues c info (length ops)),
                    gp_malformed = False\<rparr>
               | Fail e \<Rightarrow> \<lparr>gp_info = info0, gp_issues = [''malformed query: '' @ first_err e],
                            gp_malformed = True\<rparr>
               | Panic \<Rightarrow> \<lparr>gp_info = info0, gp_issues = [''malformed query: ''], gp_malformed = True\<rparr>))"

subsection \<open>What the walk measures\<close>

text \<open>
  A declarative reading of a selection set: all fields in it with their nesting level
  (inline fragments do not count as a level), and the number of fragment spreads.
\<close>

fun fields_of :: "nat \<Rightarrow> selection \<Rightarrow> (nat \<times> string \<times> string) list" where
  "fields_of l (Field a n ss) = (l + 1, a, n) # concat (map (fields_of (l + 1)) ss)"
| "fields_of l (InlineFragment ss) = concat (map (fields_of l) ss)"
| "fields_of l (FragmentSpread n) = []"

fun spreads_of :: "selection \<Rightarrow> nat" where
  "spreads_of (Field a n ss) = sum_list (map spreads_of ss)"
| "spreads_of (InlineFragment ss) = sum_list (map spreads_of ss)"
| "spreads_of (FragmentSpread n) = 1"

definition all_fields :: "nat \<Rightarrow> selection list \<Rightarrow> (nat \<times> string \<times> string) list" where
  "all_fields l ss = concat (map (fields_of l) ss)"

definition is_aliased :: "nat \<times> string \<times> string \<Rightarrow> bool" where
  "is_aliased f \<longleftrightarrow> fst (snd f) \<noteq> [] \<and> fst (snd f) \<noteq> snd (snd f)"

definition measure_of :: "nat \<Rightarrow> (nat \<times> string \<times> string) list \<Rightarrow> nat \<Rightarrow> walk_result" where
  "measure_of l fs spreads =
     \<lparr>wk_depth = Max (insert l (fst ` set fs)), wk_complexity = length fs + spreads,
      wk_aliases = length (filter is_aliased fs),
      wk_introspection = (\<exists>f \<in> set fs. introspection_name (snd (snd f)))\<rparr>"

definition walk_add :: "walk_result \<Rightarrow> walk_result \<Rightarrow> walk_result" where
  "walk_add a b =
     \<lparr>wk_depth = max (wk_depth a) (wk_depth b), wk_complexity = wk_complexity a + wk_complexity b,
      wk_aliases = wk_aliases a + wk_aliases b,
      wk_introspection = (wk_introspection a \<or> wk_introspection b)\<rparr>"

lemma Max_insert_union:
  "finite A \<Longrightarrow> finite B \<Longrightarrow> Max (insert (l :: nat) (A \<union> B)) = max (Max (insert l A)) (Max (insert l B))"
proof -
  assume "finite A" "finite B"
  then have "Max (insert l A \<union> insert l B) = max (Max (insert l A)) (Max (insert l B))"
    by (intro Max_Un) auto
  moreover have "insert l (A \<union> B) = insert l A \<union> insert l B" by auto
  ultimately show ?thesis by (simp only:)
qed

lemma depth_below: "Max (insert l (insert (Suc l) (fst ` set fs))) = Max (insert (Suc l) (fst ` set fs))"
proof -
  have "Suc l \<le> Max (insert (Suc l) (fst ` set fs))" by simp
  then have "max l (Max (insert (Suc l) (fst ` set fs))) = Max (insert (Suc l) (fst ` set fs))"
    by (intro max_absorb2) linarith
  then show ?thesis by (subst Max_insert) auto
qed

lemma measure_field:
  "measure_of l ((l + 1, a, n) # fs) k =
     (let c = measure_of (l + 1) fs k in
      \<lparr>wk_depth = wk_depth c, wk_complexity = 1 + wk_complexity c,
       wk_aliases = (if a \<noteq> [] \<and> a \<noteq> n then 1 else 0) + wk_aliases c,
       wk_introspection = introspection_name n \<or> wk_introspection c\<rparr>)"
  using depth_below [of l fs] by (simp add: measure_of_def is_aliased_def Let_def)

lemma measure_of_append:
  "measure_of l (fs @ gs) (m + n) = walk_add (measure_of l fs m) (measure_of l gs n)"
  by (auto simp: measure_of_def walk_add_def image_Un Max_insert_union)

lemma walk_add_assoc: "walk_add (walk_add a b) c = walk_add a (walk_add b c)"
  by (simp add: walk_add_def max.assoc add.assoc disj_assoc)

lemma measure_of_start:
  "wk_depth acc \<ge> l \<Longrightarrow> walk_add acc (measure_of l [] 0) = acc"
  by (cases acc) (auto simp: walk_add_def measure_of_def)

lemma walk_measures:
  shows "walk ss l = measure_of l (all_fields l ss) (sum_list (map spreads_of ss))"
    and "l \<le> wk_depth acc \<Longrightarrow> walk_sel l s acc = walk_add acc (measure_of l (fields_of l s) (spreads_of s))"
    and "l \<le> wk_depth acc \<Longrightarrow> walk_loop l ss' acc =
           walk_add acc (measure_of l (all_fields l ss') (sum_list (map spreads_of ss')))"
proof (induction ss l and l s acc and l ss' acc rule: walk_walk_sel_walk_loop.induct)
  case (1 ss l)
  then show ?case
    by (simp add: walk_add_def measure_of_def max_absorb2)
next
  case (2 l a n ss acc)
  have sel: "walk_add acc (measure_of l (fields_of l (Field a n ss)) (spreads_of (Field a n ss))) =
      (let c = measure_of (l + 1) (all_fields (l + 1) ss) (sum_list (map spreads_of ss)) in
       \<lparr>wk_depth = (if wk_depth c > wk_depth acc then wk_depth c else wk_depth acc),
        wk_complexity = wk_complexity acc + 1 + wk_complexity c,
        wk_aliases = wk_aliases acc + (if a \<noteq> [] \<and> a \<noteq> n then 1 else 0) + wk_aliases c,
        wk_introspection = wk_introspection acc \<or> introspection_name n \<or> wk_introspection c\<rparr>)"
    unfolding fields_of.simps all_fields_def [symmetric] spreads_of.simps measure_field
    by (simp add: Let_def walk_add_def max_def)
  show ?case
    by (simp only: walk_sel.simps 2(1) sel)
next
  case (3 l ss acc)
  then show ?case
    by (simp add: all_fields_def [symmetric]) (simp add: Let_def walk_add_def max_def)
next
  case (4 l n acc)
  then show ?case by (cases acc) (simp add: walk_add_def measure_of_def max_def)
next
  case (5 l acc)
  then show ?case by (simp add: all_fields_def measure_of_start)
next
  case (6 l s ss acc)
  have "l \<le> wk_depth (walk_sel l s acc)"
    using 6 by (auto simp: walk_add_def)
  with 6 show ?case
    by (simp add: walk_add_assoc measure_of_append all_fields_def)
qed

subsection \<open>Properties\<close>

definition op_walk :: "operation \<Rightarrow> walk_result" where
  "op_walk op = walk (snd op) 0"

lemma add_operations:
  "gi_depth (foldl add_operation i ops) = foldl max (gi_depth i) (map (\<lambda>o'. int (wk_depth (op_walk o'))) ops)"
  "gi_complexity (foldl add_operation i ops) =
     gi_complexity i + sum_list (map (\<lambda>o'. int (wk_complexity (op_walk o'))) ops)"
  "gi_aliases (foldl add_operation i ops) =
     gi_aliases i + sum_list (map (\<lambda>o'. int (wk_aliases (op_walk o'))) ops)"
  "gi_introspection (foldl add_operation i ops) \<longleftrightarrow>
     gi_introspection i \<or> (\<exists>o' \<in> set ops. wk_introspection (op_walk o'))"
  by (induction ops arbitrary: i) (auto simp: add_operation_def Let_def op_walk_def max_def)

lemma foldl_max_le: "foldl max (b :: int) xs \<le> a \<longleftrightarrow> b \<le> a \<and> (\<forall>x \<in> set xs. x \<le> a)"
  by (induction xs arbitrary: b) auto

lemma policy_issues_Nil:
  "policy_issues c i n = [] \<longleftrightarrow>
     (gql_max_depth c > 0 \<longrightarrow> gi_depth i \<le> gql_max_depth c) \<and>
     (gql_max_complexity c > 0 \<longrightarrow> gi_complexity i \<le> gql_max_complexity c) \<and>
     (gql_block_introspection c \<longrightarrow> \<not> gi_introspection i) \<and>
     (gql_block_batching c \<longrightarrow> n \<le> 1) \<and>
     (gql_max_aliases c > 0 \<longrightarrow> gi_aliases i \<le> gql_max_aliases c)"
  by (auto simp: policy_issues_def)

lemma inspect_issues_Nil:
  assumes "trim_space (gq_query req) \<noteq> []" and "parse (gq_query req) = Ok ops"
  shows "gp_issues (gql_inspect parse req (Some c)) = [] \<longleftrightarrow>
     length ops \<le> 1 \<and>
     policy_issues c (foldl add_operation
        \<lparr>gi_operation = gq_operation req, gi_depth = 0, gi_complexity = 0, gi_aliases = 0,
         gi_introspection = False, gi_query = gql_truncate (gq_query req) 2048\<rparr> ops) (length ops) = []"
  using assms by (simp add: gql_inspect_def Let_def not_less)

text \<open>A fragment spread shifts the cost of the loop by one.\<close>

lemma walk_loop_append: "walk_loop l (ts @ us) acc = walk_loop l us (walk_loop l ts acc)"
  by (induction ts arbitrary: acc) simp_all

lemma walk_loop_cost:
  "walk_loop l us (acc\<lparr>wk_complexity := wk_complexity acc + 1\<rparr>) =
     (walk_loop l us acc)\<lparr>wk_complexity := wk_complexity (walk_loop l us acc) + 1\<rparr>"
proof (induction us arbitrary: acc)
  case (Cons s us)
  have "walk_sel l s (acc\<lparr>wk_complexity := wk_complexity acc + 1\<rparr>) =
      (walk_sel l s acc)\<lparr>wk_complexity := wk_complexity (walk_sel l s acc) + 1\<rparr>"
    by (cases s) (simp_all add: Let_def)
  with Cons show ?case by simp
qed simp

lemma walk_spread:
  "walk (ts @ FragmentSpread n # us) l =
     (walk (ts @ us) l)\<lparr>wk_complexity := wk_complexity (walk (ts @ us) l) + 1\<rparr>"
  using walk_loop_cost by (simp add: walk_loop_append)

text \<open>
  C40. The walk measures what the policy is about: the depth is the deepest field nesting
  (inline fragments are transparent), the complexity counts every field and every fragment
  spread once, aliases are the renamed fields, and the introspection flag says whether a
  meta field occurs anywhere. A fragment spread anywhere in a selection set adds one to the cost
  and nothing else, whatever the fragment contains. The comment in the code says that fragment
  definitions are walked separately and that a spread is a step of depth: they are not walked at
  all, and a spread adds no depth, so nesting, aliases and meta fields inside a fragment are
  never counted.
\<close>

theorem graphql_walk_measures:
  "walk ss 0 = measure_of 0 (all_fields 0 ss) (sum_list (map spreads_of ss)) \<and>
   walk [FragmentSpread n] l =
     \<lparr>wk_depth = l, wk_complexity = 1, wk_aliases = 0, wk_introspection = False\<rparr> \<and>
   walk (ts @ FragmentSpread n # us) l =
     (walk (ts @ us) l)\<lparr>wk_complexity := wk_complexity (walk (ts @ us) l) + 1\<rparr>"
proof (intro conjI)
  show "walk ss 0 = measure_of 0 (all_fields 0 ss) (sum_list (map spreads_of ss))" by (rule walk_measures(1))
  show "walk [FragmentSpread n] l = \<lparr>wk_depth = l, wk_complexity = 1, wk_aliases = 0, wk_introspection = False\<rparr>"
    by simp
  show "walk (ts @ FragmentSpread n # us) l =
      (walk (ts @ us) l)\<lparr>wk_complexity := wk_complexity (walk (ts @ us) l) + 1\<rparr>" by (rule walk_spread)
qed

text \<open>
  Enforcement: a query that parses gets no issue if and only if it is a single operation
  whose depth, total complexity and aliases are within the positive limits of the site and
  that asks for no meta field where introspection is blocked. More than one operation is
  an issue whether or not the site blocks batching.
\<close>

theorem graphql_inspect_enforces:
  assumes "trim_space (gq_query req) \<noteq> []" and "parse (gq_query req) = Ok ops"
  shows "gp_issues (gql_inspect parse req (Some c)) = [] \<longleftrightarrow>
     length ops \<le> 1 \<and>
     (gql_max_depth c > 0 \<longrightarrow> (\<forall>o' \<in> set ops. int (wk_depth (op_walk o')) \<le> gql_max_depth c)) \<and>
     (gql_max_complexity c > 0 \<longrightarrow>
        sum_list (map (\<lambda>o'. int (wk_complexity (op_walk o'))) ops) \<le> gql_max_complexity c) \<and>
     (gql_block_introspection c \<longrightarrow> (\<forall>o' \<in> set ops. \<not> wk_introspection (op_walk o'))) \<and>
     (gql_max_aliases c > 0 \<longrightarrow>
        sum_list (map (\<lambda>o'. int (wk_aliases (op_walk o'))) ops) \<le> gql_max_aliases c)"
  unfolding inspect_issues_Nil [of req parse ops c, OF assms] policy_issues_Nil add_operations foldl_max_le
  by (cases "length ops \<le> 1"; cases "gql_max_depth c > 0"; simp)

theorem graphql_inspect_enforces_witness:
  "gp_issues (gql_inspect (\<lambda>_. Ok [([], [Field ''a'' ''a'' [Field ''b'' ''b'' []]])])
      \<lparr>gq_query = ''{a{b}}'', gq_operation = []\<rparr>
      (Some \<lparr>gql_enabled = True, gql_max_depth = 1, gql_max_complexity = 0,
             gql_block_introspection = False, gql_block_batching = False, gql_max_aliases = 0\<rparr>)) \<noteq> []"
proof -
  let ?ops = "[([], [Field ''a'' ''a'' [Field ''b'' ''b'' []]])] :: operation list"
  have "trim_space ''{a{b}}'' \<noteq> []" by code_simp
  moreover have "wk_depth (op_walk ([], [Field ''a'' ''a'' [Field ''b'' ''b'' []]])) = 2"
    by (simp add: op_walk_def Let_def)
  ultimately show ?thesis
    using graphql_inspect_enforces [of "\<lparr>gq_query = ''{a{b}}'', gq_operation = []\<rparr>" "\<lambda>_. Ok ?ops" ?ops
        "\<lparr>gql_enabled = True, gql_max_depth = 1, gql_max_complexity = 0,
             gql_block_introspection = False, gql_block_batching = False, gql_max_aliases = 0\<rparr>"]
    by simp
qed

end
