(* ===== verification/ChallengePage.thy ===== *)
theory ChallengePage
  imports Prelude
begin

text \<open>
  The page of the proof-of-work challenge (botscoring.go, Challenge.HTML): its text as the source
  has it, with the three placeholders, and Go's strings.Replacer that fills them in. In the lines
  below a backquote stands for the single quote and a dollar sign for the backslash, neither of
  which occurs in the page itself.
\<close>

subsection \<open>strings.NewReplacer\<close>

text \<open>At each position the first pair whose key starts there is taken; the replacement is not read again.\<close>

function replacer :: "(string \<times> string) list \<Rightarrow> string \<Rightarrow> string" where
  "replacer kvs [] = []"
| "replacer kvs (c # cs) =
     (case find (\<lambda>(k, v). k \<noteq> [] \<and> has_prefix (c # cs) k) kvs of
        None \<Rightarrow> c # replacer kvs cs
      | Some (k, v) \<Rightarrow> v @ replacer kvs (drop (length k) (c # cs)))"
  by pat_completeness auto

termination
  by (relation "measure (length \<circ> snd)") (auto simp: find_Some_iff)

subsection \<open>The page\<close>

definition text_line :: "string \<Rightarrow> string" where
  "text_line l =
     map (\<lambda>c. if c = CHR 0x60 then CHR 0x27 else if c = CHR ''$'' then CHR 0x5C else c) l @ [CHR 0x0A]"

definition page_head :: "string list" where
  "page_head =
    [''<!doctype html><html><head><meta charset=\"utf-8\">'',
     ''<title>Verifying you are human</title>'',
     ''<style>body{font-family:Inter,sans-serif;background:#0A0E14;color:#E6E9EF;display:flex;align-items:center;justify-content:center;height:100vh;margin:0}'',
     ''.card{background:#131822;border:1px solid #2A3242;border-radius:12px;padding:32px;text-align:center;max-width:360px}'',
     ''.spinner{width:28px;height:28px;border:3px solid #2A3242;border-top-color:#22D3EE;border-radius:50%;animation:spin 0.8s linear infinite;margin:0 auto 16px}'',
     ''@keyframes spin{to{transform:rotate(360deg)}}</style></head><body><div class=\"card\">'',
     ''<div class=\"spinner\"></div><h3>Checking your browser...</h3>'',
     ''<p style=\"color:#8A93A6;font-size:13px\">This site protects itself with a proof-of-work challenge.</p>'',
     ''</div>'',
     ''<script>'',
     ''(function(){'']"

definition page_solver :: "string list" where
  "page_solver =
    [''  var deadline = Date.now() + 5000;'',
     ''  function sha256hex(ascii){'',
     ''    function rightRotate(v,a){return (v>>>a)|(v<<(32-a));}'',
     ''    var mathPow=Math.pow, maxWord=mathPow(2,32), lengthProperty=`length`, i, j, result=``;'',
     ''    var words=[], asciiBitLength=ascii[lengthProperty]*8;'',
     ''    var hash=sha256.h=sha256.h||[], k=sha256.k=sha256.k||[];'',
     ''    var primeCounter=k[lengthProperty];'',
     ''    var isComposite={};'',
     ''    for(var candidate=2;primeCounter<64;candidate++){'',
     ''      if(!isComposite[candidate]){for(i=0;i<313;i+=candidate){isComposite[i]=candidate;}hash[primeCounter]=mathPow(candidate,.5)*maxWord|0;k[primeCounter++]=mathPow(candidate,1/3)*maxWord|0;}}'',
     ''    ascii+=`$x80`;'',
     ''    while(ascii[lengthProperty]%64-56)ascii+=`$x00`;'',
     ''    for(i=0;i<ascii[lengthProperty];i++){j=ascii.charCodeAt(i);words[i>>2]|=j<<((3-i)%4)*8;}'',
     ''    words[words[lengthProperty]]=(asciiBitLength/maxWord)|0;words[words[lengthProperty]]=(asciiBitLength);'',
     ''    for(j=0;j<words[lengthProperty];){var w=words.slice(j,j+=16),oldHash=hash;hash=hash.slice(0,8);'',
     ''      for(i=0;i<64;i++){var w15=w[i-15],w2=w[i-2];'',
     ''        var a=hash[0],e=hash[4];var temp1=hash[7]+(rightRotate(e,6)^rightRotate(e,11)^rightRotate(e,25))+((e&hash[5])^((~e)&hash[6]))+k[i]+(w[i]=i<16?w[i]:(w[i-16]+(rightRotate(w15,7)^rightRotate(w15,18)^(w15>>>3))+w[i-7]+(rightRotate(w2,17)^rightRotate(w2,19)^(w2>>>10)))|0);'',
     ''        var temp2=(rightRotate(a,2)^rightRotate(a,13)^rightRotate(a,22))+((a&hash[1])^(a&hash[2])^(hash[1]&hash[2]));'',
     ''        hash=[(temp1+temp2)|0,hash[0],hash[1],hash[2],hash[3]+temp1|0,hash[4],hash[5],hash[6]];'',
     ''      }'',
     ''      for(i=0;i<8;i++){hash[i]=hash[i]+oldHash[i]|0;}'',
     ''    }'',
     ''    for(i=0;i<8;i++){for(j=3;j+1;j--){var b=(hash[i]>>j*8)&255;result+=((b<16)?0:``)+b.toString(16);}}'',
     ''    return result;'',
     ''  }'',
     ''  function solve(){'',
     ''    for(var counter=0;;counter++){'',
     ''      var proof = counter.toString(16);'',
     ''      var h = sha256hex(nonce + proof);'',
     ''      var ok = true;'',
     ''      for(var i=0;i<difficulty;i++){ if(h[i]!==`0`){ok=false;break;} }'',
     ''      if(ok){'']"

definition page_tail :: "string list" where
  "page_tail =
    [''        var hidden=document.createElement(`input`);hidden.type=`hidden`;hidden.name=`_pow`;hidden.value=proof;'',
     ''        form.appendChild(hidden);document.body.appendChild(form);form.submit();'',
     ''        return;'',
     ''      }'',
     ''      if(Date.now()>deadline+2000){ location.reload(); return; }'',
     ''    }'',
     ''  }'',
     ''  setTimeout(solve, 10);'',
     ''})();'']"

definition challenge_template :: string where
  "challenge_template =
     concat (map text_line (page_head @
       [''  var nonce = \"__NONCE__\";'', ''  var difficulty = __DIFF__;''] @
       page_solver @ [''        var form=document.createElement(`form`);form.method=`POST`;form.action=`__ACTION__`;''] @
       page_tail)) @ ''</script></body></html>''"

definition fill_template :: "string \<Rightarrow> int \<Rightarrow> string \<Rightarrow> string" where
  "fill_template nonce difficulty act =
     replacer [(''__NONCE__'', nonce), (''__DIFF__'', itoa difficulty), (''__ACTION__'', act)] challenge_template"

subsection \<open>Where the placeholders are\<close>

text \<open>Text in which no key can start: every key starts with two underscores.\<close>

fun quiet :: "string \<Rightarrow> bool" where
  "quiet [] \<longleftrightarrow> True"
| "quiet (c # cs) \<longleftrightarrow> \<not> (c = CHR ''_'' \<and> (cs = [] \<or> hd cs = CHR ''_'')) \<and> quiet cs"

lemma has_prefix_trans: "has_prefix s k \<Longrightarrow> has_prefix k j \<Longrightarrow> has_prefix s j"
  by (auto simp: has_prefix_iff)

lemma replacer_quiet:
  assumes "quiet p" and "list_all (\<lambda>(k, v). has_prefix k ''__'') kvs"
  shows "replacer kvs (p @ rest) = p @ replacer kvs rest"
  using assms(1)
proof (induction p)
  case (Cons c p)
  have "find (\<lambda>(k, v). k \<noteq> [] \<and> has_prefix (c # p @ rest) k) kvs = None"
  proof -
    have "\<not> has_prefix (c # p @ rest) ''__''"
      using Cons.prems by (cases p) (auto simp: has_prefix_def)
    with assms(2) show ?thesis
      by (auto simp: find_None_iff list_all_iff dest: has_prefix_trans)
  qed
  with Cons show ?case by simp
qed simp

lemma quiet_append: "quiet a \<Longrightarrow> quiet b \<Longrightarrow> quiet (a @ b)"
  by (induction a rule: quiet.induct) (auto simp: hd_append neq_Nil_conv)

lemma quiet_lines: "list_all (quiet \<circ> text_line) ls \<Longrightarrow> quiet (concat (map text_line ls))"
  by (induction ls) (auto intro: quiet_append)

lemma page_quiet:
  "list_all (quiet \<circ> text_line) page_head" "list_all (quiet \<circ> text_line) page_solver"
  "list_all (quiet \<circ> text_line) page_tail"
  by code_simp+

definition line_feed :: string where
  "line_feed = [CHR 0x0A]"

lemma template_parts:
  "challenge_template =
     concat (map text_line page_head) @ ''  var nonce = \"'' @ ''__NONCE__'' @ ''\";'' @ line_feed @
     ''  var difficulty = '' @ ''__DIFF__'' @ '';'' @ line_feed @ concat (map text_line page_solver) @
     ''        var form=document.createElement('' @ [CHR 0x27] @ ''form'' @ [CHR 0x27] @ '');form.method='' @
     [CHR 0x27] @ ''POST'' @ [CHR 0x27] @ '';form.action='' @ [CHR 0x27] @ ''__ACTION__'' @ [CHR 0x27] @ '';'' @
     line_feed @ concat (map text_line page_tail) @ ''</script></body></html>''"
  by (simp add: challenge_template_def) (simp add: text_line_def line_feed_def)

text \<open>
  The filled page: nonce, difficulty and action stand where the placeholders stood, the action
  between the quotes of a string in the page's script, as it is.
\<close>

lemma fill_template_parts:
  "fill_template nonce d act =
     concat (map text_line page_head) @ ''  var nonce = \"'' @ nonce @ ''\";'' @ line_feed @
     ''  var difficulty = '' @ itoa d @ '';'' @ line_feed @ concat (map text_line page_solver) @
     ''        var form=document.createElement('' @ [CHR 0x27] @ ''form'' @ [CHR 0x27] @ '');form.method='' @
     [CHR 0x27] @ ''POST'' @ [CHR 0x27] @ '';form.action='' @ [CHR 0x27] @ act @ [CHR 0x27] @ '';'' @
     line_feed @ concat (map text_line page_tail) @ ''</script></body></html>''"
proof -
  let ?kvs = "[(''__NONCE__'', nonce), (''__DIFF__'', itoa d), (''__ACTION__'', act)]"
  have keys: "list_all (\<lambda>(k, v). has_prefix k ''__'') ?kvs" by (simp add: has_prefix_def)
  note copy = replacer_quiet [OF _ keys]
  have fill: "replacer ?kvs (''__NONCE__'' @ r) = nonce @ replacer ?kvs r"
    "replacer ?kvs (''__DIFF__'' @ r) = itoa d @ replacer ?kvs r"
    "replacer ?kvs (''__ACTION__'' @ r) = act @ replacer ?kvs r" for r
    by (simp_all add: has_prefix_def)
  note parts = page_quiet [THEN quiet_lines]
  have short: "quiet ''  var nonce = \"''" "quiet ''\";''" "quiet line_feed" "quiet ''  var difficulty = ''"
    "quiet '';''" "quiet ''        var form=document.createElement(''" "quiet [CHR 0x27]" "quiet ''form''"
    "quiet '');form.method=''" "quiet ''POST''" "quiet '';form.action=''" "quiet ''</script></body></html>''"
    by (simp_all add: line_feed_def)
  have last: "replacer ?kvs ''</script></body></html>'' = ''</script></body></html>''"
    using copy [OF short(12), of "[]"] by simp
  show ?thesis
    unfolding fill_template_def template_parts
    by (simp only: copy [OF parts(1)] copy [OF parts(2)] copy [OF parts(3)] copy [OF short(1)] copy [OF short(2)]
        copy [OF short(3)] copy [OF short(4)] copy [OF short(5)] copy [OF short(6)] copy [OF short(7)]
        copy [OF short(8)] copy [OF short(9)] copy [OF short(10)] copy [OF short(11)] fill last)
qed

text \<open>The page around the action.\<close>

definition page_before :: "string \<Rightarrow> int \<Rightarrow> string" where
  "page_before nonce d =
     concat (map text_line page_head) @ ''  var nonce = \"'' @ nonce @ ''\";'' @ line_feed @
     ''  var difficulty = '' @ itoa d @ '';'' @ line_feed @ concat (map text_line page_solver) @
     ''        var form=document.createElement('' @ [CHR 0x27] @ ''form'' @ [CHR 0x27] @ '');form.method='' @
     [CHR 0x27] @ ''POST'' @ [CHR 0x27] @ '';''"

definition page_after :: string where
  "page_after = line_feed @ concat (map text_line page_tail) @ ''</script></body></html>''"

lemma fill_template_script:
  "fill_template nonce d act =
     page_before nonce d @ ''form.action='' @ [CHR 0x27] @ act @ [CHR 0x27] @ '';'' @ page_after"
proof -
  have "'';form.action='' = '';'' @ ''form.action=''" by simp
  then show ?thesis by (simp only: fill_template_parts page_before_def page_after_def append_assoc)
qed

end
