(* ===== verification/BotScoring.thy ===== *)
theory BotScoring
  imports ChallengePage Regex
begin

text \<open>
  Package botscoring: the bot score, and the proof-of-work challenges with their store.
  Random bytes, the clock and SHA-256 are arguments; scores are exact rationals and times
  integer nanoseconds. A store operation runs under the store's mutex, so it is one step.
\<close>

subsection \<open>One-time stores\<close>

text \<open>
  The contract of a store of one-time secrets: redeeming a name that is not held fails, and
  after any attempt to redeem a name, successful or not, the name is not held any more.
  Issuing other names does not bring it back.
\<close>

locale one_time_store =
  fixes held :: "'s \<Rightarrow> 'k set"
    and redeem :: "'p \<Rightarrow> 'k \<Rightarrow> 's \<Rightarrow> 's \<times> bool"
  assumes redeem_absent: "k \<notin> held s \<Longrightarrow> \<not> snd (redeem p k s)"
    and redeem_consumes: "held (fst (redeem p k s)) \<subseteq> held s - {k}"
begin

text \<open>The results of a sequence of redemptions.\<close>

lemma no_second_redeem: "\<not> snd (redeem p' k (fst (redeem p k s)))"
  using redeem_absent [of k "fst (redeem p k s)" p'] redeem_consumes [of p k s] by blast

lemma never_after:
  assumes "k \<notin> held s"
  shows "k \<notin> held (foldl (\<lambda>s (p, j). fst (redeem p j s)) s ops) \<and>
         \<not> snd (redeem p' k (foldl (\<lambda>s (p, j). fst (redeem p j s)) s ops))"
proof -
  have "k \<notin> held (foldl (\<lambda>s (p, j). fst (redeem p j s)) s ops)"
    using assms
  proof (induction ops arbitrary: s)
    case Nil
    then show ?case by simp
  next
    case (Cons x ops)
    obtain p j where x: "x = (p, j)" by (cases x)
    have "k \<notin> held (fst (redeem p j s))" using redeem_consumes [of p j s] Cons.prems by blast
    from Cons.IH [OF this] show ?case by (simp add: x)
  qed
  with redeem_absent show ?thesis by blast
qed

end

text \<open>
  A weaker contract, for stores that keep a secret when an attempt fails: only a held secret
  can be redeemed, a redeemed one is not held any more, and redeeming adds none. Then every
  secret is redeemed at most once, whatever happens in between, as long as it is not issued
  again.
\<close>

fun run_results :: "('o \<Rightarrow> 's \<Rightarrow> 's \<times> bool) \<Rightarrow> 'o list \<Rightarrow> 's \<Rightarrow> bool list" where
  "run_results step [] s = []"
| "run_results step (x # xs) s = snd (step x s) # run_results step xs (fst (step x s))"

locale single_use =
  fixes held :: "'s \<Rightarrow> 'k set"
    and redeem :: "'p \<Rightarrow> 'k \<Rightarrow> 's \<Rightarrow> 's \<times> bool"
  assumes redeem_held: "snd (redeem p k s) \<Longrightarrow> k \<in> held s"
    and redeem_spends: "snd (redeem p k s) \<Longrightarrow> k \<notin> held (fst (redeem p k s))"
    and redeem_keeps: "held (fst (redeem p k s)) \<subseteq> held s"
begin

lemma at_most_once:
  assumes "\<And>x s. x \<in> set ops \<Longrightarrow>
     (\<exists>p. step x s = redeem p k s) \<or>
     \<not> snd (step x s) \<and> (k \<in> held (fst (step x s)) \<longrightarrow> k \<in> held s)"
  shows "length (filter (\<lambda>b. b) (run_results step ops s)) \<le> (if k \<in> held s then 1 else 0)"
  using assms
proof (induction ops arbitrary: s)
  case Nil
  then show ?case by simp
next
  case (Cons x ops)
  let ?s = "fst (step x s)"
  have IH: "length (filter (\<lambda>b. b) (run_results step ops ?s)) \<le> (if k \<in> held ?s then 1 else 0)"
    using Cons.IH [of ?s] Cons.prems by simp
  from Cons.prems [of x s] show ?case
  proof
    assume "\<exists>p. step x s = redeem p k s"
    then obtain p where "step x s = redeem p k s" by blast
    with redeem_held [of p k s] redeem_spends [of p k s] redeem_keeps [of p k s] IH show ?thesis
      by (auto split: if_splits)
  next
    assume "\<not> snd (step x s) \<and> (k \<in> held ?s \<longrightarrow> k \<in> held s)"
    with IH show ?thesis by (auto split: if_splits)
  qed simp
qed

end

sublocale one_time_store \<subseteq> single_use held redeem
proof unfold_locales
  fix p k s
  show "snd (redeem p k s) \<Longrightarrow> k \<in> held s" using redeem_absent by blast
  show "k \<notin> held (fst (redeem p k s))" if "snd (redeem p k s)" using redeem_consumes [of p k s] by blast
  show "held (fst (redeem p k s)) \<subseteq> held s" using redeem_consumes [of p k s] by blast
qed

subsection \<open>Scoring\<close>

definition known_bots :: "re list" where
  "known_bots = map ilit
     [''python-requests'', ''curl/'', ''wget/'', ''libwww-perl'', ''scrapy'', ''go-http-client'',
      ''java/'', ''okhttp'', ''httpx/'', ''sqlmap'', ''nmap'', ''masscan'', ''headlesschrome'',
      ''phantomjs'', ''selenium''] @
     [Sq (ilit ''bot'') WordB, ilit ''crawler'', ilit ''spider'']"

record signal =
  sg_client_ip :: string
  sg_ja4 :: string
  sg_h2fp :: string
  sg_user_agent :: string
  sg_method :: string
  sg_has_accept :: bool
  sg_has_cookie :: bool
  sg_requests_per_min :: int

definition is_known_bot :: "string \<Rightarrow> bool" where
  "is_known_bot ua \<longleftrightarrow> (\<exists>r \<in> set known_bots. match_string r ua)"

definition bot_score :: "signal \<Rightarrow> rat" where
  "bot_score sig =
     (let ua = trim_space (sg_user_agent sig);
          s1 = (if ua = [] then 2/10 else 0);
          s2 = s1 + (if is_known_bot ua then 55/100 else 0);
          s3 = s2 + (if \<not> sg_has_accept sig \<and> ua \<noteq> [] then 1/10 else 0);
          s4 = s3 + (if \<not> sg_has_cookie sig then 5/100 else 0);
          s5 = s4 + (if sg_requests_per_min sig > 120 then 25/100
                     else if sg_requests_per_min sig > 60 then 1/10 else 0)
      in if s5 > 1 then 1 else s5)"

subsection \<open>Challenges\<close>

record challenge =
  cl_id :: string
  cl_nonce :: string
  cl_difficulty :: int
  cl_expires :: int

text \<open>\<open>rand\<close> is what sixteen random bytes came out as, \<open>None\<close> an error.\<close>

definition new_challenge :: "byte list option \<Rightarrow> int \<Rightarrow> int \<Rightarrow> int \<Rightarrow> challenge option" where
  "new_challenge rand now difficulty ttl =
     map_option (\<lambda>b. \<lparr>cl_id = take 16 (hex_encode b), cl_nonce = hex_encode b,
                      cl_difficulty = difficulty, cl_expires = now + ttl\<rparr>) rand"

definition verify_proof :: "(byte list \<Rightarrow> byte list) \<Rightarrow> int \<Rightarrow> challenge \<Rightarrow> string \<Rightarrow> bool" where
  "verify_proof sha now c proof' \<longleftrightarrow>
     \<not> (proof' = [] \<or> cl_difficulty c \<le> 0 \<or> now > cl_expires c) \<and>
     has_prefix (hex_encode (sha (str_to_bytes (cl_nonce c @ proof'))))
       (replicate (nat (cl_difficulty c)) (CHR ''0''))"

definition challenge_html :: "challenge \<Rightarrow> string \<Rightarrow> string" where
  "challenge_html c act = fill_template (cl_nonce c) (cl_difficulty c) act"

record challenge_store =
  cs_challenges :: "string \<Rightarrow> challenge option"
  cs_ttl :: int

definition new_challenge_store :: "int \<Rightarrow> challenge_store" where
  "new_challenge_store ttl = \<lparr>cs_challenges = (\<lambda>_. None), cs_ttl = ttl\<rparr>"

definition issue_challenge ::
    "byte list option \<Rightarrow> int \<Rightarrow> int \<Rightarrow> challenge_store \<Rightarrow> challenge_store \<times> challenge option" where
  "issue_challenge rand now difficulty s =
     (case new_challenge rand now difficulty (cs_ttl s) of
        None \<Rightarrow> (s, None)
      | Some c \<Rightarrow> (s\<lparr>cs_challenges := (cs_challenges s)(cl_id c \<mapsto> c)\<rparr>, Some c))"

definition redeem_challenge ::
    "(byte list \<Rightarrow> byte list) \<Rightarrow> int \<Rightarrow> string \<Rightarrow> string \<Rightarrow> challenge_store \<Rightarrow> challenge_store \<times> bool" where
  "redeem_challenge sha now id' proof' s =
     (case cs_challenges s id' of
        None \<Rightarrow> (s, False)
      | Some c \<Rightarrow> (s\<lparr>cs_challenges := (cs_challenges s)(id' := None)\<rparr>, verify_proof sha now c proof'))"

definition prune_challenges :: "int \<Rightarrow> challenge_store \<Rightarrow> challenge_store" where
  "prune_challenges now s =
     s\<lparr>cs_challenges := (\<lambda>k. case cs_challenges s k of
          None \<Rightarrow> None | Some c \<Rightarrow> if now > cl_expires c then None else Some c)\<rparr>"

interpretation challenges: one_time_store "\<lambda>s. dom (cs_challenges s)"
    "\<lambda>(sha, now, pr) k s. redeem_challenge sha now k pr s"
  by unfold_locales (auto simp: redeem_challenge_def split: option.splits if_splits)

subsection \<open>Properties\<close>

lemma no_bot_without_agent: "\<not> is_known_bot []"
  by code_simp

text \<open>
  The bot score lies in [0,1]; without a request rate (the gateway never sets one) it is
  at most 0.7, so it cannot reach the default block threshold of 0.9.
\<close>

theorem bot_score_range:
  "0 \<le> bot_score sig \<and> bot_score sig \<le> 1 \<and>
   (sg_requests_per_min sig = 0 \<longrightarrow> bot_score sig \<le> 7/10)"
  using no_bot_without_agent by (simp add: bot_score_def Let_def)

definition scripted_signal :: signal where
  "scripted_signal = \<lparr>sg_client_ip = [], sg_ja4 = [], sg_h2fp = [], sg_user_agent = ''curl/8'',
     sg_method = ''GET'', sg_has_accept = False, sg_has_cookie = False, sg_requests_per_min = 0\<rparr>"

theorem bot_score_range_witness: "bot_score scripted_signal \<le> 7/10"
  using bot_score_range [of scripted_signal] by (simp add: scripted_signal_def)

text \<open>
  A challenge can be redeemed at most once: after a redemption attempt for its id, valid
  or not, every later attempt for that id fails, whatever else is redeemed in between.
\<close>

theorem challenge_single_use:
  "\<not> snd (redeem_challenge sha' now' k pr'
      (foldl (\<lambda>s (j, pr). fst (redeem_challenge sha now j pr s))
         (fst (redeem_challenge sha0 now0 k pr0 s)) ops))"
proof -
  have "k \<notin> dom (cs_challenges (fst (redeem_challenge sha0 now0 k pr0 s)))"
    using challenges.redeem_consumes [of "(sha0, now0, pr0)" k s] by auto
  from challenges.never_after [OF this, of "map (\<lambda>(j, pr). ((sha, now, pr), j)) ops" "(sha', now', pr')"]
  show ?thesis by (simp add: foldl_map case_prod_unfold)
qed

text \<open>
  A redemption that succeeds was earned: the challenge was issued and not expired, its
  difficulty is positive, and the digest of nonce and proof starts with that many zero
  digits.
\<close>

theorem redeem_sound:
  assumes "redeem_challenge sha now k pr s = (s', True)"
  shows "\<exists>c. cs_challenges s k = Some c \<and> now \<le> cl_expires c \<and> 0 < cl_difficulty c \<and> pr \<noteq> [] \<and>
           take (nat (cl_difficulty c)) (hex_encode (sha (str_to_bytes (cl_nonce c @ pr)))) =
             replicate (nat (cl_difficulty c)) (CHR ''0'')"
  using assms
  by (auto simp: redeem_challenge_def verify_proof_def has_prefix_def split: option.splits)

theorem redeem_sound_witness:
  "\<exists>s' (c :: challenge). redeem_challenge (\<lambda>_. replicate 32 0) 5 ''k'' ''p''
      \<lparr>cs_challenges = [''k'' \<mapsto> \<lparr>cl_id = ''k'', cl_nonce = ''n'', cl_difficulty = 3, cl_expires = 9\<rparr>],
       cs_ttl = 10\<rparr> = (s', True) \<and> 0 < cl_difficulty c"
proof -
  let ?s = "\<lparr>cs_challenges = [''k'' \<mapsto> \<lparr>cl_id = ''k'', cl_nonce = ''n'', cl_difficulty = 3, cl_expires = 9\<rparr>],
       cs_ttl = 10\<rparr>"
  have "has_prefix (hex_encode (replicate 32 (0 :: byte))) (replicate 3 (CHR ''0''))" by code_simp
  then have "redeem_challenge (\<lambda>_. replicate 32 0) 5 ''k'' ''p'' ?s =
      (?s\<lparr>cs_challenges := (cs_challenges ?s)(''k'' := None)\<rparr>, True)"
    by (simp add: redeem_challenge_def verify_proof_def)
  moreover from redeem_sound [OF this] obtain c :: challenge where "0 < cl_difficulty c" by blast
  ultimately show ?thesis by blast
qed

end
