(* ===== verification/MlClient.thy ===== *)
theory MlClient
  imports Configuration
begin

text \<open>
  Package mlclient: the client of the ML scoring service and its circuit breaker. The HTTP
  exchange is an argument: what the service did with the request. Times are nanoseconds,
  scores exact rationals.
\<close>

record features =
  ft_site_id :: string
  ft_method :: string
  ft_path :: string
  ft_protocol :: string
  ft_client_ip :: string
  ft_content_type :: string
  ft_body_len :: int
  ft_header_count :: int
  ft_has_auth :: bool
  ft_is_graphql :: bool
  ft_graphql_depth :: int
  ft_graphql_cost :: int
  ft_has_cookie :: bool
  ft_has_api_key :: bool
  ft_bot_score :: rat
  ft_ja4 :: string

record ml_result =
  mlr_anomaly :: bool
  mlr_score :: rat
  mlr_label :: string

datatype ml_error = CircuitOpen | MlStatus | MlTransport | MlRequest | MlDecode

text \<open>
  The outcome of one exchange: the request could not be built, no response arrived, a
  response with another status than 200, or one with status 200 and the decoded body, if it
  could be decoded.
\<close>

datatype ml_reply = Unbuildable | Unreachable | BadStatus | Answer "ml_result option"

type_synonym ml_service = "string \<Rightarrow> features \<Rightarrow> ml_reply"

record ml_client =
  mc_cfg :: ml_config
  mc_failures :: int
  mc_open :: bool
  mc_opened_at :: int

definition no_ml_result :: ml_result where
  "no_ml_result = \<lparr>mlr_anomaly = False, mlr_score = 0, mlr_label = []\<rparr>"

definition new_ml_client :: "ml_config \<Rightarrow> ml_client" where
  "new_ml_client cfg =
     \<lparr>mc_cfg = cfg\<lparr>ml_timeout := or_num (ml_timeout cfg) 250000000,
                   ml_circuit_open := or_num (ml_circuit_open cfg) 5\<rparr>,
      mc_failures = 0, mc_open = False, mc_opened_at = 0\<rparr>"

definition breaker_open :: "int \<Rightarrow> ml_client \<Rightarrow> ml_client \<times> bool" where
  "breaker_open now c =
     (if \<not> mc_open c then (c, False)
      else if now - mc_opened_at c > 5000000000
      then (c\<lparr>mc_open := False, mc_failures := 0\<rparr>, False)
      else (c, True))"

definition record_failure :: "int \<Rightarrow> ml_client \<Rightarrow> ml_client" where
  "record_failure now c =
     (let n = mc_failures c + 1 in
      if n \<ge> ml_circuit_open (mc_cfg c)
      then c\<lparr>mc_failures := n, mc_open := True, mc_opened_at := now\<rparr>
      else c\<lparr>mc_failures := n\<rparr>)"

definition record_success :: "ml_client \<Rightarrow> ml_client" where
  "record_success c = c\<lparr>mc_failures := 0, mc_open := False\<rparr>"

definition clamp01 :: "rat \<Rightarrow> rat" where
  "clamp01 x = (let y = (if x < 0 then 0 else x) in if y > 1 then 1 else y)"

definition ml_score ::
    "ml_service \<Rightarrow> int \<Rightarrow> features \<Rightarrow> ml_client \<Rightarrow> ml_client \<times> (ml_error, ml_result) go" where
  "ml_score service now f c =
     (if ml_url (mc_cfg c) = [] \<or> \<not> ml_enabled (mc_cfg c) then (c, Ok no_ml_result)
      else (case breaker_open now c of
              (c1, True) \<Rightarrow> (c1, Fail CircuitOpen)
            | (c1, False) \<Rightarrow>
                (case service (ml_url (mc_cfg c1) @ ''/score'') f of
                   Unbuildable \<Rightarrow> (c1, Fail MlRequest)
                 | Unreachable \<Rightarrow> (record_failure now c1, Fail MlTransport)
                 | BadStatus \<Rightarrow> (record_failure now c1, Fail MlStatus)
                 | Answer None \<Rightarrow> (record_success c1, Fail MlDecode)
                 | Answer (Some r) \<Rightarrow>
                     (record_success c1, Ok (r\<lparr>mlr_score := clamp01 (mlr_score r)\<rparr>)))))"

subsection \<open>The breaker under a dead service\<close>

text \<open>\<open>contacts\<close> counts the calls of a run that reach the service.\<close>

definition contacted :: "int \<Rightarrow> ml_client \<Rightarrow> bool" where
  "contacted now c \<longleftrightarrow>
     ml_url (mc_cfg c) \<noteq> [] \<and> ml_enabled (mc_cfg c) \<and> \<not> snd (breaker_open now c)"

fun contacts :: "ml_service \<Rightarrow> (int \<times> features) list \<Rightarrow> ml_client \<Rightarrow> nat" where
  "contacts service [] c = 0"
| "contacts service ((now, f) # calls) c =
     (if contacted now c then 1 else 0) + contacts service calls (fst (ml_score service now f c))"

text \<open>How many more failing calls the breaker lets through before it opens for good.\<close>

definition tries_left :: "int \<Rightarrow> ml_client \<Rightarrow> nat" where
  "tries_left t0 c =
     (let n = ml_circuit_open (mc_cfg c) in
      if mc_open c then (if t0 \<le> mc_opened_at c then 0 else nat (max 1 n))
      else nat (max 1 (n - mc_failures c)))"

lemma record_failure_simps [simp]:
  "mc_cfg (record_failure now c) = mc_cfg c"
  "mc_failures (record_failure now c) = mc_failures c + 1"
  "mc_open (record_failure now c) \<longleftrightarrow> mc_open c \<or> ml_circuit_open (mc_cfg c) \<le> mc_failures c + 1"
  "mc_opened_at (record_failure now c) =
     (if ml_circuit_open (mc_cfg c) \<le> mc_failures c + 1 then now else mc_opened_at c)"
  by (simp_all add: record_failure_def Let_def)

lemma dead_call:
  assumes "service (ml_url (mc_cfg c) @ ''/score'') f \<in> {Unreachable, BadStatus}"
    and "t0 \<le> now" and "now \<le> t0 + 5000000000"
  shows "(if contacted now c then 1 else 0) + tries_left t0 (fst (ml_score service now f c))
           \<le> tries_left t0 c"
    and "mc_cfg (fst (ml_score service now f c)) = mc_cfg c"
  using assms
  by (auto simp: contacted_def ml_score_def breaker_open_def tries_left_def Let_def)

lemma dead_calls:
  assumes "\<And>u f. service u f \<in> {Unreachable, BadStatus}"
    and "\<forall>(now, f) \<in> set calls. t0 \<le> now \<and> now \<le> t0 + 5000000000"
  shows "contacts service calls c \<le> tries_left t0 c"
  using assms(2)
proof (induction calls arbitrary: c)
  case Nil
  then show ?case by simp
next
  case (Cons x calls)
  obtain now f where x: "x = (now, f)" by (cases x)
  with Cons.prems have "t0 \<le> now" "now \<le> t0 + 5000000000" by auto
  from dead_call(1) [of service c f t0 now, OF assms(1) [of "ml_url (mc_cfg c) @ ''/score''" f] this]
    Cons.IH [of "fst (ml_score service now f c)"] Cons.prems
  show ?case by (auto simp: x)
qed

lemma tries_left_le: "0 \<le> mc_failures c \<Longrightarrow> tries_left t0 c \<le> nat (max 1 (ml_circuit_open (mc_cfg c)))"
  by (auto simp: tries_left_def Let_def)

subsection \<open>Properties\<close>

text \<open>
  A service that does not answer is contacted at most \<open>circuit_open\<close> times (once, if
  that is not positive) in any five seconds, whatever state the breaker was in; and an
  answered score always lies in [0,1].
\<close>

theorem ml_breaker_bounds_contacts:
  assumes "\<And>u f. service u f \<in> {Unreachable, BadStatus}"
    and "\<forall>(now, f) \<in> set calls. t0 \<le> now \<and> now \<le> t0 + 5000000000"
    and "0 \<le> mc_failures c"
  shows "contacts service calls c \<le> nat (max 1 (ml_circuit_open (mc_cfg c))) \<and>
         (snd (ml_score service' t f c) = Ok r \<longrightarrow> 0 \<le> mlr_score r \<and> mlr_score r \<le> 1)"
proof
  show "contacts service calls c \<le> nat (max 1 (ml_circuit_open (mc_cfg c)))"
    using dead_calls [of service calls t0 c, OF assms(1,2)] tries_left_le [OF assms(3), of t0] by linarith
  show "snd (ml_score service' t f c) = Ok r \<longrightarrow> 0 \<le> mlr_score r \<and> mlr_score r \<le> 1"
    by (auto simp: ml_score_def clamp01_def no_ml_result_def Let_def
        split: if_splits prod.splits bool.splits ml_reply.splits option.splits)
qed

definition demo_ml :: ml_client where
  "demo_ml = new_ml_client \<lparr>ml_enabled = True, ml_url = ''http://ml'', ml_timeout = 0,
     ml_fail_mode = [], ml_threshold = 1/2, ml_circuit_open = 2\<rparr>"

definition demo_features :: features where
  "demo_features = \<lparr>ft_site_id = [], ft_method = [], ft_path = [], ft_protocol = [], ft_client_ip = [],
     ft_content_type = [], ft_body_len = 0, ft_header_count = 0, ft_has_auth = False,
     ft_is_graphql = False, ft_graphql_depth = 0, ft_graphql_cost = 0, ft_has_cookie = False,
     ft_has_api_key = False, ft_bot_score = 0, ft_ja4 = []\<rparr>"

theorem ml_breaker_bounds_contacts_witness:
  "contacts (\<lambda>_ _. Unreachable) (map (\<lambda>t. (t, demo_features)) [0, 1, 2, 3, 4]) demo_ml \<le> 2"
proof -
  have "contacts (\<lambda>_ _. Unreachable) (map (\<lambda>t. (t, demo_features)) [0, 1, 2, 3, 4]) demo_ml
      \<le> nat (max 1 (ml_circuit_open (mc_cfg demo_ml)))"
    using ml_breaker_bounds_contacts [of "\<lambda>_ _. Unreachable"
        "map (\<lambda>t. (t, demo_features)) [0, 1, 2, 3, 4]" 0 demo_ml]
    by (simp add: demo_ml_def new_ml_client_def)
  also have "ml_circuit_open (mc_cfg demo_ml) = 2"
    by (simp add: demo_ml_def new_ml_client_def or_num_def)
  finally show ?thesis by simp
qed

end
