(* ===== verification/Telemetry.thy ===== *)
theory Telemetry
  imports Prelude
begin

text \<open>
  Package telemetry: the request counters. They are atomic 64-bit words, so each update is
  one step; the compare-and-swap loops of AddGraphQL keep a running maximum.
\<close>

record collector =
  cl_requests :: "64 word"
  cl_blocked :: "64 word"
  cl_challenged :: "64 word"
  cl_protocol :: "64 word list"
  cl_gql_req :: "64 word"
  cl_gql_max_dep :: "64 word"
  cl_gql_max_cost :: "64 word"

definition new_collector :: collector where
  "new_collector = \<lparr>cl_requests = 0, cl_blocked = 0, cl_challenged = 0,
     cl_protocol = replicate 5 0, cl_gql_req = 0, cl_gql_max_dep = 0, cl_gql_max_cost = 0\<rparr>"

definition protocol_index :: "string \<Rightarrow> nat option" where
  "protocol_index p =
     map_of [(''rest'', 0), (''graphql'', 1), (''grpc'', 2), (''websocket'', 3), (''sse'', 4)] p"

definition add_request :: "string \<Rightarrow> collector \<Rightarrow> collector" where
  "add_request p c =
     (let c' = c\<lparr>cl_requests := cl_requests c + 1\<rparr> in
      case protocol_index p of
        None \<Rightarrow> c'
      | Some i \<Rightarrow> c'\<lparr>cl_protocol := (cl_protocol c)[i := cl_protocol c ! i + 1]\<rparr>)"

definition add_blocked :: "collector \<Rightarrow> collector" where
  "add_blocked c = c\<lparr>cl_blocked := cl_blocked c + 1\<rparr>"

definition add_challenged :: "collector \<Rightarrow> collector" where
  "add_challenged c = c\<lparr>cl_challenged := cl_challenged c + 1\<rparr>"

definition add_graphql :: "64 word \<Rightarrow> 64 word \<Rightarrow> collector \<Rightarrow> collector" where
  "add_graphql depth cost c =
     c\<lparr>cl_gql_req := cl_gql_req c + 1,
       cl_gql_max_dep := (if depth \<le> cl_gql_max_dep c then cl_gql_max_dep c else depth),
       cl_gql_max_cost := (if cost \<le> cl_gql_max_cost c then cl_gql_max_cost c else cost)\<rparr>"

record stats =
  ts_sites :: int
  ts_requests :: "64 word"
  ts_blocked :: "64 word"
  ts_challenged :: "64 word"
  ts_by_protocol :: "(string \<times> 64 word) list"
  ts_gql_requests :: "64 word"
  ts_gql_max_depth :: "64 word"
  ts_gql_max_cost :: "64 word"

definition snapshot :: "collector \<Rightarrow> stats" where
  "snapshot c =
     \<lparr>ts_sites = 0, ts_requests = cl_requests c, ts_blocked = cl_blocked c,
      ts_challenged = cl_challenged c,
      ts_by_protocol = [(''rest'', cl_protocol c ! 0), (''graphql'', cl_protocol c ! 1),
                        (''grpc'', cl_protocol c ! 2), (''websocket'', cl_protocol c ! 3),
                        (''sse'', cl_protocol c ! 4)],
      ts_gql_requests = cl_gql_req c, ts_gql_max_depth = cl_gql_max_dep c,
      ts_gql_max_cost = cl_gql_max_cost c\<rparr>"

subsection \<open>Runs of updates\<close>

datatype stat_op = AddRequest string | AddBlocked | AddChallenged | AddGraphQL "64 word" "64 word"

fun stat_step :: "collector \<Rightarrow> stat_op \<Rightarrow> collector" where
  "stat_step c (AddRequest p) = add_request p c"
| "stat_step c AddBlocked = add_blocked c"
| "stat_step c AddChallenged = add_challenged c"
| "stat_step c (AddGraphQL d k) = add_graphql d k c"

definition stat_run :: "stat_op list \<Rightarrow> collector" where
  "stat_run ops = foldl stat_step new_collector ops"

definition requests_in :: "string \<Rightarrow> stat_op list \<Rightarrow> nat" where
  "requests_in p ops = length (filter (\<lambda>x. x = AddRequest p) ops)"

definition is_request :: "stat_op \<Rightarrow> bool" where
  "is_request x = (case x of AddRequest _ \<Rightarrow> True | _ \<Rightarrow> False)"

fun depth_of_op :: "stat_op \<Rightarrow> 64 word list" where
  "depth_of_op (AddGraphQL d k) = [d]"
| "depth_of_op _ = []"

lemma stat_run_snoc: "stat_run (ops @ [x]) = stat_step (stat_run ops) x"
  by (simp add: stat_run_def)

lemma stat_run_Nil: "stat_run [] = new_collector"
  by (simp add: stat_run_def)

lemma protocol_index_bound: "protocol_index p = Some i \<Longrightarrow> i < 5"
  by (auto simp: protocol_index_def split: if_splits)

lemma protocol_index_inj: "protocol_index p = Some i \<Longrightarrow> protocol_index q = Some i \<Longrightarrow> p = q"
  by (auto simp: protocol_index_def split: if_splits)

lemma add_request_simps [simp]:
  "cl_requests (add_request p c) = cl_requests c + 1"
  "cl_blocked (add_request p c) = cl_blocked c"
  "cl_challenged (add_request p c) = cl_challenged c"
  "cl_gql_max_dep (add_request p c) = cl_gql_max_dep c"
  "cl_protocol (add_request p c) =
     (case protocol_index p of None \<Rightarrow> cl_protocol c
      | Some i \<Rightarrow> (cl_protocol c)[i := cl_protocol c ! i + 1])"
  by (simp_all add: add_request_def Let_def split: option.split)

lemma other_ops_simps [simp]:
  "cl_requests (add_blocked c) = cl_requests c"
  "cl_requests (add_challenged c) = cl_requests c"
  "cl_requests (add_graphql d k c) = cl_requests c"
  "cl_protocol (add_blocked c) = cl_protocol c"
  "cl_protocol (add_challenged c) = cl_protocol c"
  "cl_protocol (add_graphql d k c) = cl_protocol c"
  "cl_blocked (add_blocked c) = cl_blocked c + 1"
  "cl_blocked (add_challenged c) = cl_blocked c"
  "cl_blocked (add_graphql d k c) = cl_blocked c"
  "cl_challenged (add_blocked c) = cl_challenged c"
  "cl_challenged (add_challenged c) = cl_challenged c + 1"
  "cl_challenged (add_graphql d k c) = cl_challenged c"
  "cl_gql_max_dep (add_blocked c) = cl_gql_max_dep c"
  "cl_gql_max_dep (add_challenged c) = cl_gql_max_dep c"
  "cl_gql_max_dep (add_graphql d k c) = max (cl_gql_max_dep c) d"
  by (simp_all add: add_blocked_def add_challenged_def add_graphql_def max_absorb1 max_absorb2)

lemma new_collector_simps [simp]:
  "cl_requests new_collector = 0" "cl_blocked new_collector = 0"
  "cl_challenged new_collector = 0" "cl_gql_max_dep new_collector = 0"
  "cl_protocol new_collector = replicate 5 0"
  by (simp_all add: new_collector_def)

lemma length_protocol: "length (cl_protocol (stat_run ops)) = 5"
proof (induction ops rule: rev_induct)
  case (snoc x ops)
  then show ?case by (cases x) (simp_all add: stat_run_snoc split: option.split)
qed (simp add: stat_run_Nil)

lemma run_requests: "cl_requests (stat_run ops) = of_nat (length (filter is_request ops))"
proof (induction ops rule: rev_induct)
  case (snoc x ops)
  then show ?case by (cases x) (simp_all add: stat_run_snoc is_request_def)
qed (simp add: stat_run_Nil)

lemma run_protocol:
  "protocol_index p = Some i \<Longrightarrow> cl_protocol (stat_run ops) ! i = of_nat (requests_in p ops)"
proof (induction ops rule: rev_induct)
  case Nil
  then show ?case
    using protocol_index_bound [of p i] by (simp add: stat_run_Nil requests_in_def)
next
  case (snoc x ops)
  have len: "i < length (cl_protocol (stat_run ops))"
    using protocol_index_bound [OF snoc.prems] by (simp add: length_protocol)
  show ?case
  proof (cases x)
    case (AddRequest q)
    show ?thesis
    proof (cases "q = p")
      case True
      then show ?thesis using snoc len by (simp add: AddRequest stat_run_snoc requests_in_def)
    next
      case False
      then have "protocol_index q \<noteq> Some i" using protocol_index_inj [OF snoc.prems] by blast
      with False snoc show ?thesis
        by (auto simp: AddRequest stat_run_snoc requests_in_def split: option.split)
    qed
  qed (use snoc in \<open>simp_all add: stat_run_snoc requests_in_def\<close>)
qed

lemma run_blocked: "cl_blocked (stat_run ops) = of_nat (length (filter (\<lambda>x. x = AddBlocked) ops))"
proof (induction ops rule: rev_induct)
  case (snoc x ops)
  then show ?case by (cases x) (simp_all add: stat_run_snoc)
qed (simp add: stat_run_Nil)

lemma run_challenged: "cl_challenged (stat_run ops) = of_nat (length (filter (\<lambda>x. x = AddChallenged) ops))"
proof (induction ops rule: rev_induct)
  case (snoc x ops)
  then show ?case by (cases x) (simp_all add: stat_run_snoc)
qed (simp add: stat_run_Nil)

lemma run_max_depth:
  "cl_gql_max_dep (stat_run ops) = foldl max 0 (concat (map depth_of_op ops))"
proof (induction ops rule: rev_induct)
  case (snoc x ops)
  then show ?case by (cases x) (simp_all add: stat_run_snoc)
qed (simp add: stat_run_Nil)

subsection \<open>Properties\<close>

text \<open>
  After any sequence of updates the snapshot is exact modulo 2^64: the total and the
  per-protocol counters count the requests, a request of an unknown protocol is in the total
  only, and the recorded GraphQL depth is the largest one seen.
\<close>

theorem telemetry_snapshot_exact:
  "ts_requests (snapshot (stat_run ops)) = of_nat (length (filter is_request ops)) \<and>
   ts_blocked (snapshot (stat_run ops)) = of_nat (length (filter (\<lambda>x. x = AddBlocked) ops)) \<and>
   ts_challenged (snapshot (stat_run ops)) = of_nat (length (filter (\<lambda>x. x = AddChallenged) ops)) \<and>
   ts_by_protocol (snapshot (stat_run ops)) =
     map (\<lambda>p. (p, of_nat (requests_in p ops))) [''rest'', ''graphql'', ''grpc'', ''websocket'', ''sse''] \<and>
   ts_gql_max_depth (snapshot (stat_run ops)) = foldl max 0 (concat (map depth_of_op ops))"
  using run_protocol [of "''rest''" 0 ops] run_protocol [of "''graphql''" 1 ops]
    run_protocol [of "''grpc''" 2 ops] run_protocol [of "''websocket''" 3 ops]
    run_protocol [of "''sse''" 4 ops]
  by (simp add: snapshot_def run_requests run_blocked run_challenged run_max_depth protocol_index_def)

end
