(* ===== verification/GrpcProto.thy ===== *)
theory GrpcProto
  imports Prelude
begin

text \<open>
  Package grpcproto: the framing of a gRPC body, the method name, and the walk over a
  decoded message. The schema compiler and the protobuf decoder are arguments: a registry
  maps a method to the decoder of its input type. A decoded message is the list of its
  populated fields with their values, in the order \<open>Range\<close> visits them; \<open>show_val\<close> is the
  library's \<open>Value.String\<close>.
\<close>

subsection \<open>Decoded messages\<close>

text \<open>A field descriptor; the kinds are protobuf's numbers, an enum lists its values.\<close>

record pfield =
  pf_number :: int
  pf_name :: string
  pf_kind :: nat
  pf_list :: bool
  pf_enum :: "(int \<times> string) list"

definition kind_group :: nat where "kind_group = 10"
definition kind_message :: nat where "kind_message = 11"
definition kind_bytes :: nat where "kind_bytes = 12"
definition kind_enum :: nat where "kind_enum = 14"

text \<open>
  Values. Reading a value as a message, an enum number or bytes panics when it holds
  something else, in particular a list or a map.
\<close>

datatype pval =
  VMsg bool "(pfield \<times> pval) list"
| VEnum int
| VBytes string
| VList "pval list"
| VMap
| VScalar string

datatype fval = FNil | FStr string | FMap "(string \<times> fval) list" | FItems "string list"

fun value_to_string :: "(pval \<Rightarrow> string) \<Rightarrow> pfield \<Rightarrow> pval \<Rightarrow> (unit, fval) go"
  and members_to_string ::
    "(pval \<Rightarrow> string) \<Rightarrow> (pfield \<times> pval) list \<Rightarrow> (unit, (string \<times> fval) list) go" where
  "value_to_string show_val fd v =
     (if pf_kind fd = kind_message \<or> pf_kind fd = kind_group then
        (case v of
           VMsg valid fs \<Rightarrow>
             if valid then go_bind (members_to_string show_val fs) (\<lambda>out. Ok (FMap out)) else Ok FNil
         | _ \<Rightarrow> Panic)
      else if pf_kind fd = kind_enum then
        (case v of
           VEnum n \<Rightarrow> (case map_of (pf_enum fd) n of Some s \<Rightarrow> Ok (FStr s) | None \<Rightarrow> Panic)
         | _ \<Rightarrow> Panic)
      else if pf_kind fd = kind_bytes then
        (case v of VBytes b \<Rightarrow> Ok (FStr b) | _ \<Rightarrow> Panic)
      else if pf_list fd then
        (case v of VList items \<Rightarrow> Ok (FItems (map show_val items)) | _ \<Rightarrow> Panic)
      else Ok (FStr (show_val v)))"
| "members_to_string show_val [] = Ok []"
| "members_to_string show_val ((nfd, nv) # fs) =
     go_bind (value_to_string show_val nfd nv) (\<lambda>x.
       go_bind (members_to_string show_val fs) (\<lambda>out. Ok ((pf_name nfd, x) # out)))"

declare value_to_string.simps [simp del]

subsection \<open>The report\<close>

record grpc_field =
  gf_number :: int
  gf_name :: string
  gf_wire :: nat
  gf_value :: fval

record grpc_report =
  gw_service :: string
  gw_method :: string
  gw_fields :: "grpc_field list"
  gw_flat :: "(string \<times> string) list"
  gw_malformed :: bool
  gw_known :: bool

type_synonym grpc_registry = "string \<Rightarrow> (string \<Rightarrow> (pfield \<times> pval) list option) option"

definition has_method :: "grpc_registry \<Rightarrow> string \<Rightarrow> bool" where
  "has_method reg m \<longleftrightarrow> reg m \<noteq> None"

text \<open>\<open>flat[k] = v\<close> on the members of the map.\<close>

fun flat_put :: "string \<Rightarrow> string \<Rightarrow> (string \<times> string) list \<Rightarrow> (string \<times> string) list" where
  "flat_put k v [] = [(k, v)]"
| "flat_put k v ((k', v') # m) = (if k' = k then (k, v) # m else (k', v') # flat_put k v m)"

text \<open>The inner \<open>Range\<close> over the fields of a nested message.\<close>

fun flatten_nested ::
    "(pval \<Rightarrow> string) \<Rightarrow> (pfield \<times> pval) list \<Rightarrow> (string \<times> string) list \<Rightarrow>
     (unit, (string \<times> string) list) go" where
  "flatten_nested show_val [] flat = Ok flat"
| "flatten_nested show_val ((nfd, nv) # fs) flat =
     go_bind (value_to_string show_val nfd nv) (\<lambda>x.
       flatten_nested show_val fs (case x of FStr s \<Rightarrow> flat_put (pf_name nfd) s flat | _ \<Rightarrow> flat))"

text \<open>What one field adds to the flat map, given its printed value.\<close>

definition flat_entry ::
    "(pval \<Rightarrow> string) \<Rightarrow> pfield \<Rightarrow> pval \<Rightarrow> fval \<Rightarrow> (string \<times> string) list \<Rightarrow>
     (unit, (string \<times> string) list) go" where
  "flat_entry show_val fd v x flat =
     (case x of
        FStr s \<Rightarrow> Ok (flat_put (pf_name fd) s flat)
      | _ \<Rightarrow> if pf_kind fd = kind_message then
               (case v of
                  VMsg valid ns \<Rightarrow> if valid then flatten_nested show_val ns flat else Ok flat
                | _ \<Rightarrow> Panic)
             else Ok flat)"

fun walk_message ::
    "(pval \<Rightarrow> string) \<Rightarrow> (pfield \<times> pval) list \<Rightarrow> (string \<times> string) list \<Rightarrow> grpc_field list \<Rightarrow>
     (unit, (string \<times> string) list \<times> grpc_field list) go" where
  "walk_message show_val [] flat gfs = Ok (flat, gfs)"
| "walk_message show_val ((fd, v) # fs) flat gfs =
     go_bind (value_to_string show_val fd v) (\<lambda>x.
       go_bind (flat_entry show_val fd v x flat)
         (\<lambda>flat'. walk_message show_val fs flat'
            (gfs @ [\<lparr>gf_number = pf_number fd, gf_name = pf_name fd, gf_wire = pf_kind fd,
                     gf_value = x\<rparr>])))"

text \<open>One byte of compression flag and four of length before the message.\<close>

definition byte_at :: "string \<Rightarrow> nat \<Rightarrow> nat" where
  "byte_at s i = of_char (s ! i)"

definition strip_grpc_frame :: "string \<Rightarrow> string" where
  "strip_grpc_frame body =
     (if length body \<ge> 5 then
        let l = byte_at body 1 * 16777216 + byte_at body 2 * 65536 + byte_at body 3 * 256 + byte_at body 4
        in if (byte_at body 0 = 0 \<or> byte_at body 0 = 1) \<and> l \<le> length body - 5
           then take l (drop 5 body) else body
      else body)"

definition method_parts :: "string \<Rightarrow> string \<times> string" where
  "method_parts full =
     (let s = trim_prefix full ''/'' in
      case last_index_byte s (CHR ''/'') of
        Some i \<Rightarrow> (take i s, drop (i + 1) s)
      | None \<Rightarrow> ([], full))"

definition grpc_inspect ::
    "(pval \<Rightarrow> string) \<Rightarrow> grpc_registry \<Rightarrow> string \<Rightarrow> string \<Rightarrow> (unit, grpc_report) go" where
  "grpc_inspect show_val reg full body =
     (let rep = \<lparr>gw_service = fst (method_parts full), gw_method = snd (method_parts full),
                 gw_fields = [], gw_flat = [], gw_malformed = False, gw_known = False\<rparr>
      in case reg full of
           None \<Rightarrow> Ok rep
         | Some decode \<Rightarrow>
             (case decode (strip_grpc_frame body) of
                None \<Rightarrow> Ok (rep\<lparr>gw_known := True, gw_malformed := True\<rparr>)
              | Some msg \<Rightarrow>
                  go_bind (walk_message show_val msg [] []) (\<lambda>(flat, gfs).
                    Ok (rep\<lparr>gw_known := True, gw_flat := flat,
                            gw_fields := sort_key gf_number gfs\<rparr>))))"

subsection \<open>What a walk covers\<close>

text \<open>
  The fields whose value a walk can print: no list or map where a single message, enum or
  byte string is expected, and only declared enum numbers, all the way down.
\<close>

fun printable :: "pfield \<Rightarrow> pval \<Rightarrow> bool" and all_printable :: "(pfield \<times> pval) list \<Rightarrow> bool" where
  "printable fd (VMsg valid fs) \<longleftrightarrow>
     (if pf_kind fd = kind_message \<or> pf_kind fd = kind_group then \<not> valid \<or> all_printable fs
      else pf_kind fd \<noteq> kind_enum \<and> pf_kind fd \<noteq> kind_bytes \<and> \<not> pf_list fd)"
| "printable fd (VEnum n) \<longleftrightarrow>
     (if pf_kind fd = kind_enum then n \<in> fst ` set (pf_enum fd)
      else pf_kind fd \<notin> {kind_message, kind_group, kind_bytes} \<and> \<not> pf_list fd)"
| "printable fd (VBytes b) \<longleftrightarrow>
     pf_kind fd = kind_bytes \<or> pf_kind fd \<notin> {kind_message, kind_group, kind_enum} \<and> \<not> pf_list fd"
| "printable fd (VList vs) \<longleftrightarrow> pf_kind fd \<notin> {kind_message, kind_group, kind_enum, kind_bytes}"
| "printable fd VMap \<longleftrightarrow>
     pf_kind fd \<notin> {kind_message, kind_group, kind_enum, kind_bytes} \<and> \<not> pf_list fd"
| "printable fd (VScalar s) \<longleftrightarrow>
     pf_kind fd \<notin> {kind_message, kind_group, kind_enum, kind_bytes} \<and> \<not> pf_list fd"
| "all_printable [] \<longleftrightarrow> True"
| "all_printable ((nfd, nv) # fs) \<longleftrightarrow> printable nfd nv \<and> all_printable fs"

lemmas kind_defs = kind_group_def kind_message_def kind_bytes_def kind_enum_def

lemma not_Fail:
  "value_to_string show_val fd v \<noteq> Fail e" "members_to_string show_val fs \<noteq> Fail e"
  by (induction show_val fd v and show_val fs rule: value_to_string_members_to_string.induct)
     (auto simp: value_to_string.simps go_bind_Fail_iff split: pval.splits option.splits)

lemma panics_iff:
  "value_to_string show_val fd v = Panic \<longleftrightarrow> \<not> printable fd v"
  "members_to_string show_val fs = Panic \<longleftrightarrow> \<not> all_printable fs"
proof (induction fd v and fs rule: printable_all_printable.induct)
  case (8 nfd nv fs)
  then show ?case
    using not_Fail(1) [of show_val nfd nv] not_Fail(2) [of show_val fs]
    by (cases "value_to_string show_val nfd nv"; cases "members_to_string show_val fs") auto
qed (auto simp: value_to_string.simps kind_defs go_bind_Panic_iff map_of_eq_None_iff
      split: option.split dest: map_of_SomeD intro: image_eqI [rotated])

lemma value_ok: "printable fd v \<longleftrightarrow> (\<exists>x. value_to_string show_val fd v = Ok x)"
  using panics_iff(1) [of show_val fd v] not_Fail(1) [of show_val fd v]
  by (cases "value_to_string show_val fd v") auto

lemma flatten_nested_Panic:
  "flatten_nested show_val fs flat = Panic \<longleftrightarrow> \<not> all_printable fs"
proof (induction fs arbitrary: flat)
  case Nil
  then show ?case by simp
next
  case (Cons x fs)
  obtain fd v where x: "x = (fd, v)" by (cases x)
  show ?case
    using Cons panics_iff(1) [of show_val fd v] not_Fail(1) [of show_val fd v]
    by (cases "value_to_string show_val fd v") (auto simp: x)
qed

lemma flatten_nested_Fail: "flatten_nested show_val ns flat \<noteq> Fail e"
  by (induction ns arbitrary: flat) (auto simp: go_bind_Fail_iff not_Fail)

lemma flatten_nested_Ok: "all_printable ns \<Longrightarrow> \<exists>m. flatten_nested show_val ns flat = Ok m"
  using flatten_nested_Panic [of show_val ns flat] flatten_nested_Fail [of show_val ns flat]
  by (cases "flatten_nested show_val ns flat") auto

lemma flat_entry_Ok:
  assumes "printable fd v" and "value_to_string show_val fd v = Ok x"
  shows "\<exists>flat'. flat_entry show_val fd v x flat = Ok flat'"
  using assms flatten_nested_Ok
  by (cases v) (auto simp: flat_entry_def value_to_string.simps kind_defs split: fval.split)

lemma walk_message_Panic:
  "walk_message show_val fs flat gfs = Panic \<longleftrightarrow> \<not> all_printable fs"
proof (induction fs arbitrary: flat gfs)
  case Nil
  then show ?case by simp
next
  case (Cons x fs)
  obtain fd v where x: "x = (fd, v)" by (cases x)
  show ?case
  proof (cases "printable fd v")
    case False
    with panics_iff(1) [of show_val fd v] show ?thesis by (simp add: x)
  next
    case True
    then obtain y where y: "value_to_string show_val fd v = Ok y"
      by (auto simp: value_ok [of _ _ show_val])
    from flat_entry_Ok [OF True y] obtain flat' where "flat_entry show_val fd v y flat = Ok flat'"
      by blast
    with Cons True y show ?thesis by (simp add: x)
  qed
qed

lemma flat_entry_Fail: "flat_entry show_val fd v x flat \<noteq> Fail e"
  by (cases x; cases v) (simp_all add: flat_entry_def flatten_nested_Fail)

lemma walk_message_Fail: "walk_message show_val fs flat gfs \<noteq> Fail e"
  by (induction fs arbitrary: flat gfs)
     (auto simp: go_bind_Fail_iff not_Fail flat_entry_Fail)

text \<open>The names of the fields that print as text, directly or one message below.\<close>

definition text_names :: "(pval \<Rightarrow> string) \<Rightarrow> (pfield \<times> pval) list \<Rightarrow> string set" where
  "text_names show_val fs =
     {pf_name fd | fd v s. (fd, v) \<in> set fs \<and> value_to_string show_val fd v = Ok (FStr s)}"

definition nested_names :: "(pval \<Rightarrow> string) \<Rightarrow> (pfield \<times> pval) list \<Rightarrow> string set" where
  "nested_names show_val fs =
     (\<Union>(fd, v) \<in> set fs. if pf_kind fd = kind_message
        then (case v of VMsg True ns \<Rightarrow> text_names show_val ns | _ \<Rightarrow> {}) else {})"

lemma text_names_simps [simp]:
  "text_names show_val [] = {}"
  "text_names show_val ((fd, v) # fs) =
     (case value_to_string show_val fd v of Ok (FStr s) \<Rightarrow> insert (pf_name fd) (text_names show_val fs)
      | _ \<Rightarrow> text_names show_val fs)"
  by (auto simp: text_names_def split: go.split fval.split)

lemma nested_names_simps [simp]:
  "nested_names show_val [] = {}"
  "nested_names show_val ((fd, v) # fs) =
     (if pf_kind fd = kind_message then (case v of VMsg True ns \<Rightarrow> text_names show_val ns | _ \<Rightarrow> {}) else {})
       \<union> nested_names show_val fs"
  by (simp_all add: nested_names_def)

lemma flat_put_keys [simp]: "fst ` set (flat_put k v m) = insert k (fst ` set m)"
  by (induction k v m rule: flat_put.induct) auto

lemma flatten_nested_keys:
  "flatten_nested show_val ns flat = Ok m \<Longrightarrow> fst ` set m = fst ` set flat \<union> text_names show_val ns"
proof (induction ns arbitrary: flat)
  case Nil
  then show ?case by simp
next
  case (Cons x ns)
  obtain fd v where x: "x = (fd, v)" by (cases x)
  with Cons.prems obtain y where y: "value_to_string show_val fd v = Ok y"
    and rest: "flatten_nested show_val ns
        (case y of FStr s \<Rightarrow> flat_put (pf_name fd) s flat | _ \<Rightarrow> flat) = Ok m"
    by (auto simp: go_bind_Ok_iff)
  from Cons.IH [OF rest] show ?case by (cases y) (simp_all add: x y)
qed

lemma flat_entry_keys:
  assumes "value_to_string show_val fd v = Ok x" and "flat_entry show_val fd v x flat = Ok m"
  shows "fst ` set m = fst ` set flat \<union> text_names show_val [(fd, v)] \<union> nested_names show_val [(fd, v)]"
proof (cases "\<exists>s. x = FStr s")
  case True
  then obtain s where x: "x = FStr s" by blast
  with assms(1) have "\<not> (pf_kind fd = kind_message \<and> (\<exists>ns. v = VMsg True ns))"
    by (auto simp: value_to_string.simps go_bind_Ok_iff)
  then have "nested_names show_val [(fd, v)] = {}"
    by (auto split: pval.splits bool.splits)
  moreover from assms(2) x have "m = flat_put (pf_name fd) s flat" by (simp add: flat_entry_def)
  ultimately show ?thesis using assms(1) x by simp
next
  case False
  then have "flat_entry show_val fd v x flat =
      (if pf_kind fd = kind_message then
         (case v of VMsg valid ns \<Rightarrow> if valid then flatten_nested show_val ns flat else Ok flat | _ \<Rightarrow> Panic)
       else Ok flat)" by (cases x) (simp_all add: flat_entry_def)
  moreover have "text_names show_val [(fd, v)] = {}" using False assms(1) by (auto split: fval.split)
  ultimately show ?thesis using assms(2) flatten_nested_keys
    by (auto split: if_splits pval.splits)
qed

lemma walk_message_keys:
  "walk_message show_val fs flat gfs = Ok (m, gs) \<Longrightarrow>
     fst ` set m = fst ` set flat \<union> text_names show_val fs \<union> nested_names show_val fs \<and>
     map gf_number gs = map gf_number gfs @ map (pf_number \<circ> fst) fs"
proof (induction fs arbitrary: flat gfs)
  case Nil
  then show ?case by simp
next
  case (Cons x fs)
  obtain fd v where x: "x = (fd, v)" by (cases x)
  with Cons.prems obtain y flat' gfs' where y: "value_to_string show_val fd v = Ok y"
    "flat_entry show_val fd v y flat = Ok flat'"
    and rest: "walk_message show_val fs flat' gfs' = Ok (m, gs)"
    and gfs': "map gf_number gfs' = map gf_number gfs @ [pf_number fd]"
    by (auto simp: go_bind_Ok_iff)
  from Cons.IH [OF rest] flat_entry_keys [OF y] gfs' show ?case
    using y(1) by (auto simp: x split: fval.splits)
qed

subsection \<open>Properties\<close>

definition grpc_frame :: "bool \<Rightarrow> string \<Rightarrow> string" where
  "grpc_frame compressed m =
     [if compressed then CHR 0x01 else CHR 0x00, char_of (length m div 16777216 mod 256),
      char_of (length m div 65536 mod 256), char_of (length m div 256 mod 256),
      char_of (length m mod 256)] @ m"

lemma strip_frame_bytes:
  assumes "(of_char c :: nat) = 0 \<or> (of_char c :: nat) = 1"
    and "of_char b1 * 16777216 + of_char b2 * 65536 + of_char b3 * 256 + of_char b4 = length m"
  shows "strip_grpc_frame (c # b1 # b2 # b3 # b4 # m @ rest) = m"
  using assms by (simp add: strip_grpc_frame_def byte_at_def Let_def)

lemma be32_value:
  assumes "(n :: nat) < 4294967296"
  shows "n div 16777216 mod 256 * 16777216 + n div 65536 mod 256 * 65536 +
           n div 256 mod 256 * 256 + n mod 256 = n"
proof -
  have top: "n div 16777216 mod 256 = n div 16777216"
    using assms by (simp add: div_less_iff_less_mult)
  have s: "m = m div 256 * 256 + m mod 256" for m :: nat by simp
  have d: "n div 65536 = n div 256 div 256" "n div 16777216 = n div 256 div 256 div 256"
    by (simp_all add: div_mult2_eq [symmetric])
  have "n = ((n div 16777216 * 256 + n div 65536 mod 256) * 256 + n div 256 mod 256) * 256 + n mod 256"
    unfolding d by (simp only: s [symmetric])
  also have "\<dots> = n div 16777216 * 16777216 + n div 65536 mod 256 * 65536 + n div 256 mod 256 * 256 + n mod 256"
    by (simp add: add_mult_distrib)
  finally show ?thesis unfolding top by simp
qed

lemma map_insort_key: "map f (insort_key f x xs) = insort (f x) (map f xs)"
  by (induction xs) simp_all

lemma map_sort_key: "map f (sort_key f xs) = sort (map f xs)"
  by (induction xs) (simp_all add: map_insort_key)

text \<open>
  The gRPC frame around a message (either compression flag, a message below 4 GiB) is
  taken off exactly, whatever follows it in the body. A compressed message is taken off
  like a plain one and handed to the decoder still compressed.
\<close>

theorem grpc_frame_stripped:
  assumes "length m < 4294967296"
  shows "strip_grpc_frame (grpc_frame compressed m @ rest) = m"
proof -
  have b: "(of_char (char_of (n mod 256) :: char) :: nat) = n mod 256" for n
    by (intro of_char_of_small) simp
  have "length m div 16777216 mod 256 * 16777216 + length m div 65536 mod 256 * 65536 +
      length m div 256 mod 256 * 256 + length m mod 256 = length m"
    using assms by (rule be32_value)
  then show ?thesis
    unfolding grpc_frame_def append_Cons append_Nil
    by (intro strip_frame_bytes) (simp_all only: b, simp)
qed

theorem grpc_frame_stripped_witness:
  "strip_grpc_frame (grpc_frame True ''abc'' @ ''tail'') = ''abc''"
  by (rule grpc_frame_stripped) simp

text \<open>
  Inspecting a request of a known method: a payload that does not decode is reported as
  malformed; a decoded message makes the inspection panic exactly when some populated field
  in it is a list or map of messages, enums or byte strings, or an enum with an undeclared
  number; otherwise the report lists every top-level field, ordered by number, and the flat
  map has exactly the names of the fields that print as text at the top level or one
  message below: deeper fields are not seen.
\<close>

theorem grpc_inspect_coverage:
  assumes "reg full = Some decode"
  shows "(decode (strip_grpc_frame body) = None \<longrightarrow>
            (\<exists>rep. grpc_inspect show_val reg full body = Ok rep \<and> gw_malformed rep)) \<and>
         (decode (strip_grpc_frame body) = Some msg \<longrightarrow>
            (if all_printable msg then
               \<exists>rep. grpc_inspect show_val reg full body = Ok rep \<and> \<not> gw_malformed rep \<and>
                 fst ` set (gw_flat rep) = text_names show_val msg \<union> nested_names show_val msg \<and>
                 map gf_number (gw_fields rep) = sort (map (pf_number \<circ> fst) msg)
             else grpc_inspect show_val reg full body = Panic))"
proof (intro conjI impI)
  assume "decode (strip_grpc_frame body) = None"
  with assms show "\<exists>rep. grpc_inspect show_val reg full body = Ok rep \<and> gw_malformed rep"
    by (simp add: grpc_inspect_def)
next
  assume d: "decode (strip_grpc_frame body) = Some msg"
  show "if all_printable msg then
               \<exists>rep. grpc_inspect show_val reg full body = Ok rep \<and> \<not> gw_malformed rep \<and>
                 fst ` set (gw_flat rep) = text_names show_val msg \<union> nested_names show_val msg \<and>
                 map gf_number (gw_fields rep) = sort (map (pf_number \<circ> fst) msg)
             else grpc_inspect show_val reg full body = Panic"
  proof (cases "walk_message show_val msg [] []")
    case (Ok x)
    obtain flat gs where x: "x = (flat, gs)" by (cases x)
    from walk_message_keys [of show_val msg "[]" "[]" flat gs] Ok x
    have keys: "fst ` set flat = text_names show_val msg \<union> nested_names show_val msg"
      and nums: "map gf_number gs = map (pf_number \<circ> fst) msg" by simp_all
    from Ok x d assms keys nums walk_message_Panic [of show_val msg "[]" "[]"] show ?thesis
      by (simp add: grpc_inspect_def map_sort_key)
  next
    case (Fail e)
    with walk_message_Fail [of show_val msg "[]" "[]" e] show ?thesis by simp
  next
    case Panic
    with d assms walk_message_Panic [of show_val msg "[]" "[]"] show ?thesis
      by (simp add: grpc_inspect_def)
  qed
qed

definition demo_message :: "(pfield \<times> pval) list" where
  "demo_message =
     [(\<lparr>pf_number = 2, pf_name = ''name'', pf_kind = 9, pf_list = False, pf_enum = []\<rparr>, VScalar ''x''),
      (\<lparr>pf_number = 1, pf_name = ''tags'', pf_kind = 11, pf_list = True, pf_enum = []\<rparr>, VList [])]"

theorem grpc_inspect_coverage_witness:
  "grpc_inspect (\<lambda>_. []) [''/a.B/C'' \<mapsto> (\<lambda>_. Some demo_message)] ''/a.B/C'' [] = Panic"
proof -
  have "\<not> all_printable demo_message"
    by (simp add: demo_message_def kind_defs)
  then show ?thesis
    using grpc_inspect_coverage [of "[''/a.B/C'' \<mapsto> (\<lambda>_. Some demo_message)]" "''/a.B/C''"
        "\<lambda>_. Some demo_message" "[]" "\<lambda>_. []" demo_message] by simp
qed

end
