(* ===== verification/Sse.thy ===== *)
theory Sse
  imports RuleEngine
begin

text \<open>
  Package sse: the writer that scans the data lines of an event stream while the bytes flow
  through, and the scanning body of the gateway's transport (proxy/httputil.go).
\<close>

definition is_event_stream :: "header \<Rightarrow> bool" where
  "is_event_stream h \<longleftrightarrow> str_contains (header_get h ''Content-Type'') ''text/event-stream''"

record violation =
  vi_line :: string
  vi_rule_id :: string

text \<open>
  The wrapped writer: the shared engine (\<open>None\<close> when there is no inspector or no rules),
  the violations held, those handed to the callback, and the bytes passed on. The writer
  below it takes everything (the gateway uses one that discards).
\<close>

record stream_writer =
  sw_rules :: "engine option"
  sw_violations :: "violation list"
  sw_reported :: "violation list"
  sw_passed :: string

definition new_stream_writer :: "engine option \<Rightarrow> stream_writer" where
  "new_stream_writer e = \<lparr>sw_rules = e, sw_violations = [], sw_reported = [], sw_passed = []\<rparr>"

definition sse_truncate :: "string \<Rightarrow> nat \<Rightarrow> string" where
  "sse_truncate s n = (if length s \<le> n then s else take n s)"

text \<open>The payload of a data line, if the line is one and carries anything.\<close>

definition data_payload :: "string \<Rightarrow> string option" where
  "data_payload line =
     (if \<not> has_prefix line ''data:'' then None
      else let p = trim_space (drop 5 line) in if p = [] then None else Some p)"

definition line_request :: request where
  "line_request =
     \<lparr>req_method = ''GET'', req_url = None, req_proto = [], req_proto_major = 0, req_host = [],
      req_remote = [], req_header = [(''Content-Type'', [''text/plain''])], req_body = NilBody,
      req_form = None\<rparr>"

definition line_violations :: "engine \<Rightarrow> bool \<Rightarrow> string \<Rightarrow> (unit, violation list) go" where
  "line_violations e slow payload =
     go_bind (engine_evaluate e slow line_request payload)
       (\<lambda>(_, res). Ok (map (\<lambda>m. \<lparr>vi_line = sse_truncate payload 256, vi_rule_id = m_rule_id m\<rparr>)
                        (res_matches res)))"

definition add_violations :: "stream_writer \<Rightarrow> violation list \<Rightarrow> stream_writer" where
  "add_violations w vs =
     w\<lparr>sw_violations := sw_violations w @ vs, sw_reported := sw_reported w @ vs\<rparr>"

text \<open>
  The loop of \<open>scan\<close> over the lines of one write; \<open>slow i\<close> is the timeout of the i-th
  evaluation.
\<close>

fun scan_data ::
    "engine \<Rightarrow> (nat \<Rightarrow> bool) \<Rightarrow> nat \<Rightarrow> string list \<Rightarrow> stream_writer \<Rightarrow> (unit, stream_writer) go" where
  "scan_data e slow i [] w = Ok w"
| "scan_data e slow i (l # ls) w =
     (case data_payload l of
        None \<Rightarrow> scan_data e slow i ls w
      | Some p \<Rightarrow>
          go_bind (line_violations e (slow i) p)
            (\<lambda>vs. scan_data e slow (i + 1) ls (add_violations w vs)))"

definition sse_write :: "(nat \<Rightarrow> bool) \<Rightarrow> string \<Rightarrow> stream_writer \<Rightarrow> (unit, stream_writer) go" where
  "sse_write slow p w =
     go_bind (case sw_rules w of
                None \<Rightarrow> Ok w
              | Some e \<Rightarrow> scan_data e slow 0 (fst (scan_lines p)) w)
       (\<lambda>w'. Ok (w'\<lparr>sw_passed := sw_passed w' @ p\<rparr>))"

definition take_violations :: "stream_writer \<Rightarrow> stream_writer \<times> violation list" where
  "take_violations w = (w\<lparr>sw_violations := []\<rparr>, sw_violations w)"

text \<open>
  \<open>scanningBody.Read\<close>: what was read goes to the scanner and, unchanged, to the caller. The
  stream is the list of chunks its reads return.
\<close>

fun read_stream ::
    "(nat \<Rightarrow> nat \<Rightarrow> bool) \<Rightarrow> nat \<Rightarrow> string list \<Rightarrow> stream_writer \<Rightarrow> (unit, stream_writer \<times> string) go" where
  "read_stream slow i [] w = Ok (w, [])"
| "read_stream slow i (c # cs) w =
     go_bind (if c = [] then Ok w else sse_write (slow i) c w) (\<lambda>w'.
       go_bind (read_stream slow (i + 1) cs w') (\<lambda>(w'', out). Ok (w'', c @ out)))"

subsection \<open>Lemmas\<close>

lemma add_violations_simps [simp]:
  "sw_passed (add_violations w vs) = sw_passed w"
  "sw_rules (add_violations w vs) = sw_rules w"
  "sw_reported (add_violations w vs) = sw_reported w @ vs"
  "sw_violations (add_violations w vs) = sw_violations w @ vs"
  by (simp_all add: add_violations_def)

lemma scan_data_keeps:
  "scan_data e slow i ls w = Ok w' \<Longrightarrow>
     sw_passed w' = sw_passed w \<and> sw_rules w' = sw_rules w \<and>
     (\<exists>vs. sw_reported w' = sw_reported w @ vs \<and> sw_violations w' = sw_violations w @ vs)"
  by (induction e slow i ls w arbitrary: w' rule: scan_data.induct)
     (fastforce simp: go_bind_Ok_iff split: option.splits)+

lemma sse_write_keeps:
  assumes "sse_write slow p w = Ok w'"
  shows "sw_passed w' = sw_passed w @ p \<and> sw_rules w' = sw_rules w \<and>
     (\<exists>vs. sw_reported w' = sw_reported w @ vs \<and> sw_violations w' = sw_violations w @ vs)"
  using assms
  by (fastforce simp: sse_write_def go_bind_Ok_iff split: option.splits dest: scan_data_keeps)

text \<open>An engine whose rules do not look at the URL never panics on a line.\<close>

definition line_safe :: "engine \<Rightarrow> bool" where
  "line_safe e \<longleftrightarrow> (\<forall>slow p. line_violations e slow p \<noteq> Panic)"

lemma engine_no_fail: "engine_evaluate e slow q body \<noteq> Fail x"
proof -
  have rule: "rule_evaluate r q b \<noteq> Fail y" for r q b y
    by (auto simp: rule_evaluate_def target_values_def with_url_def Let_def parse_form_def
        go_bind_Fail_iff match_target_def split: option.splits if_splits)
  have "custom_matches rs q b \<noteq> Fail y" for rs q b y
    by (induction rs arbitrary: q) (auto simp: go_bind_Fail_iff rule)
  then show ?thesis
    by (auto simp: engine_evaluate_def evaluate_locked_def go_bind_Fail_iff split: option.splits)
qed

lemma scan_data_ok: "line_safe e \<Longrightarrow> \<exists>w'. scan_data e slow i ls w = Ok w'"
proof (induction ls arbitrary: i w)
  case Nil
  then show ?case by simp
next
  case (Cons l ls)
  have "\<exists>vs. line_violations e (slow i) p = Ok vs" for p
    using Cons.prems engine_no_fail [of e "slow i" line_request p]
    by (cases "line_violations e (slow i) p")
       (auto simp: line_safe_def line_violations_def go_bind_Fail_iff)
  then obtain vs where "\<And>p. line_violations e (slow i) p = Ok (vs p)" by metis
  with Cons show ?case by (simp split: option.split)
qed

lemma sse_write_ok:
  "(case sw_rules w of None \<Rightarrow> True | Some e \<Rightarrow> line_safe e) \<Longrightarrow> \<exists>w'. sse_write slow p w = Ok w'"
  using scan_data_ok [of _ slow 0 "fst (scan_lines p)" w]
  by (fastforce simp: sse_write_def split: option.splits)

lemma line_safe_no_rules: "e_rules e = [] \<Longrightarrow> line_safe e"
  by (auto simp: line_safe_def line_violations_def engine_evaluate_def evaluate_locked_def
      go_bind_Panic_iff split: option.splits if_splits)

lemma read_stream_ok:
  "(case sw_rules w of None \<Rightarrow> True | Some e \<Rightarrow> line_safe e) \<Longrightarrow>
     \<exists>w' vs. read_stream slow i cs w = Ok (w', concat cs) \<and> sw_passed w' = sw_passed w @ concat cs \<and>
        sw_reported w' = sw_reported w @ vs \<and> sw_violations w' = sw_violations w @ vs"
proof (induction cs arbitrary: i w)
  case Nil
  then show ?case by simp
next
  case (Cons c cs)
  show ?case
  proof (cases "c = []")
    case True
    with Cons.IH [of w "i + 1"] Cons.prems show ?thesis by auto
  next
    case False
    from sse_write_ok [OF Cons.prems, of "slow i" c] obtain w1 where w1: "sse_write (slow i) c w = Ok w1"
      by blast
    from sse_write_keeps [OF w1] obtain vs where
      k: "sw_passed w1 = sw_passed w @ c" "sw_rules w1 = sw_rules w"
         "sw_reported w1 = sw_reported w @ vs" "sw_violations w1 = sw_violations w @ vs" by blast
    with Cons.IH [of w1 "i + 1"] Cons.prems obtain w2 vs' where
      "read_stream slow (i + 1) cs w1 = Ok (w2, concat cs)" "sw_passed w2 = sw_passed w1 @ concat cs"
      "sw_reported w2 = sw_reported w1 @ vs'" "sw_violations w2 = sw_violations w1 @ vs'" by auto
    with k False w1 show ?thesis by (auto intro: exI [of _ "vs @ vs'"])
  qed
qed

text \<open>A complete data line of one write is evaluated.\<close>

lemma scan_pieces_prefix:
  assumes "\<forall>x \<in> set (a @ [l]). length x < 65536" and "c \<noteq> []"
  shows "\<exists>rs ok. scan_pieces (a @ l # c) = (map drop_cr (a @ [l]) @ rs, ok)"
  using assms
proof (induction a)
  case Nil
  then show ?case by (auto split: prod.split)
next
  case (Cons x a)
  then show ?case by (auto split: prod.split)
qed

lemma scan_data_hit:
  assumes "l \<in> set ls" and "data_payload l = Some p" and "line_violations e False p = Ok vs"
    and "scan_data e (\<lambda>_. False) i ls w = Ok w'"
  shows "set vs \<subseteq> set (sw_reported w')"
  using assms(1,4)
proof (induction ls arbitrary: i w)
  case Nil
  then show ?case by simp
next
  case (Cons x ls)
  show ?case
  proof (cases "x = l")
    case True
    with Cons.prems assms(2,3) have
      "scan_data e (\<lambda>_. False) (i + 1) ls (add_violations w vs) = Ok w'" by simp
    from scan_data_keeps [OF this] show ?thesis by auto
  next
    case False
    with Cons.prems have "l \<in> set ls" by simp
    with Cons.IH Cons.prems(2) show ?thesis
      by (auto simp: go_bind_Ok_iff split: option.splits)
  qed
qed

lemma line_request_simps [simp]: "req_url line_request = None" "\<not> is_multipart line_request"
proof -
  show "req_url line_request = None" by (simp add: line_request_def)
  show "\<not> is_multipart line_request" unfolding line_request_def by code_simp
qed

lemma line_violations_native:
  assumes "e_waf e = Some waf" and "e_rules e = []" and "evaluate_native_body (e_enabled e) p \<noteq> []"
  shows "\<exists>vs v. line_violations e False p = Ok vs \<and> v \<in> set vs \<and> vi_line v = sse_truncate p 256"
proof -
  obtain m ms where "evaluate_native_body (e_enabled e) p = m # ms"
    using assms(3) by (cases "evaluate_native_body (e_enabled e) p") auto
  then show ?thesis
    using assms(1,2)
    by (auto simp: line_violations_def engine_evaluate_def evaluate_locked_def image_Un)
qed

subsection \<open>Properties\<close>

text \<open>
  The scan never changes or withholds the stream: whatever chunks the upstream sends and
  whatever matches, the reader gets exactly the bytes that were sent, and violations are
  only ever added, to the list and to the callback alike. This needs that no rule of the
  engine panics on a line, which holds when it has no custom rules.
\<close>

theorem sse_stream_transparent:
  assumes "\<And>e. sw_rules w = Some e \<Longrightarrow> line_safe e"
  shows "\<exists>w' vs. read_stream slow i cs w = Ok (w', concat cs) \<and>
           sw_passed w' = sw_passed w @ concat cs \<and>
           sw_reported w' = sw_reported w @ vs \<and> sw_violations w' = sw_violations w @ vs"
  using assms by (intro read_stream_ok) (simp split: option.split)

theorem sse_stream_transparent_witness:
  "\<exists>w' vs. read_stream (\<lambda>_ _. False) 0 [''data: a'', [], ''b''] (new_stream_writer (Some demo_engine)) =
      Ok (w', ''data: ab'') \<and> sw_passed w' = ''data: ab'' \<and> sw_reported w' = vs"
proof -
  have "line_safe demo_engine"
    by (rule line_safe_no_rules) (simp add: demo_engine_def set_crs_toggles_def rebuild_def new_engine_def)
  then show ?thesis
    using sse_stream_transparent [of "new_stream_writer (Some demo_engine)" "\<lambda>_ _. False" 0 "[''data: a'', [], ''b'']"]
    by (auto simp: new_stream_writer_def)
qed

text \<open>
  A data line that is complete within one write and carries a script tag in any case is
  reported with its payload (cut to 256 bytes), when the XSS class is on.
\<close>

theorem sse_data_line_flagged:
  assumes "sw_rules w = Some e" and "e_waf e = Some waf" and "e_rules e = []"
    and "t_xss (e_enabled e)" and "l \<in> set (fst (scan_lines chunk))"
    and "data_payload l = Some (a @ v @ b)"
    and "to_lower v = ''<script'' \<or> to_lower v = ''</script''"
  shows "\<exists>w' x. sse_write (\<lambda>_. False) chunk w = Ok w' \<and> x \<in> set (sw_reported w') \<and>
           vi_line x = sse_truncate (a @ v @ b) 256"
proof -
  from line_violations_native [OF assms(2,3) script_tag_hit [OF assms(4,7)], of a b]
  obtain vs x where vs: "line_violations e False (a @ v @ b) = Ok vs" "x \<in> set vs"
    "vi_line x = sse_truncate (a @ v @ b) 256" by blast
  from scan_data_ok [OF line_safe_no_rules [OF assms(3)], of "\<lambda>_. False" 0 "fst (scan_lines chunk)" w]
  obtain w1 where w1: "scan_data e (\<lambda>_. False) 0 (fst (scan_lines chunk)) w = Ok w1" by blast
  from scan_data_hit [OF assms(5,6) vs(1) w1] vs(2,3) show ?thesis
    by (auto simp: sse_write_def assms(1) w1)
qed

theorem sse_data_line_flagged_witness:
  "\<exists>w' x. sse_write (\<lambda>_. False) (''id: 1'' @ [CHR 0x0A] @ ''data: <script>'' @ [CHR 0x0A])
      (new_stream_writer (Some demo_engine)) = Ok w' \<and> x \<in> set (sw_reported w') \<and>
      vi_line x = ''<script>''"
proof -
  let ?chunk = "''id: 1'' @ [CHR 0x0A] @ ''data: <script>'' @ [CHR 0x0A]"
  have l: "''data: <script>'' \<in> set (fst (scan_lines ?chunk))"
    by (simp add: scan_lines_def drop_cr_def)
  have p: "data_payload ''data: <script>'' = Some ([] @ ''<script'' @ ''>'')" by code_simp
  have "e_rules demo_engine = []"
    by (simp add: demo_engine_def set_crs_toggles_def rebuild_def new_engine_def)
  moreover have "to_lower ''<script'' = ''<script''" by code_simp
  ultimately show ?thesis
    using sse_data_line_flagged [of "new_stream_writer (Some demo_engine)" demo_engine silent_waf
        "''data: <script>''" ?chunk "[]" "''<script''" "''>''"] l p
    by (simp add: new_stream_writer_def sse_truncate_def)
qed

text \<open>
  The same line cut in two writes is not seen: neither half is a data line with the tag.
\<close>

lemma sse_split_line_missed:
  "data_payload ''data: <scr'' = Some ''<scr'' \<and> data_payload ''ipt>'' = None"
  by code_simp

end
