(* ===== verification/WasmPlugins.thy ===== *)
theory WasmPlugins
  imports Http
begin

text \<open>
  Package wasmplugins: the plugin host. The WASM runtime, the JSON codec and the file system
  are arguments: \<open>run\<close> is what became of one module on one input. A deadline or a trap of
  one plugin is an error of that plugin only.
\<close>

datatype plugin_action = PAllow | PBlock | PChallenge | PLog | POther string

record plugin_verdict =
  pv_rule_id :: string
  pv_message :: string
  pv_action :: plugin_action
  pv_score :: rat

record plugin_request =
  pq_method :: string
  pq_path :: string
  pq_query :: string
  pq_host :: string
  pq_client_ip :: string
  pq_protocol :: string
  pq_headers :: "(string \<times> string) list"
  pq_body :: string
  pq_site_id :: string

text \<open>
  The manager: its options and its modules, the latter in the order one iteration over the
  Go map visits them.
\<close>

record plugin_manager =
  pm_dir :: string
  pm_timeout :: int
  pm_max_memory :: int
  pm_modules :: "(string \<times> byte list) list"

datatype run_outcome = TimedOut | Trapped string | Wrote string

datatype plugin_error = NotLoaded | ExecTimeout int | RunError string | BadOutput | ReadFailed string | MarshalError

type_synonym plugin_runtime = "string \<Rightarrow> byte list \<Rightarrow> string \<Rightarrow> run_outcome"

fun load_module :: "string \<Rightarrow> byte list \<Rightarrow> (string \<times> byte list) list \<Rightarrow> (string \<times> byte list) list" where
  "load_module name wasm [] = [(name, wasm)]"
| "load_module name wasm ((n, w) # ms) =
     (if n = name then (n, wasm) # ms else (n, w) # load_module name wasm ms)"

definition pm_load :: "string \<Rightarrow> byte list \<Rightarrow> plugin_manager \<Rightarrow> plugin_manager" where
  "pm_load name wasm m = m\<lparr>pm_modules := load_module name wasm (pm_modules m)\<rparr>"

text \<open>
  \<open>LoadDir\<close> over what the walk visits: the path, the base name, whether it is a directory
  and its content, or the error of the walk (\<open>None\<close> in place of the entry). The first error
  ends it; what was loaded before stays loaded.
\<close>

type_synonym dir_entry = "string \<times> string \<times> bool \<times> byte list option"

fun load_dir :: "dir_entry option list \<Rightarrow> plugin_manager \<Rightarrow> plugin_manager \<times> plugin_error option" where
  "load_dir [] m = (m, None)"
| "load_dir (None # es) m = (m, Some (ReadFailed []))"
| "load_dir (Some (path, base, is_dir, content) # es) m =
     (if is_dir then load_dir es m
      else if has_suffix path ''.wasm'' then
        (case content of
           None \<Rightarrow> (m, Some (ReadFailed path))
         | Some b \<Rightarrow> load_dir es (pm_load (trim_suffix base ''.wasm'') b m))
      else load_dir es m)"

definition new_manager ::
    "(string \<Rightarrow> dir_entry option list) \<Rightarrow> string \<Rightarrow> int \<Rightarrow> int \<Rightarrow> (plugin_error, plugin_manager) go" where
  "new_manager walk dir timeout max_memory =
     (let m = \<lparr>pm_dir = dir, pm_timeout = (if timeout = 0 then 100000000 else timeout),
               pm_max_memory = (if max_memory = 0 then 33554432 else max_memory), pm_modules = []\<rparr>
      in if dir \<noteq> [] then
           (case load_dir (walk dir) m of
              (m', None) \<Rightarrow> Ok m'
            | (_, Some e) \<Rightarrow> Fail e)
         else Ok m)"

definition pm_names :: "plugin_manager \<Rightarrow> string list" where
  "pm_names m = map fst (pm_modules m)"

text \<open>The page limit given to the runtime: a 32-bit word, one page more than asked for.\<close>

definition memory_pages :: "plugin_manager \<Rightarrow> 32 word" where
  "memory_pages m = word_of_int (pm_max_memory m div 65536) + 1"

definition clamp_score :: "plugin_verdict \<Rightarrow> plugin_verdict" where
  "clamp_score v =
     (let v1 = (if pv_score v < 0 then v\<lparr>pv_score := 0\<rparr> else v)
      in if pv_score v1 > 1 then v1\<lparr>pv_score := 1\<rparr> else v1)"

definition run_one ::
    "plugin_runtime \<Rightarrow> (string \<Rightarrow> plugin_verdict list option) \<Rightarrow> plugin_manager \<Rightarrow> string \<Rightarrow> string \<Rightarrow>
     (plugin_error, plugin_verdict list) go" where
  "run_one run decode m name stdin =
     (case map_of (pm_modules m) name of
        None \<Rightarrow> Fail NotLoaded
      | Some wasm \<Rightarrow>
          (case run (''plugin-'' @ name) wasm stdin of
             TimedOut \<Rightarrow> Fail (ExecTimeout (pm_timeout m))
           | Trapped e \<Rightarrow> Fail (RunError e)
           | Wrote out \<Rightarrow>
               (case decode out of
                  None \<Rightarrow> Fail BadOutput
                | Some vs \<Rightarrow> Ok (map clamp_score vs))))"

text \<open>The loop of \<open>Evaluate\<close> with its accumulated verdicts and first error.\<close>

fun run_all ::
    "(string \<Rightarrow> (plugin_error, plugin_verdict list) go) \<Rightarrow> string list \<Rightarrow>
     plugin_verdict list \<Rightarrow> (string \<times> plugin_error) option \<Rightarrow>
     plugin_verdict list \<times> (string \<times> plugin_error) option" where
  "run_all one [] vs err = (vs, err)"
| "run_all one (n # ns) vs err =
     (case one n of
        Ok ws \<Rightarrow> run_all one ns (vs @ ws) err
      | Fail e \<Rightarrow> run_all one ns vs (if err = None then Some (n, e) else err)
      | Panic \<Rightarrow> run_all one ns vs err)"

definition plugins_evaluate ::
    "plugin_runtime \<Rightarrow> (string \<Rightarrow> plugin_verdict list option) \<Rightarrow> (plugin_request \<Rightarrow> string option) \<Rightarrow>
     plugin_manager \<Rightarrow> plugin_request \<Rightarrow>
     plugin_verdict list \<times> (string \<times> plugin_error) option" where
  "plugins_evaluate run decode marshal m req =
     (case marshal req of
        None \<Rightarrow> ([], Some ([], MarshalError))
      | Some stdin \<Rightarrow> run_all (\<lambda>n. run_one run decode m n stdin) (pm_names m) [] None)"

subsection \<open>Lemmas\<close>

definition results :: "('e, 'a list) go \<Rightarrow> 'a list" where
  "results r = (case r of Ok xs \<Rightarrow> xs | _ \<Rightarrow> [])"

definition failure :: "string \<Rightarrow> ('e, 'a) go \<Rightarrow> (string \<times> 'e) list" where
  "failure n r = (case r of Fail e \<Rightarrow> [(n, e)] | _ \<Rightarrow> [])"

lemma run_all_results:
  "run_all one ns vs err =
     (vs @ concat (map (\<lambda>n. results (one n)) ns),
      (case err of Some e \<Rightarrow> Some e
       | None \<Rightarrow> (case concat (map (\<lambda>n. failure n (one n)) ns) of [] \<Rightarrow> None | e # _ \<Rightarrow> Some e)))"
  by (induction one ns vs err rule: run_all.induct)
     (auto simp: results_def failure_def split: go.split option.split list.split)

lemma clamp_score_range: "0 \<le> pv_score (clamp_score v) \<and> pv_score (clamp_score v) \<le> 1"
  by (simp add: clamp_score_def Let_def)

lemma run_one_scores:
  "run_one run decode m n i = Ok vs \<Longrightarrow> v \<in> set vs \<Longrightarrow> 0 \<le> pv_score v \<and> pv_score v \<le> 1"
  using clamp_score_range by (auto simp: run_one_def split: option.splits run_outcome.splits)

lemma map_of_load_module: "map_of (load_module n w ms) = (map_of ms)(n \<mapsto> w)"
  by (induction n w ms rule: load_module.induct) auto

lemma load_module_distinct: "distinct (map fst ms) \<Longrightarrow> distinct (map fst (load_module n w ms))"
proof -
  have keys: "set (map fst (load_module n w ms)) = insert n (set (map fst ms))" for n w ms
    by (induction n w ms rule: load_module.induct) auto
  assume "distinct (map fst ms)"
  then show ?thesis
    by (induction n w ms rule: load_module.induct) (use keys in auto)
qed

lemma load_dir_distinct:
  "distinct (pm_names m) \<Longrightarrow> distinct (pm_names (fst (load_dir es m)))"
  by (induction es m rule: load_dir.induct)
     (auto simp: pm_names_def pm_load_def load_module_distinct split: option.split)

subsection \<open>Properties\<close>

text \<open>
  Plugins fail alone: the verdicts of an evaluation are those of the plugins that ran,
  in the order they were visited, whatever the others did; the reported error is the first
  plugin's that failed, and there is none only when no plugin failed. Every reported score
  lies in [0,1].
\<close>

theorem plugins_fail_alone:
  assumes "marshal req = Some stdin"
  shows "fst (plugins_evaluate run decode marshal m req) =
           concat (map (\<lambda>n. results (run_one run decode m n stdin)) (pm_names m)) \<and>
         (snd (plugins_evaluate run decode marshal m req) = None \<longleftrightarrow>
           (\<forall>n \<in> set (pm_names m). \<forall>e. run_one run decode m n stdin \<noteq> Fail e)) \<and>
         (\<forall>v \<in> set (fst (plugins_evaluate run decode marshal m req)). 0 \<le> pv_score v \<and> pv_score v \<le> 1)"
proof -
  have none: "(case xs of [] \<Rightarrow> None | e # _ \<Rightarrow> Some e) = None \<longleftrightarrow> xs = []" for xs :: "'z list"
    by (cases xs) simp_all
  have "concat (map (\<lambda>n. failure n (run_one run decode m n stdin)) (pm_names m)) = [] \<longleftrightarrow>
      (\<forall>n \<in> set (pm_names m). \<forall>e. run_one run decode m n stdin \<noteq> Fail e)"
    by (auto simp: failure_def split: go.splits)
  moreover have "\<forall>v \<in> set (concat (map (\<lambda>n. results (run_one run decode m n stdin)) (pm_names m))).
      0 \<le> pv_score v \<and> pv_score v \<le> 1"
    by (auto simp: results_def dest: run_one_scores [OF sym] split: go.splits)
  ultimately show ?thesis
    by (simp add: plugins_evaluate_def assms run_all_results none)
qed

definition demo_plugins :: plugin_manager where
  "demo_plugins = \<lparr>pm_dir = [], pm_timeout = 1, pm_max_memory = 65536,
     pm_modules = [(''bad'', []), (''good'', [1])]\<rparr>"

definition demo_verdict :: plugin_verdict where
  "demo_verdict = \<lparr>pv_rule_id = ''r'', pv_message = [], pv_action = PBlock, pv_score = 3\<rparr>"

definition demo_plugin_request :: plugin_request where
  "demo_plugin_request = \<lparr>pq_method = ''GET'', pq_path = ''/'', pq_query = [], pq_host = [],
     pq_client_ip = [], pq_protocol = ''rest'', pq_headers = [], pq_body = [], pq_site_id = []\<rparr>"

theorem plugins_fail_alone_witness:
  "fst (plugins_evaluate (\<lambda>n w i. if w = [] then TimedOut else Wrote []) (\<lambda>_. Some [demo_verdict])
      (\<lambda>_. Some []) demo_plugins demo_plugin_request) = [demo_verdict\<lparr>pv_score := 1\<rparr>]"
  using plugins_fail_alone [of "\<lambda>_. Some []" demo_plugin_request "[]"
      "\<lambda>n w i. if w = [] then TimedOut else Wrote []" "\<lambda>_. Some [demo_verdict]" demo_plugins]
  by (simp add: demo_plugins_def pm_names_def run_one_def results_def clamp_score_def
      demo_verdict_def Let_def)

end
