(* ===== verification/GatewayState.thy ===== *)
theory GatewayState
  imports WebSocket Fingerprint Events Graphql BotScoring LlmProtect MlClient Telemetry GrpcProto
    Sse WasmPlugins
begin

text \<open>
  Package proxy, the state of the gateway: its record, the per-site runtimes, their
  construction from a configuration and hot reload (gateway.go), the fingerprint blocklist
  (telemetry.go), and the small request helpers (client address, API key, upstream host).
  What a reload reads from outside is one argument, \<open>build_io\<close>.
\<close>

subsection \<open>State\<close>

record site_rt =
  rt_cfg :: site
  rt_engine :: engine
  rt_grpc :: "grpc_registry option"
  rt_target :: url
  rt_ws :: "inspector option"

record 'b gateway =
  gt_store :: config_store
  gt_events :: pipeline
  gt_limiter :: "'b option"
  gt_chall :: challenge_store
  gt_plugins :: "plugin_manager option"
  gt_llm :: detector
  gt_ml :: ml_client
  gt_ml_enabled :: bool
  gt_ml_threshold :: rat
  gt_llm_enabled :: bool
  gt_stats :: collector
  gt_feed :: "event live_feed"
  gt_sites :: "string \<Rightarrow> site_rt option"
  gt_fp_block :: "string list"

text \<open>
  The world a reload reads: files, the WAF compiler, the rule parsers, the schema compiler
  and \<open>url.Parse\<close>.
\<close>

record build_io =
  bi_read :: "string \<Rightarrow> string option"
  bi_waf :: "string \<Rightarrow> waf option"
  bi_compile :: "string \<Rightarrow> re option"
  bi_yaml :: "string \<Rightarrow> rule option list option"
  bi_json :: "string \<Rightarrow> rule option list option"
  bi_schemas :: "string \<Rightarrow> string list \<Rightarrow> grpc_registry option"
  bi_url :: "string \<Rightarrow> url option"

datatype site_error = WafError | RuleFileError string | SchemaError | BackendError string

datatype reload_error = BlocklistError | SiteError string site_error | ReloadPanic

subsection \<open>The fingerprint blocklist\<close>

definition fp_blocked :: "'b gateway \<Rightarrow> string \<Rightarrow> bool" where
  "fp_blocked g j = (if j = [] then False else j \<in> set (gt_fp_block g))"

definition inline_hashes :: "string list \<Rightarrow> string list" where
  "inline_hashes hs = filter (\<lambda>h. h \<noteq> []) (map (\<lambda>h. trim_space (to_lower h)) hs)"

definition file_hashes :: "string list \<Rightarrow> string list" where
  "file_hashes ls =
     filter (\<lambda>h. h \<noteq> [] \<and> \<not> has_prefix h ''#'') (map (\<lambda>l. to_lower (trim_space l)) ls)"

definition load_fingerprint_blocklist ::
    "(string \<Rightarrow> string option) \<Rightarrow> string list \<Rightarrow> string \<Rightarrow> string list option" where
  "load_fingerprint_blocklist read_file inline file =
     (let block = inline_hashes inline in
      if file = [] then Some block
      else (case read_file file of
              None \<Rightarrow> None
            | Some content \<Rightarrow>
                (case scan_lines content of
                   (ls, ok) \<Rightarrow> if ok then Some (block @ file_hashes ls) else None)))"

subsection \<open>Site runtimes and reload\<close>

definition site_toggles :: "site \<Rightarrow> crs_toggles" where
  "site_toggles s =
     (case s_crs s of
        None \<Rightarrow> no_toggles
      | Some c \<Rightarrow>
          if crs_enabled c then
            \<lparr>t_sqli = crs_sqli c, t_xss = crs_xss c, t_rce = crs_rce c,
             t_path_traversal = crs_path_traversal c, t_lfi = crs_lfi c, t_protocol = crs_protocol c\<rparr>
          else no_toggles)"

text \<open>\<open>LoadRules\<close> on every file of the site; ids are distinct within a file only.\<close>

fun load_all_rules :: "build_io \<Rightarrow> string list \<Rightarrow> (site_error, rule list) go" where
  "load_all_rules io [] = Ok []"
| "load_all_rules io (p # ps) =
     (case bi_read io p of
        None \<Rightarrow> Fail (RuleFileError p)
      | Some data \<Rightarrow>
          (case parse_rules (bi_compile io) (bi_yaml io) (bi_json io) data of
             Ok rs \<Rightarrow> go_bind (load_all_rules io ps) (\<lambda>rs'. Ok (rs @ rs'))
           | Fail _ \<Rightarrow> Fail (RuleFileError p)
           | Panic \<Rightarrow> Panic))"

definition build_engine :: "build_io \<Rightarrow> site \<Rightarrow> (site_error, engine) go" where
  "build_engine io s =
     (case set_crs_toggles (bi_waf io) (set_fail_mode new_engine (s_fail_mode s)) (site_toggles s) of
        (e, False) \<Rightarrow> Fail WafError
      | (e, True) \<Rightarrow>
          if s_custom_rules s \<noteq> [] then
            go_bind (load_all_rules io (s_custom_rules s)) (\<lambda>rs.
              (case set_custom_rules (bi_waf io) e rs of
                 (e', True) \<Rightarrow> Ok e'
               | (e', False) \<Rightarrow> Fail WafError))
          else Ok e)"

definition build_registry :: "build_io \<Rightarrow> site \<Rightarrow> (site_error, grpc_registry option) go" where
  "build_registry io s =
     (case s_grpc s of
        None \<Rightarrow> Ok None
      | Some c \<Rightarrow>
          if grpc_enabled c \<and> grpc_schema_dir c \<noteq> [] then
            (case bi_schemas io (grpc_schema_dir c) (grpc_import_dirs c) of
               None \<Rightarrow> Fail SchemaError
             | Some reg \<Rightarrow> Ok (Some reg))
          else Ok None)"

definition build_site_rt :: "build_io \<Rightarrow> site \<Rightarrow> (site_error, site_rt) go" where
  "build_site_rt io s =
     go_bind (build_engine io s) (\<lambda>e.
       go_bind (build_registry io s) (\<lambda>reg.
         (case bi_url io (s_backend s) of
            None \<Rightarrow> Fail (BackendError (s_backend s))
          | Some target \<Rightarrow>
              Ok \<lparr>rt_cfg = s, rt_engine = e, rt_grpc = reg, rt_target = target,
                  rt_ws = (case s_websocket s of
                             None \<Rightarrow> None
                           | Some wc \<Rightarrow>
                               if ws_enabled wc then Some \<lparr>i_rules = Some e, i_cfg = Some wc\<rparr>
                               else None)\<rparr>)))"

text \<open>The loop over the sites; a later site of the same id replaces an earlier one.\<close>

fun build_sites ::
    "build_io \<Rightarrow> site list \<Rightarrow> (string \<Rightarrow> site_rt option) \<Rightarrow>
     (reload_error, string \<Rightarrow> site_rt option) go" where
  "build_sites io [] m = Ok m"
| "build_sites io (s # ss) m =
     (case build_site_rt io s of
        Ok rt \<Rightarrow> build_sites io ss (m(s_id s \<mapsto> rt))
      | Fail e \<Rightarrow> Fail (SiteError (s_id s) e)
      | Panic \<Rightarrow> Panic)"

text \<open>
  \<open>reload\<close> installs runtimes and blocklist in one step under the lock, after everything
  that can fail; \<open>Reload\<close> then publishes the configuration in a second step.
\<close>

definition reload_runtimes :: "build_io \<Rightarrow> config \<Rightarrow> 'b gateway \<Rightarrow> 'b gateway \<times> reload_error option" where
  "reload_runtimes io c g =
     (case load_fingerprint_blocklist (bi_read io) (fp_blocklist (c_fingerprint c))
             (fp_blocklist_file (c_fingerprint c)) of
        None \<Rightarrow> (g, Some BlocklistError)
      | Some block \<Rightarrow>
          (case build_sites io (c_sites c) (\<lambda>_. None) of
             Ok m \<Rightarrow> (g\<lparr>gt_sites := m, gt_fp_block := block\<rparr>, None)
           | Fail e \<Rightarrow> (g, Some e)
           | Panic \<Rightarrow> (g, Some ReloadPanic)))"

definition publish_config :: "config \<Rightarrow> 'b gateway \<Rightarrow> 'b gateway" where
  "publish_config c g = g\<lparr>gt_store := store_set (gt_store g) c\<rparr>"

definition gateway_reload :: "build_io \<Rightarrow> config \<Rightarrow> 'b gateway \<Rightarrow> 'b gateway \<times> reload_error option" where
  "gateway_reload io c g =
     (case reload_runtimes io c g of
        (g', Some e) \<Rightarrow> (g', Some e)
      | (g', None) \<Rightarrow> (publish_config c g', None))"

subsection \<open>Construction\<close>

definition default_max_body_bytes :: "config \<Rightarrow> int" where
  "default_max_body_bytes c =
     (case c_sites c of [] \<Rightarrow> 4194304 | s # _ \<Rightarrow> s_max_body_bytes s)"

text \<open>
  The optional shared pieces of \<open>New\<close>. \<open>mem\<close> is a fresh memory backend and \<open>redis\<close> what
  connecting to Redis yields; the sinks of a pipeline go by name.
\<close>

record 'b gw_options =
  op_events :: "pipeline option"
  op_limiter :: "'b option"
  op_plugins :: "plugin_manager option"
  op_ml :: "ml_client option"
  op_bot_store :: "challenge_store option"

definition pick_limiter :: "'b \<Rightarrow> 'b option \<Rightarrow> config \<Rightarrow> 'b option \<Rightarrow> 'b" where
  "pick_limiter mem redis c l =
     (case l of
        Some b \<Rightarrow> b
      | None \<Rightarrow>
          if rlc_backend (c_rate_limit c) = ''redis''
          then (case redis of Some b \<Rightarrow> b | None \<Rightarrow> mem)
          else mem)"

definition default_pipeline :: "config \<Rightarrow> pipeline" where
  "default_pipeline c =
     new_pipeline
       \<lparr>po_buffer = 0, po_redact = ev_redact_fields (c_events c),
        po_truncate = ev_body_truncate (c_events c), po_schema = ev_webhook_schema (c_events c)\<rparr>
       ([''file'', ''feed''] @ (if ev_webhook_url (c_events c) \<noteq> [] then [''webhook''] else []))"

definition new_gateway ::
    "build_io \<Rightarrow> 'b \<Rightarrow> 'b option \<Rightarrow> config \<Rightarrow> 'b gw_options \<Rightarrow> (reload_error, 'b gateway) go" where
  "new_gateway io mem redis c opts =
     (let g = \<lparr>gt_store = new_store [],
               gt_events = (case op_events opts of Some p \<Rightarrow> p | None \<Rightarrow> default_pipeline c),
               gt_limiter = Some (pick_limiter mem redis c (op_limiter opts)),
               gt_chall = (case op_bot_store opts of
                             Some s \<Rightarrow> s | None \<Rightarrow> new_challenge_store 600000000000),
               gt_plugins = op_plugins opts,
               gt_llm = new_detector (llm_fail_mode (c_llm c)) (default_max_body_bytes c),
               gt_ml = (case op_ml opts of Some m \<Rightarrow> m | None \<Rightarrow> new_ml_client (c_ml c)),
               gt_ml_enabled = ml_enabled (c_ml c), gt_ml_threshold = ml_threshold (c_ml c),
               gt_llm_enabled = llm_enabled (c_llm c), gt_stats = new_collector,
               gt_feed = new_live_feed 512, gt_sites = (\<lambda>_. None), gt_fp_block = []\<rparr>
      in case reload_runtimes io c g of
           (_, Some e) \<Rightarrow> Fail e
         | (g', None) \<Rightarrow>
             Ok (publish_config c
               (case op_events opts of
                  None \<Rightarrow> g'
                | Some p \<Rightarrow> g'\<lparr>gt_events := add_sink p ''feed''\<rparr>)))"

text \<open>\<open>Close\<close>; closing the WASM runtime is an outside call.\<close>

definition gateway_close :: "nat \<Rightarrow> 'b gateway \<Rightarrow> 'b gateway" where
  "gateway_close drained g = g\<lparr>gt_events := close_pipeline (gt_events g) drained\<rparr>"

definition gateway_stats :: "'b gateway \<Rightarrow> (unit, stats) go" where
  "gateway_stats g =
     (case st_cfg (gt_store g) of
        None \<Rightarrow> Panic
      | Some c \<Rightarrow> Ok ((snapshot (gt_stats g))\<lparr>ts_sites := int (length (c_sites c))\<rparr>))"

definition subscribe_events :: "'b gateway \<Rightarrow> 'b gateway \<times> nat" where
  "subscribe_events g =
     (case subscribe (gt_feed g) 128 of (f, ch) \<Rightarrow> (g\<lparr>gt_feed := f\<rparr>, ch))"

subsection \<open>Request helpers\<close>

text \<open>\<open>parse_ip\<close> is \<open>net.ParseIP\<close> followed by \<open>String\<close>.\<close>

definition client_ip :: "(string \<Rightarrow> string option) \<Rightarrow> request \<Rightarrow> string" where
  "client_ip parse_ip r =
     (let xff = header_get (req_header r) ''X-Forwarded-For'';
          first = (case index_byte xff (CHR '','') of
                     Some i \<Rightarrow> if i > 0 then take i xff else xff
                   | None \<Rightarrow> xff);
          socket = (case split_host (req_remote r) of Some h \<Rightarrow> h | None \<Rightarrow> req_remote r)
      in if xff \<noteq> [] then
           (case parse_ip (trim_space first) of Some ip \<Rightarrow> ip | None \<Rightarrow> socket)
         else socket)"

definition api_key :: "request \<Rightarrow> string" where
  "api_key r =
     (case filter (\<lambda>v. v \<noteq> []) (map (header_get (req_header r)) [''X-Api-Key'', ''X-Api-Key-Id'', ''X-APIKEY'']) of
        v # _ \<Rightarrow> v
      | [] \<Rightarrow>
          let auth = header_get (req_header r) ''Authorization'' in
          if has_prefix auth ''Bearer '' then trim_prefix auth ''Bearer '' else [])"

definition upstream_host :: "(string \<Rightarrow> url option) \<Rightarrow> string \<Rightarrow> string" where
  "upstream_host parse_url backend =
     (case parse_url backend of
        None \<Rightarrow> trim_prefix backend ''http://''
      | Some u \<Rightarrow>
          let h = url_host u;
              h1 = (if url_scheme u = ''http'' \<and> \<not> str_contains h '':'' then h @ '':80'' else h)
          in if url_scheme u = ''https'' \<and> \<not> str_contains h1 '':'' then h1 @ '':443'' else h1)"

text \<open>
  \<open>readBody\<close>: the request after the body was closed, what was read, and whether it was more
  than the limit. At most one byte beyond the limit is read.
\<close>

datatype read_error = BodyError

definition read_body :: "request \<Rightarrow> int \<Rightarrow> (read_error, request \<times> string \<times> bool) go" where
  "read_body r mx0 =
     (let mx = nat (if mx0 \<le> 0 then 4194304 else mx0) in
      case req_body r of
        NilBody \<Rightarrow> Ok (r, [], False)
      | EmptyBody \<Rightarrow> Ok (r, [], False)
      | Unread b \<Rightarrow>
          (let got = take (mx + 1) b in Ok (r\<lparr>req_body := ClosedBody\<rparr>, got, length got > mx))
      | ClosedBody \<Rightarrow> Fail BodyError)"

subsection \<open>Reload keeps routing and runtimes in step\<close>

lemma parse_rules_no_Panic: "parse_rules compile y j data \<noteq> Panic"
proof -
  have v: "validate_rules compile i seen rs \<noteq> Panic" for i seen rs
    by (induction compile i seen rs rule: validate_rules.induct)
       (auto simp: Let_def go_bind_Panic_iff split: option.split)
  show ?thesis by (auto simp: parse_rules_def v split: option.split)
qed

lemma build_site_rt_no_Panic: "build_site_rt io s \<noteq> Panic"
proof -
  have "load_all_rules io ps \<noteq> Panic" for ps
    by (induction ps) (auto simp: go_bind_Panic_iff parse_rules_no_Panic split: option.split go.split)
  then have "build_engine io s \<noteq> Panic"
    by (auto simp: build_engine_def go_bind_Panic_iff split: prod.split bool.split)
  then show ?thesis
    by (auto simp: build_site_rt_def build_registry_def go_bind_Panic_iff split: option.split)
qed

lemma build_sites_no_Panic: "build_sites io ss m \<noteq> Panic"
  by (induction ss arbitrary: m) (auto simp: build_site_rt_no_Panic split: go.split)

lemma build_site_rt_cfg: "build_site_rt io s = Ok rt \<Longrightarrow> rt_cfg rt = s"
  by (auto simp: build_site_rt_def go_bind_Ok_iff split: option.splits)

definition runtimes_of :: "site list \<Rightarrow> (string \<Rightarrow> site_rt option) \<Rightarrow> bool" where
  "runtimes_of ss m \<longleftrightarrow>
     (\<forall>s \<in> set ss. \<exists>rt. m (s_id s) = Some rt \<and> s_id (rt_cfg rt) = s_id s \<and> rt_cfg rt \<in> set ss)"

lemma build_sites_runtimes:
  "build_sites io ss m = Ok m' \<Longrightarrow>
     (\<forall>i. (m' i = m i \<and> i \<notin> s_id ` set ss) \<or>
          (\<exists>rt. m' i = Some rt \<and> s_id (rt_cfg rt) = i \<and> rt_cfg rt \<in> set ss))"
proof (induction ss arbitrary: m)
  case Nil
  then show ?case by simp
next
  case (Cons s ss)
  from Cons.prems obtain rt where rt: "build_site_rt io s = Ok rt"
    and rest: "build_sites io ss (m(s_id s \<mapsto> rt)) = Ok m'" by (auto split: go.splits)
  show ?case
  proof
    fix i
    from Cons.IH [OF rest] have
      "(m' i = (m(s_id s \<mapsto> rt)) i \<and> i \<notin> s_id ` set ss) \<or>
       (\<exists>rt. m' i = Some rt \<and> s_id (rt_cfg rt) = i \<and> rt_cfg rt \<in> set ss)" by (rule spec)
    then show "(m' i = m i \<and> i \<notin> s_id ` set (s # ss)) \<or>
       (\<exists>rt. m' i = Some rt \<and> s_id (rt_cfg rt) = i \<and> rt_cfg rt \<in> set (s # ss))"
      using build_site_rt_cfg [OF rt] by (cases "i = s_id s") auto
  qed
qed

lemma reload_runtimes_cases:
  "reload_runtimes io c g = (g', None) \<Longrightarrow> runtimes_of (c_sites c) (gt_sites g') \<and> gt_store g' = gt_store g"
  "reload_runtimes io c g = (g', Some e) \<Longrightarrow> g' = g"
proof -
  assume r: "reload_runtimes io c g = (g', None)"
  then obtain m where m: "build_sites io (c_sites c) (\<lambda>_. None) = Ok m"
    and g': "gt_sites g' = m" "gt_store g' = gt_store g"
    by (auto simp: reload_runtimes_def split: option.splits go.splits)
  from build_sites_runtimes [OF m] show "runtimes_of (c_sites c) (gt_sites g') \<and> gt_store g' = gt_store g"
    unfolding runtimes_of_def g' by force
next
  assume "reload_runtimes io c g = (g', Some e)"
  then show "g' = g" by (auto simp: reload_runtimes_def split: option.splits go.splits)
qed

text \<open>What a gateway serves: its configuration together with its runtimes.\<close>

definition serving :: "'b gateway \<Rightarrow> (config \<times> (string \<Rightarrow> site_rt option)) option" where
  "serving g = (case st_cfg (gt_store g) of None \<Rightarrow> None | Some c \<Rightarrow> Some (c, gt_sites g))"

definition in_sync :: "config \<times> (string \<Rightarrow> site_rt option) \<Rightarrow> bool" where
  "in_sync p \<longleftrightarrow> runtimes_of (c_sites (fst p)) (snd p)"

interpretation live: hot_reload serving "\<lambda>(io, c) g. gateway_reload io c g" in_sync
proof unfold_locales
  fix i and g g' :: "'b gateway" and e
  show "(case i of (io, c) \<Rightarrow> gateway_reload io c) g = (g', Some e) \<Longrightarrow> serving g' = serving g"
    by (auto simp: gateway_reload_def dest!: reload_runtimes_cases(2) split: prod.splits option.splits)
  show "(case i of (io, c) \<Rightarrow> gateway_reload io c) g = (g', None) \<Longrightarrow>
      \<exists>p. serving g' = Some p \<and> in_sync p"
    by (auto simp: gateway_reload_def serving_def in_sync_def publish_config_def store_set_def
        dest!: reload_runtimes_cases(1) split: prod.splits option.splits)
qed

definition gateway_reloads :: "(build_io \<times> config) list \<Rightarrow> 'b gateway \<Rightarrow> 'b gateway" where
  "gateway_reloads rs g = foldl (\<lambda>g (io, c). fst (gateway_reload io c g)) g rs"

lemma gateway_reloads_in_sync:
  assumes "serving g = Some p" and "in_sync p"
  shows "\<exists>p'. serving (gateway_reloads rs g) = Some p' \<and> in_sync p'"
  using live.reloads_good [OF assms, of rs] by (simp add: gateway_reloads_def case_prod_unfold)

lemma new_gateway_in_sync:
  assumes "new_gateway io mem redis c opts = Ok g"
  shows "serving g = Some (c, gt_sites g) \<and> runtimes_of (c_sites c) (gt_sites g)"
  using assms
  by (auto simp: new_gateway_def Let_def serving_def publish_config_def store_set_def
      dest!: reload_runtimes_cases(1) split: prod.splits option.splits)

lemma find_site_in: "find_site h ss = Some s \<Longrightarrow> s \<in> set ss"
  by (simp add: find_site_Some)

subsection \<open>Bodies\<close>

lemma read_body_cases:
  assumes "read_body r mx0 = Ok (r', body, overflow)"
  shows "(\<not> overflow \<longrightarrow> (case req_body r of Unread b \<Rightarrow> body = b | _ \<Rightarrow> body = [])) \<and>
         req_url r' = req_url r \<and> req_header r' = req_header r \<and> req_method r' = req_method r \<and>
         int (length body) \<le> (if mx0 \<le> 0 then 4194304 else mx0) + 1"
  using assms
  by (cases "req_body r") (auto simp: read_body_def Let_def min_def split: if_splits)

subsection \<open>Properties\<close>

text \<open>
  C8. After construction and any sequence of reloads, accepted or rejected, every site that
  host routing can pick has a runtime built from a site of the same id in the published
  configuration, so the inspection of a routed request never dereferences a missing runtime;
  a rejected reload changes nothing.
\<close>

theorem gateway_reload_in_sync:
  assumes "new_gateway io mem redis c opts = Ok g"
  shows "(\<exists>c'. st_cfg (gt_store (gateway_reloads rs g)) = Some c' \<and>
           (\<forall>host s. site_by_domain c' host = Some s \<longrightarrow>
              (\<exists>rt. gt_sites (gateway_reloads rs g) (s_id s) = Some rt \<and>
                    s_id (rt_cfg rt) = s_id s \<and> rt_cfg rt \<in> set (c_sites c')))) \<and>
         (snd (gateway_reload io' c2 g2) \<noteq> None \<longrightarrow> fst (gateway_reload io' c2 g2) = g2)"
proof
  from new_gateway_in_sync [OF assms] have "serving g = Some (c, gt_sites g)" "in_sync (c, gt_sites g)"
    by (simp_all add: in_sync_def)
  from gateway_reloads_in_sync [OF this, of rs] obtain p where
    p: "serving (gateway_reloads rs g) = Some p" "in_sync p" by blast
  then show "\<exists>c'. st_cfg (gt_store (gateway_reloads rs g)) = Some c' \<and>
           (\<forall>host s. site_by_domain c' host = Some s \<longrightarrow>
              (\<exists>rt. gt_sites (gateway_reloads rs g) (s_id s) = Some rt \<and>
                    s_id (rt_cfg rt) = s_id s \<and> rt_cfg rt \<in> set (c_sites c')))"
    by (auto simp: serving_def in_sync_def runtimes_of_def site_by_domain_def dest: find_site_in
        split: option.splits)
  show "snd (gateway_reload io' c2 g2) \<noteq> None \<longrightarrow> fst (gateway_reload io' c2 g2) = g2"
    by (auto simp: gateway_reload_def dest!: reload_runtimes_cases(2) split: prod.splits option.splits)
qed

text \<open>A world in which every file, rule set and schema loads, and one site.\<close>

definition demo_io :: build_io where
  "demo_io = \<lparr>bi_read = (\<lambda>_. Some []), bi_waf = (\<lambda>_. Some silent_waf), bi_compile = (\<lambda>_. None),
     bi_yaml = (\<lambda>_. Some []), bi_json = (\<lambda>_. None), bi_schemas = (\<lambda>_ _. None),
     bi_url = (\<lambda>_. Some demo_url)\<rparr>"

definition served_config :: config where
  "served_config = fst (validate demo_config)"

definition no_options :: "'b gw_options" where
  "no_options = \<lparr>op_events = None, op_limiter = None, op_plugins = None, op_ml = None,
                 op_bot_store = None\<rparr>"

definition demo_gateway :: "mem_backend gateway" where
  "demo_gateway =
     (case new_gateway demo_io new_memory_backend None served_config no_options of Ok g \<Rightarrow> g)"

lemma build_site_demo:
  "s_custom_rules s = [] \<Longrightarrow> s_grpc s = None \<Longrightarrow> \<exists>rt. build_site_rt demo_io s = Ok rt"
  by (simp add: build_site_rt_def build_engine_def build_registry_def set_crs_toggles_def
      rebuild_def demo_io_def)

lemma served_sites: "c_sites served_config =
    [site_defaults (site_names 0 (empty_site\<lparr>s_domains := [''a.example''], s_backend := ''http://127.0.0.1:9000''\<rparr>))]"
  by (simp add: served_config_def validate_def demo_config_def empty_config_def empty_site_def Let_def
      global_defaults_def)

lemma served_fingerprint: "fp_blocklist (c_fingerprint served_config) = []"
    "fp_blocklist_file (c_fingerprint served_config) = []"
  by (simp_all add: served_config_def validate_def demo_config_def empty_config_def empty_site_def Let_def
      global_defaults_def)

lemma demo_gateway_new:
  "new_gateway demo_io new_memory_backend None served_config no_options = Ok demo_gateway"
proof -
  let ?s = "site_defaults (site_names 0 (empty_site\<lparr>s_domains := [''a.example''], s_backend := ''http://127.0.0.1:9000''\<rparr>))"
  obtain rt where "build_site_rt demo_io ?s = Ok rt"
    using build_site_demo [of ?s] by (auto simp: site_defaults_def site_names_def empty_site_def Let_def)
  then have "\<exists>g. new_gateway demo_io new_memory_backend None served_config no_options = Ok g"
    by (simp add: new_gateway_def reload_runtimes_def served_sites served_fingerprint Let_def
        load_fingerprint_blocklist_def)
  then show ?thesis by (auto simp: demo_gateway_def)
qed

theorem gateway_reload_in_sync_witness:
  "\<exists>c'. st_cfg (gt_store (gateway_reloads [(demo_io, demo_config)] demo_gateway)) = Some c'"
  using gateway_reload_in_sync [OF demo_gateway_new, of "[(demo_io, demo_config)]" demo_io demo_config
      "demo_gateway"] by blast

end
