(* ===== verification/Inspection.thy ===== *)
theory Inspection
  imports GatewayState
begin

text \<open>
  Package proxy, the inspection pipeline (inspect.go): the modules in their order, each a
  step on the gateway's state and the context of the request, and the chain that runs them.
  What one request sees of the outside (clocks, timeouts, the connection's hello, parsers,
  plugins, the ML service, hash functions, the upstream) is one record, \<open>world\<close>.
  \<open>wd_later i\<close> is the clock and the event id of the i-th audit event before the last one.
\<close>

text \<open>
  The answer of the reverse proxy's transport to a request, its body by the reads that return
  it, \<open>UpBroken\<close> when a read of the body fails; and what happens around a WebSocket session:
  the hijack, the dial, the writes, the backend's answer to the upgrade, the bytes the client
  sends and, by frame, clock, timeouts and keys of the relay.
\<close>

datatype upstream_reply =
  UpReply int header "string list"
| UpBroken int header "string list"
| UpDown

datatype hijack = NoHijacker | HijackFailed | Hijacked

record ws_world =
  ww_hijack :: hijack
  ww_dial :: bool
  ww_backend_write :: bool
  ww_response :: "(int \<times> string \<times> header) option"
  ww_client_write :: bool
  ww_in :: "byte list"
  ww_client_out :: sink
  ww_backend_out :: sink
  ww_now :: "nat \<Rightarrow> int"
  ww_slow :: "nat \<Rightarrow> bool"
  ww_keys :: "nat \<Rightarrow> byte list option"

record 'b world =
  wd_start :: int
  wd_limit_now :: int
  wd_ml_now :: int
  wd_chall_now :: int
  wd_emit_now :: int
  wd_slow :: bool
  wd_grpc_slow :: bool
  wd_hello :: "client_hello option"
  wd_zero_rtt :: bool
  wd_allow :: "'b backend_allow"
  wd_parse_ip :: "string \<Rightarrow> string option"
  wd_query_env :: "string \<Rightarrow> string option"
  wd_gql_decode :: "string \<Rightarrow> (string \<times> string) option"
  wd_json_error :: string
  wd_gql_parse :: "string \<Rightarrow> (string, operation list) go"
  wd_show :: "pval \<Rightarrow> string"
  wd_run :: plugin_runtime
  wd_verdicts :: "string \<Rightarrow> plugin_verdict list option"
  wd_marshal :: "plugin_request \<Rightarrow> string option"
  wd_plugin_error :: "string \<times> plugin_error \<Rightarrow> string"
  wd_ml :: ml_service
  wd_sha :: hash
  wd_md5 :: hash
  wd_rand :: "byte list option"
  wd_codec :: json_codec
  wd_event_id :: string
  wd_url :: "string \<Rightarrow> url option"
  wd_escape :: "string \<Rightarrow> string"
  wd_location :: "string \<Rightarrow> string"
  wd_upstream :: "request \<Rightarrow> upstream_reply"
  wd_sse_slow :: "nat \<Rightarrow> nat \<Rightarrow> bool"
  wd_later :: "nat \<Rightarrow> int \<times> string"
  wd_ws :: ws_world

type_synonym 'b pstate = "'b gateway \<times> inspect_ctx"

datatype inspect_error = EngineError

text \<open>
  The site of the context; it is never nil here. A nil dereference is a \<open>Panic\<close>, which the
  handler recovers.
\<close>

definition with_site :: "inspect_ctx \<Rightarrow> (site \<Rightarrow> ('e, 'a) go) \<Rightarrow> ('e, 'a) go" where
  "with_site c f = (case x_site c of None \<Rightarrow> Panic | Some s \<Rightarrow> f s)"

definition add_reasons :: "inspect_ctx \<Rightarrow> reason list \<Rightarrow> inspect_ctx" where
  "add_reasons c rs = foldl add_reason c rs"

subsection \<open>Rules\<close>

definition severity_score :: "string \<Rightarrow> rat" where
  "severity_score sev =
     (let s = to_lower sev in
      if s = ''critical'' then 1 else if s = ''error'' then 8/10
      else if s = ''warning'' then 6/10 else if s = ''notice'' then 4/10 else 3/10)"

definition rule_reason :: "rule_match \<Rightarrow> reason" where
  "rule_reason m =
     (let (status, act) =
        (if m_action m = ''block'' then (403, Block)
         else if m_action m = ''challenge'' then (429, Challenge) else (0, Log))
      in \<lparr>r_module = ''rules'', r_rule_id = m_rule_id m, r_message = m_message m,
          r_score = severity_score (m_severity m), r_status = status,
          r_data = [(''action'', JStr (action_str act)), (''engine'', JStr (m_engine m))]\<rparr>)"

definition inspect_rules :: "'b world \<Rightarrow> 'b pstate \<Rightarrow> (inspect_error, 'b pstate) go" where
  "inspect_rules w st =
     (case st of (g, c) \<Rightarrow> with_site c (\<lambda>s.
        (case gt_sites g (s_id s) of
           None \<Rightarrow> Panic
         | Some rt \<Rightarrow>
             (case engine_evaluate (rt_engine rt) (wd_slow w) (x_request c) (x_body c) of
                Ok (q, res) \<Rightarrow>
                  if res_err res then Fail EngineError
                  else Ok (g, add_reasons (c\<lparr>x_request := q\<rparr>) (map rule_reason (res_matches res)))
              | Fail _ \<Rightarrow> Panic
              | Panic \<Rightarrow> Panic))))"

subsection \<open>Protocol parsers\<close>

definition looks_like_graphql :: "(string \<Rightarrow> string option) \<Rightarrow> string \<Rightarrow> string \<Rightarrow> bool" where
  "looks_like_graphql query_env ct body =
     (if str_contains ct ''graphql'' then True
      else
        let trimmed = trim_space body in
        has_prefix trimmed ''{'' \<and>
        (case query_env trimmed of None \<Rightarrow> False | Some q \<Rightarrow> trim_space q \<noteq> []))"

text \<open>The text of the JSON decoder's error is part of the world.\<close>

definition gql_error_text :: "string \<Rightarrow> gql_error \<Rightarrow> string" where
  "gql_error_text json_error e =
     (case e of BadJson \<Rightarrow> json_error | NoQuery \<Rightarrow> ''no query present'')"

definition gql_reason :: "string \<Rightarrow> string \<Rightarrow> int \<Rightarrow> reason" where
  "gql_reason rid msg status =
     no_reason\<lparr>r_module := ''graphql'', r_rule_id := rid, r_message := msg, r_status := status\<rparr>"

definition issue_reason :: "string \<Rightarrow> reason" where
  "issue_reason i =
     gql_reason ''GQL-POLICY'' i
       (if str_contains i ''introspection'' \<or> str_contains i ''batching'' then 403 else 400)"

definition inspect_graphql :: "'b world \<Rightarrow> site \<Rightarrow> url \<Rightarrow> inspect_ctx \<Rightarrow> inspect_ctx" where
  "inspect_graphql w s u c0 =
     (let c = c0\<lparr>x_protocol := ''graphql''\<rparr>;
          r = x_request c
      in case extract_query (wd_gql_decode w) (x_body c) (query_get u ''query'') (header_get (req_header r) ''Content-Type'') of
           Ok req \<Rightarrow>
             let rep = gql_inspect (wd_gql_parse w) req (s_graphql s) in
             if gp_malformed rep
             then add_reason c (gql_reason ''GQL-MALFORMED'' (join_with ''; '' (gp_issues rep)) 400)
             else add_reasons (c\<lparr>x_graphql := Some (gp_info rep)\<rparr>) (map issue_reason (gp_issues rep))
         | Fail e \<Rightarrow>
             add_reason c (gql_reason ''GQL-PARSE'' (''could not extract GraphQL query: '' @ gql_error_text (wd_json_error w) e) 400)
         | Panic \<Rightarrow> c)"

definition grpc_reason :: "string \<Rightarrow> string \<Rightarrow> int \<Rightarrow> reason" where
  "grpc_reason rid msg status =
     no_reason\<lparr>r_module := ''grpc'', r_rule_id := rid, r_message := msg, r_status := status\<rparr>"

text \<open>The text the field values are scanned as, and the request around it.\<close>

definition flat_text :: "(string \<times> string) list \<Rightarrow> string" where
  "flat_text kvs = concat (map (\<lambda>(k, v). k @ ''='' @ v @ '';'') kvs)"

definition synth_request :: "request \<Rightarrow> request" where
  "synth_request r = r\<lparr>req_header := header_set (req_header r) ''Content-Type'' ''text/plain''\<rparr>"

definition grpc_field_reasons ::
    "engine \<Rightarrow> bool \<Rightarrow> request \<Rightarrow> (string \<times> string) list \<Rightarrow> (inspect_error, reason list) go" where
  "grpc_field_reasons e slow r kvs =
     (if kvs = [] then Ok []
      else (case engine_evaluate e slow (synth_request r) (flat_text kvs) of
              Ok (_, res) \<Rightarrow>
                if res_err res then Ok []
                else Ok (map (\<lambda>m. grpc_reason (m_rule_id m) (''grpc field matched: '' @ m_message m) 403)
                           (filter (\<lambda>m. m_action m = ''block'') (res_matches res)))
            | Fail _ \<Rightarrow> Panic
            | Panic \<Rightarrow> Panic))"

definition inspect_grpc :: "'b world \<Rightarrow> site_rt option \<Rightarrow> inspect_ctx \<Rightarrow> (inspect_error, inspect_ctx) go" where
  "inspect_grpc w rt0 c0 =
     (let c = c0\<lparr>x_protocol := ''grpc''\<rparr> in
      case rt0 of
        None \<Rightarrow> Panic
      | Some rt \<Rightarrow>
          (case rt_grpc rt of
             None \<Rightarrow> Ok c
           | Some reg \<Rightarrow>
               (case req_url (x_request c) of
                  None \<Rightarrow> Panic
                | Some u \<Rightarrow>
                    (case grpc_inspect (wd_show w) reg (url_path u) (x_body c) of
                       Ok rep \<Rightarrow>
                         if gw_malformed rep then
                           Ok (add_reason c (grpc_reason ''GRPC-MALFORMED''
                                 ''protobuf payload does not match schema'' 400))
                         else
                           go_bind (grpc_field_reasons (rt_engine rt) (wd_grpc_slow w) (x_request c)
                                      (gw_flat rep))
                             (\<lambda>rs. Ok (add_reasons
                                (c\<lparr>x_grpc := Some \<lparr>gr_service = gw_service rep,
                                                    gr_method = gw_method rep\<rparr>\<rparr>) rs))
                     | Fail _ \<Rightarrow> Panic
                     | Panic \<Rightarrow> Panic))))"

definition inspect_protocol :: "'b world \<Rightarrow> 'b pstate \<Rightarrow> (inspect_error, 'b pstate) go" where
  "inspect_protocol w st =
     (case st of (g, c) \<Rightarrow> with_site c (\<lambda>s.
        let ct = to_lower (header_get (req_header (x_request c)) ''Content-Type'') in
        if (case s_graphql s of None \<Rightarrow> False | Some q \<Rightarrow> gql_enabled q) \<and>
           looks_like_graphql (wd_query_env w) ct (x_body c)
        then (case req_url (x_request c) of
                None \<Rightarrow> Panic
              | Some u \<Rightarrow> Ok (g, inspect_graphql w s u c))
        else if (case s_grpc s of None \<Rightarrow> False | Some q \<Rightarrow> grpc_enabled q) \<and>
                has_prefix ct ''application/grpc''
        then go_bind (inspect_grpc w (gt_sites g (s_id s)) c) (\<lambda>c'. Ok (g, c'))
        else Ok (g, c)))"

subsection \<open>Rate limits\<close>

definition minute_policy :: "scope \<Rightarrow> string \<Rightarrow> int \<Rightarrow> int \<Rightarrow> policy" where
  "minute_policy sc key n burst =
     \<lparr>pol_scope = sc, pol_key = key, pol_limit = n, pol_window = 60000000000, pol_burst = burst,
      pol_algorithm = ''sliding_window''\<rparr>"

definition site_policies :: "site_rate_limit \<Rightarrow> inspect_ctx \<Rightarrow> policy list" where
  "site_policies rl c =
     (if srl_per_ip rl > 0 then [minute_policy ScopeIP (x_client_ip c) (srl_per_ip rl) (srl_burst rl)]
      else []) @
     (if srl_per_api_key rl > 0 \<and> x_api_key c \<noteq> []
      then [minute_policy ScopeAPIKey (x_api_key c) (srl_per_api_key rl) (srl_burst rl)] else []) @
     (case x_graphql c of
        None \<Rightarrow> []
      | Some q \<Rightarrow>
          if srl_per_graphql_op rl > 0 \<and> x_protocol c = ''graphql'' \<and> gi_operation q \<noteq> []
          then [minute_policy ScopeGraphQLOp (gi_operation q) (srl_per_graphql_op rl) (srl_burst rl)]
          else [])"

definition rate_reason :: "string \<Rightarrow> reason" where
  "rate_reason sc =
     no_reason\<lparr>r_module := ''ratelimit'', r_rule_id := ''RATE-'' @ to_upper sc,
               r_message := ''rate limit exceeded ('' @ sc @ '')'', r_status := 429\<rparr>"

definition inspect_rate_limit :: "'b world \<Rightarrow> 'b pstate \<Rightarrow> (inspect_error, 'b pstate) go" where
  "inspect_rate_limit w st =
     (case st of (g, c) \<Rightarrow> with_site c (\<lambda>s.
        (case s_rate_limit s of
           None \<Rightarrow> Ok (g, c)
         | Some rl \<Rightarrow>
             let ps = site_policies rl c in
             if ps = [] then Ok (g, c)
             else (case limiter_check (wd_allow w) (gt_limiter g) ps (wd_limit_now w) of
                     (l, r, sc) \<Rightarrow>
                       Ok (g\<lparr>gt_limiter := l\<rparr>,
                           if allowed r then c else add_reason c (rate_reason sc))))))"

subsection \<open>Bots\<close>

definition solved_cookie :: "request \<Rightarrow> bool" where
  "solved_cookie r \<longleftrightarrow> (case request_cookie r ''_sentinel_ok'' of None \<Rightarrow> False | Some v \<Rightarrow> v \<noteq> [])"

definition bot_signal :: "inspect_ctx \<Rightarrow> signal" where
  "bot_signal c =
     (let h = req_header (x_request c) in
      \<lparr>sg_client_ip = x_client_ip c, sg_ja4 = x_ja4 c, sg_h2fp = x_h2fp c,
       sg_user_agent = header_get h ''User-Agent'', sg_method = x_method c,
       sg_has_accept = header_get h ''Accept'' \<noteq> [], sg_has_cookie = header_get h ''Cookie'' \<noteq> [],
       sg_requests_per_min = 0\<rparr>)"

text \<open>\<open>%.2f\<close> on a non-negative number.\<close>

definition fmt2 :: "rat \<Rightarrow> string" where
  "fmt2 x = (let n = nat \<lfloor>x * 100 + 1/2\<rfloor> in
             show_nat (n div 100) @ ''.'' @ [digit_char (n mod 100 div 10), digit_char (n mod 10)])"

definition inspect_bot :: "'b pstate \<Rightarrow> (inspect_error, 'b pstate) go" where
  "inspect_bot st =
     (case st of (g, c) \<Rightarrow> with_site c (\<lambda>s.
        (case s_bot_score s of
           None \<Rightarrow> Ok (g, c)
         | Some bc \<Rightarrow>
             if \<not> bot_enabled bc then Ok (g, c)
             else if solved_cookie (x_request c) then Ok (g, c)
             else
               let score = bot_score (bot_signal c); c' = c\<lparr>x_bot_score := score\<rparr> in
               if score \<ge> bot_block_threshold bc then
                 Ok (g, add_reason c' (no_reason\<lparr>r_module := ''botscoring'', r_rule_id := ''BOT-BLOCK'',
                   r_message := ''bot score '' @ fmt2 score @ '' exceeds block threshold'',
                   r_score := score, r_status := 403\<rparr>))
               else if bot_challenge_enabled bc \<and> score \<ge> bot_challenge_threshold bc then
                 Ok (g, add_reason c' (no_reason\<lparr>r_module := ''botscoring'', r_rule_id := ''BOT-CHALLENGE'',
                   r_message := ''bot score '' @ fmt2 score @ '' triggers proof-of-work challenge'',
                   r_score := score, r_status := 429\<rparr>))
               else Ok (g, c'))))"

subsection \<open>Plugins\<close>

definition flatten_headers :: "header \<Rightarrow> (string \<times> string) list" where
  "flatten_headers h = concat (map (\<lambda>(k, vs). case vs of [] \<Rightarrow> [] | v # _ \<Rightarrow> [(k, v)]) h)"

definition plugin_request_of :: "site \<Rightarrow> url \<Rightarrow> inspect_ctx \<Rightarrow> plugin_request" where
  "plugin_request_of s u c =
     \<lparr>pq_method = x_method c, pq_path = x_path c, pq_query = url_raw_query u, pq_host = x_host c,
      pq_client_ip = x_client_ip c, pq_protocol = x_protocol c,
      pq_headers = flatten_headers (req_header (x_request c)), pq_body = x_body c,
      pq_site_id = s_id s\<rparr>"

text \<open>A verdict that allows, or has an unknown action, reports nothing.\<close>

definition plugin_status :: "plugin_action \<Rightarrow> int option" where
  "plugin_status a =
     (case a of PBlock \<Rightarrow> Some 403 | PChallenge \<Rightarrow> Some 429 | PLog \<Rightarrow> Some 0 | _ \<Rightarrow> None)"

definition plugin_reasons :: "plugin_verdict list \<Rightarrow> reason list" where
  "plugin_reasons vs =
     concat (map (\<lambda>v. case plugin_status (pv_action v) of
        None \<Rightarrow> []
      | Some st \<Rightarrow> [no_reason\<lparr>r_module := ''wasm'', r_rule_id := pv_rule_id v,
          r_message := ''wasm plugin: '' @ pv_message v, r_score := pv_score v, r_status := st\<rparr>]) vs)"

definition inspect_plugins :: "'b world \<Rightarrow> 'b pstate \<Rightarrow> (inspect_error, 'b pstate) go" where
  "inspect_plugins w st =
     (case st of (g, c) \<Rightarrow>
        (case gt_plugins g of
           None \<Rightarrow> Ok (g, c)
         | Some m \<Rightarrow> with_site c (\<lambda>s.
             (case req_url (x_request c) of
                None \<Rightarrow> Panic
              | Some u \<Rightarrow>
                  (case plugins_evaluate (wd_run w) (wd_verdicts w) (wd_marshal w) m
                          (plugin_request_of s u c) of
                     (vs, err) \<Rightarrow>
                       Ok (g, add_reasons c
                         ((case err of
                             None \<Rightarrow> []
                           | Some e \<Rightarrow>
                               if s_fail_mode s = ''closed'' then
                                 [no_reason\<lparr>r_module := ''wasm'', r_rule_id := ''PLUGIN-ERR'',
                                   r_message := ''wasm plugin host error: '' @ wd_plugin_error w e,
                                   r_status := 503\<rparr>]
                               else []) @ plugin_reasons vs)))))))"

subsection \<open>LLM routes\<close>

definition inspect_llm :: "'b pstate \<Rightarrow> (inspect_error, 'b pstate) go" where
  "inspect_llm st =
     (case st of (g, c) \<Rightarrow> with_site c (\<lambda>s.
        if \<not> gt_llm_enabled g \<or> \<not> llm_protect_enabled s then Ok (g, c)
        else if \<not> is_llm_route (x_path c) (s_llm_routes s) then Ok (g, c)
        else Ok (g, add_reasons c
               (map (\<lambda>r. r\<lparr>r_status := 403\<rparr>) (llm_inspect (gt_llm g) (x_body c))))))"

subsection \<open>ML scoring\<close>

definition ml_features :: "site \<Rightarrow> inspect_ctx \<Rightarrow> features" where
  "ml_features s c =
     (let h = req_header (x_request c) in
      \<lparr>ft_site_id = s_id s, ft_method = x_method c, ft_path = x_path c, ft_protocol = x_protocol c,
       ft_client_ip = x_client_ip c, ft_content_type = header_get h ''Content-Type'',
       ft_body_len = int (length (x_body c)), ft_header_count = int (length h),
       ft_has_auth = (x_api_key c \<noteq> [] \<or> header_get h ''Authorization'' \<noteq> []),
       ft_is_graphql = (x_protocol c = ''graphql''),
       ft_graphql_depth = (case x_graphql c of None \<Rightarrow> 0 | Some q \<Rightarrow> gi_depth q),
       ft_graphql_cost = (case x_graphql c of None \<Rightarrow> 0 | Some q \<Rightarrow> gi_complexity q),
       ft_has_cookie = (header_get h ''Cookie'' \<noteq> []), ft_has_api_key = (x_api_key c \<noteq> []),
       ft_bot_score = x_bot_score c, ft_ja4 = x_ja4 c\<rparr>)"

definition inspect_ml :: "'b world \<Rightarrow> 'b pstate \<Rightarrow> (inspect_error, 'b pstate) go" where
  "inspect_ml w st =
     (case st of (g, c) \<Rightarrow>
        if \<not> gt_ml_enabled g then Ok (g, c)
        else with_site c (\<lambda>s.
          (case ml_score (wd_ml w) (wd_ml_now w) (ml_features s c) (gt_ml g) of
             (m, Ok res) \<Rightarrow>
               let g' = g\<lparr>gt_ml := m\<rparr>; c' = c\<lparr>x_ml_score := mlr_score res\<rparr> in
               if mlr_anomaly res \<or> mlr_score res \<ge> gt_ml_threshold g then
                 Ok (g', add_reason c' (no_reason\<lparr>r_module := ''ml'', r_rule_id := ''ML-SCORE'',
                    r_message := ''anomaly detected by ML model'', r_score := mlr_score res,
                    r_status := 403\<rparr>))
               else Ok (g', c')
           | (m, _) \<Rightarrow>
               let g' = g\<lparr>gt_ml := m\<rparr> in
               if s_fail_mode s = ''closed'' then
                 Ok (g', add_reason c (no_reason\<lparr>r_module := ''ml'', r_rule_id := ''ML-ERR'',
                    r_message := ''ML service unavailable (fail-closed)'', r_status := 503\<rparr>))
               else Ok (g', c))))"

subsection \<open>The chain\<close>

datatype insp_module = MRules | MProtocol | MRateLimit | MBot | MPlugins | MLlm | MMl

fun run_module :: "'b world \<Rightarrow> insp_module \<Rightarrow> 'b pstate \<Rightarrow> (inspect_error, 'b pstate) go" where
  "run_module w MRules st = inspect_rules w st"
| "run_module w MProtocol st = inspect_protocol w st"
| "run_module w MRateLimit st = inspect_rate_limit w st"
| "run_module w MBot st = inspect_bot st"
| "run_module w MPlugins st = inspect_plugins w st"
| "run_module w MLlm st = inspect_llm st"
| "run_module w MMl st = inspect_ml w st"

fun run_modules :: "'b world \<Rightarrow> insp_module list \<Rightarrow> 'b pstate \<Rightarrow> (inspect_error, 'b pstate) go" where
  "run_modules w [] st = Ok st"
| "run_modules w (m # ms) st = go_bind (run_module w m st) (run_modules w ms)"

definition inspection_order :: "insp_module list" where
  "inspection_order = [MRules, MProtocol, MRateLimit, MBot, MPlugins, MLlm, MMl]"

definition inspect :: "'b world \<Rightarrow> 'b pstate \<Rightarrow> (inspect_error, 'b pstate \<times> verdict) go" where
  "inspect w st =
     go_bind (run_modules w inspection_order (fst st, (snd st)\<lparr>x_protocol := ''rest''\<rparr>))
       (\<lambda>st'. Ok (st', summarize (x_reasons (snd st'))))"

subsection \<open>What a module may change\<close>

text \<open>Rules may cache the parsed form in the request; nothing else of it changes.\<close>

definition same_request :: "request \<Rightarrow> request \<Rightarrow> bool" where
  "same_request r r' \<longleftrightarrow> r' = r\<lparr>req_form := req_form r'\<rparr>"

lemma same_request_refl [simp]: "same_request r r"
  by (simp add: same_request_def)

lemma same_request_trans: "same_request a b \<Longrightarrow> same_request b c \<Longrightarrow> same_request a c"
  unfolding same_request_def by (metis request.surjective request.update_convs(9))

lemma same_request_simps:
  assumes "same_request r r'"
  shows "req_url r' = req_url r" "req_method r' = req_method r" "req_header r' = req_header r"
    "req_body r' = req_body r" "req_host r' = req_host r" "req_remote r' = req_remote r"
    "req_proto_major r' = req_proto_major r"
  using assms by (metis same_request_def request.select_convs request.update_convs(9) request.surjective)+

lemma target_values_same: "target_values r q body = Ok (q', vs) \<Longrightarrow> same_request q q'"
  by (auto simp: target_values_def with_url_def Let_def parse_form_def same_request_def
      split: if_splits option.splits prod.splits)

lemma rule_evaluate_same: "rule_evaluate r q body = Ok (q', m) \<Longrightarrow> same_request q q'"
  by (auto simp: rule_evaluate_def match_target_def go_bind_Ok_iff split: if_splits
      dest!: target_values_same)

lemma custom_matches_same: "custom_matches rs q body = Ok (q', ms) \<Longrightarrow> same_request q q'"
  by (induction rs arbitrary: q q' ms)
     (auto simp: go_bind_Ok_iff dest!: rule_evaluate_same intro: same_request_trans)

lemma engine_evaluate_same: "engine_evaluate e slow q body = Ok (q', res) \<Longrightarrow> same_request q q'"
  by (auto simp: engine_evaluate_def evaluate_locked_def go_bind_Ok_iff
      split: option.splits if_splits dest!: custom_matches_same)

text \<open>
  The frame of a module: reasons are only appended, and everything the later stages rely on
  stays: the site, the body, the request up to its cached form, the runtimes, the store and
  the audit state.
\<close>

definition extends_ctx :: "inspect_ctx \<Rightarrow> inspect_ctx \<Rightarrow> bool" where
  "extends_ctx c c' \<longleftrightarrow>
     (\<exists>rs. x_reasons c' = x_reasons c @ rs) \<and> x_site c' = x_site c \<and> x_body c' = x_body c \<and>
     x_path c' = x_path c \<and> same_request (x_request c) (x_request c')"

definition keeps_gateway :: "'b gateway \<Rightarrow> 'b gateway \<Rightarrow> bool" where
  "keeps_gateway g g' \<longleftrightarrow>
     gt_sites g' = gt_sites g \<and> gt_store g' = gt_store g \<and> gt_events g' = gt_events g \<and>
     gt_stats g' = gt_stats g \<and> gt_chall g' = gt_chall g"

lemma extends_ctx_refl [simp]: "extends_ctx c c"
  by (simp add: extends_ctx_def)

lemma keeps_gateway_refl [simp]: "keeps_gateway g g"
  by (simp add: keeps_gateway_def)

lemma extends_ctx_trans: "extends_ctx a b \<Longrightarrow> extends_ctx b c \<Longrightarrow> extends_ctx a c"
  unfolding extends_ctx_def using same_request_trans by fastforce

lemma keeps_gateway_trans: "keeps_gateway a b \<Longrightarrow> keeps_gateway b c \<Longrightarrow> keeps_gateway a c"
  by (simp add: keeps_gateway_def)

lemma add_reasons_eq: "add_reasons c rs = c\<lparr>x_reasons := x_reasons c @ rs\<rparr>"
  by (induction rs arbitrary: c) (simp_all add: add_reasons_def add_reason_def)

lemma extends_add [simp]: "extends_ctx c (add_reasons c rs)" "extends_ctx c (add_reason c r)"
  by (simp_all add: extends_ctx_def add_reasons_eq add_reason_def)

lemma inspect_rules_frame:
  "inspect_rules w (g, c) = Ok (g', c') \<Longrightarrow> extends_ctx c c' \<and> g' = g"
  by (auto simp: inspect_rules_def with_site_def extends_ctx_def add_reasons_eq
      split: option.splits go.splits if_splits dest!: engine_evaluate_same)

lemma inspect_protocol_frame:
  "inspect_protocol w (g, c) = Ok (g', c') \<Longrightarrow> extends_ctx c c' \<and> g' = g"
  by (auto simp: inspect_protocol_def with_site_def inspect_graphql_def inspect_grpc_def Let_def
      extends_ctx_def add_reasons_eq add_reason_def go_bind_Ok_iff
      split: option.splits go.splits if_splits)

lemma inspect_rate_limit_frame:
  "inspect_rate_limit w (g, c) = Ok (g', c') \<Longrightarrow> extends_ctx c c' \<and> keeps_gateway g g'"
  by (auto simp: inspect_rate_limit_def with_site_def Let_def keeps_gateway_def
      split: option.splits if_splits prod.splits)

lemma inspect_bot_frame:
  "inspect_bot (g, c) = Ok (g', c') \<Longrightarrow> extends_ctx c c' \<and> g' = g"
  by (auto simp: inspect_bot_def with_site_def Let_def extends_ctx_def add_reason_def
      split: option.splits if_splits)

lemma inspect_plugins_frame:
  "inspect_plugins w (g, c) = Ok (g', c') \<Longrightarrow> extends_ctx c c' \<and> g' = g"
  by (auto simp: inspect_plugins_def with_site_def split: option.splits prod.splits)

lemma inspect_llm_frame:
  "inspect_llm (g, c) = Ok (g', c') \<Longrightarrow> extends_ctx c c' \<and> g' = g"
  by (auto simp: inspect_llm_def with_site_def split: option.splits if_splits)

lemma inspect_ml_frame:
  "inspect_ml w (g, c) = Ok (g', c') \<Longrightarrow> extends_ctx c c' \<and> keeps_gateway g g'"
  by (auto simp: inspect_ml_def with_site_def Let_def keeps_gateway_def extends_ctx_def add_reason_def
      split: option.splits if_splits prod.splits go.splits)

lemma run_module_frame:
  assumes "run_module w m (g, c) = Ok (g', c')"
  shows "extends_ctx c c' \<and> keeps_gateway g g'"
  using assms inspect_rules_frame [of w g c g' c'] inspect_protocol_frame [of w g c g' c']
    inspect_rate_limit_frame [of w g c g' c'] inspect_bot_frame [of g c g' c']
    inspect_plugins_frame [of w g c g' c'] inspect_llm_frame [of g c g' c']
    inspect_ml_frame [of w g c g' c']
  by (cases m) auto

lemma run_modules_frame:
  "run_modules w ms (g, c) = Ok (g', c') \<Longrightarrow> extends_ctx c c' \<and> keeps_gateway g g'"
proof (induction ms arbitrary: g c)
  case Nil
  then show ?case by simp
next
  case (Cons m ms)
  then obtain g1 c1 where "run_module w m (g, c) = Ok (g1, c1)"
    and rest: "run_modules w ms (g1, c1) = Ok (g', c')" by (auto simp: go_bind_Ok_iff)
  from run_module_frame [OF this(1)] Cons.IH [OF rest] show ?case
    using extends_ctx_trans keeps_gateway_trans by blast
qed

text \<open>The modules as reason adders: a module that fails leaves the state as it was.\<close>

definition module_step :: "'b world \<times> insp_module \<Rightarrow> 'b pstate \<Rightarrow> 'b pstate" where
  "module_step i st = (case run_module (fst i) (snd i) st of Ok st' \<Rightarrow> st' | _ \<Rightarrow> st)"

interpretation inspection: reason_adder "\<lambda>st. x_reasons (snd st)" module_step
proof unfold_locales
  fix i and st :: "'b pstate"
  obtain g c where st: "st = (g, c)" by (cases st)
  show "\<exists>rs. x_reasons (snd (module_step i st)) = x_reasons (snd st) @ rs"
  proof (cases "run_module (fst i) (snd i) st")
    case (Ok st')
    obtain g' c' where "st' = (g', c')" by (cases st')
    with run_module_frame [of "fst i" "snd i" g c g' c'] Ok st show ?thesis
      by (simp add: module_step_def extends_ctx_def)
  qed (simp_all add: module_step_def)
qed

lemma run_modules_steps:
  "run_modules w ms st = Ok st' \<Longrightarrow> foldl (\<lambda>st i. module_step i st) st (map (Pair w) ms) = st'"
proof (induction ms arbitrary: st)
  case Nil
  then show ?case by simp
next
  case (Cons m ms)
  then obtain st1 where "run_module w m st = Ok st1" "run_modules w ms st1 = Ok st'"
    by (auto simp: go_bind_Ok_iff)
  with Cons.IH [of st1] show ?case by (simp add: module_step_def)
qed

text \<open>Once the reasons so far block, the verdict of the whole run blocks.\<close>

lemma run_modules_block_stays:
  assumes "run_modules w ms st = Ok st'" and "v_decision (summarize (x_reasons (snd st))) = Block"
  shows "v_decision (summarize (x_reasons (snd st'))) = Block"
  using inspection.block_stays [OF assms(2), of "map (Pair w) ms"] run_modules_steps [OF assms(1)]
  by simp

subsection \<open>The chain returns\<close>

lemma engine_evaluate_ok:
  assumes "req_url q \<noteq> None"
  shows "\<exists>q' res. engine_evaluate e slow q body = Ok (q', res) \<and>
           (res_err res \<longleftrightarrow> slow \<and> e_waf e \<noteq> None)"
proof (cases "e_waf e")
  case None
  then show ?thesis by (simp add: engine_evaluate_def)
next
  case (Some wf)
  obtain q' ms where "evaluate_locked wf (e_rules e) (e_enabled e) q body = Ok (q', ms)"
    using evaluate_locked_ok [OF assms, of wf "e_rules e" "e_enabled e" body] by metis
  then show ?thesis by (cases slow) (auto simp: engine_evaluate_def Some)
qed

text \<open>A request that routing handed over: its site has a runtime, and it has a URL.\<close>

definition ready :: "'b gateway \<Rightarrow> inspect_ctx \<Rightarrow> bool" where
  "ready g c \<longleftrightarrow>
     (\<exists>s rt. x_site c = Some s \<and> gt_sites g (s_id s) = Some rt) \<and> req_url (x_request c) \<noteq> None"

definition runtime_of :: "'b gateway \<Rightarrow> inspect_ctx \<Rightarrow> site_rt option" where
  "runtime_of g c = (case x_site c of None \<Rightarrow> None | Some s \<Rightarrow> gt_sites g (s_id s))"

text \<open>The gRPC walk of this body does not panic (trivially so without a schema registry).\<close>

definition grpc_safe :: "'b world \<Rightarrow> 'b gateway \<Rightarrow> inspect_ctx \<Rightarrow> bool" where
  "grpc_safe w g c \<longleftrightarrow>
     (case runtime_of g c of
        None \<Rightarrow> True
      | Some rt \<Rightarrow>
          (case rt_grpc rt of
             None \<Rightarrow> True
           | Some reg \<Rightarrow>
               (case req_url (x_request c) of
                  None \<Rightarrow> True
                | Some u \<Rightarrow> grpc_inspect (wd_show w) reg (url_path u) (x_body c) \<noteq> Panic)))"

lemma runtime_frame:
  "extends_ctx c c' \<Longrightarrow> keeps_gateway g g' \<Longrightarrow> runtime_of g' c' = runtime_of g c"
  by (simp add: extends_ctx_def keeps_gateway_def runtime_of_def split: option.split)

lemma ready_frame: "extends_ctx c c' \<Longrightarrow> keeps_gateway g g' \<Longrightarrow> ready g c \<Longrightarrow> ready g' c'"
  by (auto simp: ready_def extends_ctx_def keeps_gateway_def same_request_simps)

lemma grpc_safe_frame:
  "extends_ctx c c' \<Longrightarrow> keeps_gateway g g' \<Longrightarrow> grpc_safe w g c \<Longrightarrow> grpc_safe w g' c'"
  unfolding grpc_safe_def
  by (simp add: runtime_frame) (auto simp: extends_ctx_def same_request_simps split: option.splits)

lemma inspect_rules_result:
  assumes "ready g c" and "runtime_of g c = Some rt"
  shows "if wd_slow w \<and> e_waf (rt_engine rt) \<noteq> None then inspect_rules w (g, c) = Fail EngineError
         else \<exists>st'. inspect_rules w (g, c) = Ok st'"
proof -
  from assms obtain s where s: "x_site c = Some s" "gt_sites g (s_id s) = Some rt"
    and u: "req_url (x_request c) \<noteq> None" by (auto simp: ready_def runtime_of_def)
  from engine_evaluate_ok [OF u, of "rt_engine rt" "wd_slow w" "x_body c"] obtain q' res where
    "engine_evaluate (rt_engine rt) (wd_slow w) (x_request c) (x_body c) = Ok (q', res)"
    "res_err res \<longleftrightarrow> wd_slow w \<and> e_waf (rt_engine rt) \<noteq> None" by blast
  with s show ?thesis by (auto simp: inspect_rules_def with_site_def)
qed

lemma grpc_field_reasons_ok:
  assumes "req_url r \<noteq> None"
  shows "\<exists>rs. grpc_field_reasons e slow r kvs = Ok rs"
proof -
  have "req_url (synth_request r) \<noteq> None" using assms by (simp add: synth_request_def)
  from engine_evaluate_ok [OF this, of e slow "flat_text kvs"] obtain q' res where
    "engine_evaluate e slow (synth_request r) (flat_text kvs) = Ok (q', res)" by blast
  then show ?thesis by (simp add: grpc_field_reasons_def)
qed

lemma inspect_protocol_ok:
  assumes "ready g c" and "grpc_safe w g c"
  shows "\<exists>st'. inspect_protocol w (g, c) = Ok st'"
proof -
  from assms(1) obtain s rt u where s: "x_site c = Some s" "gt_sites g (s_id s) = Some rt"
    and u: "req_url (x_request c) = Some u" by (auto simp: ready_def)
  have "\<exists>c'. inspect_grpc w (Some rt) c = Ok c'"
  proof (cases "rt_grpc rt")
    case None
    then show ?thesis by (simp add: inspect_grpc_def Let_def)
  next
    case (Some reg)
    from assms(2) s u Some have np: "grpc_inspect (wd_show w) reg (url_path u) (x_body c) \<noteq> Panic"
      by (simp add: grpc_safe_def runtime_of_def)
    have nf: "grpc_inspect (wd_show w) reg (url_path u) (x_body c) \<noteq> Fail e" for e
      by (auto simp: grpc_inspect_def Let_def go_bind_Fail_iff walk_message_Fail split: option.split)
    from np nf obtain rep where
      rep: "grpc_inspect (wd_show w) reg (url_path u) (x_body c) = Ok rep"
      by (cases "grpc_inspect (wd_show w) reg (url_path u) (x_body c)") auto
    have "req_url (x_request c) \<noteq> None" using u by simp
    from grpc_field_reasons_ok [OF this, of "rt_engine rt" "wd_grpc_slow w" "gw_flat rep"]
    obtain rs where "grpc_field_reasons (rt_engine rt) (wd_grpc_slow w) (x_request c) (gw_flat rep) = Ok rs"
      by blast
    with Some rep u show ?thesis by (simp add: inspect_grpc_def Let_def)
  qed
  with s u show ?thesis by (auto simp: inspect_protocol_def with_site_def Let_def)
qed

lemma other_modules_ok:
  assumes "ready g c" and "m \<notin> {MRules, MProtocol}"
  shows "\<exists>st'. run_module w m (g, c) = Ok st'"
proof -
  from assms(1) obtain s u where s: "x_site c = Some s" and u: "req_url (x_request c) = Some u"
    by (auto simp: ready_def)
  have "\<exists>st'. inspect_rate_limit w (g, c) = Ok st'"
    by (cases "s_rate_limit s") (auto simp: inspect_rate_limit_def with_site_def s Let_def split: prod.split)
  moreover have "\<exists>st'. inspect_bot (g, c) = Ok st'"
    by (cases "s_bot_score s") (auto simp: inspect_bot_def with_site_def s Let_def)
  moreover have "\<exists>st'. inspect_plugins w (g, c) = Ok st'"
    by (cases "gt_plugins g") (auto simp: inspect_plugins_def with_site_def s u split: prod.split)
  moreover have "\<exists>st'. inspect_llm (g, c) = Ok st'"
    by (auto simp: inspect_llm_def with_site_def s)
  moreover have "\<exists>st'. inspect_ml w (g, c) = Ok st'"
    by (auto simp: inspect_ml_def with_site_def s Let_def split: prod.split go.split)
  ultimately show ?thesis using assms(2) by (cases m) simp_all
qed

lemma run_modules_ok:
  "ready g c \<Longrightarrow> grpc_safe w g c \<Longrightarrow> MRules \<notin> set ms \<Longrightarrow> \<exists>st'. run_modules w ms (g, c) = Ok st'"
proof (induction ms arbitrary: g c)
  case Nil
  then show ?case by simp
next
  case (Cons m ms)
  have "\<exists>st'. run_module w m (g, c) = Ok st'"
    using Cons.prems inspect_protocol_ok [of g c w] other_modules_ok [of g c m w] by (cases m) auto
  then obtain g1 c1 where 1: "run_module w m (g, c) = Ok (g1, c1)" by auto
  from run_module_frame [OF 1] Cons.prems ready_frame [of c c1 g g1] grpc_safe_frame [of c c1 g g1 w]
  have "\<exists>st'. run_modules w ms (g1, c1) = Ok st'" by (intro Cons.IH) auto
  with 1 show ?case by simp
qed

lemma inspect_result:
  assumes "ready g c" and "runtime_of g c = Some rt" and "grpc_safe w g c"
  shows "if wd_slow w \<and> e_waf (rt_engine rt) \<noteq> None then inspect w (g, c) = Fail EngineError
         else \<exists>g' c'. inspect w (g, c) = Ok ((g', c'), summarize (x_reasons c'))"
proof -
  let ?c = "c\<lparr>x_protocol := ''rest''\<rparr>"
  have r: "ready g ?c" "runtime_of g ?c = Some rt" "grpc_safe w g ?c"
    using assms by (simp_all add: ready_def runtime_of_def grpc_safe_def split: option.splits)
  show ?thesis
  proof (cases "wd_slow w \<and> e_waf (rt_engine rt) \<noteq> None")
    case True
    with inspect_rules_result [OF r(1,2), of w] show ?thesis
      by (simp add: inspect_def inspection_order_def)
  next
    case False
    with inspect_rules_result [OF r(1,2), of w] obtain g1 c1 where
      1: "inspect_rules w (g, ?c) = Ok (g1, c1)" by auto
    from inspect_rules_frame [OF 1] r have "ready g1 c1" "grpc_safe w g1 c1"
      using ready_frame [of ?c c1 g g1] grpc_safe_frame [of ?c c1 g g1 w] by auto
    from run_modules_ok [OF this, of "tl inspection_order"] obtain g2 c2 where
      "run_modules w (tl inspection_order) (g1, c1) = Ok (g2, c2)"
      by (auto simp: inspection_order_def)
    with 1 False show ?thesis by (simp add: inspect_def inspection_order_def)
  qed
qed

subsection \<open>Properties\<close>

text \<open>
  C9. The chain returns for every routed request whose gRPC payload the walk can print: with
  an engine timeout it is the engine error the handler turns into the fail mode, otherwise it
  is a verdict, which is the summary of all reasons the modules collected.
\<close>

theorem inspection_returns:
  assumes "ready g c" and "runtime_of g c = Some rt" and "grpc_safe w g c"
  shows "if wd_slow w \<and> e_waf (rt_engine rt) \<noteq> None then inspect w (g, c) = Fail EngineError
         else \<exists>g' c'. inspect w (g, c) = Ok ((g', c'), summarize (x_reasons c'))"
  by (rule inspect_result [OF assms])

text \<open>A gateway with one site, and a request routed to it.\<close>

definition demo_site :: site where
  "demo_site = hd (c_sites served_config)"

definition demo_rt :: site_rt where
  "demo_rt = \<lparr>rt_cfg = demo_site, rt_engine = demo_engine, rt_grpc = None, rt_target = demo_url,
              rt_ws = None\<rparr>"

definition routed_gateway :: "mem_backend gateway" where
  "routed_gateway = demo_gateway
     \<lparr>gt_sites := [s_id demo_site \<mapsto> demo_rt], gt_plugins := None, gt_ml_enabled := False\<rparr>"

definition empty_ctx :: inspect_ctx where
  "empty_ctx = \<lparr>x_request = demo_request, x_site = Some demo_site, x_client_ip = [], x_api_key = [],
     x_host = [], x_path = ''/a'', x_method = ''POST'', x_body = [], x_protocol = ''rest'',
     x_transport = ''h1'', x_zero_rtt = False, x_graphql = None, x_grpc = None, x_ja3 = [],
     x_ja4 = [], x_h2fp = [], x_bot_score = 0, x_ml_score = 0, x_llm_score = 0, x_reasons = [],
     x_status = 0\<rparr>"

definition demo_world :: "mem_backend world" where
  "demo_world = \<lparr>wd_start = 0, wd_limit_now = 1, wd_ml_now = 2, wd_chall_now = 3, wd_emit_now = 4,
     wd_slow = False, wd_grpc_slow = False, wd_hello = None, wd_zero_rtt = False,
     wd_allow = mem_allow False, wd_parse_ip = (\<lambda>_. None), wd_query_env = (\<lambda>_. None),
     wd_gql_decode = (\<lambda>_. None), wd_json_error = [], wd_gql_parse = (\<lambda>_. Fail []),
     wd_show = (\<lambda>_. []), wd_run = (\<lambda>_ _ _. TimedOut), wd_verdicts = (\<lambda>_. None),
     wd_marshal = (\<lambda>_. None), wd_plugin_error = (\<lambda>_. []), wd_ml = (\<lambda>_ _. Unreachable),
     wd_sha = (\<lambda>_. []), wd_md5 = (\<lambda>_. []), wd_rand = None,
     wd_codec = (\<lambda>_. None, \<lambda>_. []), wd_event_id = [], wd_url = (\<lambda>_. None),
     wd_escape = (\<lambda>p. p), wd_location = (\<lambda>p. p), wd_upstream = (\<lambda>_. UpReply 200 [] [''ok'']),
     wd_sse_slow = (\<lambda>_ _. False), wd_later = (\<lambda>i. (5 + int i, [])),
     wd_ws = \<lparr>ww_hijack = NoHijacker, ww_dial = False, ww_backend_write = False,
              ww_response = None, ww_client_write = False, ww_in = [],
              ww_client_out = \<lparr>sk_bytes = [], sk_left = None\<rparr>,
              ww_backend_out = \<lparr>sk_bytes = [], sk_left = None\<rparr>, ww_now = (\<lambda>_. 0),
              ww_slow = (\<lambda>_. False), ww_keys = (\<lambda>_. None)\<rparr>\<rparr>"

lemma routed_demo:
  "ready routed_gateway (empty_ctx\<lparr>x_body := b\<rparr>)"
  "runtime_of routed_gateway (empty_ctx\<lparr>x_body := b\<rparr>) = Some demo_rt"
  "grpc_safe w routed_gateway (empty_ctx\<lparr>x_body := b\<rparr>)"
  by (simp_all add: ready_def runtime_of_def grpc_safe_def routed_gateway_def empty_ctx_def
      demo_rt_def)

theorem inspection_returns_witness:
  "(\<exists>g' c'. inspect demo_world (routed_gateway, empty_ctx\<lparr>x_body := ''a''\<rparr>) =
      Ok ((g', c'), summarize (x_reasons c'))) \<and>
   inspect (demo_world\<lparr>wd_slow := True\<rparr>) (routed_gateway, empty_ctx\<lparr>x_body := ''a''\<rparr>) = Fail EngineError"
  using inspection_returns [OF routed_demo, of demo_world "''a''"]
    inspection_returns [OF routed_demo, of "demo_world\<lparr>wd_slow := True\<rparr>" "''a''"]
  by (simp add: demo_world_def demo_rt_def)

text \<open>
  C2. End to end, through all seven modules: on a site with the XSS class, a request whose
  body contains a script tag in any case and is not multipart gets the verdict block with a
  status of at least 403, whatever Coraza, the rate limiter, the plugins and the ML service
  say, unless the engine timed out.
\<close>

theorem script_request_verdict:
  assumes "inspect w (g, c) = Ok ((g', c'), v)" and "runtime_of g c = Some rt"
    and "e_waf (rt_engine rt) = Some waf" and "t_xss (e_enabled (rt_engine rt))"
    and "req_url (x_request c) = Some u" and "\<not> is_multipart (x_request c)"
    and "x_body c = a @ tag @ b" and "to_lower tag = ''<script'' \<or> to_lower tag = ''</script''"
  shows "v_decision v = Block \<and> 403 \<le> v_status v"
proof -
  let ?c = "c\<lparr>x_protocol := ''rest''\<rparr>"
  from assms(1) have v: "v = summarize (x_reasons c')"
    and run: "run_modules w inspection_order (g, ?c) = Ok (g', c')"
    by (auto simp: inspect_def go_bind_Ok_iff)
  from run obtain g1 c1 where 1: "inspect_rules w (g, ?c) = Ok (g1, c1)"
    and rest: "run_modules w (tl inspection_order) (g1, c1) = Ok (g', c')"
    by (auto simp: inspection_order_def go_bind_Ok_iff)
  have "evaluate_native_body (e_enabled (rt_engine rt)) (x_body c) \<noteq> []"
    unfolding assms(7) by (rule script_tag_hit [OF assms(4,8)])
  with native_hit_blocks [OF assms(3,5)] assms(6) obtain q' res where
    ev: "engine_evaluate (rt_engine rt) False (x_request c) (x_body c) = Ok (q', res)" "res_blocked res"
    by blast
  from 1 assms(2,3) have fast: "\<not> wd_slow w"
    by (auto simp: inspect_rules_def with_site_def runtime_of_def engine_evaluate_def
        split: option.splits if_splits)
  obtain m where m: "m \<in> set (res_matches res)" "m_action m = ''block''"
    using ev by (auto simp: engine_evaluate_def go_bind_Ok_iff assms(3))
  from 1 ev fast assms(2) have "c1 = add_reasons (?c\<lparr>x_request := q'\<rparr>) (map rule_reason (res_matches res))"
    by (auto simp: inspect_rules_def with_site_def runtime_of_def split: option.splits if_splits)
  then have r: "rule_reason m \<in> set (x_reasons c1)" using m(1) by (simp add: add_reasons_eq)
  have in_c': "rule_reason m \<in> set (x_reasons c')"
    using inspection.reasons_kept [of "rule_reason m" "(g1, c1)" "map (Pair w) (tl inspection_order)"]
      r run_modules_steps [OF rest] by simp
  have rr: "reason_action (rule_reason m) = Block" "r_status (rule_reason m) = 403"
    using m(2) by (simp_all add: rule_reason_def reason_action_def is_challenge_def)
  have "v_decision v = Block" unfolding v summarize_blocks_iff using in_c' rr(1) by blast
  moreover have "403 \<in> set (block_statuses (x_reasons c'))"
    using in_c' rr by (force simp: block_statuses_def)
  then have "403 \<le> v_status v"
    using \<open>v_decision v = Block\<close>
    by (auto simp: v summarize_def summarize_fold foldl_max_ge split: if_splits)
  ultimately show ?thesis by simp
qed

theorem script_request_verdict_witness:
  "\<exists>g' c' v. inspect demo_world (routed_gateway, empty_ctx\<lparr>x_body := ''x<SCRIPT>''\<rparr>) = Ok ((g', c'), v) \<and>
     v_decision v = Block"
proof -
  let ?c = "empty_ctx\<lparr>x_body := ''x<SCRIPT>''\<rparr>"
  from inspect_result [OF routed_demo, of demo_world "''x<SCRIPT>''"] obtain g' c' where
    i: "inspect demo_world (routed_gateway, ?c) = Ok ((g', c'), summarize (x_reasons c'))"
    by (auto simp: demo_world_def)
  have "x_body ?c = ''x'' @ ''<SCRIPT'' @ ''>''" by simp
  moreover have "to_lower ''<SCRIPT'' = ''<script''" by code_simp
  moreover have "\<not> is_multipart (x_request ?c)" unfolding empty_ctx_def by code_simp
  moreover have "req_url (x_request ?c) = Some demo_url"
    by (simp add: empty_ctx_def)
  ultimately have "v_decision (summarize (x_reasons c')) = Block"
    using script_request_verdict [OF i routed_demo(2), of silent_waf demo_url "''x''" "''<SCRIPT''" "''>''"]
    by (simp add: demo_rt_def)
  with i show ?thesis by blast
qed

end
