(* ===== verification/Gateway.thy ===== *)
theory Gateway
  imports Inspection
begin

text \<open>
  Package proxy, the request handler: \<open>ServeHTTP\<close> with its helpers (gateway.go), the director
  and error handler of the reverse proxy (httputil.go), the audit event of a request
  (emit.go) and the entry point of the Envoy adapter (\<open>Evaluate\<close>, inspect.go). The reverse
  proxy of the standard library, with the transport and the backend behind it, is the
  world's answer to the request the director produced.
\<close>

subsection \<open>The response writer (net/http)\<close>

text \<open>
  The first \<open>WriteHeader\<close> fixes status and headers, later ones are ignored; a write without
  one implies status 200. \<open>wr_sent\<close> lists the requests handed to the upstream and \<open>wr_raw\<close>
  the bytes written to a hijacked connection.
\<close>

record writer =
  wr_header :: header
  wr_code :: "(int \<times> header) option"
  wr_body :: string
  wr_sent :: "request list"
  wr_raw :: string

definition fresh_writer :: writer where
  "fresh_writer = \<lparr>wr_header = [], wr_code = None, wr_body = [], wr_sent = [], wr_raw = []\<rparr>"

definition set_wr_header :: "string \<Rightarrow> string \<Rightarrow> writer \<Rightarrow> writer" where
  "set_wr_header k v wr = wr\<lparr>wr_header := header_set (wr_header wr) k v\<rparr>"

definition write_header :: "int \<Rightarrow> writer \<Rightarrow> writer" where
  "write_header code wr =
     (if wr_code wr = None then wr\<lparr>wr_code := Some (code, wr_header wr)\<rparr> else wr)"

definition write_body :: "string \<Rightarrow> writer \<Rightarrow> writer" where
  "write_body b wr = (let wr' = write_header 200 wr in wr'\<lparr>wr_body := wr_body wr' @ b\<rparr>)"

definition http_error :: "string \<Rightarrow> int \<Rightarrow> writer \<Rightarrow> writer" where
  "http_error msg code wr =
     write_body (msg @ [CHR 0x0A]) (write_header code
       (set_wr_header ''X-Content-Type-Options'' ''nosniff''
         (set_wr_header ''Content-Type'' ''text/plain; charset=utf-8'' wr)))"

definition set_cookie :: "string \<Rightarrow> writer \<Rightarrow> writer" where
  "set_cookie c wr = wr\<lparr>wr_header := header_add (wr_header wr) ''Set-Cookie'' c\<rparr>"

definition status_of :: "writer \<Rightarrow> int" where
  "status_of wr = (case wr_code wr of None \<Rightarrow> 0 | Some (code, _) \<Rightarrow> code)"

subsection \<open>Audit events (emit.go)\<close>

type_synonym 'b session = "'b gateway \<times> inspect_ctx \<times> writer"

definition site_id_of :: "inspect_ctx \<Rightarrow> string" where
  "site_id_of c = (case x_site c of Some s \<Rightarrow> s_id s | None \<Rightarrow> [])"

definition site_name_of :: "inspect_ctx \<Rightarrow> string" where
  "site_name_of c = (case x_site c of Some s \<Rightarrow> s_name s | None \<Rightarrow> [])"

definition event_of :: "'b world \<Rightarrow> inspect_ctx \<Rightarrow> int \<Rightarrow> int \<Rightarrow> action \<Rightarrow> bool \<Rightarrow> event" where
  "event_of w c start status act blocked =
     \<lparr>e_id = wd_event_id w, e_timestamp = wd_emit_now w, e_schema = [], e_site_id = site_id_of c,
      e_site_name = site_name_of c, e_protocol = x_protocol c, e_transport = x_transport c,
      e_zero_rtt = x_zero_rtt c, e_method = x_method c, e_host = x_host c, e_path = x_path c,
      e_client_ip = x_client_ip c, e_status = status, e_decision = action_str act,
      e_blocked = blocked, e_reasons = x_reasons c, e_ja3 = x_ja3 c, e_ja4 = x_ja4 c,
      e_h2fp = x_h2fp c, e_bot_score = x_bot_score c, e_ml_score = x_ml_score c,
      e_llm_score = x_llm_score c,
      e_graphql = map_option (\<lambda>q. \<lparr>gs_operation = gi_operation q, gs_depth = gi_depth q,
                    gs_complexity = gi_complexity q, gs_aliases = gi_aliases q,
                    gs_introspection = gi_introspection q\<rparr>) (x_graphql c),
      e_body = x_body c, e_headers = [],
      e_duration_ms = of_int ((wd_emit_now w - start) div 1000) / 1000\<rparr>"

definition count_event :: "inspect_ctx \<Rightarrow> action \<Rightarrow> bool \<Rightarrow> collector \<Rightarrow> collector" where
  "count_event c act blocked t0 =
     (let t1 = add_request (x_protocol c) t0;
          t2 = (case x_graphql c of
                  None \<Rightarrow> t1
                | Some q \<Rightarrow> add_graphql (word_of_int (gi_depth q)) (word_of_int (gi_complexity q)) t1)
      in if blocked then (if act = Challenge then add_challenged t2 else add_blocked t2) else t2)"

definition emit :: "'b world \<Rightarrow> inspect_ctx \<Rightarrow> int \<Rightarrow> int \<Rightarrow> action \<Rightarrow> bool \<Rightarrow> 'b gateway \<Rightarrow> 'b gateway" where
  "emit w c start status act blocked g =
     g\<lparr>gt_stats := count_event c act blocked (gt_stats g),
       gt_events := emit_event (wd_codec w) (gt_events g) (event_of w c start status act blocked)\<rparr>"

subsection \<open>Denying\<close>

definition deny_body :: "int \<Rightarrow> string" where
  "deny_body status = (let q = [CHR 0x22] in
     ''{'' @ q @ ''error'' @ q @ '':'' @ q @ ''request blocked by WAF'' @ q @ '','' @ q @ ''status'' @ q @
     '':'' @ itoa status @ ''}'')"

definition deny :: "'b world \<Rightarrow> action \<Rightarrow> int \<Rightarrow> reason list \<Rightarrow> 'b session \<Rightarrow> 'b session" where
  "deny w act status0 rs st =
     (case st of (g, c, wr) \<Rightarrow>
        let status = (if status0 = 0 then 403 else status0);
            c' = c\<lparr>x_reasons := x_reasons c @ rs, x_status := status\<rparr>;
            wr' = write_body (deny_body status)
                    (write_header status (set_wr_header ''Content-Type'' ''application/json'' wr))
        in (emit w c' (wd_start w) status act True g, c', wr'))"

definition proxy_reason :: "string \<Rightarrow> string \<Rightarrow> string \<Rightarrow> reason" where
  "proxy_reason md rid msg = no_reason\<lparr>r_module := md, r_rule_id := rid, r_message := msg\<rparr>"

subsection \<open>Forwarding\<close>

text \<open>The director: scheme and host of the backend, the site prefix, the client address.\<close>

definition strip_prefix :: "'b world \<Rightarrow> site \<Rightarrow> url \<Rightarrow> url" where
  "strip_prefix w s u =
     (if s_path_prefix s \<noteq> [] \<and>
         (url_path u = s_path_prefix s \<or> has_prefix (url_path u) (s_path_prefix s @ ''/''))
      then let p = trim_prefix (url_path u) (s_path_prefix s);
               p' = (if p = [] then ''/'' else p)
           in u\<lparr>url_path := p', url_escaped := wd_escape w p'\<rparr>
      else u)"

definition director :: "'b world \<Rightarrow> site_rt \<Rightarrow> request \<Rightarrow> request" where
  "director w rt r =
     (case req_url r of
        None \<Rightarrow> r
      | Some u \<Rightarrow>
          let s = rt_cfg rt;
              u1 = u\<lparr>url_scheme := url_scheme (rt_target rt), url_host := url_host (rt_target rt)\<rparr>;
              r1 = r\<lparr>req_url := Some (strip_prefix w s u1),
                     req_host := (if s_preserve_host s then req_host r else url_host (rt_target rt))\<rparr>;
              ip = client_ip (wd_parse_ip w) r1
          in if header_get (req_header r1) ''X-Forwarded-For'' = [] \<and> ip \<noteq> []
             then r1\<lparr>req_header := header_set (req_header r1) ''X-Forwarded-For'' ip\<rparr> else r1)"

text \<open>
  The proxy's answer: the upstream's status, headers and body, or the error handler's page.
  Headers of the upstream are added to those already set.
\<close>

definition add_headers :: "header \<Rightarrow> writer \<Rightarrow> writer" where
  "add_headers h wr =
     wr\<lparr>wr_header := foldl (\<lambda>h' (k, v). header_add h' k v) (wr_header wr)
          (concat (map (\<lambda>(k, vs). map (Pair k) vs) h))\<rparr>"

definition copy_reply :: "int \<Rightarrow> header \<Rightarrow> string list \<Rightarrow> writer \<Rightarrow> writer" where
  "copy_reply code h chunks wr = write_body (concat chunks) (write_header code (add_headers h wr))"

definition proxy_reply :: "site \<Rightarrow> upstream_reply \<Rightarrow> writer \<Rightarrow> writer \<times> int" where
  "proxy_reply s rep wr =
     (case rep of
        UpReply code h chunks \<Rightarrow> (copy_reply code h chunks wr, code)
      | UpBroken code h chunks \<Rightarrow> (copy_reply code h chunks wr, code)
      | UpDown \<Rightarrow>
          let code = (if s_fail_mode s = ''closed'' then 503 else 502)
          in (http_error ''upstream unavailable'' code wr, code))"

definition transport_of :: "request \<Rightarrow> string" where
  "transport_of r =
     (if req_proto_major r = 3 then ''h3'' else if req_proto_major r = 2 then ''h2'' else ''h1'')"

text \<open>
  SSE: the transport of a site with SSE inspection scans an event stream as the proxy reads
  it, and every violation is emitted at once. The request of the event is the one that went
  to the upstream.
\<close>

definition later :: "'b world \<Rightarrow> nat \<Rightarrow> 'b world" where
  "later w i = w\<lparr>wd_emit_now := fst (wd_later w i), wd_event_id := snd (wd_later w i)\<rparr>"

definition sse_violations ::
    "'b world \<Rightarrow> site_rt \<Rightarrow> upstream_reply \<Rightarrow> (unit, violation list) go" where
  "sse_violations w rt rep =
     (let scan = (\<lambda>h chunks.
            if s_sse (rt_cfg rt) = Some True \<and> is_event_stream h
            then go_bind (read_stream (wd_sse_slow w) 0 chunks (new_stream_writer (Some (rt_engine rt))))
                   (\<lambda>(sw, _). Ok (sw_reported sw))
            else Ok [])
      in case rep of
           UpReply _ h chunks \<Rightarrow> scan h chunks
         | UpBroken _ h chunks \<Rightarrow> scan h chunks
         | UpDown \<Rightarrow> Ok [])"

definition sse_ctx :: "'b world \<Rightarrow> config \<Rightarrow> request \<Rightarrow> url \<Rightarrow> violation \<Rightarrow> inspect_ctx" where
  "sse_ctx w cfg r u v =
     \<lparr>x_request = r, x_site = site_by_domain cfg (req_host r),
      x_client_ip = client_ip (wd_parse_ip w) r, x_api_key = [], x_host = req_host r,
      x_path = url_path u, x_method = req_method r, x_body = [], x_protocol = ''sse'',
      x_transport = transport_of r, x_zero_rtt = False, x_graphql = None, x_grpc = None,
      x_ja3 = [], x_ja4 = [], x_h2fp = [], x_bot_score = 0, x_ml_score = 0, x_llm_score = 0,
      x_reasons = [no_reason\<lparr>r_module := ''sse'', r_rule_id := vi_rule_id v,
        r_message := ''sse data line matched: '' @ vi_line v, r_status := 403\<rparr>],
      x_status = 0\<rparr>"

definition emit_sse_violation :: "'b world \<Rightarrow> request \<Rightarrow> violation \<Rightarrow> 'b gateway \<Rightarrow> 'b gateway" where
  "emit_sse_violation w r v g =
     (case (st_cfg (gt_store g), req_url r) of
        (Some cfg, Some u) \<Rightarrow> emit w (sse_ctx w cfg r u v) (wd_emit_now w) 200 Log False g
      | _ \<Rightarrow> g)"

fun emit_sse_violations :: "'b world \<Rightarrow> nat \<Rightarrow> request \<Rightarrow> violation list \<Rightarrow> 'b gateway \<Rightarrow> 'b gateway" where
  "emit_sse_violations w i r [] g = g"
| "emit_sse_violations w i r (v # vs) g =
     emit_sse_violations w (i + 1) r vs (emit_sse_violation (later w i) r v g)"

subsection \<open>Serving\<close>

text \<open>
  The end of a request: answered, the connection dropped because the recovery itself panicked
  (a request without a URL), or the process gone.
\<close>

datatype 'b served = Served "'b gateway" writer | Aborted "'b gateway" | Crashed

definition session_end :: "'b session \<Rightarrow> 'b served" where
  "session_end st = (case st of (g, c, wr) \<Rightarrow> Served g wr)"

definition recovered :: "request \<Rightarrow> 'b gateway \<Rightarrow> writer \<Rightarrow> 'b served" where
  "recovered r g wr =
     (if req_url r = None then Aborted g else Served g (http_error ''internal error'' 500 wr))"

text \<open>
  \<open>serve\<close>: the inspected body becomes the body again, the recorder sees the status. When the
  copy of the upstream's body fails, the reverse proxy panics with \<open>ErrAbortHandler\<close>, which
  the handler recovers before the event is emitted. A panic while a data line is evaluated is
  in a goroutine of the rule engine, which ends the process.
\<close>

definition serve :: "'b world \<Rightarrow> action \<Rightarrow> 'b session \<Rightarrow> 'b served" where
  "serve w act st =
     (case st of (g, c, wr) \<Rightarrow>
        (case runtime_of g c of
           None \<Rightarrow> session_end
             (deny w Block 503 [proxy_reason ''proxy'' ''PROXY-NOSITE'' ''site runtime unavailable''] st)
         | Some rt \<Rightarrow>
             let r = (x_request c)\<lparr>req_body := Unread (x_body c)\<rparr>;
                 out = director w rt r;
                 rep = wd_upstream w out
             in case sse_violations w rt rep of
                  Ok vs \<Rightarrow>
                    let g1 = emit_sse_violations w 1 out vs g in
                    (case proxy_reply (rt_cfg rt) rep (wr\<lparr>wr_sent := wr_sent wr @ [out]\<rparr>) of
                       (wr', code) \<Rightarrow>
                         (case rep of
                            UpBroken _ _ _ \<Rightarrow> recovered r g1 wr'
                          | _ \<Rightarrow>
                              Served (emit w (c\<lparr>x_request := r, x_status := code\<rparr>) (wd_start w) code
                                        act False g1) wr'))
                | _ \<Rightarrow> Crashed))"

subsection \<open>The challenge\<close>

definition pow_cookie :: "string \<Rightarrow> string" where
  "pow_cookie i = ''_sentinel_pow='' @ i @ ''; Path=/; Max-Age=600; HttpOnly; SameSite=Lax''"

definition ok_cookie :: string where
  "ok_cookie = ''_sentinel_ok=1; Path=/; Max-Age=3600; HttpOnly; SameSite=Lax''"

definition issue_page :: "'b world \<Rightarrow> bot_config \<Rightarrow> 'b session \<Rightarrow> 'b session" where
  "issue_page w bc st =
     (case st of (g, c, wr) \<Rightarrow>
        (case issue_challenge (wd_rand w) (wd_chall_now w) (bot_pow_difficulty bc) (gt_chall g) of
           (s, None) \<Rightarrow>
             deny w Block 429 [proxy_reason ''botscoring'' ''BOT-CHALLENGE-ERR'' ''could not issue challenge'']
               (g\<lparr>gt_chall := s\<rparr>, c, wr)
         | (s, Some ch) \<Rightarrow>
             let wr' = write_body (challenge_html ch (x_path c)) (write_header 429
                   (set_wr_header ''Content-Type'' ''text/html; charset=utf-8''
                     (set_cookie (pow_cookie (cl_id ch)) wr)))
             in (emit w c (wd_start w) 429 Challenge True (g\<lparr>gt_chall := s\<rparr>), c, wr')))"

definition handle_challenge :: "'b world \<Rightarrow> bot_config \<Rightarrow> 'b session \<Rightarrow> 'b session" where
  "handle_challenge w bc st =
     (case st of (g, c, wr) \<Rightarrow>
        if req_method (x_request c) = ''POST'' then
          let r = fst (parse_form (x_request c));
              c1 = c\<lparr>x_request := r\<rparr>;
              prf = form_get r ''_pow'';
              i = trim_prefix (header_get (req_header r) ''Cookie'') ''_sentinel_pow=''
          in if prf \<noteq> [] \<and> i \<noteq> [] then
               (case redeem_challenge (wd_sha w) (wd_chall_now w) i prf (gt_chall g) of
                  (s, True) \<Rightarrow>
                    (emit w c1 (wd_start w) 303 Challenge False (g\<lparr>gt_chall := s\<rparr>), c1,
                     write_header 303 (set_wr_header ''Location'' (wd_location w (x_path c1))
                       (set_cookie ok_cookie wr)))
                | (s, False) \<Rightarrow> issue_page w bc (g\<lparr>gt_chall := s\<rparr>, c1, wr))
             else issue_page w bc (g, c1, wr)
        else issue_page w bc (g, c, wr))"

subsection \<open>WebSocket sessions\<close>

definition crlf :: string where
  "crlf = [CHR 0x0D, CHR 0x0A]"

definition header_lines :: "header \<Rightarrow> string" where
  "header_lines h = concat (map (\<lambda>(k, vs). concat (map (\<lambda>v. k @ '': '' @ v @ crlf) vs)) h)"

definition format_upgrade_request :: "(string \<Rightarrow> url option) \<Rightarrow> request \<Rightarrow> site \<Rightarrow> string" where
  "format_upgrade_request parse_url r s =
     (let target = (case req_url r of None \<Rightarrow> [] | Some u \<Rightarrow> request_uri u);
          host = (if s_preserve_host s then req_host r
                  else (case parse_url (s_backend s) of
                          Some u \<Rightarrow> if url_host u \<noteq> [] then url_host u else req_host r
                        | None \<Rightarrow> req_host r))
      in req_method r @ '' '' @ (if target = [] then ''/'' else target) @ '' HTTP/1.1'' @ crlf @
         ''Host: '' @ host @ crlf @
         header_lines (filter (\<lambda>(k, vs). \<not> equal_fold k ''Host'') (req_header r)) @ crlf)"

definition format_upgrade_response :: "int \<Rightarrow> string \<Rightarrow> header \<Rightarrow> string" where
  "format_upgrade_response code status h =
     ''HTTP/1.1 '' @ itoa code @ '' '' @ status @ crlf @ header_lines h @ crlf"

text \<open>The violations of a session are emitted as they occur, their reasons accumulating.\<close>

fun emit_violations :: "'b world \<Rightarrow> nat \<Rightarrow> reason list list \<Rightarrow> 'b gateway \<times> inspect_ctx \<Rightarrow> 'b gateway \<times> inspect_ctx" where
  "emit_violations w i [] st = st"
| "emit_violations w i (rs # vs) (g, c) =
     (let c' = c\<lparr>x_reasons := x_reasons c @ rs\<rparr>;
          w' = later w i
      in emit_violations w (i + 1) vs (emit w' c' (wd_emit_now w') 1008 Block True g, c'))"

definition relay_env_of :: "'b world \<Rightarrow> inspector \<Rightarrow> inspect_ctx \<Rightarrow> 'b relay_env" where
  "relay_env_of w i c =
     \<lparr>re_allow = wd_allow w, re_insp = Some i, re_client_ip = x_client_ip c,
      re_api_key = x_api_key c, re_now = ww_now (wd_ws w), re_slow = ww_slow (wd_ws w),
      re_keys = ww_keys (wd_ws w)\<rparr>"

definition relay_start :: "'b world \<Rightarrow> 'b gateway \<Rightarrow> 'b relay" where
  "relay_start w g =
     \<lparr>rl_in = ww_in (wd_ws w), rl_client_out = ww_client_out (wd_ws w),
      rl_backend_out = ww_backend_out (wd_ws w), rl_limiter = gt_limiter g, rl_frames = 0,
      rl_draws = 0, rl_violations = []\<rparr>"

text \<open>
  A panic of the rule engine happens in its own goroutine and ends the process; it is the
  \<open>Panic\<close> of this function. Only the direction from the client is inspected; the other one
  is \<open>relay_backend_to_client\<close> and touches neither gateway nor context.
\<close>

definition handle_websocket :: "'b world \<Rightarrow> 'b session \<Rightarrow> (unit, 'b session) go" where
  "handle_websocket w st =
     (case st of (g, c, wr) \<Rightarrow>
        (case runtime_of g c of
           None \<Rightarrow> Ok (g, c, http_error ''websocket inspection unavailable'' 503 wr)
         | Some rt \<Rightarrow>
             (case rt_ws rt of
                None \<Rightarrow> Ok (g, c, http_error ''websocket inspection unavailable'' 503 wr)
              | Some i \<Rightarrow>
                  let e = wd_ws w in
                  (case ww_hijack e of
                     NoHijacker \<Rightarrow> Ok (g, c, http_error ''hijacking unsupported'' 500 wr)
                   | HijackFailed \<Rightarrow> Ok (g, c, wr)
                   | Hijacked \<Rightarrow>
                       if \<not> ww_dial e then
                         Ok (g, c, wr\<lparr>wr_raw := wr_raw wr @ ''HTTP/1.1 502 Bad Gateway'' @ crlf @
                               ''Content-Length: 0'' @ crlf @ crlf\<rparr>)
                       else if \<not> ww_backend_write e then Ok (g, c, wr)
                       else (case ww_response e of
                               None \<Rightarrow> Ok (g, c, wr)
                             | Some (code, status, h) \<Rightarrow>
                                 if code \<noteq> 101 then Ok (g, c, wr)
                                 else if \<not> ww_client_write e then Ok (g, c, wr)
                                 else
                                   let wr' = wr\<lparr>wr_raw := wr_raw wr @ format_upgrade_response code status h\<rparr>
                                   in go_bind (relay_client_to_backend (relay_env_of w i c) (relay_start w g))
                                        (\<lambda>(rl, err).
                                          case emit_violations w 0 (rl_violations rl)
                                                 (g\<lparr>gt_limiter := rl_limiter rl\<rparr>, c) of
                                            (g', c') \<Rightarrow> Ok (g', c', wr')))))))"

subsection \<open>ServeHTTP\<close>

definition request_host :: "request \<Rightarrow> string" where
  "request_host r = (if req_host r = [] then header_get (req_header r) ''Host'' else req_host r)"

definition initial_ctx :: "'b world \<Rightarrow> request \<Rightarrow> site \<Rightarrow> url \<Rightarrow> inspect_ctx" where
  "initial_ctx w r s u =
     (let j4 = (case wd_hello w of None \<Rightarrow> [] | Some h \<Rightarrow> ja4 (wd_sha w) h);
          j3 = (case wd_hello w of None \<Rightarrow> [] | Some h \<Rightarrow> ja3 (wd_md5 w) h)
      in \<lparr>x_request = r, x_site = Some s, x_client_ip = client_ip (wd_parse_ip w) r,
          x_api_key = api_key r, x_host = request_host r, x_path = url_path u,
          x_method = req_method r, x_body = [], x_protocol = ''rest'', x_transport = transport_of r,
          x_zero_rtt = wd_zero_rtt w, x_graphql = None, x_grpc = None, x_ja3 = j3, x_ja4 = j4,
          x_h2fp = (if j4 \<noteq> [] then compute_h2 (wd_sha w) r
                      (if req_proto_major r = 2 then ''h2'' else ''http/1.1'') else []),
          x_bot_score = 0, x_ml_score = 0, x_llm_score = 0, x_reasons = [], x_status = 0\<rparr>)"

definition engine_err :: reason where
  "engine_err = proxy_reason ''engine'' ''ENGINE-ERR''
     ''inspection failed: rule engine: ruleengine: evaluation timeout''"

text \<open>What follows the inspection, by its outcome.\<close>

definition apply_verdict :: "'b world \<Rightarrow> site \<Rightarrow> verdict \<Rightarrow> 'b session \<Rightarrow> 'b served" where
  "apply_verdict w s v st =
     (case v_decision v of
        Block \<Rightarrow> session_end (deny w Block (v_status v) [] st)
      | Challenge \<Rightarrow>
          (case s_bot_score s of
             None \<Rightarrow> (case st of (g, c, wr) \<Rightarrow> recovered (x_request c) g wr)
           | Some bc \<Rightarrow> session_end (handle_challenge w bc st))
      | Log \<Rightarrow> serve w Log st
      | Allow \<Rightarrow> serve w Allow st)"

definition after_body :: "'b world \<Rightarrow> site \<Rightarrow> 'b session \<Rightarrow> 'b served" where
  "after_body w s st =
     (case st of (g, c, wr) \<Rightarrow>
        (case inspect w (g, c) of
           Ok ((g', c'), v) \<Rightarrow> apply_verdict w s v (g', c', wr)
         | Fail EngineError \<Rightarrow>
             if s_fail_mode s = ''closed''
             then session_end (deny w Block 503 [engine_err] (g, c, wr))
             else serve w Allow (deny (later w 0) Log 200 [engine_err] (g, c, wr))
         | Panic \<Rightarrow> recovered (x_request c) g wr))"

definition handle_upgrade :: "'b world \<Rightarrow> 'b session \<Rightarrow> 'b served" where
  "handle_upgrade w st =
     (case st of (g, c0, wr) \<Rightarrow>
        let c = c0\<lparr>x_protocol := ''websocket''\<rparr> in
        (case handle_websocket w (g, c, wr) of
           Ok (g', c', wr') \<Rightarrow>
             Served (emit w (c'\<lparr>x_reasons := x_reasons c\<rparr>) (wd_start w) 101 Allow False g') wr'
         | Fail _ \<Rightarrow> Crashed
         | Panic \<Rightarrow> Crashed))"

definition serve_site :: "'b world \<Rightarrow> request \<Rightarrow> site \<Rightarrow> url \<Rightarrow> 'b gateway \<Rightarrow> 'b served" where
  "serve_site w r s u g =
     (let c = initial_ctx w r s u in
      if x_ja4 c \<noteq> [] \<and> fp_blocked g (x_ja4 c) then
        session_end (deny w Block 403
          [proxy_reason ''fingerprint'' ''FP-BLOCKLIST'' ''client TLS fingerprint is blocked'']
          (g, c, fresh_writer))
      else if (case s_websocket s of None \<Rightarrow> False | Some wc \<Rightarrow> ws_enabled wc) \<and> is_upgrade r then
        handle_upgrade w (g, c, fresh_writer)
      else (case read_body r (s_max_body_bytes s) of
              Fail _ \<Rightarrow>
                session_end (deny w Block 400
                  [proxy_reason ''proxy'' ''PROXY-READ'' ''failed reading request body'']
                  (g, c, fresh_writer))
            | Panic \<Rightarrow> recovered r g fresh_writer
            | Ok (r', body, overflow) \<Rightarrow>
                if overflow then
                  session_end (deny w Block 413
                    [proxy_reason ''proxy'' ''PROXY-SIZE'' ''request body exceeds max_body_bytes'']
                    (g, c\<lparr>x_request := r'\<rparr>, fresh_writer))
                else after_body w s (g, c\<lparr>x_request := r', x_body := body\<rparr>, fresh_writer)))"

definition serve_http :: "'b world \<Rightarrow> request \<Rightarrow> 'b gateway \<Rightarrow> 'b served" where
  "serve_http w r g =
     (case st_cfg (gt_store g) of
        None \<Rightarrow> recovered r g fresh_writer
      | Some cfg \<Rightarrow>
          (case site_by_domain cfg (request_host r) of
             None \<Rightarrow> Served g (http_error ''no site configured for host'' 400 fresh_writer)
           | Some s \<Rightarrow>
               (case req_url r of
                  None \<Rightarrow> Aborted g
                | Some u \<Rightarrow> serve_site w r s u g)))"

subsection \<open>Evaluate, the entry point of the Envoy adapter\<close>

definition bad_host_verdict :: verdict where
  "bad_host_verdict = \<lparr>v_decision = Block, v_status = 400, v_reasons = [], v_body = []\<rparr>"

definition or_status :: "int \<Rightarrow> int \<Rightarrow> int" where
  "or_status s d = (if s = 0 then d else s)"

text \<open>There is no HTTP/2 fingerprint, no 0-RTT flag and no blocklist check here.\<close>

definition evaluate_ctx :: "'b world \<Rightarrow> request \<Rightarrow> string \<Rightarrow> site \<Rightarrow> url \<Rightarrow> inspect_ctx" where
  "evaluate_ctx w r body s u =
     (initial_ctx w r s u)\<lparr>x_body := body, x_zero_rtt := False, x_h2fp := []\<rparr>"

definition gateway_evaluate ::
    "'b world \<Rightarrow> request \<Rightarrow> string \<Rightarrow> 'b gateway \<Rightarrow> (inspect_error, 'b gateway \<times> verdict) go" where
  "gateway_evaluate w r body g =
     (case st_cfg (gt_store g) of
        None \<Rightarrow> Panic
      | Some cfg \<Rightarrow>
          (case site_by_domain cfg (request_host r) of
             None \<Rightarrow> Ok (g, bad_host_verdict)
           | Some s \<Rightarrow>
               (case req_url r of
                  None \<Rightarrow> Panic
                | Some u \<Rightarrow>
                    go_bind (inspect w (g, evaluate_ctx w r body s u)) (\<lambda>((g', c'), v).
                      Ok (case v_decision v of
                            Block \<Rightarrow> emit w c' (wd_start w) (or_status (v_status v) 403) Block True g'
                          | Challenge \<Rightarrow>
                              emit w c' (wd_start w) (or_status (v_status v) 403) Challenge True g'
                          | _ \<Rightarrow> emit w c' (wd_start w) (or_status (v_status v) 200) Allow False g',
                          v)))))"

subsection \<open>Frames\<close>

lemma writer_sent [simp]:
  "wr_sent (write_header code wr) = wr_sent wr" "wr_sent (write_body b wr) = wr_sent wr"
  "wr_sent (set_wr_header k v wr) = wr_sent wr" "wr_sent (set_cookie k wr) = wr_sent wr"
  "wr_sent (http_error m code wr) = wr_sent wr" "wr_sent (add_headers h wr) = wr_sent wr"
  "wr_sent (copy_reply code h cs wr) = wr_sent wr" "wr_sent (fst (proxy_reply s rep wr)) = wr_sent wr"
  "wr_sent fresh_writer = []"
  by (simp_all add: write_header_def write_body_def set_wr_header_def set_cookie_def http_error_def
      add_headers_def copy_reply_def proxy_reply_def Let_def fresh_writer_def split: upstream_reply.split)

lemma emit_gateway [simp]:
  "gt_sites (emit w c t st a b g) = gt_sites g" "gt_store (emit w c t st a b g) = gt_store g"
  "gt_chall (emit w c t st a b g) = gt_chall g" "gt_limiter (emit w c t st a b g) = gt_limiter g"
  by (simp_all add: emit_def)

lemma runtime_emit [simp]: "runtime_of (emit w c t st a b g) c' = runtime_of g c'"
  by (simp add: runtime_of_def split: option.split)

lemma deny_eq:
  "deny w act st0 rs (g, c, wr) =
     (let code = (if st0 = 0 then 403 else st0);
          c' = c\<lparr>x_reasons := x_reasons c @ rs, x_status := code\<rparr>
      in (emit w c' (wd_start w) code act True g, c',
          write_body (deny_body code) (write_header code
            (set_wr_header ''Content-Type'' ''application/json'' wr))))"
  by (simp add: deny_def Let_def)

lemma deny_sent: "deny w act st0 rs (g, c, wr) = (g', c', wr') \<Longrightarrow> wr_sent wr' = wr_sent wr"
  by (auto simp: deny_eq Let_def)

lemma runtime_of_ctx:
  "x_site c' = x_site c \<Longrightarrow> gt_sites g' = gt_sites g \<Longrightarrow> runtime_of g' c' = runtime_of g c"
  by (simp add: runtime_of_def split: option.split)

lemma proxy_reply_sent: "proxy_reply s rep wr = (wr', code) \<Longrightarrow> wr_sent wr' = wr_sent wr"
  by (metis fst_conv writer_sent(8))

lemma serve_sent:
  assumes "serve w act (g, c, wr) = Served g' wr'"
  shows "(\<exists>rt. runtime_of g c = Some rt \<and>
            wr_sent wr' = wr_sent wr @ [director w rt ((x_request c)\<lparr>req_body := Unread (x_body c)\<rparr>)]) \<or>
         runtime_of g c = None \<and> wr_sent wr' = wr_sent wr"
  using assms
  by (auto simp: serve_def session_end_def deny_eq recovered_def Let_def
      split: option.splits go.splits prod.splits upstream_reply.splits if_splits
      dest!: proxy_reply_sent)

lemma issue_page_sent: "issue_page w bc (g, c, wr) = (g', c', wr') \<Longrightarrow> wr_sent wr' = wr_sent wr"
  by (auto simp: issue_page_def Let_def split: prod.splits option.splits dest: deny_sent)

lemma handle_challenge_sent:
  "handle_challenge w bc (g, c, wr) = (g', c', wr') \<Longrightarrow> wr_sent wr' = wr_sent wr"
  by (auto simp: handle_challenge_def Let_def split: prod.splits option.splits bool.splits if_splits
      dest: issue_page_sent)

lemma handle_websocket_sent:
  "handle_websocket w (g, c, wr) = Ok (g', c', wr') \<Longrightarrow> wr_sent wr' = wr_sent wr"
  by (auto simp: handle_websocket_def Let_def go_bind_Ok_iff case_prod_unfold
      split: option.splits hijack.splits if_splits)

lemma apply_verdict_sent:
  assumes "apply_verdict w s v (g, c, wr) = Served g' wr'" and "wr_sent wr' \<noteq> wr_sent wr"
  shows "v_decision v \<in> {Allow, Log} \<and>
    (\<exists>rt. runtime_of g c = Some rt \<and>
       wr_sent wr' = wr_sent wr @ [director w rt ((x_request c)\<lparr>req_body := Unread (x_body c)\<rparr>)])"
proof (cases "v_decision v")
  case Allow
  with assms serve_sent [of w Allow g c wr g' wr'] show ?thesis by (auto simp: apply_verdict_def)
next
  case Log
  with assms serve_sent [of w Log g c wr g' wr'] show ?thesis by (auto simp: apply_verdict_def)
next
  case Block
  with assms show ?thesis
    by (auto simp: apply_verdict_def session_end_def dest: deny_sent split: prod.splits)
next
  case Challenge
  with assms show ?thesis
    by (auto simp: apply_verdict_def session_end_def recovered_def dest: handle_challenge_sent
        split: prod.splits option.splits if_splits)
qed

subsection \<open>Nothing reaches the upstream uninspected\<close>

text \<open>The context the inspection starts from, and its outcome that lets a request through.\<close>

definition inspected_ctx :: "'b world \<Rightarrow> request \<Rightarrow> site \<Rightarrow> url \<Rightarrow> request \<Rightarrow> string \<Rightarrow> inspect_ctx" where
  "inspected_ctx w r s u r' body = (initial_ctx w r s u)\<lparr>x_request := r', x_body := body\<rparr>"

definition let_through :: "'b world \<Rightarrow> site \<Rightarrow> 'b pstate \<Rightarrow> bool" where
  "let_through w s st \<longleftrightarrow>
     (case inspect w st of
        Ok (_, v) \<Rightarrow> v_decision v \<in> {Allow, Log}
      | Fail EngineError \<Rightarrow> s_fail_mode s \<noteq> ''closed''
      | Panic \<Rightarrow> False)"

lemma after_body_sent:
  assumes "after_body w s (g, c, wr) = Served g' wr'" and "wr_sent wr' \<noteq> wr_sent wr"
  shows "let_through w s (g, c) \<and>
    (\<exists>rt q. runtime_of g c = Some rt \<and> same_request (x_request c) q \<and>
       wr_sent wr' = wr_sent wr @ [director w rt (q\<lparr>req_body := Unread (x_body c)\<rparr>)])"
proof (cases "inspect w (g, c)")
  case Panic
  with assms show ?thesis by (auto simp: after_body_def recovered_def split: if_splits)
next
  case (Fail e)
  have e: "e = EngineError" by (cases e) simp
  from Fail assms have mode: "s_fail_mode s \<noteq> ''closed''"
    by (auto simp: after_body_def e session_end_def dest: deny_sent split: prod.splits if_splits)
  obtain g1 c1 wr1 where d: "deny (later w 0) Log 200 [engine_err] (g, c, wr) = (g1, c1, wr1)"
    by (metis prod_cases3)
  then have "runtime_of g1 c1 = runtime_of g c" "x_request c1 = x_request c" "x_body c1 = x_body c"
    "wr_sent wr1 = wr_sent wr" by (auto simp: deny_eq Let_def runtime_of_def split: option.split)
  moreover have "serve w Allow (g1, c1, wr1) = Served g' wr'"
    using assms(1) Fail mode d by (simp add: after_body_def e)
  ultimately show ?thesis
    using serve_sent [of w Allow g1 c1 wr1 g' wr'] assms(2) Fail mode
    by (auto simp: let_through_def e intro!: exI [of _ "x_request c"])
next
  case (Ok x)
  obtain g1 c1 v where x: "x = ((g1, c1), v)" by (metis prod.collapse)
  from Ok have "run_modules w inspection_order (g, c\<lparr>x_protocol := ''rest''\<rparr>) = Ok (g1, c1)"
    by (auto simp: inspect_def x go_bind_Ok_iff)
  from run_modules_frame [OF this] have fr: "x_site c1 = x_site c" "x_body c1 = x_body c"
    "same_request (x_request c) (x_request c1)" "gt_sites g1 = gt_sites g"
    by (auto simp: extends_ctx_def keeps_gateway_def)
  have "apply_verdict w s v (g1, c1, wr) = Served g' wr'" using assms(1) Ok by (simp add: after_body_def x)
  from apply_verdict_sent [OF this assms(2)] fr(2,3) runtime_of_ctx [OF fr(1,4)] Ok show ?thesis
    by (auto simp: let_through_def x)
qed

text \<open>
  C1. Nothing reaches an upstream uninspected: if a request of a client (over HTTP, not a
  WebSocket session) makes the gateway send anything to a backend, then the host was routed
  to a site, its fingerprint is not on the blocklist, the whole body was read within the
  site's limit, the seven modules ran on exactly that body and answered allow or log (or the
  engine timed out on a site that fails open), and what is sent is one request, which carries
  the inspected body and the method and headers that were inspected, apart from an added
  client address.
\<close>

theorem upstream_gets_inspected:
  assumes "serve_http w r g = Served g' wr" and "out \<in> set (wr_sent wr)"
  shows "\<exists>cfg s u r' body rt q. st_cfg (gt_store g) = Some cfg \<and>
    site_by_domain cfg (request_host r) = Some s \<and> req_url r = Some u \<and>
    \<not> fp_blocked g (x_ja4 (initial_ctx w r s u)) \<and>
    read_body r (s_max_body_bytes s) = Ok (r', body, False) \<and>
    let_through w s (g, inspected_ctx w r s u r' body) \<and>
    gt_sites g (s_id s) = Some rt \<and> same_request r' q \<and>
    wr_sent wr = [out] \<and> out = director w rt (q\<lparr>req_body := Unread body\<rparr>)"
proof -
  from assms obtain cfg s u where route: "st_cfg (gt_store g) = Some cfg"
    "site_by_domain cfg (request_host r) = Some s" "req_url r = Some u"
    and site: "serve_site w r s u g = Served g' wr"
    by (auto simp: serve_http_def recovered_def split: option.splits if_splits)
  from site assms(2) obtain r' body where rb: "read_body r (s_max_body_bytes s) = Ok (r', body, False)"
    and fp: "\<not> (x_ja4 (initial_ctx w r s u) \<noteq> [] \<and> fp_blocked g (x_ja4 (initial_ctx w r s u)))"
    and ab: "after_body w s (g, inspected_ctx w r s u r' body, fresh_writer) = Served g' wr"
    by (auto simp: serve_site_def session_end_def handle_upgrade_def recovered_def inspected_ctx_def
        Let_def dest!: deny_sent handle_websocket_sent
        split: if_splits prod.splits go.splits)
  have fpb: "\<not> fp_blocked g (x_ja4 (initial_ctx w r s u))"
    using fp by (auto simp: fp_blocked_def split: if_splits)
  have "wr_sent wr \<noteq> wr_sent fresh_writer" using assms(2) by auto
  from after_body_sent [OF ab this] obtain rt q where
    "let_through w s (g, inspected_ctx w r s u r' body)"
    "runtime_of g (inspected_ctx w r s u r' body) = Some rt" "same_request r' q"
    "wr_sent wr = [director w rt (q\<lparr>req_body := Unread body\<rparr>)]"
    by (auto simp: inspected_ctx_def)
  moreover have "gt_sites g (s_id s) = Some rt"
    using \<open>runtime_of g _ = Some rt\<close>
    by (simp add: runtime_of_def inspected_ctx_def initial_ctx_def Let_def)
  ultimately show ?thesis using route rb fpb assms(2) by auto
qed

text \<open>A site with every class off, whose engine lets a plain request through.\<close>

definition plain_rt :: site_rt where
  "plain_rt = demo_rt\<lparr>rt_engine := fst (set_crs_toggles (\<lambda>_. Some silent_waf) new_engine no_toggles)\<rparr>"

definition plain_gateway :: "mem_backend gateway" where
  "plain_gateway = routed_gateway\<lparr>gt_sites := [s_id demo_site \<mapsto> plain_rt], gt_llm_enabled := False\<rparr>"

definition plain_request :: request where
  "plain_request = demo_request\<lparr>req_body := Unread ''hi''\<rparr>"

lemma plain_engine:
  "engine_evaluate (rt_engine plain_rt) False q body = Ok (q, result_of [] False)"
  by (simp add: plain_rt_def set_crs_toggles_def rebuild_def new_engine_def no_toggles_def engine_evaluate_def
      evaluate_locked_def crs_matches_def silent_waf_def merge_interruption_def
      evaluate_native_body_def evaluate_native_uri_def native_body_rules_def Let_def)

lemma demo_site_facts:
  "s_websocket demo_site = None"
  "s_graphql demo_site = None" "s_grpc demo_site = None" "s_rate_limit demo_site = None"
  "s_bot_score demo_site = None" "s_max_body_bytes demo_site = 4194304" "s_sse demo_site = None"
  "s_fail_mode demo_site = ''closed''" "s_domains demo_site = [''a.example'']" "s_status demo_site = ''enabled''"
  by code_simp+

lemma demo_site_routed: "site_by_domain served_config ''a.example'' = Some demo_site"
proof -
  have "c_sites served_config = [demo_site]" by (simp add: demo_site_def served_sites)
  moreover have "host_name ''a.example'' = ''a.example''" "to_lower ''a.example'' = ''a.example''"
    by code_simp+
  ultimately show ?thesis by (simp add: site_by_domain_def demo_site_facts)
qed

lemma plain_gateway_facts:
  "st_cfg (gt_store plain_gateway) = Some served_config"
  "gt_ml_enabled plain_gateway = False" "gt_llm_enabled plain_gateway = False" "gt_plugins plain_gateway = None"
  "gt_sites plain_gateway (s_id demo_site) = Some plain_rt"
  using new_gateway_in_sync [OF demo_gateway_new]
  by (auto simp: plain_gateway_def routed_gateway_def serving_def split: option.splits)

lemma demo_world_facts:
  "wd_slow demo_world = False" "wd_hello demo_world = None"
  "wd_upstream demo_world r = UpReply 200 [] [''ok'']"
  by (simp_all add: demo_world_def)

lemma plain_inspect:
  assumes "x_site c = Some demo_site" and "req_url (x_request c) = Some u"
  shows "inspect demo_world (plain_gateway, c) =
    Ok ((plain_gateway, c\<lparr>x_protocol := ''rest''\<rparr>), summarize (x_reasons c))"
proof -
  let ?st = "(plain_gateway, c\<lparr>x_protocol := ''rest''\<rparr>)"
  have "inspect_rules demo_world ?st = Ok ?st" "inspect_protocol demo_world ?st = Ok ?st"
    "inspect_rate_limit demo_world ?st = Ok ?st" "inspect_bot ?st = Ok ?st"
    "inspect_plugins demo_world ?st = Ok ?st" "inspect_llm ?st = Ok ?st" "inspect_ml demo_world ?st = Ok ?st"
    using assms
    by (simp_all add: inspect_rules_def inspect_protocol_def inspect_rate_limit_def inspect_bot_def
        inspect_plugins_def inspect_llm_def inspect_ml_def with_site_def demo_site_facts
        plain_gateway_facts plain_engine demo_world_facts add_reasons_def)
  then show ?thesis by (simp add: inspect_def inspection_order_def)
qed

lemma plain_rt_site: "s_sse (rt_cfg plain_rt) = None"
  by (simp add: plain_rt_def demo_rt_def demo_site_facts)

lemma plain_read: "read_body plain_request 4194304 = Ok (demo_request, ''hi'', False)"
  by (simp add: read_body_def plain_request_def demo_request_def)

lemma plain_initial:
  "x_ja4 (initial_ctx demo_world r s u) = []" "x_site (initial_ctx demo_world r s u) = Some s"
  "x_reasons (initial_ctx demo_world r s u) = []"
  by (simp_all add: initial_ctx_def demo_world_facts Let_def)

lemma plain_served:
  "\<exists>g' wr out. serve_http demo_world plain_request plain_gateway = Served g' wr \<and>
     wr_sent wr = [out] \<and> status_of wr = 200"
proof -
  let ?c = "(initial_ctx demo_world plain_request demo_site demo_url)\<lparr>x_request := demo_request, x_body := ''hi''\<rparr>"
  have "request_host plain_request = ''a.example''" "req_url plain_request = Some demo_url" "req_url demo_request = Some demo_url"
    by (simp_all add: request_host_def plain_request_def demo_request_def)
  moreover have "inspect demo_world (plain_gateway, ?c) =
      Ok ((plain_gateway, ?c\<lparr>x_protocol := ''rest''\<rparr>), summarize [])"
    by (subst plain_inspect) (simp_all add: plain_initial demo_request_def)
  ultimately have "serve_http demo_world plain_request plain_gateway = serve demo_world Allow (plain_gateway, ?c\<lparr>x_protocol := ''rest''\<rparr>, fresh_writer)"
    by (simp add: serve_http_def plain_gateway_facts demo_site_routed serve_site_def plain_initial demo_site_facts
      plain_read after_body_def apply_verdict_def summarize_def Let_def)
  then show ?thesis
    by (simp add: serve_def runtime_of_def plain_initial plain_gateway_facts plain_rt_site sse_violations_def proxy_reply_def
      copy_reply_def add_headers_def demo_world_facts status_of_def write_header_def write_body_def fresh_writer_def Let_def)
qed

theorem upstream_gets_inspected_witness:
  "\<exists>g' wr out rt q. serve_http demo_world plain_request plain_gateway = Served g' wr \<and>
     wr_sent wr = [out] \<and> out = director demo_world rt (q\<lparr>req_body := Unread ''hi''\<rparr>)"
proof -
  from plain_served obtain g' wr out where
    run: "serve_http demo_world plain_request plain_gateway = Served g' wr" "wr_sent wr = [out]" by blast
  from upstream_gets_inspected [OF run(1), of out] run(2) obtain cfg s u r' body rt q where
    i: "st_cfg (gt_store plain_gateway) = Some cfg" "site_by_domain cfg (request_host plain_request) = Some s"
    "read_body plain_request (s_max_body_bytes s) = Ok (r', body, False)"
    "out = director demo_world rt (q\<lparr>req_body := Unread body\<rparr>)" by auto
  have "request_host plain_request = ''a.example''"
    by (simp add: request_host_def plain_request_def demo_request_def)
  with i have "body = ''hi''"
    by (simp add: plain_gateway_facts demo_site_routed demo_site_facts plain_read)
  with run i(4) show ?thesis by blast
qed

end
