(* ===== verification/AuditTrail.thy ===== *)
theory AuditTrail
  imports Gateway
begin

text \<open>
  The audit trail of the request handler: which events a request leaves in the pipeline, in
  which order, and that the counters of package telemetry agree with them.
\<close>

text \<open>
  \<open>trail k g es g'\<close>: from g to g' exactly the events es were emitted, in this order, and the
  counters of requests and of blocked or challenged requests moved accordingly.
\<close>

definition trail :: "json_codec \<Rightarrow> 'b gateway \<Rightarrow> event list \<Rightarrow> 'b gateway \<Rightarrow> bool" where
  "trail k g es g' \<longleftrightarrow>
     gt_events g' = foldl (emit_event k) (gt_events g) es \<and>
     cl_requests (gt_stats g') = cl_requests (gt_stats g) + of_nat (length es) \<and>
     cl_blocked (gt_stats g') + cl_challenged (gt_stats g') =
       cl_blocked (gt_stats g) + cl_challenged (gt_stats g) + of_nat (length (filter e_blocked es))"

lemma trail_refl [simp]: "trail k g [] g"
  by (simp add: trail_def)

lemma trail_append: "trail k g es g1 \<Longrightarrow> trail k g1 es' g' \<Longrightarrow> trail k g (es @ es') g'"
  by (simp add: trail_def)

lemma trail_same: "gt_events g' = gt_events g \<Longrightarrow> gt_stats g' = gt_stats g \<Longrightarrow> trail k g' es h = trail k g es h"
  by (simp add: trail_def)

lemma trail_same_right:
  "gt_events h' = gt_events h \<Longrightarrow> gt_stats h' = gt_stats h \<Longrightarrow> trail k g es h' = trail k g es h"
  by (simp add: trail_def)

lemma add_request_counts [simp]:
  "cl_requests (add_request p t) = cl_requests t + 1" "cl_blocked (add_request p t) = cl_blocked t"
  "cl_challenged (add_request p t) = cl_challenged t"
  by (simp_all add: add_request_def Let_def split: option.split)

lemma count_event_counts:
  "cl_requests (count_event c a b t) = cl_requests t + 1"
  "cl_blocked (count_event c a b t) + cl_challenged (count_event c a b t) =
     cl_blocked t + cl_challenged t + (if b then 1 else 0)"
  by (simp_all add: count_event_def add_graphql_def add_blocked_def add_challenged_def Let_def
      split: option.split)

lemma event_of_simps [simp]:
  "e_blocked (event_of w c t st a b) = b" "e_status (event_of w c t st a b) = st"
  "e_site_id (event_of w c t st a b) = site_id_of c" "e_decision (event_of w c t st a b) = action_str a"
  "e_protocol (event_of w c t st a b) = x_protocol c" "e_body (event_of w c t st a b) = x_body c"
  "e_reasons (event_of w c t st a b) = x_reasons c"
  by (simp_all add: event_of_def)

lemma trail_emit: "trail (wd_codec w) g [event_of w c t st a b] (emit w c t st a b g)"
  by (simp add: trail_def emit_def count_event_counts)

lemma later_codec [simp]: "wd_codec (later w i) = wd_codec w"
  by (simp add: later_def)

lemma trail_deny:
  assumes "deny w a st rs (g, c, wr) = (g', c', wr')"
  shows "\<exists>e. trail (wd_codec w) g [e] g' \<and> e_blocked e \<and> e_site_id e = site_id_of c \<and>
    e_decision e = action_str a \<and> e_status e = (if st = 0 then 403 else st) \<and>
    (wr_code wr = None \<longrightarrow> e_status e = status_of wr')"
proof -
  let ?st = "if st = 0 then 403 else st" and ?c = "c\<lparr>x_reasons := x_reasons c @ rs, x_status := if st = 0 then 403 else st\<rparr>"
  have "trail (wd_codec w) g [event_of w ?c (wd_start w) ?st a True] g'"
    using assms trail_emit by (auto simp: deny_eq Let_def)
  moreover have "wr_code wr = None \<longrightarrow> ?st = status_of wr'"
    using assms by (auto simp: deny_eq Let_def status_of_def write_body_def write_header_def set_wr_header_def)
  moreover have "site_id_of ?c = site_id_of c" by (simp add: site_id_of_def)
  ultimately show ?thesis
    by (intro exI [of _ "event_of w ?c (wd_start w) ?st a True"]) (simp only: event_of_simps simp_thms)
qed

lemma trail_sse:
  "\<exists>es. trail (wd_codec w) g es (emit_sse_violations w i r vs g) \<and> length es \<le> length vs \<and>
     (\<forall>e \<in> set es. e_protocol e = ''sse'' \<and> \<not> e_blocked e)"
proof (induction vs arbitrary: i g)
  case Nil
  then show ?case by (auto intro: exI [of _ "[]"])
next
  case (Cons v vs)
  let ?g = "emit_sse_violation (later w i) r v g"
  have "\<exists>es. trail (wd_codec w) g es ?g \<and> length es \<le> 1 \<and>
      (\<forall>e \<in> set es. e_protocol e = ''sse'' \<and> \<not> e_blocked e)"
  proof (cases "st_cfg (gt_store g) = None \<or> req_url r = None")
    case True
    then have "?g = g" by (auto simp: emit_sse_violation_def split: option.split)
    then show ?thesis by (auto intro: exI [of _ "[]"])
  next
    case False
    then obtain cfg u where "st_cfg (gt_store g) = Some cfg" "req_url r = Some u" by auto
    then have "?g = emit (later w i) (sse_ctx (later w i) cfg r u v) (wd_emit_now (later w i)) 200 Log False g"
      by (simp add: emit_sse_violation_def)
    then show ?thesis
      using trail_emit [of "later w i" g "sse_ctx (later w i) cfg r u v" "wd_emit_now (later w i)" 200 Log False]
      by (intro exI conjI) (auto simp: sse_ctx_def)
  qed
  then obtain es where es: "trail (wd_codec w) g es ?g" "length es \<le> 1"
    "\<forall>e \<in> set es. e_protocol e = ''sse'' \<and> \<not> e_blocked e" by blast
  from Cons.IH [of ?g "i + 1"] obtain es' where
    "trail (wd_codec w) ?g es' (emit_sse_violations w (i + 1) r vs ?g)" "length es' \<le> length vs"
    "\<forall>e \<in> set es'. e_protocol e = ''sse'' \<and> \<not> e_blocked e" by blast
  with es trail_append [OF es(1)] show ?case by (intro exI [of _ "es @ es'"]) auto
qed

definition sse_events :: "event list \<Rightarrow> bool" where
  "sse_events es \<longleftrightarrow> (\<forall>e \<in> set es. e_protocol e = ''sse'' \<and> \<not> e_blocked e)"

text \<open>
  \<open>answered w e sent b\<close>: the body \<open>b\<close> is the one answer of the event \<open>e\<close>, and nothing else. With
  nothing sent upstream it is the page of a denial with the status of the event, the page of a
  challenge for its path, or the empty body of the redirect after a solved challenge. With one
  request sent upstream it is what the upstream answered to that request, or the notice that
  there was no answer.
\<close>

definition answered :: "'b world \<Rightarrow> event \<Rightarrow> request list \<Rightarrow> string \<Rightarrow> bool" where
  "answered w e sent b \<longleftrightarrow>
     (if sent = [] then
        e_blocked e \<and> b = deny_body (e_status e) \<or>
        e_blocked e \<and> e_decision e = ''challenge'' \<and> e_status e = 429 \<and> (\<exists>ch. b = challenge_html ch (e_path e)) \<or>
        \<not> e_blocked e \<and> e_decision e = ''challenge'' \<and> e_status e = 303 \<and> b = []
      else \<not> e_blocked e \<and>
        (\<exists>q. sent = [q] \<and>
           (case wd_upstream w q of
              UpReply code h cs \<Rightarrow> e_status e = code \<and> b = concat cs
            | UpDown \<Rightarrow> e_status e \<in> {502, 503} \<and> b = ''upstream unavailable'' @ [CHR 0x0A]
            | UpBroken code h cs \<Rightarrow> False)))"

text \<open>The upstream broke off: its part of the body, and behind it the page of the recovery.\<close>

definition broken_off :: "'b world \<Rightarrow> request list \<Rightarrow> string \<Rightarrow> bool" where
  "broken_off w sent b \<longleftrightarrow>
     (\<exists>q code h cs. sent = [q] \<and> wd_upstream w q = UpBroken code h cs \<and>
        b = concat cs @ ''internal error'' @ [CHR 0x0A])"

text \<open>
  How a request ends, from a writer with status and body written so far: one event with one
  answer, or an upstream that broke off and no event. The status of a fresh writer is the one
  of the event.
\<close>

definition closes :: "'b world \<Rightarrow> string \<Rightarrow> writer \<Rightarrow> event list \<Rightarrow> writer \<Rightarrow> bool" where
  "closes w sid wr es wr' \<longleftrightarrow>
     (\<exists>b. wr_body wr' = wr_body wr @ b \<and>
        (\<exists>e. es = [e] \<and> e_site_id e = sid \<and> (wr_code wr = None \<longrightarrow> e_status e = status_of wr') \<and>
             answered w e (wr_sent wr') b \<or>
         es = [] \<and> broken_off w (wr_sent wr') b))"

lemma closes_appends:
  "closes w sid wr es wr' \<Longrightarrow> \<exists>b. wr_body wr' = wr_body wr @ b \<and>
     ((\<exists>e. es = [e] \<and> e_site_id e = sid \<and> answered w e (wr_sent wr') b) \<or> es = [] \<and> broken_off w (wr_sent wr') b)"
  by (auto simp: closes_def)

lemma proxy_reply_effect:
  assumes "proxy_reply s rep wr = (wr', code)"
  shows "wr_sent wr' = wr_sent wr" "wr_code wr = None \<Longrightarrow> status_of wr' = code"
    "wr_body wr' = wr_body wr @ (case rep of UpReply _ h cs \<Rightarrow> concat cs | UpBroken _ h cs \<Rightarrow> concat cs
       | UpDown \<Rightarrow> ''upstream unavailable'' @ [CHR 0x0A])"
    "case rep of UpReply k h cs \<Rightarrow> code = k | UpBroken k h cs \<Rightarrow> code = k | UpDown \<Rightarrow> code \<in> {502, 503}"
  using assms
  by (auto simp: proxy_reply_def copy_reply_def http_error_def write_body_def write_header_def
      add_headers_def set_wr_header_def status_of_def Let_def split: upstream_reply.splits)

lemma closes_deny:
  assumes "deny w Block st rs (g, c, wr) = (g', c', wr')" and "wr_sent wr = []"
  shows "\<exists>e. trail (wd_codec w) g [e] g' \<and> closes w (site_id_of c) wr [e] wr'"
proof -
  let ?st = "if st = 0 then 403 else st"
  have body: "wr_body wr' = wr_body wr @ deny_body ?st"
    using assms(1) by (auto simp: deny_eq write_body_def write_header_def set_wr_header_def Let_def)
  from trail_deny [OF assms(1)] obtain e where e: "trail (wd_codec w) g [e] g'" "e_blocked e"
    "e_site_id e = site_id_of c" "e_status e = ?st" "wr_code wr = None \<longrightarrow> e_status e = status_of wr'" by auto
  with body have "answered w e (wr_sent wr') (deny_body (e_status e))" "wr_body wr' = wr_body wr @ deny_body (e_status e)"
    using deny_sent [OF assms(1)] assms(2) e(2,4) by (simp_all add: answered_def)
  then have "closes w (site_id_of c) wr [e] wr'"
    unfolding closes_def using e(3,5) by (intro exI [of _ "deny_body (e_status e)"]) simp
  with e(1) show ?thesis by blast
qed

lemma recovered_page:
  "recovered r g wr = Served g' wr' \<Longrightarrow> g' = g \<and> wr' = http_error ''internal error'' 500 wr"
  by (auto simp: recovered_def split: if_splits)

lemma trail_serve:
  assumes "serve w act (g, c, wr) = Served g' wr'" and "wr_sent wr = []"
  shows "\<exists>ss fs. trail (wd_codec w) g (ss @ fs) g' \<and> sse_events ss \<and> closes w (site_id_of c) wr fs wr'"
proof (cases "runtime_of g c")
  case None
  with assms(1) obtain c' where "deny w Block 503 [proxy_reason ''proxy'' ''PROXY-NOSITE'' ''site runtime unavailable'']
      (g, c, wr) = (g', c', wr')" by (auto simp: serve_def session_end_def split: prod.splits)
  from closes_deny [OF this assms(2)] obtain e where
    "trail (wd_codec w) g [e] g'" "closes w (site_id_of c) wr [e] wr'" by blast
  then show ?thesis
    by (intro exI [of _ "[]"] exI [of _ "[e]"]) (simp add: sse_events_def)
next
  case (Some rt)
  let ?r = "(x_request c)\<lparr>req_body := Unread (x_body c)\<rparr>"
  let ?out = "director w rt ?r"
  let ?rep = "wd_upstream w ?out"
  from assms Some obtain vs where vs: "sse_violations w rt ?rep = Ok vs"
    by (auto simp: serve_def Let_def split: go.splits)
  let ?g = "emit_sse_violations w 1 ?out vs g"
  obtain wr1 code where pr: "proxy_reply (rt_cfg rt) ?rep (wr\<lparr>wr_sent := wr_sent wr @ [?out]\<rparr>) = (wr1, code)"
    by (metis prod.collapse)
  note eff = proxy_reply_effect [OF pr]
  from trail_sse [of w g 1 ?out vs] obtain ss where ss: "trail (wd_codec w) g ss ?g" "sse_events ss"
    by (auto simp: sse_events_def)
  show ?thesis
  proof (cases "\<exists>a b cs. ?rep = UpBroken a b cs")
    case True
    then obtain a h cs where up: "?rep = UpBroken a h cs" by blast
    with assms Some vs pr have "recovered ?r ?g wr1 = Served g' wr'" by (simp add: serve_def Let_def)
    from recovered_page [OF this] have e: "g' = ?g" "wr' = http_error ''internal error'' 500 wr1" by simp_all
    then have "broken_off w (wr_sent wr') (concat cs @ ''internal error'' @ [CHR 0x0A])"
      using eff(1) assms(2) up by (simp add: broken_off_def http_error_def write_body_def write_header_def set_wr_header_def Let_def)
    moreover have "wr_body wr' = wr_body wr @ concat cs @ ''internal error'' @ [CHR 0x0A]"
      using eff(3) up by (simp add: e http_error_def write_body_def write_header_def set_wr_header_def Let_def)
    ultimately have "closes w (site_id_of c) wr [] wr'" unfolding closes_def by blast
    then show ?thesis using ss e(1) by (intro exI [of _ ss] exI [of _ "[]"]) simp
  next
    case False
    let ?c = "c\<lparr>x_request := ?r, x_status := code\<rparr>"
    let ?e = "event_of w ?c (wd_start w) code act False"
    from False assms Some vs pr have e: "g' = emit w ?c (wd_start w) code act False ?g" "wr' = wr1"
      by (auto simp: serve_def Let_def split: upstream_reply.splits)
    have "trail (wd_codec w) g (ss @ [?e]) g'"
      unfolding e(1) by (rule trail_append [OF ss(1) trail_emit])
    moreover have "wr_sent wr' = [?out]" "wr_code wr = None \<longrightarrow> e_status ?e = status_of wr'" "e_site_id ?e = site_id_of c"
      using eff(1,2) assms(2) by (simp_all add: e(2) site_id_of_def)
    moreover obtain b where "wr_body wr' = wr_body wr @ b" "answered w ?e [?out] b"
      using eff(3,4) False by (cases ?rep) (auto simp: answered_def e(2))
    ultimately have "trail (wd_codec w) g (ss @ [?e]) g' \<and> closes w (site_id_of c) wr [?e] wr'"
      unfolding closes_def by auto
    then show ?thesis using ss(2) by blast
  qed
qed

lemma closes_issue_page:
  assumes "issue_page w bc (g, c, wr) = (g', c', wr')" and "wr_code wr = None" and "wr_sent wr = []"
  shows "\<exists>e. trail (wd_codec w) g [e] g' \<and> closes w (site_id_of c) wr [e] wr'"
proof -
  obtain s ch where i: "issue_challenge (wd_rand w) (wd_chall_now w) (bot_pow_difficulty bc) (gt_chall g) = (s, ch)"
    by (metis prod.collapse)
  have gs: "trail k (g\<lparr>gt_chall := s\<rparr>) es h = trail k g es h" for k es h by (rule trail_same) simp_all
  show ?thesis
  proof (cases ch)
    case None
    with assms(1) i closes_deny [of w 429 _ "g\<lparr>gt_chall := s\<rparr>" c wr g' c' wr'] show ?thesis
      by (simp add: issue_page_def gs assms(3))
  next
    case (Some x)
    let ?e = "event_of w c (wd_start w) 429 Challenge True"
    from assms(1) i Some have "g' = emit w c (wd_start w) 429 Challenge True (g\<lparr>gt_chall := s\<rparr>)"
      by (auto simp: issue_page_def Let_def)
    then have "trail (wd_codec w) g [?e] g'" using trail_emit [of w "g\<lparr>gt_chall := s\<rparr>"] by (simp add: gs)
    moreover from assms i Some have "status_of wr' = 429" "wr_sent wr' = []"
      "wr_body wr' = wr_body wr @ challenge_html x (x_path c)"
      by (auto simp: issue_page_def Let_def status_of_def write_body_def write_header_def set_wr_header_def
          set_cookie_def)
    moreover have "answered w ?e [] (challenge_html x (x_path c))" by (auto simp: answered_def event_of_def)
    ultimately show ?thesis by (intro exI [of _ ?e]) (auto simp: closes_def)
  qed
qed

lemma closes_handle_challenge:
  assumes "handle_challenge w bc (g, c, wr) = (g', c', wr')" and "wr_code wr = None" and "wr_sent wr = []"
  shows "\<exists>e. trail (wd_codec w) g [e] g' \<and> closes w (site_id_of c) wr [e] wr'"
proof -
  let ?c = "c\<lparr>x_request := fst (parse_form (x_request c))\<rparr>"
  obtain s ok where r: "redeem_challenge (wd_sha w) (wd_chall_now w)
      (trim_prefix (header_get (req_header (x_request ?c)) ''Cookie'') ''_sentinel_pow='')
      (form_get (x_request ?c) ''_pow'') (gt_chall g) = (s, ok)" by (metis prod.collapse)
  have gs: "trail k (g\<lparr>gt_chall := s\<rparr>) es h = trail k g es h" for k es h by (rule trail_same) simp_all
  have sid: "site_id_of ?c = site_id_of c" by (simp add: site_id_of_def)
  consider "issue_page w bc (g, c, wr) = (g', c', wr')" | "issue_page w bc (g, ?c, wr) = (g', c', wr')"
    | "issue_page w bc (g\<lparr>gt_chall := s\<rparr>, ?c, wr) = (g', c', wr')"
    | "g' = emit w ?c (wd_start w) 303 Challenge False (g\<lparr>gt_chall := s\<rparr>)" "status_of wr' = 303"
      "wr_sent wr' = []" "wr_body wr' = wr_body wr"
    using assms r
    by (auto simp: handle_challenge_def Let_def status_of_def write_header_def set_wr_header_def set_cookie_def
        split: if_splits bool.splits)
  then show ?thesis
  proof cases
    case 4
    let ?e = "event_of w ?c (wd_start w) 303 Challenge False"
    from 4 have "trail (wd_codec w) g [?e] g'"
      using trail_emit [of w "g\<lparr>gt_chall := s\<rparr>"] by (simp add: gs)
    moreover have "answered w ?e [] []" by (simp add: answered_def)
    ultimately show ?thesis using 4(2-4) sid
      by (intro exI [of _ ?e]) (auto simp: closes_def)
  qed (use closes_issue_page [OF _ assms(2,3)] sid gs in metis)+
qed

text \<open>A challenge on a site without bot scoring is a panic, which the handler recovers.\<close>

lemma trail_apply_verdict:
  assumes "apply_verdict w s v (g, c, wr) = Served g' wr'" and "wr_code wr = None" and "wr_sent wr = []"
  shows "(\<exists>ss fs. trail (wd_codec w) g (ss @ fs) g' \<and> sse_events ss \<and> closes w (site_id_of c) wr fs wr') \<or>
    v_decision v = Challenge \<and> s_bot_score s = None \<and> g' = g \<and> wr' = http_error ''internal error'' 500 wr"
proof -
  have one: ?thesis if "\<exists>e. trail (wd_codec w) g [e] g' \<and> closes w (site_id_of c) wr [e] wr'"
    using that by (metis append_Nil empty_iff empty_set sse_events_def)
  show ?thesis
  proof (cases "v_decision v")
    case Block
    with assms(1) obtain c' where "deny w Block (v_status v) [] (g, c, wr) = (g', c', wr')"
      by (auto simp: apply_verdict_def session_end_def split: prod.splits)
    from closes_deny [OF this assms(3)] show ?thesis by (rule one)
  next
    case Challenge
    show ?thesis
    proof (cases "s_bot_score s")
      case None
      with Challenge assms(1) have "recovered (x_request c) g wr = Served g' wr'" by (simp add: apply_verdict_def)
      from recovered_page [OF this] None Challenge show ?thesis by simp
    next
      case (Some bc)
      with Challenge assms(1) obtain c' where "handle_challenge w bc (g, c, wr) = (g', c', wr')"
        by (auto simp: apply_verdict_def session_end_def split: prod.splits)
      from closes_handle_challenge [OF this assms(2,3)] show ?thesis by (rule one)
    qed
  next
    case Log
    with assms(1) have "serve w Log (g, c, wr) = Served g' wr'" by (simp add: apply_verdict_def)
    from trail_serve [OF this assms(3)] show ?thesis by simp
  next
    case Allow
    with assms(1) have "serve w Allow (g, c, wr) = Served g' wr'" by (simp add: apply_verdict_def)
    from trail_serve [OF this assms(3)] show ?thesis by simp
  qed
qed

text \<open>
  The fail-open path answers twice: the request is denied as a logged event with status 200 and
  then served, so the client sees the page of the denial and behind it the answer.
\<close>

definition denied_first :: "event list \<Rightarrow> bool" where
  "denied_first ds \<longleftrightarrow> (\<exists>d. ds = [d] \<and> e_blocked d \<and> e_decision d = ''log'' \<and> e_status d = 200)"

text \<open>The inspection of a request whose body was read.\<close>

definition inspected :: "'b world \<Rightarrow> request \<Rightarrow> site \<Rightarrow> 'b gateway \<Rightarrow> (inspect_error, 'b pstate \<times> verdict) go option" where
  "inspected w r s g =
     (case req_url r of
        None \<Rightarrow> None
      | Some u \<Rightarrow>
          (case read_body r (s_max_body_bytes s) of
             Ok (r', body, _) \<Rightarrow> Some (inspect w (g, inspected_ctx w r s u r' body))
           | _ \<Rightarrow> None))"

definition inspection_panics :: "site \<Rightarrow> (inspect_error, 'b pstate \<times> verdict) go option \<Rightarrow> bool" where
  "inspection_panics s res \<longleftrightarrow>
     (case res of
        Some Panic \<Rightarrow> True
      | Some (Ok (_, v)) \<Rightarrow> v_decision v = Challenge \<and> s_bot_score s = None
      | _ \<Rightarrow> False)"

definition fails_open :: "site \<Rightarrow> (inspect_error, 'b pstate \<times> verdict) go option \<Rightarrow> bool" where
  "fails_open s res \<longleftrightarrow> res = Some (Fail EngineError) \<and> s_fail_mode s \<noteq> ''closed''"

lemma serve_status:
  assumes "serve w act (g, c, wr) = Served g' wr'" and "wr_code wr = Some k"
  shows "wr_code wr' = Some k"
proof (cases "runtime_of g c")
  case None
  with assms show ?thesis
    by (auto simp: serve_def deny_eq session_end_def write_body_def write_header_def set_wr_header_def Let_def)
next
  case (Some rt)
  let ?out = "director w rt ((x_request c)\<lparr>req_body := Unread (x_body c)\<rparr>)"
  obtain wr1 code where pr: "proxy_reply (rt_cfg rt) (wd_upstream w ?out)
      (wr\<lparr>wr_sent := wr_sent wr @ [?out]\<rparr>) = (wr1, code)" by (metis prod.collapse)
  then have "wr_code wr1 = Some k"
    using assms(2)
    by (auto simp: proxy_reply_def copy_reply_def http_error_def write_body_def write_header_def
        add_headers_def set_wr_header_def Let_def split: upstream_reply.splits)
  moreover from assms(1) Some pr have "wr' = wr1 \<or> wr' = http_error ''internal error'' 500 wr1"
    by (auto simp: serve_def Let_def recovered_def split: go.splits upstream_reply.splits if_splits)
  ultimately show ?thesis
    by (auto simp: http_error_def write_body_def write_header_def set_wr_header_def Let_def)
qed

lemma trail_after_body:
  assumes "after_body w s (g, c, fresh_writer) = Served g' wr"
  shows "(\<exists>ss fs. trail (wd_codec w) g (ss @ fs) g' \<and> sse_events ss \<and> closes w (site_id_of c) fresh_writer fs wr) \<or>
    inspection_panics s (Some (inspect w (g, c))) \<and> trail (wd_codec w) g [] g' \<and>
      wr = http_error ''internal error'' 500 fresh_writer \<or>
    fails_open s (Some (inspect w (g, c))) \<and>
      (\<exists>ds ss fs wr1. trail (wd_codec w) g (ds @ ss @ fs) g' \<and> sse_events ss \<and> denied_first ds \<and>
         wr_body wr1 = deny_body 200 \<and> wr_code wr1 \<noteq> None \<and> status_of wr = 200 \<and> closes w (site_id_of c) wr1 fs wr)"
proof (cases "inspect w (g, c)")
  case Panic
  with assms have "recovered (x_request c) g fresh_writer = Served g' wr" by (simp add: after_body_def)
  from recovered_page [OF this] show ?thesis by (simp add: inspection_panics_def Panic)
next
  case (Fail e)
  have e: "e = EngineError" by (cases e) simp
  have fresh: "wr_sent fresh_writer = []" by (simp add: fresh_writer_def)
  show ?thesis
  proof (cases "s_fail_mode s = ''closed''")
    case True
    with Fail assms obtain c' where "deny w Block 503 [engine_err] (g, c, fresh_writer) = (g', c', wr)"
      by (auto simp: after_body_def e session_end_def split: prod.splits)
    from closes_deny [OF this fresh] obtain e where
      "trail (wd_codec w) g ([] @ [e]) g'" "closes w (site_id_of c) fresh_writer [e] wr" by auto
    moreover have "sse_events []" by (simp add: sse_events_def)
    ultimately show ?thesis by blast
  next
    case False
    obtain g1 c1 wr1 where d: "deny (later w 0) Log 200 [engine_err] (g, c, fresh_writer) = (g1, c1, wr1)"
      by (metis prod_cases3)
    from trail_deny [OF d] obtain d' where d': "trail (wd_codec w) g [d'] g1" "denied_first [d']"
      by (auto simp: denied_first_def)
    from d have 1: "wr_body wr1 = deny_body 200" "\<exists>h. wr_code wr1 = Some (200, h)" "site_id_of c1 = site_id_of c"
      "wr_sent wr1 = []"
      by (auto simp: deny_eq Let_def write_body_def write_header_def set_wr_header_def fresh_writer_def
          site_id_of_def)
    have s: "serve w Allow (g1, c1, wr1) = Served g' wr" using assms Fail False d by (simp add: after_body_def e)
    from 1(2) obtain h where h: "wr_code wr1 = Some (200, h)" by blast
    from trail_serve [OF s 1(4)] 1(3) obtain ss fs where
      t: "trail (wd_codec w) g1 (ss @ fs) g'" "sse_events ss" "closes w (site_id_of c) wr1 fs wr" by auto
    have "status_of wr = 200" using serve_status [OF s h] by (simp add: status_of_def)
    moreover have "trail (wd_codec w) g ([d'] @ ss @ fs) g'" by (rule trail_append [OF d'(1) t(1)])
    moreover have "fails_open s (Some (inspect w (g, c)))" by (simp add: fails_open_def Fail e False)
    ultimately show ?thesis using t(2,3) d'(2) 1(1) h by blast
  qed
next
  case (Ok x)
  obtain g1 c1 v where x: "x = ((g1, c1), v)" by (metis prod.collapse)
  from Ok have "run_modules w inspection_order (g, c\<lparr>x_protocol := ''rest''\<rparr>) = Ok (g1, c1)"
    by (auto simp: inspect_def x go_bind_Ok_iff)
  from run_modules_frame [OF this] have fr: "x_site c1 = x_site c" "gt_events g1 = gt_events g" "gt_stats g1 = gt_stats g"
    by (auto simp: extends_ctx_def keeps_gateway_def)
  have sid: "site_id_of c1 = site_id_of c" by (simp add: site_id_of_def fr(1))
  have v: "apply_verdict w s v (g1, c1, fresh_writer) = Served g' wr" using assms Ok by (simp add: after_body_def x)
  have "wr_code fresh_writer = None" "wr_sent fresh_writer = []" by (simp_all add: fresh_writer_def)
  from trail_apply_verdict [OF v this] consider
      ss fs where "trail (wd_codec w) g1 (ss @ fs) g'" "sse_events ss" "closes w (site_id_of c) fresh_writer fs wr"
    | "v_decision v = Challenge" "s_bot_score s = None" "g' = g1" "wr = http_error ''internal error'' 500 fresh_writer"
    unfolding sid by (elim disjE exE conjE) (rule that, assumption+)+
  then show ?thesis
  proof cases
    case 1
    then show ?thesis using trail_same [OF fr(2,3)] by blast
  next
    case 2
    then have "inspection_panics s (Some (inspect w (g, c)))" by (simp add: inspection_panics_def Ok x)
    then show ?thesis using 2 trail_same [OF fr(2,3)] by (metis trail_refl)
  qed
qed

text \<open>What the audit of a request comes to, for the outcome \<open>res\<close> of its inspection.\<close>

definition audit_ok ::
    "'b world \<Rightarrow> site \<Rightarrow> (inspect_error, 'b pstate \<times> verdict) go option \<Rightarrow> 'b gateway \<Rightarrow> 'b gateway \<Rightarrow> writer \<Rightarrow> bool" where
  "audit_ok w s res g g' wr \<longleftrightarrow>
     (\<exists>ds ss fs. trail (wd_codec w) g (ds @ ss @ fs) g' \<and> sse_events ss \<and>
        ((\<exists>e. ds = [] \<and> fs = [e] \<and> e_site_id e = s_id s \<and> e_status e = status_of wr \<and>
            answered w e (wr_sent wr) (wr_body wr)) \<or>
         ds = [] \<and> fs = [] \<and> broken_off w (wr_sent wr) (wr_body wr) \<or>
         ds = [] \<and> ss = [] \<and> fs = [] \<and> inspection_panics s res \<and>
            wr = http_error ''internal error'' 500 fresh_writer \<or>
         fails_open s res \<and> denied_first ds \<and> status_of wr = 200 \<and>
            (\<exists>b. wr_body wr = deny_body 200 @ b \<and>
               ((\<exists>e. fs = [e] \<and> e_site_id e = s_id s \<and> answered w e (wr_sent wr) b) \<or>
                fs = [] \<and> broken_off w (wr_sent wr) b))))"

lemma audit_ok_closes:
  assumes "trail (wd_codec w) g (ss @ fs) g'" and "sse_events ss" and "closes w (s_id s) fresh_writer fs wr"
  shows "audit_ok w s res g g' wr"
proof -
  have "wr_body fresh_writer = []" "wr_code fresh_writer = None" by (simp_all add: fresh_writer_def)
  then show ?thesis unfolding audit_ok_def
    by (intro exI [of _ "[]"] exI [of _ ss] exI [of _ fs]) (use assms in \<open>auto simp: closes_def\<close>)
qed

lemma after_body_audited:
  assumes "after_body w s (g, c, fresh_writer) = Served g' wr" and "site_id_of c = s_id s"
  shows "audit_ok w s (Some (inspect w (g, c))) g g' wr"
  using trail_after_body [OF assms(1)] unfolding assms(2)
proof (elim disjE exE conjE)
  fix ss fs
  assume "trail (wd_codec w) g (ss @ fs) g'" "sse_events ss" "closes w (s_id s) fresh_writer fs wr"
  then show ?thesis by (rule audit_ok_closes)
next
  assume "inspection_panics s (Some (inspect w (g, c)))" "trail (wd_codec w) g [] g'"
    "wr = http_error ''internal error'' 500 fresh_writer"
  then show ?thesis unfolding audit_ok_def by (intro exI [of _ "[]"]) (simp add: sse_events_def)
next
  fix ds ss fs wr1
  assume "fails_open s (Some (inspect w (g, c)))" "trail (wd_codec w) g (ds @ ss @ fs) g'" "sse_events ss"
    "denied_first ds" "wr_body wr1 = deny_body 200" "wr_code wr1 \<noteq> None" "status_of wr = 200"
    "closes w (s_id s) wr1 fs wr"
  moreover from this(5,8) have "\<exists>b. wr_body wr = deny_body 200 @ b \<and>
      ((\<exists>e. fs = [e] \<and> e_site_id e = s_id s \<and> answered w e (wr_sent wr) b) \<or>
       fs = [] \<and> broken_off w (wr_sent wr) b)"
    by (metis closes_appends)
  ultimately show ?thesis unfolding audit_ok_def
    by (intro exI [of _ ds] exI [of _ ss] exI [of _ fs]) (simp only: simp_thms)
qed

lemma serve_site_audited:
  assumes "serve_site w r s u g = Served g' wr" and "req_url r = Some u"
    and "\<not> ((case s_websocket s of None \<Rightarrow> False | Some wc \<Rightarrow> ws_enabled wc) \<and> is_upgrade r)"
  shows "audit_ok w s (inspected w r s g) g g' wr"
proof -
  let ?c = "initial_ctx w r s u"
  have sid: "site_id_of (inspected_ctx w r s u q b) = s_id s" "site_id_of ?c = s_id s"
    "site_id_of (?c\<lparr>x_request := q\<rparr>) = s_id s" for q b
    by (simp_all add: site_id_of_def initial_ctx_def inspected_ctx_def Let_def)
  have "read_body r (s_max_body_bytes s) \<noteq> Panic"
    by (simp add: read_body_def Let_def split: body_stream.split)
  then consider (denied) st rs c c' where "deny w Block st rs (g, c, fresh_writer) = (g', c', wr)" "site_id_of c = s_id s"
    | (body) r' b ov where "read_body r (s_max_body_bytes s) = Ok (r', b, ov)"
        "after_body w s (g, inspected_ctx w r s u r' b, fresh_writer) = Served g' wr"
    using assms(1,3) sid
    by (auto simp: serve_site_def session_end_def inspected_ctx_def Let_def split: if_splits prod.splits go.splits)
  then show ?thesis
  proof cases
    case denied
    have "wr_sent fresh_writer = []" by (simp add: fresh_writer_def)
    from closes_deny [OF denied(1) this] denied(2) obtain e where
      "trail (wd_codec w) g ([] @ [e]) g'" "closes w (s_id s) fresh_writer [e] wr" by auto
    moreover have "sse_events []" by (simp add: sse_events_def)
    ultimately show ?thesis by (rule_tac audit_ok_closes)
  next
    case body
    then have "inspected w r s g = Some (inspect w (g, inspected_ctx w r s u r' b))"
      by (simp add: inspected_def assms(2))
    with after_body_audited [OF body(2) sid(1)] show ?thesis by simp
  qed
qed

text \<open>
  C4. Audit: a request that is answered over HTTP leaves, in this order, possibly log events
  of SSE data lines and then exactly one event, which names the site and has the status the
  client sees, and the body the client gets is the one answer of that event and nothing else:
  the page of a denial, the page of a challenge or the redirect after it, with nothing sent
  upstream; or the answer to the one request that was sent. There are three exceptions. An
  upstream that breaks off its answer leaves no such event, and the page of the recovery behind
  what it sent. An inspection that panics, or that challenges on a site without bot scoring,
  leaves no event either, and only that page. And on a site that fails open an engine timeout is
  answered twice: denied, as a blocked event with decision log and status 200, and then served,
  the page of the denial before the answer. The request counter grows with the events, the
  blocked and challenged counters with the blocked ones.
\<close>

theorem request_audited:
  assumes "serve_http w r g = Served g' wr" and "st_cfg (gt_store g) = Some cfg"
    and "site_by_domain cfg (request_host r) = Some s"
    and "\<not> ((case s_websocket s of None \<Rightarrow> False | Some wc \<Rightarrow> ws_enabled wc) \<and> is_upgrade r)"
  shows "\<exists>ds ss fs. trail (wd_codec w) g (ds @ ss @ fs) g' \<and> sse_events ss \<and>
    ((\<exists>e. ds = [] \<and> fs = [e] \<and> e_site_id e = s_id s \<and> e_status e = status_of wr \<and>
        answered w e (wr_sent wr) (wr_body wr)) \<or>
     ds = [] \<and> fs = [] \<and> broken_off w (wr_sent wr) (wr_body wr) \<or>
     ds = [] \<and> ss = [] \<and> fs = [] \<and> inspection_panics s (inspected w r s g) \<and>
        wr = http_error ''internal error'' 500 fresh_writer \<or>
     fails_open s (inspected w r s g) \<and> denied_first ds \<and> status_of wr = 200 \<and>
        (\<exists>b. wr_body wr = deny_body 200 @ b \<and>
           ((\<exists>e. fs = [e] \<and> e_site_id e = s_id s \<and> answered w e (wr_sent wr) b) \<or>
            fs = [] \<and> broken_off w (wr_sent wr) b)))"
proof -
  from assms obtain u where "req_url r = Some u" "serve_site w r s u g = Served g' wr"
    by (auto simp: serve_http_def split: option.splits)
  from serve_site_audited [OF this(2,1) assms(4)] show ?thesis unfolding audit_ok_def .
qed

theorem request_audited_witness:
  "\<exists>g' wr ds ss fs. serve_http demo_world plain_request plain_gateway = Served g' wr \<and>
     status_of wr = 200 \<and> trail (wd_codec demo_world) plain_gateway (ds @ ss @ fs) g'"
proof -
  from plain_served obtain g' wr where
    run: "serve_http demo_world plain_request plain_gateway = Served g' wr" "status_of wr = 200" by blast
  have "site_by_domain served_config (request_host plain_request) = Some demo_site"
    by (simp add: demo_site_routed request_host_def plain_request_def demo_request_def)
  from request_audited [OF run(1) plain_gateway_facts(1) this] run show ?thesis
    by (auto simp: demo_site_facts)
qed

text \<open>The events of a WebSocket session: one per violation, then the one of the session.\<close>

lemma trail_violations:
  "emit_violations w i vs (g, c) = (g', c') \<Longrightarrow>
     \<exists>es. trail (wd_codec w) g es g' \<and> length es = length vs \<and> x_site c' = x_site c \<and>
       (\<forall>e \<in> set es. e_status e = 1008 \<and> e_blocked e \<and> e_site_id e = site_id_of c)"
proof (induction vs arbitrary: i g c)
  case Nil
  then show ?case by (auto intro: exI [of _ "[]"])
next
  case (Cons rs vs)
  let ?c = "c\<lparr>x_reasons := x_reasons c @ rs\<rparr>"
  let ?e = "event_of (later w i) ?c (wd_emit_now (later w i)) 1008 Block True"
  let ?g = "emit (later w i) ?c (wd_emit_now (later w i)) 1008 Block True g"
  have sid: "site_id_of ?c = site_id_of c" by (simp add: site_id_of_def)
  from Cons.prems have "emit_violations w (i + 1) vs (?g, ?c) = (g', c')" by (simp add: Let_def)
  from Cons.IH [OF this] obtain es where es: "trail (wd_codec w) ?g es g'" "length es = length vs"
    "x_site c' = x_site c" "\<forall>e \<in> set es. e_status e = 1008 \<and> e_blocked e \<and> e_site_id e = site_id_of c"
    unfolding sid by auto
  have "trail (wd_codec w) g [?e] ?g" using trail_emit [of "later w i"] by simp
  from trail_append [OF this es(1)] es(2-4) sid show ?case
    by (intro exI [of _ "?e # es"]) (simp del: emit_gateway)
qed

lemma violations_frame:
  "emit_violations w i vs (g, c) = (g', c') \<Longrightarrow>
     g' = g\<lparr>gt_events := gt_events g', gt_stats := gt_stats g'\<rparr>"
proof (induction vs arbitrary: i g c)
  case (Cons rs vs)
  let ?g = "emit (later w i) (c\<lparr>x_reasons := x_reasons c @ rs\<rparr>) (wd_emit_now (later w i)) 1008 Block True g"
  have "g' = ?g\<lparr>gt_events := gt_events g', gt_stats := gt_stats g'\<rparr>"
    by (rule Cons.IH) (use Cons.prems in \<open>simp add: Let_def\<close>)
  then show ?case by (simp add: emit_def)
qed simp

lemma websocket_trail:
  fixes w :: "'b world"
  assumes "handle_websocket w (g, c, wr) = Ok (g', c', wr')"
  shows "\<exists>es. trail (wd_codec w) g es g' \<and> x_site c' = x_site c \<and>
    (\<forall>e \<in> set es. e_status e = 1008 \<and> e_blocked e \<and> e_site_id e = site_id_of c) \<and>
    g' = g\<lparr>gt_limiter := gt_limiter g', gt_events := gt_events g', gt_stats := gt_stats g'\<rparr>"
proof -
  let ?run = "\<lambda>rl :: 'b relay. emit_violations w 0 (rl_violations rl) (g\<lparr>gt_limiter := rl_limiter rl\<rparr>, c)"
  have "(g' = g \<and> c' = c) \<or> (\<exists>rl. fst (?run rl) = g' \<and> snd (?run rl) = c')"
    using assms
    by (auto simp: handle_websocket_def Let_def go_bind_Ok_iff case_prod_unfold
        split: option.splits hijack.splits if_splits)
  then have "(g' = g \<and> c' = c) \<or> (\<exists>rl. ?run rl = (g', c'))" by (metis prod.collapse)
  then consider "g' = g" "c' = c"
    | rl :: "'b relay" where "emit_violations w 0 (rl_violations rl) (g\<lparr>gt_limiter := rl_limiter rl\<rparr>, c) = (g', c')" by auto
  then show ?thesis
  proof cases
    case 1
    then show ?thesis by (intro exI [of _ "[]"]) simp
  next
    case 2
    let ?g = "g\<lparr>gt_limiter := rl_limiter rl\<rparr>"
    have fr: "g' = ?g\<lparr>gt_events := gt_events g', gt_stats := gt_stats g'\<rparr>" by (rule violations_frame [OF 2])
    then have "gt_limiter g' = rl_limiter rl"
      by (metis gateway.select_convs(3) gateway.surjective gateway.update_convs(2,3,11))
    with fr have "g' = g\<lparr>gt_limiter := gt_limiter g', gt_events := gt_events g', gt_stats := gt_stats g'\<rparr>"
      by simp
    moreover have "trail (wd_codec w) ?g es g' = trail (wd_codec w) g es g'" for es
      by (rule trail_same) simp_all
    ultimately show ?thesis using trail_violations [OF 2] by auto
  qed
qed

text \<open>
  Audit of an upgrade: on a site with WebSocket inspection an upgrade request that is
  not blocked by its fingerprint leaves one blocked event with status 1008 for every violation
  of the session and then one unblocked event with decision allow and status 101, even when
  the backend could not be reached and no upgrade took place; and its body is never inspected:
  the limiter is the only part of the gateway besides events and counters that can change.
\<close>

theorem upgrade_audited:
  assumes "serve_http w r g = Served g' wr" and "st_cfg (gt_store g) = Some cfg"
    and "site_by_domain cfg (request_host r) = Some s" and "req_url r = Some u"
    and "s_websocket s = Some wc" and "ws_enabled wc" and "is_upgrade r"
    and "\<not> fp_blocked g (x_ja4 (initial_ctx w r s u))"
  shows "\<exists>vs e. trail (wd_codec w) g (vs @ [e]) g' \<and>
    (\<forall>v \<in> set vs. e_status v = 1008 \<and> e_blocked v \<and> e_site_id v = s_id s) \<and>
    e_status e = 101 \<and> \<not> e_blocked e \<and> e_decision e = ''allow'' \<and> e_site_id e = s_id s \<and>
    e_reasons e = [] \<and> wr_sent wr = [] \<and>
    g' = g\<lparr>gt_limiter := gt_limiter g', gt_events := gt_events g', gt_stats := gt_stats g'\<rparr>"
proof -
  let ?c = "(initial_ctx w r s u)\<lparr>x_protocol := ''websocket''\<rparr>"
  from assms have "handle_upgrade w (g, initial_ctx w r s u, fresh_writer) = Served g' wr"
    by (auto simp: serve_http_def serve_site_def fp_blocked_def Let_def split: if_splits)
  then obtain g1 c1 where h: "handle_websocket w (g, ?c, fresh_writer) = Ok (g1, c1, wr)"
    and g': "g' = emit w (c1\<lparr>x_reasons := x_reasons ?c\<rparr>) (wd_start w) 101 Allow False g1"
    by (auto simp: handle_upgrade_def Let_def split: go.splits prod.splits)
  let ?e = "event_of w (c1\<lparr>x_reasons := x_reasons ?c\<rparr>) (wd_start w) 101 Allow False"
  have init: "x_site (initial_ctx w r s u) = Some s" "x_reasons (initial_ctx w r s u) = []"
    by (simp_all add: initial_ctx_def Let_def)
  from websocket_trail [OF h] obtain es where es: "trail (wd_codec w) g es g1" "x_site c1 = Some s"
    "\<forall>e \<in> set es. e_status e = 1008 \<and> e_blocked e \<and> e_site_id e = s_id s"
    "g1 = g\<lparr>gt_limiter := gt_limiter g1, gt_events := gt_events g1, gt_stats := gt_stats g1\<rparr>"
    by (auto simp: init site_id_of_def)
  have "trail (wd_codec w) g (es @ [?e]) g'" unfolding g' by (rule trail_append [OF es(1) trail_emit])
  moreover have "e_site_id ?e = s_id s" using es(2) by (simp add: site_id_of_def)
  moreover have "g' = g\<lparr>gt_limiter := gt_limiter g', gt_events := gt_events g', gt_stats := gt_stats g'\<rparr>"
  proof -
    from es(4) obtain l ev t where "g1 = g\<lparr>gt_limiter := l, gt_events := ev, gt_stats := t\<rparr>" by blast
    then show ?thesis by (simp add: g' emit_def)
  qed
  moreover have "wr_sent wr = []" using handle_websocket_sent [OF h] by simp
  ultimately show ?thesis using es(3) init
    by (intro exI [of _ es] exI [of _ ?e]) simp
qed

text \<open>A site with WebSocket inspection, a request to upgrade, and a server that cannot hijack.\<close>

definition ws_site :: site where
  "ws_site = demo_site\<lparr>s_websocket := Some \<lparr>ws_enabled = True, ws_max_messages_per_min = 60,
     ws_max_message_bytes = 65536\<rparr>\<rparr>"

definition ws_gateway :: "mem_backend gateway" where
  "ws_gateway = publish_config (served_config\<lparr>c_sites := [ws_site]\<rparr>)
     (plain_gateway\<lparr>gt_sites := [s_id demo_site \<mapsto> plain_rt\<lparr>rt_cfg := ws_site,
        rt_ws := Some \<lparr>i_rules = Some (rt_engine plain_rt), i_cfg = s_websocket ws_site\<rparr>\<rparr>]\<rparr>)"

definition upgrade_request :: request where
  "upgrade_request = demo_request\<lparr>req_method := ''GET'', req_body := EmptyBody,
     req_header := [(''Upgrade'', [''websocket'']), (''Connection'', [''Upgrade''])]\<rparr>"

lemma ws_routed:
  "st_cfg (gt_store ws_gateway) = Some (served_config\<lparr>c_sites := [ws_site]\<rparr>)"
  "site_by_domain (served_config\<lparr>c_sites := [ws_site]\<rparr>) (request_host upgrade_request) = Some ws_site"
proof -
  show "st_cfg (gt_store ws_gateway) = Some (served_config\<lparr>c_sites := [ws_site]\<rparr>)"
    by (simp add: ws_gateway_def publish_config_def store_set_def)
  have "host_name (request_host upgrade_request) = ''a.example''" "to_lower ''a.example'' = ''a.example''"
    unfolding upgrade_request_def demo_request_def request_host_def by code_simp+
  then show "site_by_domain (served_config\<lparr>c_sites := [ws_site]\<rparr>) (request_host upgrade_request) = Some ws_site"
    by (simp add: site_by_domain_def ws_site_def demo_site_facts)
qed

theorem upgrade_audited_witness:
  "\<exists>g' wr vs e. serve_http demo_world upgrade_request ws_gateway = Served g' wr \<and> status_of wr = 500 \<and>
     trail (wd_codec demo_world) ws_gateway (vs @ [e]) g' \<and> e_status e = 101 \<and> e_decision e = ''allow''"
proof -
  have up: "is_upgrade upgrade_request" unfolding upgrade_request_def demo_request_def by code_simp
  have url: "req_url upgrade_request = Some demo_url" by (simp add: upgrade_request_def demo_request_def)
  have fp: "\<not> fp_blocked g (x_ja4 (initial_ctx demo_world r s u))" for g r s u
    by (simp add: fp_blocked_def plain_initial)
  have rt: "runtime_of ws_gateway (c\<lparr>x_protocol := p\<rparr>) = Some (plain_rt\<lparr>rt_cfg := ws_site,
      rt_ws := Some \<lparr>i_rules = Some (rt_engine plain_rt), i_cfg = s_websocket ws_site\<rparr>\<rparr>)"
    if "x_site c = Some ws_site" for c p
    using that by (simp add: runtime_of_def ws_gateway_def publish_config_def ws_site_def)
  have hj: "ww_hijack (wd_ws demo_world) = NoHijacker" by (simp add: demo_world_def)
  have ws: "s_websocket ws_site = Some \<lparr>ws_enabled = True, ws_max_messages_per_min = 60, ws_max_message_bytes = 65536\<rparr>"
    by (simp add: ws_site_def)
  obtain g' where run: "serve_http demo_world upgrade_request ws_gateway =
      Served g' (http_error ''hijacking unsupported'' 500 fresh_writer)"
    by (simp add: serve_http_def ws_routed url serve_site_def plain_initial ws up handle_upgrade_def Let_def
        handle_websocket_def rt hj)
  have "status_of (http_error ''hijacking unsupported'' 500 fresh_writer) = 500"
    by (simp add: status_of_def http_error_def write_body_def write_header_def set_wr_header_def fresh_writer_def Let_def)
  with upgrade_audited [OF run ws_routed url ws _ up fp] run show ?thesis by auto
qed

end
