(* ===== verification/ChallengeFlow.thy ===== *)
theory ChallengeFlow
  imports Gateway
begin

text \<open>
  The proof-of-work challenge of the request handler, from the inspection to the answer: what
  a client can and cannot achieve with it.
\<close>

subsection \<open>The cached form of an inspected request\<close>

definition parsed_from :: "request \<Rightarrow> request \<Rightarrow> bool" where
  "parsed_from q q' \<longleftrightarrow> q' = q \<or> q' = fst (parse_form q)"

lemma parse_form_again: "fst (parse_form (fst (parse_form q))) = fst (parse_form q)"
  by (simp add: parse_form_def Let_def split: option.split)

lemma parsed_refl [simp]: "parsed_from q q"
  by (simp add: parsed_from_def)

lemma parsed_trans: "parsed_from a b \<Longrightarrow> parsed_from b c \<Longrightarrow> parsed_from a c"
  by (auto simp: parsed_from_def parse_form_again)

lemma target_values_parsed: "target_values r q body = Ok (q', vs) \<Longrightarrow> parsed_from q q'"
  by (auto simp: target_values_def with_url_def Let_def parsed_from_def
      split: if_splits option.splits prod.splits)

lemma rule_evaluate_parsed: "rule_evaluate r q body = Ok (q', m) \<Longrightarrow> parsed_from q q'"
  by (auto simp: rule_evaluate_def match_target_def go_bind_Ok_iff split: if_splits
      dest!: target_values_parsed)

lemma custom_matches_parsed: "custom_matches rs q body = Ok (q', ms) \<Longrightarrow> parsed_from q q'"
  by (induction rs arbitrary: q q' ms)
     (auto simp: go_bind_Ok_iff dest!: rule_evaluate_parsed intro: parsed_trans)

lemma engine_evaluate_parsed: "engine_evaluate e slow q body = Ok (q', res) \<Longrightarrow> parsed_from q q'"
  by (auto simp: engine_evaluate_def evaluate_locked_def go_bind_Ok_iff
      split: option.splits if_splits dest!: custom_matches_parsed)

lemma inspect_rules_parsed:
  "inspect_rules w (g, c) = Ok (g', c') \<Longrightarrow> parsed_from (x_request c) (x_request c')"
  by (auto simp: inspect_rules_def with_site_def add_reasons_eq
      split: option.splits go.splits if_splits dest!: engine_evaluate_parsed)

lemma other_module_request:
  assumes "run_module w m (g, c) = Ok (g', c')" and "m \<noteq> MRules"
  shows "x_request c' = x_request c"
proof (cases m)
  case MProtocol
  with assms show ?thesis
    by (auto simp: inspect_protocol_def with_site_def inspect_graphql_def inspect_grpc_def Let_def
        add_reasons_eq add_reason_def go_bind_Ok_iff split: option.splits go.splits if_splits)
next
  case MMl
  with assms show ?thesis
    by (auto simp: inspect_ml_def with_site_def Let_def add_reason_def
        split: option.splits if_splits prod.splits go.splits)
qed (use assms in \<open>auto simp: inspect_rate_limit_def inspect_bot_def inspect_plugins_def inspect_llm_def
        with_site_def Let_def add_reasons_eq add_reason_def split: option.splits if_splits prod.splits\<close>)

lemma run_modules_parsed:
  "run_modules w ms (g, c) = Ok (g', c') \<Longrightarrow> parsed_from (x_request c) (x_request c')"
proof (induction ms arbitrary: g c)
  case Nil
  then show ?case by simp
next
  case (Cons m ms)
  then obtain g1 c1 where 1: "run_module w m (g, c) = Ok (g1, c1)"
    and rest: "run_modules w ms (g1, c1) = Ok (g', c')" by (auto simp: go_bind_Ok_iff)
  have "parsed_from (x_request c) (x_request c1)"
    using 1 inspect_rules_parsed [of w g c g1 c1] other_module_request [OF 1] by (cases "m = MRules") auto
  with Cons.IH [OF rest] show ?case by (metis parsed_trans)
qed

lemma inspect_parsed:
  "inspect w (g, c) = Ok ((g', c'), v) \<Longrightarrow> parsed_from (x_request c) (x_request c')"
  using run_modules_parsed [of w inspection_order g "c\<lparr>x_protocol := ''rest''\<rparr>" g' c']
  by (auto simp: inspect_def go_bind_Ok_iff)

text \<open>After the body was read, the form holds the fields of the query only.\<close>

lemma drained_form:
  assumes "read_body r mx = Ok (r', body, overflow)" and "req_form r = None" and "req_url r = Some u"
  shows "form_get (fst (parse_form r')) k = query_get u k"
  using assms
  by (cases "req_body r")
     (auto simp: read_body_def Let_def parse_form_def post_form_def form_get_def query_get_def)

subsection \<open>Properties\<close>

text \<open>
  C19. A solved challenge has to come in the query: when the inspection of a request ends in a
  challenge and the query has no field _pow, the answer is a fresh challenge, whatever proof
  the form in the body carries, and no challenge is redeemed. The handler parses the form
  only after the body was read for inspection, so the fields of a posted form, which is what
  the challenge page sends, are never seen.
\<close>

theorem posted_proof_ignored:
  assumes "read_body r (s_max_body_bytes s) = Ok (r', body, False)" and "req_form r = None"
    and "req_url r = Some u" and "query_get u ''_pow'' = []" and "x_request c = r'"
    and "inspect w (g, c) = Ok ((g1, c1), v)" and "v_decision v = Challenge"
    and "s_bot_score s = Some bc"
  shows "gt_chall g1 = gt_chall g \<and>
    (\<exists>c2. x_path c2 = x_path c \<and>
       after_body w s (g, c, wr) = session_end (issue_page w bc (g1, c2, wr)))"
proof
  from assms(6) have "run_modules w inspection_order (g, c\<lparr>x_protocol := ''rest''\<rparr>) = Ok (g1, c1)"
    by (auto simp: inspect_def go_bind_Ok_iff)
  from run_modules_frame [OF this] show chall: "gt_chall g1 = gt_chall g"
    by (simp add: keeps_gateway_def)
  from run_modules_frame [OF \<open>run_modules _ _ _ = _\<close>] have path: "x_path c1 = x_path c"
    by (simp add: extends_ctx_def)
  have "fst (parse_form (x_request c1)) = fst (parse_form r')"
    using inspect_parsed [OF assms(6)] assms(5) by (auto simp: parsed_from_def parse_form_again)
  then have "form_get (fst (parse_form (x_request c1))) ''_pow'' = []"
    using drained_form [OF assms(1-3), of "''_pow''"] assms(4) by simp
  then have "handle_challenge w bc (g1, c1, wr) = issue_page w bc (g1, c1, wr) \<or>
      handle_challenge w bc (g1, c1, wr) =
        issue_page w bc (g1, c1\<lparr>x_request := fst (parse_form (x_request c1))\<rparr>, wr)"
    by (simp add: handle_challenge_def Let_def)
  then have "\<exists>c2. x_path c2 = x_path c1 \<and> handle_challenge w bc (g1, c1, wr) = issue_page w bc (g1, c2, wr)"
    by (metis inspect_ctx.select_convs(6) inspect_ctx.surjective inspect_ctx.update_convs(1))
  then show "\<exists>c2. x_path c2 = x_path c \<and> after_body w s (g, c, wr) = session_end (issue_page w bc (g1, c2, wr))"
    using assms(6-8) path by (auto simp: after_body_def apply_verdict_def)
qed

text \<open>
  C5. The challenge page reflects the request: when the inspection of a request other than a POST
  ends in a challenge, the decoded path of the request stands, without any escaping, between the
  quotes of a string in the script of the HTML page that is sent. A quote in the path ends the
  string, and what follows in the path runs as script of the protected site.
\<close>

theorem challenge_page_reflects_path:
  assumes "inspect w (g, c) = Ok ((g1, c1), v)" and "v_decision v = Challenge"
    and "s_bot_score s = Some bc" and "req_method (x_request c) \<noteq> ''POST''"
    and "wd_rand w = Some rnd" and "wr_code wr = None" and "wr_body wr = []"
  shows "\<exists>g2 wr2 h nonce d. after_body w s (g, c, wr) = Served g2 wr2 \<and>
    wr_code wr2 = Some (429, h) \<and> header_get h ''Content-Type'' = ''text/html; charset=utf-8'' \<and>
    wr_body wr2 = page_before nonce d @ ''form.action='' @ [CHR 0x27] @ x_path c @ [CHR 0x27] @ '';'' @ page_after"
proof -
  from assms(1) have "run_modules w inspection_order (g, c\<lparr>x_protocol := ''rest''\<rparr>) = Ok (g1, c1)"
    by (auto simp: inspect_def go_bind_Ok_iff)
  from run_modules_frame [OF this] have path: "x_path c1 = x_path c" by (simp add: extends_ctx_def)
  have "req_method (x_request c1) \<noteq> ''POST''"
    using inspect_parsed [OF assms(1)] assms(4)
    by (auto simp: parsed_from_def parse_form_def Let_def split: option.splits)
  then have "after_body w s (g, c, wr) = session_end (issue_page w bc (g1, c1, wr))"
    using assms(1-3) by (simp add: after_body_def apply_verdict_def handle_challenge_def)
  then show ?thesis
    using assms(5-7) path
    by (auto simp: issue_page_def issue_challenge_def new_challenge_def Let_def session_end_def challenge_html_def
        fill_template_script write_body_def write_header_def set_wr_header_def set_cookie_def)
qed

text \<open>A site with a low challenge threshold, and a client that posts a proof.\<close>

definition bot_site :: site where
  "bot_site = demo_site\<lparr>s_bot_score := Some \<lparr>bot_enabled = True, bot_challenge_enabled = True,
     bot_challenge_threshold = 1/5, bot_block_threshold = 9/10, bot_pow_difficulty = 3, bot_max_challenges = 0\<rparr>\<rparr>"

definition proof_post :: request where
  "proof_post = demo_request\<lparr>req_header := [(''Content-Type'', [''application/x-www-form-urlencoded''])],
     req_body := Unread ''_pow=1''\<rparr>"

definition proof_read :: request where
  "proof_read = proof_post\<lparr>req_body := ClosedBody\<rparr>"

definition bot_ctx :: inspect_ctx where
  "bot_ctx = empty_ctx\<lparr>x_request := proof_read, x_site := Some bot_site, x_body := ''_pow=1''\<rparr>"

lemma bot_site_facts:
  "s_graphql bot_site = None" "s_grpc bot_site = None" "s_rate_limit bot_site = None"
  "s_bot_score bot_site = Some \<lparr>bot_enabled = True, bot_challenge_enabled = True,
     bot_challenge_threshold = 1/5, bot_block_threshold = 9/10, bot_pow_difficulty = 3, bot_max_challenges = 0\<rparr>"
  "s_id bot_site = s_id demo_site" "s_max_body_bytes bot_site = 4194304"
  by (simp_all add: bot_site_def demo_site_facts)

lemma bot_inspect_ctx:
  fixes c0 :: inspect_ctx
  defines "c \<equiv> c0\<lparr>x_protocol := ''rest''\<rparr>"
  assumes ctx: "x_site c = Some bot_site" "x_reasons c = []" and cookie: "\<not> solved_cookie (x_request c)"
    and score: "bot_score (bot_signal c) = 1/4"
  shows "\<exists>c1 v. inspect (demo_world\<lparr>wd_rand := rnd\<rparr>) (plain_gateway, c0) = Ok ((plain_gateway, c1), v) \<and>
    v_decision v = Challenge"
proof -
  let ?w = "demo_world\<lparr>wd_rand := rnd\<rparr>" and ?k = "bot_score (bot_signal c)"
  have k: "\<not> 9/10 \<le> ?k" "1/5 \<le> ?k" unfolding score by simp_all
  have "\<exists>m. inspect_bot (plain_gateway, c) = Ok (plain_gateway, add_reason (c\<lparr>x_bot_score := ?k\<rparr>)
      (no_reason\<lparr>r_module := ''botscoring'', r_rule_id := ''BOT-CHALLENGE'', r_message := m, r_score := ?k,
        r_status := 429\<rparr>))"
    using ctx cookie k by (auto simp: inspect_bot_def with_site_def bot_site_facts Let_def)
  then obtain r where bot: "inspect_bot (plain_gateway, c) =
      Ok (plain_gateway, add_reason (c\<lparr>x_bot_score := ?k\<rparr>) r)"
    and r: "r_module r = ''botscoring''" "r_rule_id r = ''BOT-CHALLENGE''" "r_status r = 429" by auto
  let ?d = "add_reason (c\<lparr>x_bot_score := ?k\<rparr>) r"
  have d: "x_site ?d = Some bot_site" "x_reasons ?d = [r]" using ctx by (simp_all add: add_reason_def)
  have "inspect_rules ?w (plain_gateway, c) = Ok (plain_gateway, c)"
    "inspect_protocol ?w (plain_gateway, c) = Ok (plain_gateway, c)"
    "inspect_rate_limit ?w (plain_gateway, c) = Ok (plain_gateway, c)"
    "inspect_plugins ?w (plain_gateway, ?d) = Ok (plain_gateway, ?d)"
    "inspect_llm (plain_gateway, ?d) = Ok (plain_gateway, ?d)" "inspect_ml ?w (plain_gateway, ?d) = Ok (plain_gateway, ?d)"
    using ctx d
    by (simp_all add: inspect_rules_def inspect_protocol_def inspect_rate_limit_def
        inspect_plugins_def inspect_llm_def inspect_ml_def with_site_def bot_site_facts
        plain_gateway_facts plain_engine demo_world_facts add_reasons_def)
  with bot d have "inspect ?w (plain_gateway, c0) = Ok ((plain_gateway, ?d), summarize [r])"
    by (simp add: inspect_def inspection_order_def c_def)
  moreover have "reason_action r = Challenge" using r by (simp add: reason_action_def is_challenge_def)
  then have "v_decision (summarize [r]) = Challenge" using r by (simp add: summarize_def summarize_step_def is_challenge_def)
  ultimately show ?thesis by blast
qed

lemma bot_inspect:
  "\<exists>c1 v. inspect demo_world (plain_gateway, bot_ctx) = Ok ((plain_gateway, c1), v) \<and> v_decision v = Challenge"
proof -
  let ?c = "bot_ctx\<lparr>x_protocol := ''rest''\<rparr>"
  have ctx: "x_site ?c = Some bot_site" "x_reasons ?c = []" by (simp_all add: bot_ctx_def empty_ctx_def)
  have cookie: "\<not> solved_cookie (x_request ?c)"
    unfolding bot_ctx_def proof_read_def proof_post_def demo_request_def by code_simp
  have "bot_score (bot_signal ?c) = 1/4"
    unfolding bot_ctx_def proof_read_def proof_post_def demo_request_def empty_ctx_def by code_simp
  from bot_inspect_ctx [OF ctx cookie this, of "wd_rand demo_world"] show ?thesis by simp
qed

theorem posted_proof_ignored_witness:
  "\<exists>g1 c1 v bc c2. inspect demo_world (plain_gateway, bot_ctx) = Ok ((g1, c1), v) \<and>
     after_body demo_world bot_site (plain_gateway, bot_ctx, fresh_writer) =
       session_end (issue_page demo_world bc (g1, c2, fresh_writer))"
proof -
  from bot_inspect obtain c1 v where i: "inspect demo_world (plain_gateway, bot_ctx) = Ok ((plain_gateway, c1), v)"
    "v_decision v = Challenge" by blast
  have "read_body proof_post (s_max_body_bytes bot_site) = Ok (proof_read, ''_pow=1'', False)"
    by (simp add: read_body_def proof_post_def proof_read_def bot_site_facts)
  moreover have "req_form proof_post = None" "req_url proof_post = Some demo_url"
    by (simp_all add: proof_post_def demo_request_def)
  moreover have "query_get demo_url ''_pow'' = []" by code_simp
  moreover have "x_request bot_ctx = proof_read" by (simp add: bot_ctx_def)
  ultimately show ?thesis
    using posted_proof_ignored [OF _ _ _ _ _ i bot_site_facts(4), of proof_post proof_read "''_pow=1''" demo_url fresh_writer] i(1)
    by blast
qed

definition quoting_path :: string where
  "quoting_path = ''/'' @ [CHR 0x27] @ '';alert(document.cookie);//''"

definition quoting_ctx :: inspect_ctx where
  "quoting_ctx = empty_ctx\<lparr>x_request := demo_request\<lparr>req_method := ''GET'', req_url := Some (demo_url\<lparr>url_path := quoting_path\<rparr>)\<rparr>,
     x_site := Some bot_site, x_path := quoting_path\<rparr>"

theorem challenge_page_reflects_path_witness:
  "\<exists>g2 wr2 pre post. after_body (demo_world\<lparr>wd_rand := Some [0]\<rparr>) bot_site (plain_gateway, quoting_ctx, fresh_writer) =
       Served g2 wr2 \<and>
     wr_body wr2 = pre @ ''form.action='' @ [CHR 0x27] @ ''/'' @ [CHR 0x27] @ '';alert(document.cookie);//'' @ [CHR 0x27] @ post"
proof -
  let ?c = "quoting_ctx\<lparr>x_protocol := ''rest''\<rparr>"
  have ctx: "x_site ?c = Some bot_site" "x_reasons ?c = []" by (simp_all add: quoting_ctx_def empty_ctx_def)
  have cookie: "\<not> solved_cookie (x_request ?c)"
    unfolding quoting_ctx_def demo_request_def by code_simp
  have "bot_score (bot_signal ?c) = 1/4"
    unfolding quoting_ctx_def demo_request_def empty_ctx_def by code_simp
  from bot_inspect_ctx [OF ctx cookie this, of "Some [0]"] obtain c1 v where
    i: "inspect (demo_world\<lparr>wd_rand := Some [0]\<rparr>) (plain_gateway, quoting_ctx) = Ok ((plain_gateway, c1), v)"
      "v_decision v = Challenge" by blast
  have "req_method (x_request quoting_ctx) \<noteq> ''POST''" by (simp add: quoting_ctx_def demo_request_def)
  from challenge_page_reflects_path [OF i bot_site_facts(4) this, of "[0]" fresh_writer]
  obtain g2 wr2 nonce d where
    "after_body (demo_world\<lparr>wd_rand := Some [0]\<rparr>) bot_site (plain_gateway, quoting_ctx, fresh_writer) = Served g2 wr2"
    "wr_body wr2 = page_before nonce d @ ''form.action='' @ [CHR 0x27] @ quoting_path @ [CHR 0x27] @ '';'' @ page_after"
    by (auto simp: fresh_writer_def quoting_ctx_def)
  then show ?thesis unfolding quoting_path_def append_assoc by blast
qed

end
