(* ===== verification/AgentStore.thy ===== *)
theory AgentStore
  imports BotScoring
begin

text \<open>
  Package store: the tables of the manager (agents, enrollment tokens, agent events) and the
  operations on them. A table is the list of its rows in insertion order. Every operation
  runs under the store's mutex in one statement or transaction, so it is one step, and its
  first argument says whether the database answered; when it did not, nothing changed.
  SHA-256, the clock and random bytes are arguments.
\<close>

record agent_row =
  ag_id :: string
  ag_name :: string
  ag_ip :: string
  ag_status :: string
  ag_hostname :: string
  ag_os :: string
  ag_secret_hash :: string
  ag_created :: int
  ag_last_seen :: int

record token_row =
  tk_hash :: string
  tk_agent :: string
  tk_expires :: int
  tk_used :: bool

record event_row =
  er_id :: int
  er_agent :: string
  er_ts :: int
  er_type :: string
  er_payload :: string

record agent_db =
  db_agents :: "agent_row list"
  db_tokens :: "token_row list"
  db_events :: "event_row list"
  db_next_event :: int

definition empty_db :: agent_db where
  "empty_db = \<lparr>db_agents = [], db_tokens = [], db_events = [], db_next_event = 1\<rparr>"

datatype store_error =
  DbError | InvalidToken | TokenUsed | TokenExpired | UnknownSecret | AgentNotFound | BadPayload

type_synonym sha = "byte list \<Rightarrow> byte list"

definition token_hash :: "sha \<Rightarrow> string \<Rightarrow> string" where
  "token_hash sha s = hex_encode (sha (str_to_bytes s))"

subsection \<open>Operations\<close>

text \<open>Both primary keys are checked by the database; a conflict rolls the transaction back.\<close>

definition create_agent ::
    "bool \<Rightarrow> sha \<Rightarrow> int \<Rightarrow> byte list \<Rightarrow> byte list \<Rightarrow> string \<Rightarrow> string \<Rightarrow> agent_db \<Rightarrow>
     agent_db \<times> (store_error, string \<times> string) go" where
  "create_agent ok sha now id_bytes token_bytes name ip db =
     (let i = hex_encode id_bytes; tok = hex_encode token_bytes; h = token_hash sha tok in
      if \<not> ok \<or> i \<in> ag_id ` set (db_agents db) \<or> h \<in> tk_hash ` set (db_tokens db)
      then (db, Fail DbError)
      else (db\<lparr>db_agents := db_agents db @
                 [\<lparr>ag_id = i, ag_name = name, ag_ip = ip, ag_status = ''pending'', ag_hostname = [],
                   ag_os = [], ag_secret_hash = [], ag_created = now, ag_last_seen = 0\<rparr>],
               db_tokens := db_tokens db @
                 [\<lparr>tk_hash = h, tk_agent = i, tk_expires = now + 86400, tk_used = False\<rparr>]\<rparr>,
            Ok (i, tok)))"

definition mark_used :: "string \<Rightarrow> token_row list \<Rightarrow> token_row list" where
  "mark_used h ts = map (\<lambda>t. if tk_hash t = h then t\<lparr>tk_used := True\<rparr> else t) ts"

definition consume_enroll_token ::
    "bool \<Rightarrow> sha \<Rightarrow> int \<Rightarrow> string \<Rightarrow> agent_db \<Rightarrow> agent_db \<times> (store_error, string) go" where
  "consume_enroll_token ok sha now tok db =
     (let h = token_hash sha tok in
      if \<not> ok then (db, Fail DbError)
      else case find (\<lambda>t. tk_hash t = h) (db_tokens db) of
             None \<Rightarrow> (db, Fail InvalidToken)
           | Some t \<Rightarrow>
               if tk_used t then (db, Fail TokenUsed)
               else if now > tk_expires t then (db, Fail TokenExpired)
               else (db\<lparr>db_tokens := mark_used h (db_tokens db)\<rparr>, Ok (tk_agent t)))"

definition update_agent :: "string \<Rightarrow> (agent_row \<Rightarrow> agent_row) \<Rightarrow> agent_db \<Rightarrow> agent_db" where
  "update_agent i f db =
     db\<lparr>db_agents := map (\<lambda>a. if ag_id a = i then f a else a) (db_agents db)\<rparr>"

definition enroll_agent ::
    "bool \<Rightarrow> sha \<Rightarrow> int \<Rightarrow> string \<Rightarrow> string \<Rightarrow> agent_db \<Rightarrow> agent_db \<times> store_error option" where
  "enroll_agent ok sha now i secret db =
     (if \<not> ok then (db, Some DbError)
      else (update_agent i (\<lambda>a. a\<lparr>ag_secret_hash := token_hash sha secret, ag_status := ''online'',
                                   ag_last_seen := now\<rparr>) db, None))"

definition agent_id_by_secret :: "bool \<Rightarrow> sha \<Rightarrow> string \<Rightarrow> agent_db \<Rightarrow> (store_error, string) go" where
  "agent_id_by_secret ok sha secret db =
     (if \<not> ok then Fail DbError
      else case find (\<lambda>a. ag_secret_hash a = token_hash sha secret) (db_agents db) of
             None \<Rightarrow> Fail UnknownSecret
           | Some a \<Rightarrow> Ok (ag_id a))"

definition touch ::
    "bool \<Rightarrow> int \<Rightarrow> string \<Rightarrow> string \<Rightarrow> string \<Rightarrow> string \<Rightarrow> agent_db \<Rightarrow> agent_db \<times> store_error option" where
  "touch ok now i ip hostname os db =
     (if \<not> ok then (db, Some DbError)
      else (update_agent i (\<lambda>a. a\<lparr>ag_last_seen := now, ag_status := ''online'', ag_hostname := hostname,
                                   ag_os := os, ag_ip := ip\<rparr>) db, None))"

definition set_status :: "bool \<Rightarrow> string \<Rightarrow> string \<Rightarrow> agent_db \<Rightarrow> agent_db \<times> store_error option" where
  "set_status ok i st db =
     (if \<not> ok then (db, Some DbError) else (update_agent i (\<lambda>a. a\<lparr>ag_status := st\<rparr>) db, None))"

definition get_agent :: "bool \<Rightarrow> string \<Rightarrow> agent_db \<Rightarrow> (store_error, agent_row) go" where
  "get_agent ok i db =
     (if \<not> ok then Fail DbError
      else case find (\<lambda>a. ag_id a = i) (db_agents db) of
             None \<Rightarrow> Fail AgentNotFound | Some a \<Rightarrow> Ok a)"

text \<open>\<open>ORDER BY last_seen DESC, created_at DESC\<close>; equal keys keep the order of the table.\<close>

definition list_agents :: "bool \<Rightarrow> agent_db \<Rightarrow> (store_error, agent_row list) go" where
  "list_agents ok db =
     (if \<not> ok then Fail DbError
      else Ok (sort_key (\<lambda>a. - ag_last_seen a) (sort_key (\<lambda>a. - ag_created a) (db_agents db))))"

definition delete_agent :: "bool \<Rightarrow> string \<Rightarrow> agent_db \<Rightarrow> agent_db \<times> store_error option" where
  "delete_agent ok i db =
     (if \<not> ok then (db, Some DbError)
      else (db\<lparr>db_tokens := filter (\<lambda>t. tk_agent t \<noteq> i) (db_tokens db),
               db_events := filter (\<lambda>e. er_agent e \<noteq> i) (db_events db),
               db_agents := filter (\<lambda>a. ag_id a \<noteq> i) (db_agents db)\<rparr>, None))"

text \<open>\<open>payload\<close> is the marshalled JSON text, \<open>None\<close> when it cannot be marshalled.\<close>

definition add_event ::
    "bool \<Rightarrow> int \<Rightarrow> string \<Rightarrow> string \<Rightarrow> string option \<Rightarrow> agent_db \<Rightarrow> agent_db \<times> store_error option" where
  "add_event ok now_ms i typ payload db =
     (case payload of
        None \<Rightarrow> (db, Some BadPayload)
      | Some p \<Rightarrow>
          if \<not> ok then (db, Some DbError)
          else (db\<lparr>db_events := db_events db @
                     [\<lparr>er_id = db_next_event db, er_agent = i, er_ts = now_ms, er_type = typ,
                       er_payload = p\<rparr>],
                   db_next_event := db_next_event db + 1\<rparr>, None))"

text \<open>\<open>ORDER BY ts DESC, id DESC LIMIT ?\<close>.\<close>

definition recent_first :: "event_row list \<Rightarrow> event_row list" where
  "recent_first es = sort_key (\<lambda>e. - er_ts e) (sort_key (\<lambda>e. - er_id e) es)"

definition list_events :: "bool \<Rightarrow> string \<Rightarrow> int \<Rightarrow> agent_db \<Rightarrow> (store_error, event_row list) go" where
  "list_events ok i n db =
     (let k = nat (if n \<le> 0 then 100 else n) in
      if \<not> ok then Fail DbError
      else Ok (take k (recent_first (filter (\<lambda>e. er_agent e = i) (db_events db)))))"

definition list_all_events :: "bool \<Rightarrow> int \<Rightarrow> agent_db \<Rightarrow> (store_error, event_row list) go" where
  "list_all_events ok n db =
     (let k = nat (if n \<le> 0 then 100 else n) in
      if \<not> ok then Fail DbError else Ok (take k (recent_first (db_events db))))"

subsection \<open>Tokens are spent by consuming them\<close>

definition held_tokens :: "sha \<Rightarrow> agent_db \<Rightarrow> string set" where
  "held_tokens sha db = {tok. \<exists>t \<in> set (db_tokens db). tk_hash t = token_hash sha tok \<and> \<not> tk_used t}"

definition try_token :: "sha \<Rightarrow> bool \<times> int \<Rightarrow> string \<Rightarrow> agent_db \<Rightarrow> agent_db \<times> bool" where
  "try_token sha p tok db =
     (case p of (ok, now) \<Rightarrow>
        (case consume_enroll_token ok sha now tok db of (db', r) \<Rightarrow> (db', \<exists>i. r = Ok i)))"

lemma consume_cases:
  "consume_enroll_token ok sha now tok db = (db', Ok i) \<longleftrightarrow>
     (\<exists>t. ok \<and> find (\<lambda>t. tk_hash t = token_hash sha tok) (db_tokens db) = Some t \<and> \<not> tk_used t \<and>
        now \<le> tk_expires t \<and> i = tk_agent t \<and>
        db' = db\<lparr>db_tokens := mark_used (token_hash sha tok) (db_tokens db)\<rparr>)"
  by (auto simp: consume_enroll_token_def Let_def split: option.splits)

lemma consume_fails:
  "consume_enroll_token ok sha now tok db = (db', Fail e) \<Longrightarrow> db' = db"
  by (auto simp: consume_enroll_token_def Let_def split: option.splits if_splits)

lemma consume_no_Panic: "consume_enroll_token ok sha now tok db \<noteq> (db', Panic)"
  by (auto simp: consume_enroll_token_def Let_def split: option.splits)

lemma held_mark_used:
  "held_tokens sha (db\<lparr>db_tokens := mark_used (token_hash sha tok) (db_tokens db)\<rparr>) =
     {t \<in> held_tokens sha db. token_hash sha t \<noteq> token_hash sha tok}"
  by (auto simp: held_tokens_def mark_used_def)

lemma find_in: "find P xs = Some x \<Longrightarrow> x \<in> set xs \<and> P x"
  by (induction xs) (auto split: if_splits)

interpretation tokens: single_use "held_tokens sha" "try_token sha" for sha
proof unfold_locales
  fix p :: "bool \<times> int" and tok and db :: agent_db
  obtain ok now where p: "p = (ok, now)" by (cases p)
  obtain db' r where r: "consume_enroll_token ok sha now tok db = (db', r)"
    by (cases "consume_enroll_token ok sha now tok db")
  show "snd (try_token sha p tok db) \<Longrightarrow> tok \<in> held_tokens sha db"
    using r by (auto simp: try_token_def p consume_cases held_tokens_def dest!: find_in)
  show "snd (try_token sha p tok db) \<Longrightarrow> tok \<notin> held_tokens sha (fst (try_token sha p tok db))"
    using r by (auto simp: try_token_def p consume_cases held_mark_used)
  have "fst (try_token sha p tok db) = db'" by (simp add: try_token_def p r)
  then show "held_tokens sha (fst (try_token sha p tok db)) \<subseteq> held_tokens sha db"
    using r consume_fails [of ok sha now tok db db'] consume_no_Panic [of ok sha now tok db db']
    by (cases r) (auto simp: consume_cases held_mark_used)
qed

subsection \<open>Frames\<close>

lemma update_agent_simps [simp]:
  "db_tokens (update_agent i f db) = db_tokens db" "db_events (update_agent i f db) = db_events db"
  "db_next_event (update_agent i f db) = db_next_event db"
  by (simp_all add: update_agent_def)

lemma statement_tokens [simp]:
  "db_tokens (fst (enroll_agent ok sha now i s db)) = db_tokens db"
  "db_tokens (fst (touch ok now i ip h os db)) = db_tokens db"
  "db_tokens (fst (set_status ok i st db)) = db_tokens db"
  "db_tokens (fst (add_event ok now i typ p db)) = db_tokens db"
  by (simp_all add: enroll_agent_def touch_def set_status_def add_event_def split: option.split)

lemma statement_events [simp]:
  "db_events (fst (enroll_agent ok sha now i s db)) = db_events db"
  "db_events (fst (touch ok now i ip h os db)) = db_events db"
  "db_events (fst (set_status ok i st db)) = db_events db"
  by (simp_all add: enroll_agent_def touch_def set_status_def)

lemma statement_agents [simp]: "db_agents (fst (add_event ok now i typ p db)) = db_agents db"
  by (simp add: add_event_def split: option.split)

lemma update_agent_rows:
  assumes "a \<in> set (db_agents (update_agent i f db))"
  shows "(\<exists>x \<in> set (db_agents db). ag_id x = i \<and> a = f x) \<or> (a \<in> set (db_agents db) \<and> ag_id a \<noteq> i)"
  using assms by (auto simp: update_agent_def split: if_splits)

lemma enroll_agent_rows:
  assumes "enroll_agent ok sha now i s db = (db', None)" and "a \<in> set (db_agents db')" and "ag_id a = i"
  shows "ag_secret_hash a = token_hash sha s \<and> ag_status a = ''online''"
proof -
  let ?f = "\<lambda>a. a\<lparr>ag_secret_hash := token_hash sha s, ag_status := ''online'', ag_last_seen := now\<rparr>"
  have "db' = update_agent i ?f db" using assms(1) by (simp add: enroll_agent_def split: if_splits)
  with update_agent_rows [of a i ?f db] assms(2,3) obtain x where "a = ?f x" by blast
  then show ?thesis by simp
qed

lemma set_status_rows:
  assumes "a \<in> set (db_agents (fst (set_status True i st db)))" and "ag_id a = i"
  shows "ag_status a = st"
proof -
  let ?f = "\<lambda>a. a\<lparr>ag_status := st\<rparr>"
  have "a \<in> set (db_agents (update_agent i ?f db))" using assms(1) by (simp add: set_status_def)
  from update_agent_rows [OF this] assms(2) obtain x where "a = ?f x" by blast
  then show ?thesis by simp
qed

lemma touch_rows:
  assumes "a \<in> set (db_agents (fst (touch ok now i ip h os db)))"
  shows "\<exists>x \<in> set (db_agents db). ag_id x = ag_id a \<and> ag_secret_hash x = ag_secret_hash a \<and>
    (ag_status a = ''online'' \<or> ag_status a = ag_status x)"
proof (cases ok)
  case True
  let ?f = "\<lambda>a. a\<lparr>ag_last_seen := now, ag_status := ''online'', ag_hostname := h, ag_os := os, ag_ip := ip\<rparr>"
  have "a \<in> set (db_agents (update_agent i ?f db))" using assms True by (simp add: touch_def)
  from update_agent_rows [OF this] show ?thesis
  proof
    assume "\<exists>x \<in> set (db_agents db). ag_id x = i \<and> a = ?f x"
    then obtain x where "x \<in> set (db_agents db)" "a = ?f x" by blast
    then show ?thesis by (intro bexI [of _ x]) simp_all
  qed blast
next
  case False
  then have "a \<in> set (db_agents db)" using assms by (simp add: touch_def)
  then show ?thesis by blast
qed

text \<open>
  The integrity of the tables: ids and token hashes are distinct, a token belongs to an agent,
  event ids increase and stay below the counter, and a pending agent has no secret.
\<close>

definition db_wf :: "agent_db \<Rightarrow> bool" where
  "db_wf db \<longleftrightarrow>
     distinct (map ag_id (db_agents db)) \<and> distinct (map tk_hash (db_tokens db)) \<and>
     tk_agent ` set (db_tokens db) \<subseteq> ag_id ` set (db_agents db) \<and>
     sorted_wrt (<) (map er_id (db_events db)) \<and> (\<forall>e \<in> set (db_events db). er_id e < db_next_event db) \<and>
     (\<forall>a \<in> set (db_agents db). ag_status a = ''pending'' \<longrightarrow> ag_secret_hash a = [])"

lemma empty_db_wf: "db_wf empty_db"
  by (simp add: db_wf_def empty_db_def)

lemma update_agent_wf:
  assumes "db_wf db" and "\<And>a. ag_id (f a) = ag_id a" and "\<And>a. ag_status (f a) \<noteq> ''pending''"
  shows "db_wf (update_agent i f db)"
proof -
  have "map ag_id (db_agents (update_agent i f db)) = map ag_id (db_agents db)"
    using assms(2) by (simp add: update_agent_def comp_def if_distrib cong: if_cong)
  then have "distinct (map ag_id (db_agents (update_agent i f db)))"
    "ag_id ` set (db_agents (update_agent i f db)) = ag_id ` set (db_agents db)"
    using assms(1) by (simp add: db_wf_def, metis set_map)
  moreover have "\<forall>a \<in> set (db_agents (update_agent i f db)). ag_status a = ''pending'' \<longrightarrow> ag_secret_hash a = []"
    using assms(1,3) by (auto simp: update_agent_def db_wf_def)
  ultimately show ?thesis using assms(1) by (simp add: db_wf_def)
qed

lemma statements_wf:
  assumes "db_wf db"
  shows "db_wf (fst (enroll_agent ok sha now i s db))" "db_wf (fst (touch ok now i ip h os db))"
    "db_wf (fst (set_status ok i ''offline'' db))" "db_wf (fst (add_event ok now i typ p db))"
    "db_wf (fst (delete_agent ok i db))" "db_wf (fst (consume_enroll_token ok sha now tok db))"
    "db_wf (fst (create_agent ok sha now ib tb name ip db))"
proof -
  show "db_wf (fst (enroll_agent ok sha now i s db))" "db_wf (fst (touch ok now i ip h os db))"
    "db_wf (fst (set_status ok i ''offline'' db))"
    using assms by (auto simp: enroll_agent_def touch_def set_status_def intro!: update_agent_wf)
  show "db_wf (fst (add_event ok now i typ p db))"
    using assms by (auto simp: add_event_def db_wf_def sorted_wrt_append split: option.split)
  show "db_wf (fst (delete_agent ok i db))"
    using assms
    by (auto simp: delete_agent_def db_wf_def distinct_map_filter image_subset_iff sorted_wrt_map
        intro: sorted_wrt_filter)
  have "map tk_hash (mark_used h ts) = map tk_hash ts" "map tk_agent (mark_used h ts) = map tk_agent ts" for h ts
    by (simp_all add: mark_used_def)
  then have "map tk_hash (mark_used h ts) = map tk_hash ts" "tk_agent ` set (mark_used h ts) = tk_agent ` set ts" for h ts
    by (simp, metis set_map)
  then show "db_wf (fst (consume_enroll_token ok sha now tok db))"
    using assms by (auto simp: consume_enroll_token_def db_wf_def Let_def split: option.split)
  show "db_wf (fst (create_agent ok sha now ib tb name ip db))"
    using assms by (auto simp: create_agent_def db_wf_def Let_def)
qed

end
