(* ===== verification/AgentServer.thy ===== *)
theory AgentServer
  imports AgentStore Http
begin

text \<open>
  Package agent: the manager's side of the agent channel (server.go). Enrollment exchanges a
  one-time token for a long-term secret behind an attempt limiter per address; a stream
  authenticates by the secret, updates liveness and stores events. gRPC is outside: a
  call is its request, the peer's address and its metadata, a stream the list of what its
  receives return.
\<close>

subsection \<open>The server\<close>

record agent_server =
  sv_db :: agent_db
  sv_attempts :: "string \<Rightarrow> int list"

definition max_attempts :: nat where
  "max_attempts = 20"

definition attempt_window :: int where
  "attempt_window = 3600000000000"

definition new_agent_server :: "agent_db \<Rightarrow> agent_server" where
  "new_agent_server db = \<lparr>sv_db = db, sv_attempts = (\<lambda>_. [])\<rparr>"

definition peer_ip :: "string option \<Rightarrow> string" where
  "peer_ip peer =
     (case peer of None \<Rightarrow> []
      | Some addr \<Rightarrow> (case split_host addr of Some h \<Rightarrow> h | None \<Rightarrow> addr))"

datatype grpc_code = ResourceExhausted | InvalidArgument | Internal | Unauthenticated

text \<open>The attempts inside the window are kept; a refused attempt is not recorded.\<close>

definition allow_attempts :: "int \<Rightarrow> int list \<Rightarrow> int list \<times> bool" where
  "allow_attempts now ts =
     (let keep = filter (\<lambda>t. t > now - attempt_window) ts in
      if length keep \<ge> max_attempts then (keep, False) else (keep @ [now], True))"

definition allow_enroll_attempt :: "int \<Rightarrow> string \<Rightarrow> agent_server \<Rightarrow> agent_server \<times> bool" where
  "allow_enroll_attempt now ip sv =
     (if ip = [] then (sv, False)
      else (case allow_attempts now (sv_attempts sv ip) of
              (ts, b) \<Rightarrow> (sv\<lparr>sv_attempts := (sv_attempts sv)(ip := ts)\<rparr>, b)))"

text \<open>What one call of Enroll sees: clocks, whether the three statements work, a new secret.\<close>

record enroll_io =
  en_peer :: "string option"
  en_now :: int
  en_now_sec :: int
  en_consume_ok :: bool
  en_enroll_ok :: bool
  en_touch_ok :: bool
  en_secret :: "byte list"

record enroll_response =
  es_agent :: string
  es_secret :: string
  es_status :: string

definition enroll ::
    "sha \<Rightarrow> enroll_io \<Rightarrow> string \<Rightarrow> string \<Rightarrow> string \<Rightarrow> agent_server \<Rightarrow>
     agent_server \<times> (grpc_code, enroll_response) go" where
  "enroll sha io tok hostname os sv =
     (let ip = peer_ip (en_peer io) in
      case allow_enroll_attempt (en_now io) ip sv of
        (sv1, False) \<Rightarrow> (sv1, Fail ResourceExhausted)
      | (sv1, True) \<Rightarrow>
          if tok = [] then (sv1, Fail InvalidArgument)
          else (case consume_enroll_token (en_consume_ok io) sha (en_now_sec io) tok (sv_db sv1) of
                  (db, Ok i) \<Rightarrow>
                    let secret = hex_encode (en_secret io) in
                    (case enroll_agent (en_enroll_ok io) sha (en_now_sec io) i secret db of
                       (db', Some _) \<Rightarrow> (sv1\<lparr>sv_db := db'\<rparr>, Fail Internal)
                     | (db', None) \<Rightarrow>
                         (sv1\<lparr>sv_db := fst (touch (en_touch_ok io) (en_now_sec io) i ip hostname os db')\<rparr>,
                          Ok \<lparr>es_agent = i, es_secret = secret, es_status = ''online''\<rparr>))
                | (db, _) \<Rightarrow> (sv1\<lparr>sv_db := db\<rparr>, Fail InvalidArgument)))"

subsection \<open>Streams\<close>

text \<open>\<open>md\<close> is the incoming metadata, whose keys are in lower case.\<close>

datatype auth_error = MissingMetadata | MissingAuthorization | MalformedAuthorization

definition auth_secret :: "(string \<times> string list) list option \<Rightarrow> (auth_error, string) go" where
  "auth_secret md =
     (case md of
        None \<Rightarrow> Fail MissingMetadata
      | Some kvs \<Rightarrow>
          (case map_of kvs ''authorization'' of
             None \<Rightarrow> Fail MissingAuthorization
           | Some [] \<Rightarrow> Fail MissingAuthorization
           | Some (v # _) \<Rightarrow>
               (case str_fields v of
                  [scheme, secret] \<Rightarrow>
                    if equal_fold scheme ''bearer'' \<and> secret \<noteq> [] then Ok secret
                    else Fail MalformedAuthorization
                | _ \<Rightarrow> Fail MalformedAuthorization)))"

datatype agent_msg = Heartbeat string string | SecEvent string string | OtherMsg

text \<open>
  One turn of the receive loop: the message, the clock, whether the statements work and
  whether the acknowledgement can be sent. \<open>marshal\<close> is the JSON encoder on a raw payload,
  \<open>err_text\<close> the encoding of the error report.
\<close>

record stream_io =
  si_msg :: agent_msg
  si_now :: int
  si_ok :: bool
  si_ok2 :: bool
  si_send_ok :: bool

definition handle_message ::
    "(string \<Rightarrow> string option) \<Rightarrow> (store_error \<Rightarrow> string) \<Rightarrow> string \<Rightarrow> string \<Rightarrow> stream_io \<Rightarrow>
     agent_db \<Rightarrow> agent_db" where
  "handle_message marshal err_text i ip io db =
     (case si_msg io of
        Heartbeat hostname os \<Rightarrow> fst (touch (si_ok io) (si_now io div 1000) i ip hostname os db)
      | SecEvent typ payload \<Rightarrow>
          (case add_event (si_ok io) (si_now io) i typ (marshal payload) db of
             (db', None) \<Rightarrow> db'
           | (db', Some e) \<Rightarrow>
               fst (add_event (si_ok2 io) (si_now io) i ''store_error'' (Some (err_text e)) db'))
      | OtherMsg \<Rightarrow> db)"

datatype stream_end = StreamClosed | RecvFailed | SendFailed | Refused grpc_code

text \<open>The loop; \<open>eof\<close> says how the receives end, after the last message.\<close>

fun stream_loop ::
    "(string \<Rightarrow> string option) \<Rightarrow> (store_error \<Rightarrow> string) \<Rightarrow> string \<Rightarrow> string \<Rightarrow> stream_io list \<Rightarrow>
     bool \<Rightarrow> agent_db \<Rightarrow> agent_db \<times> stream_end" where
  "stream_loop marshal err_text i ip [] eof db = (db, if eof then StreamClosed else RecvFailed)"
| "stream_loop marshal err_text i ip (x # xs) eof db =
     (let db' = handle_message marshal err_text i ip x db in
      if si_send_ok x then stream_loop marshal err_text i ip xs eof db' else (db', SendFailed))"

definition open_stream ::
    "bool \<Rightarrow> sha \<Rightarrow> (string \<times> string list) list option \<Rightarrow> agent_db \<Rightarrow> (grpc_code, string) go" where
  "open_stream ok sha md db =
     (case auth_secret md of
        Ok secret \<Rightarrow>
          (case agent_id_by_secret ok sha secret db of
             Ok i \<Rightarrow> Ok i
           | _ \<Rightarrow> Fail Unauthenticated)
      | _ \<Rightarrow> Fail Unauthenticated)"

definition stream_handler ::
    "bool \<Rightarrow> bool \<Rightarrow> sha \<Rightarrow> (string \<Rightarrow> string option) \<Rightarrow> (store_error \<Rightarrow> string) \<Rightarrow>
     (string \<times> string list) list option \<Rightarrow> string option \<Rightarrow> stream_io list \<Rightarrow> bool \<Rightarrow>
     agent_db \<Rightarrow> agent_db \<times> stream_end" where
  "stream_handler auth_ok close_ok sha marshal err_text md peer xs eof db =
     (case open_stream auth_ok sha md db of
        Ok i \<Rightarrow>
          (case stream_loop marshal err_text i (peer_ip peer) xs eof db of
             (db', e) \<Rightarrow> (fst (set_status close_ok i ''offline'' db'), e))
      | Fail c \<Rightarrow> (db, Refused c)
      | Panic \<Rightarrow> (db, Refused Unauthenticated))"

subsection \<open>The manager as a machine\<close>

text \<open>
  What happens to the manager, one step per call or per message of an open stream (streams of
  several agents interleave): enrollments, the management API's creation and deletion of
  agents, messages and ends of streams.
\<close>

datatype manager_op =
  CallEnroll enroll_io string string string
| CallCreate bool int "byte list" "byte list" string string
| CallDelete bool string
| StreamMessage string string stream_io
| StreamEnd bool string

record manager_world =
  mw_sha :: sha
  mw_marshal :: "string \<Rightarrow> string option"
  mw_err_text :: "store_error \<Rightarrow> string"

fun manager_step :: "manager_world \<Rightarrow> manager_op \<Rightarrow> agent_server \<Rightarrow> agent_server" where
  "manager_step w (CallEnroll io tok h os) sv = fst (enroll (mw_sha w) io tok h os sv)"
| "manager_step w (CallCreate ok now ib tb name ip) sv =
     sv\<lparr>sv_db := fst (create_agent ok (mw_sha w) now ib tb name ip (sv_db sv))\<rparr>"
| "manager_step w (CallDelete ok i) sv = sv\<lparr>sv_db := fst (delete_agent ok i (sv_db sv))\<rparr>"
| "manager_step w (StreamMessage i ip io) sv =
     sv\<lparr>sv_db := handle_message (mw_marshal w) (mw_err_text w) i ip io (sv_db sv)\<rparr>"
| "manager_step w (StreamEnd ok i) sv = sv\<lparr>sv_db := fst (set_status ok i ''offline'' (sv_db sv))\<rparr>"

text \<open>Whether a step is an enrollment with this token that succeeds.\<close>

definition enrolls_with :: "manager_world \<Rightarrow> string \<Rightarrow> manager_op \<Rightarrow> agent_server \<Rightarrow> bool" where
  "enrolls_with w tok x sv \<longleftrightarrow>
     (case x of
        CallEnroll io t h os \<Rightarrow>
          t = tok \<and> (case snd (enroll (mw_sha w) io t h os sv) of Ok _ \<Rightarrow> True | _ \<Rightarrow> False)
      | _ \<Rightarrow> False)"

definition observed_step :: "manager_world \<Rightarrow> string \<Rightarrow> manager_op \<Rightarrow> agent_server \<Rightarrow> agent_server \<times> bool" where
  "observed_step w tok x sv = (manager_step w x sv, enrolls_with w tok x sv)"

subsection \<open>Enrollment as a single-use contract\<close>

lemma allow_attempt_db [simp]: "sv_db (fst (allow_enroll_attempt now ip sv)) = sv_db sv"
  by (simp add: allow_enroll_attempt_def split: prod.split)

definition try_enroll :: "sha \<Rightarrow> enroll_io \<times> string \<times> string \<Rightarrow> string \<Rightarrow> agent_server \<Rightarrow> agent_server \<times> bool" where
  "try_enroll sha p tok sv =
     (case p of (io, h, os) \<Rightarrow> (case enroll sha io tok h os sv of (sv', r) \<Rightarrow> (sv', \<exists>x. r = Ok x)))"

lemma held_tokens_only: "db_tokens db = db_tokens db' \<Longrightarrow> held_tokens sha db = held_tokens sha db'"
  by (simp add: held_tokens_def)

lemma enroll_tokens:
  assumes "enroll sha io tok h os sv = (sv', r)"
  shows "sv_db sv' = sv_db sv \<and> (\<nexists>x. r = Ok x) \<or>
    db_tokens (sv_db sv') = db_tokens (fst (try_token sha (en_consume_ok io, en_now_sec io) tok (sv_db sv))) \<and>
    ((\<exists>x. r = Ok x) \<longrightarrow> snd (try_token sha (en_consume_ok io, en_now_sec io) tok (sv_db sv)))"
proof -
  obtain sv1 b where a: "allow_enroll_attempt (en_now io) (peer_ip (en_peer io)) sv = (sv1, b)"
    by (metis prod.collapse)
  then have db1: "sv_db sv1 = sv_db sv" using allow_attempt_db by (metis fst_conv)
  obtain db cr where c: "consume_enroll_token (en_consume_ok io) sha (en_now_sec io) tok (sv_db sv) = (db, cr)"
    by (metis prod.collapse)
  have et: "db_tokens a = db_tokens db" if "enroll_agent ok sha n i s db = (a, e)" for ok n i s a e
    using that statement_tokens(1) by (metis fst_conv)
  show ?thesis
    using assms a c db1
    by (cases "enroll_agent (en_enroll_ok io) sha (en_now_sec io) (case cr of Ok i \<Rightarrow> i) (hex_encode (en_secret io)) db")
       (auto simp: enroll_def Let_def try_token_def split: bool.splits if_splits go.splits option.splits dest!: et)
qed

interpretation enrollment: single_use "\<lambda>sv. held_tokens sha (sv_db sv)" "try_enroll sha" for sha
proof unfold_locales
  fix p :: "enroll_io \<times> string \<times> string" and tok and sv :: agent_server
  obtain io h os where p: "p = (io, h, os)" by (metis prod_cases3)
  let ?t = "(en_consume_ok io, en_now_sec io)"
  obtain sv' r where e: "enroll sha io tok h os sv = (sv', r)" by (metis prod.collapse)
  from enroll_tokens [OF e] tokens.redeem_held [of sha ?t tok "sv_db sv"]
    tokens.redeem_spends [of sha ?t tok "sv_db sv"] tokens.redeem_keeps [of sha ?t tok "sv_db sv"]
    held_tokens_only [of "sv_db sv'" "fst (try_token sha ?t tok (sv_db sv))" sha]
  show "snd (try_enroll sha p tok sv) \<Longrightarrow> tok \<in> held_tokens sha (sv_db sv)"
    and "snd (try_enroll sha p tok sv) \<Longrightarrow> tok \<notin> held_tokens sha (sv_db (fst (try_enroll sha p tok sv)))"
    and "held_tokens sha (sv_db (fst (try_enroll sha p tok sv))) \<subseteq> held_tokens sha (sv_db sv)"
    by (auto simp: try_enroll_def p e)
qed

lemma handle_message_tokens [simp]:
  "db_tokens (handle_message marshal err i ip io db) = db_tokens db"
proof (cases "si_msg io")
  case (SecEvent ty payload)
  obtain db' e where a: "add_event (si_ok io) (si_now io) i ty (marshal payload) db = (db', e)" by (metis prod.collapse)
  then have "db_tokens db' = db_tokens db" using statement_tokens(4) by (metis fst_conv)
  with SecEvent a show ?thesis by (simp add: handle_message_def split: option.split)
qed (simp_all add: handle_message_def)

lemma other_ops_keep_token:
  assumes "\<And>ok now ib tb n ip. x = CallCreate ok now ib tb n ip \<Longrightarrow>
      token_hash (mw_sha w) (hex_encode tb) \<noteq> token_hash (mw_sha w) tok"
    and "tok \<in> held_tokens (mw_sha w) (sv_db (manager_step w x sv))"
  shows "tok \<in> held_tokens (mw_sha w) (sv_db sv)"
proof (cases x)
  case (CallEnroll io t h os)
  from assms(2) enrollment.redeem_keeps [of "mw_sha w" "(io, h, os)" t sv] show ?thesis
    by (auto simp: CallEnroll try_enroll_def split: prod.splits)
next
  case (CallCreate ok now ib tb n ip)
  from assms(1) [OF CallCreate] assms(2) show ?thesis
    by (auto simp: CallCreate held_tokens_def create_agent_def Let_def split: if_splits)
next
  case (CallDelete ok i)
  from assms(2) show ?thesis
    by (auto simp: CallDelete held_tokens_def delete_agent_def split: if_splits)
qed (use assms(2) in \<open>simp_all add: held_tokens_def\<close>)

subsection \<open>Properties\<close>

text \<open>
  C15. An enrollment token works at most once: in every run of the manager, from any state of
  its database and with calls and streams interleaved in any way, at most one enrollment with
  a given token succeeds, as long as no agent is created with a token of the same hash.
\<close>

theorem enroll_token_once:
  assumes "\<forall>ok now ib tb n ip. CallCreate ok now ib tb n ip \<in> set ops \<longrightarrow>
    token_hash (mw_sha w) (hex_encode tb) \<noteq> token_hash (mw_sha w) tok"
  shows "length (filter (\<lambda>b. b) (run_results (observed_step w tok) ops sv)) \<le> 1"
proof -
  have "length (filter (\<lambda>b. b) (run_results (observed_step w tok) ops sv)) \<le>
      (if tok \<in> held_tokens (mw_sha w) (sv_db sv) then 1 else 0)"
  proof (rule enrollment.at_most_once)
    fix x and s :: agent_server
    assume x: "x \<in> set ops"
    show "(\<exists>p. observed_step w tok x s = try_enroll (mw_sha w) p tok s) \<or>
      \<not> snd (observed_step w tok x s) \<and>
      (tok \<in> held_tokens (mw_sha w) (sv_db (fst (observed_step w tok x s))) \<longrightarrow>
       tok \<in> held_tokens (mw_sha w) (sv_db s))"
    proof (cases "\<exists>io h os. x = CallEnroll io tok h os")
      case True
      then obtain io h os where c: "x = CallEnroll io tok h os" by blast
      then have "observed_step w tok x s = try_enroll (mw_sha w) (io, h, os) tok s"
        by (auto simp: observed_step_def enrolls_with_def try_enroll_def split: prod.split go.split)
      then show ?thesis by blast
    next
      case False
      then have "\<not> snd (observed_step w tok x s)"
        by (auto simp: observed_step_def enrolls_with_def split: manager_op.split)
      moreover have "tok \<in> held_tokens (mw_sha w) (sv_db s)"
        if "tok \<in> held_tokens (mw_sha w) (sv_db (manager_step w x s))"
        by (rule other_ops_keep_token [OF _ that]) (use x assms in blast)
      ultimately show ?thesis by (simp add: observed_step_def)
    qed
  qed
  then show ?thesis by (rule order_trans) simp
qed

text \<open>A database with one agent to enroll, and a world whose hash is the identity.\<close>

definition plain_world :: manager_world where
  "plain_world = \<lparr>mw_sha = (\<lambda>b. b), mw_marshal = Some, mw_err_text = (\<lambda>_. [])\<rparr>"

definition demo_enroll_io :: enroll_io where
  "demo_enroll_io = \<lparr>en_peer = Some ''10.0.0.9:5000'', en_now = 1000, en_now_sec = 0,
     en_consume_ok = True, en_enroll_ok = True, en_touch_ok = True, en_secret = [7]\<rparr>"

definition demo_server :: agent_server where
  "demo_server = manager_step plain_world (CallCreate True 0 [1] [2] ''web'' []) (new_agent_server empty_db)"

theorem enroll_token_once_witness:
  "run_results (observed_step plain_world ''02'')
     [CallEnroll demo_enroll_io ''02'' [] [], CallEnroll demo_enroll_io ''02'' [] []] demo_server
       = [True, False] \<and>
   length (filter (\<lambda>b. b) (run_results (observed_step plain_world ''02'')
     [CallEnroll demo_enroll_io ''02'' [] [], CallEnroll demo_enroll_io ''02'' [] []] demo_server)) \<le> 1"
proof
  show "run_results (observed_step plain_world ''02'')
     [CallEnroll demo_enroll_io ''02'' [] [], CallEnroll demo_enroll_io ''02'' [] []] demo_server
       = [True, False]"
    by code_simp
  show "length (filter (\<lambda>b. b) (run_results (observed_step plain_world ''02'')
     [CallEnroll demo_enroll_io ''02'' [] [], CallEnroll demo_enroll_io ''02'' [] []] demo_server)) \<le> 1"
    by (rule enroll_token_once) simp
qed

text \<open>Enrollment attempts per address.\<close>

lemma allow_attempts_window:
  assumes "allow_attempts now ts = (ts', b)" and "now \<le> T + attempt_window"
  shows "length (filter (\<lambda>t. T < t \<and> t \<le> T + attempt_window) ts') =
    length (filter (\<lambda>t. T < t \<and> t \<le> T + attempt_window) ts) + (if b \<and> T < now then 1 else 0)"
proof -
  let ?P = "\<lambda>t. T < t \<and> t \<le> T + attempt_window"
  have "filter ?P (filter (\<lambda>t. t > now - attempt_window) ts) = filter ?P ts"
    unfolding filter_filter by (rule filter_cong) (use assms(2) in auto)
  then show ?thesis using assms by (auto simp: allow_attempts_def Let_def split: if_splits)
qed

lemma allow_attempts_length:
  assumes "allow_attempts now ts = (ts', b)" and "length ts \<le> max_attempts"
  shows "length ts' \<le> max_attempts"
proof -
  have "length (filter (\<lambda>t. t > now - attempt_window) ts) \<le> max_attempts"
    using assms(2) length_filter_le le_trans by blast
  then show ?thesis using assms(1) by (auto simp: allow_attempts_def Let_def split: if_splits)
qed

definition attempt_step :: "int \<times> string \<Rightarrow> agent_server \<Rightarrow> agent_server \<times> bool" where
  "attempt_step x sv = allow_enroll_attempt (fst x) (snd x) sv"

definition admitted_in :: "int \<Rightarrow> string \<Rightarrow> (int \<times> string) list \<Rightarrow> bool list \<Rightarrow> nat" where
  "admitted_in T ip xs rs =
     length (filter (\<lambda>((t, i), b). b \<and> i = ip \<and> T < t \<and> t \<le> T + attempt_window) (zip xs rs))"

lemma attempt_step_cases:
  "attempt_step (t, i) sv = (sv', b) \<Longrightarrow>
     (i = [] \<and> sv' = sv \<and> \<not> b) \<or>
     (i \<noteq> [] \<and> (\<exists>ts. allow_attempts t (sv_attempts sv i) = (ts, b) \<and>
        sv' = sv\<lparr>sv_attempts := (sv_attempts sv)(i := ts)\<rparr>))"
  by (auto simp: attempt_step_def allow_enroll_attempt_def split: prod.splits if_splits)

lemma late_attempts_outside:
  "\<forall>x \<in> set xs. fst x > T + attempt_window \<Longrightarrow> admitted_in T ip xs rs = 0"
  by (auto simp: admitted_in_def filter_empty_conv dest!: set_zip_leftD)

lemma admitted_bound:
  assumes "sorted (map fst xs)" and "length (sv_attempts sv ip) \<le> max_attempts"
  shows "admitted_in T ip xs (run_results attempt_step xs sv) +
    length (filter (\<lambda>t. T < t \<and> t \<le> T + attempt_window) (sv_attempts sv ip)) \<le> max_attempts"
  using assms
proof (induction xs arbitrary: sv)
  case Nil
  then show ?case
    by (simp add: admitted_in_def) (metis length_filter_le le_trans)
next
  case (Cons x xs)
  obtain t i where x: "x = (t, i)" by (cases x)
  obtain sv' b where st: "attempt_step x sv = (sv', b)" by (metis prod.collapse)
  let ?P = "\<lambda>t. T < t \<and> t \<le> T + attempt_window"
  show ?case
  proof (cases "t \<le> T + attempt_window")
    case False
    then have "admitted_in T ip (x # xs) (run_results attempt_step (x # xs) sv) = 0"
      using Cons.prems(1) by (intro late_attempts_outside) (auto simp: x)
    then show ?thesis using Cons.prems(2) by simp (metis length_filter_le le_trans)
  next
    case True
    have len: "length (sv_attempts sv' ip) \<le> max_attempts"
      using attempt_step_cases [OF st [unfolded x]] Cons.prems(2) allow_attempts_length by fastforce
    have win: "length (filter ?P (sv_attempts sv' ip)) =
        length (filter ?P (sv_attempts sv ip)) + (if b \<and> i = ip \<and> T < t then 1 else 0)"
      using attempt_step_cases [OF st [unfolded x]] allow_attempts_window [OF _ True] by fastforce
    have "admitted_in T ip (x # xs) (run_results attempt_step (x # xs) sv) =
        (if b \<and> i = ip \<and> T < t then 1 else 0) + admitted_in T ip xs (run_results attempt_step xs sv')"
      using True by (simp add: admitted_in_def x st [unfolded x])
    moreover have "admitted_in T ip xs (run_results attempt_step xs sv') +
        length (filter ?P (sv_attempts sv' ip)) \<le> max_attempts"
      using Cons.prems(1) len by (intro Cons.IH) auto
    ultimately show ?thesis using win by simp
  qed
qed

text \<open>
  C21. Of the enrollment attempts of one address at most 20 are admitted within any hour,
  however the attempts of other addresses are interleaved, when the clock does not go back.
\<close>

theorem enroll_attempts_bounded:
  assumes "sorted (map fst xs)"
  shows "admitted_in T ip xs (run_results attempt_step xs (new_agent_server db)) \<le> 20"
  using admitted_bound [OF assms, of "new_agent_server db" ip T]
  by (simp add: new_agent_server_def max_attempts_def)

theorem enroll_attempts_bounded_witness:
  "admitted_in 0 ''h'' [(1, ''h''), (2, ''h'')] (run_results attempt_step [(1, ''h''), (2, ''h'')]
     (new_agent_server empty_db)) \<le> 20"
  by (rule enroll_attempts_bounded) simp

subsection \<open>Integrity of the tables\<close>

definition manager_run :: "manager_world \<Rightarrow> manager_op list \<Rightarrow> agent_server \<Rightarrow> agent_server" where
  "manager_run w ops sv = foldl (\<lambda>sv x. manager_step w x sv) sv ops"

lemma enroll_wf:
  assumes "db_wf (sv_db sv)"
  shows "db_wf (sv_db (fst (enroll sha io tok h os sv)))"
proof -
  obtain sv1 b where a: "allow_enroll_attempt (en_now io) (peer_ip (en_peer io)) sv = (sv1, b)"
    by (metis prod.collapse)
  then have db1: "sv_db sv1 = sv_db sv" using allow_attempt_db by (metis fst_conv)
  obtain db cr where c: "consume_enroll_token (en_consume_ok io) sha (en_now_sec io) tok (sv_db sv) = (db, cr)"
    by (metis prod.collapse)
  then have db: "db_wf db" using statements_wf(6) [OF assms] by (metis fst_conv)
  have en: "db_wf a" if "enroll_agent ok sha n i s db = (a, e)" for ok n i s a e
    using that statements_wf(1) [OF db] by (metis fst_conv)
  show ?thesis
    using assms db a c db1
    by (auto simp: enroll_def Let_def split: bool.split go.split prod.split option.split
        dest!: en intro!: statements_wf)
qed

lemma handle_message_wf:
  assumes "db_wf db"
  shows "db_wf (handle_message marshal err i ip io db)"
proof (cases "si_msg io")
  case (SecEvent ty payload)
  obtain db' e where a: "add_event (si_ok io) (si_now io) i ty (marshal payload) db = (db', e)"
    by (metis prod.collapse)
  then have "db_wf db'" using statements_wf(4) [OF assms] by (metis fst_conv)
  with SecEvent a show ?thesis
    by (auto simp: handle_message_def split: option.split intro!: statements_wf)
qed (use assms in \<open>auto simp: handle_message_def intro!: statements_wf\<close>)

lemma manager_step_wf: "db_wf (sv_db sv) \<Longrightarrow> db_wf (sv_db (manager_step w x sv))"
  by (cases x) (auto intro: enroll_wf handle_message_wf statements_wf)

lemma manager_run_wf: "db_wf (sv_db sv) \<Longrightarrow> db_wf (sv_db (manager_run w ops sv))"
  by (induction ops arbitrary: sv) (auto simp: manager_run_def manager_step_wf)

lemma hex_encode_empty [simp]: "hex_encode b = [] \<longleftrightarrow> b = []"
  by (cases b) (simp_all add: hex_encode_def hex_byte_def)

lemma open_stream_Ok:
  "open_stream ok sha md db = Ok i \<Longrightarrow>
     \<exists>secret a. auth_secret md = Ok secret \<and> a \<in> set (db_agents db) \<and> ag_id a = i \<and>
       ag_secret_hash a = token_hash sha secret"
  by (auto simp: open_stream_def agent_id_by_secret_def split: go.splits if_splits option.splits
      dest!: find_in)

text \<open>
  The secrets that a run has handed out: the agent and the secret in the response of every
  enrollment that succeeded.
\<close>

definition issued_by :: "manager_world \<Rightarrow> manager_op \<Rightarrow> agent_server \<Rightarrow> (string \<times> string) set" where
  "issued_by w x sv =
     (case x of
        CallEnroll io tok h os \<Rightarrow>
          (case snd (enroll (mw_sha w) io tok h os sv) of
             Ok resp \<Rightarrow> {(es_agent resp, es_secret resp)} | _ \<Rightarrow> {})
      | _ \<Rightarrow> {})"

fun issued :: "manager_world \<Rightarrow> manager_op list \<Rightarrow> agent_server \<Rightarrow> (string \<times> string) set" where
  "issued w [] sv = {}"
| "issued w (x # xs) sv = issued_by w x sv \<union> issued w xs (manager_step w x sv)"

text \<open>What a row says about the secret: the agent and the stored hash.\<close>

definition row_hash :: "agent_row \<Rightarrow> string \<times> string" where
  "row_hash a = (ag_id a, ag_secret_hash a)"

definition row_hashes :: "agent_db \<Rightarrow> (string \<times> string) set" where
  "row_hashes db = row_hash ` set (db_agents db)"

lemma update_agent_hashes:
  assumes "\<And>a. row_hash (f a) = row_hash a"
  shows "row_hashes (update_agent i f db) = row_hashes db"
proof -
  have "row_hash (if ag_id a = i then f a else a) = row_hash a" for a using assms by simp
  then have "map row_hash (db_agents (update_agent i f db)) = map row_hash (db_agents db)"
    by (simp add: update_agent_def del: if_split_asm)
  then show ?thesis unfolding row_hashes_def by (metis set_map)
qed

lemma statement_hashes:
  "row_hashes (fst (touch ok now i ip h os db)) = row_hashes db"
  "row_hashes (fst (set_status ok i st db)) = row_hashes db"
  "row_hashes (fst (add_event ok now i typ p db)) = row_hashes db"
  "row_hashes (fst (delete_agent ok i db)) \<subseteq> row_hashes db"
  "row_hashes (fst (create_agent ok sha n ib tb name ip db)) \<subseteq> row_hashes db \<union> {(hex_encode ib, [])}"
  "row_hashes (fst (enroll_agent ok sha n i s db)) \<subseteq> row_hashes db \<union> {(i, token_hash sha s)}"
  "row_hashes (fst (consume_enroll_token ok sha n tok db)) = row_hashes db"
  by (auto simp: touch_def set_status_def add_event_def row_hash_def update_agent_hashes split: option.split)
     (auto simp: delete_agent_def create_agent_def enroll_agent_def consume_enroll_token_def update_agent_def
       row_hashes_def row_hash_def Let_def split: option.splits if_splits)

lemma enroll_hashes:
  assumes "enroll sha io tok h os sv = (sv', r)"
  shows "row_hashes (sv_db sv') \<subseteq> row_hashes (sv_db sv) \<union>
    (case r of Ok resp \<Rightarrow> {(es_agent resp, token_hash sha (es_secret resp))} | _ \<Rightarrow> {})"
proof -
  obtain sv1 b where a: "allow_enroll_attempt (en_now io) (peer_ip (en_peer io)) sv = (sv1, b)"
    by (metis prod.collapse)
  then have db1: "sv_db sv1 = sv_db sv" using allow_attempt_db by (metis fst_conv)
  obtain db cr where c: "consume_enroll_token (en_consume_ok io) sha (en_now_sec io) tok (sv_db sv) = (db, cr)"
    by (metis prod.collapse)
  then have db: "row_hashes db = row_hashes (sv_db sv)" using statement_hashes(7) by (metis fst_conv)
  have same: "row_hashes a \<subseteq> row_hashes db" if "enroll_agent ok sha n i s db = (a, Some e)" for ok n i s a e
    using that by (auto simp: enroll_agent_def split: if_splits)
  have new: "row_hashes a \<subseteq> row_hashes db \<union> {(i, token_hash sha s)}" if "enroll_agent ok sha n i s db = (a, e)" for ok n i s a e
    using that statement_hashes(6) by (metis fst_conv)
  obtain db' e where e: "enroll_agent (en_enroll_ok io) sha (en_now_sec io) (case cr of Ok i \<Rightarrow> i) (hex_encode (en_secret io)) db = (db', e)"
    by (metis prod.collapse)
  show ?thesis
    using assms a c db1 db e new [OF e] same [of "en_enroll_ok io" "en_now_sec io" "case cr of Ok i \<Rightarrow> i" "hex_encode (en_secret io)" db']
    by (auto simp: enroll_def Let_def statement_hashes(1) split: bool.splits if_splits go.splits option.splits)
qed

lemma handle_message_hashes: "row_hashes (handle_message marshal err i ip io db) = row_hashes db"
proof (cases "si_msg io")
  case (SecEvent ty payload)
  obtain db' e where a: "add_event (si_ok io) (si_now io) i ty (marshal payload) db = (db', e)"
    by (metis prod.collapse)
  then have "row_hashes db' = row_hashes db" using statement_hashes(3) by (metis fst_conv)
  with SecEvent a show ?thesis by (simp add: handle_message_def statement_hashes(3) split: option.split)
qed (simp_all add: handle_message_def statement_hashes(1))

lemma step_hashes:
  "row_hashes (sv_db (manager_step w x sv)) \<subseteq> row_hashes (sv_db sv) \<union> {p. snd p = []} \<union>
     (\<lambda>(i, secret). (i, token_hash (mw_sha w) secret)) ` issued_by w x sv"
proof (cases x)
  case (CallEnroll io tok h os)
  obtain sv' r where e: "enroll (mw_sha w) io tok h os sv = (sv', r)" by (metis prod.collapse)
  with enroll_hashes [OF e] show ?thesis by (cases r) (auto simp: CallEnroll issued_by_def)
next
  case (CallCreate ok now ib tb name ip)
  then show ?thesis using statement_hashes(5) [of ok "mw_sha w" now ib tb name ip "sv_db sv"] by auto
next
  case (CallDelete ok i)
  then show ?thesis using statement_hashes(4) [of ok i "sv_db sv"] by auto
next
  case (StreamMessage i ip io)
  then show ?thesis by (auto simp: handle_message_hashes)
next
  case (StreamEnd ok i)
  then show ?thesis by (auto simp: statement_hashes(2))
qed

lemma run_hashes:
  "row_hashes (sv_db (manager_run w ops sv)) \<subseteq> row_hashes (sv_db sv) \<union> {p. snd p = []} \<union>
     (\<lambda>(i, secret). (i, token_hash (mw_sha w) secret)) ` issued w ops sv"
proof (induction ops arbitrary: sv)
  case (Cons x xs)
  have "manager_run w (x # xs) sv = manager_run w xs (manager_step w x sv)" by (simp add: manager_run_def)
  with Cons.IH [of "manager_step w x sv"] step_hashes [of w x sv] show ?case by (auto simp: image_Un)
qed (simp add: manager_run_def)

text \<open>
  C16. Whatever calls and streams a manager that started with an empty database has handled,
  the tables are well formed (ids and token hashes are unique, every token belongs to an
  agent, event ids increase), and only an agent that has completed its enrollment can open a
  stream: the presented secret has the hash of a secret that an enrollment of this run returned
  to that very agent, its row holds this hash, and it is not pending, provided the hash
  function has no empty values.
\<close>

theorem stream_needs_enrollment:
  assumes "\<forall>b. mw_sha w b \<noteq> []" and "sv = manager_run w ops (new_agent_server empty_db)"
  shows "db_wf (sv_db sv) \<and>
    (open_stream ok (mw_sha w) md (sv_db sv) = Ok i \<longrightarrow>
       (\<exists>secret issued_secret a. auth_secret md = Ok secret \<and>
          (i, issued_secret) \<in> issued w ops (new_agent_server empty_db) \<and>
          token_hash (mw_sha w) secret = token_hash (mw_sha w) issued_secret \<and>
          a \<in> set (db_agents (sv_db sv)) \<and> ag_id a = i \<and>
          ag_secret_hash a = token_hash (mw_sha w) issued_secret \<and> ag_status a \<noteq> ''pending''))"
proof (intro conjI impI)
  show inv: "db_wf (sv_db sv)"
    unfolding assms(2) by (rule manager_run_wf) (simp add: new_agent_server_def empty_db_wf)
  assume "open_stream ok (mw_sha w) md (sv_db sv) = Ok i"
  then obtain secret a where s: "auth_secret md = Ok secret" and
    a: "a \<in> set (db_agents (sv_db sv))" "ag_id a = i" "ag_secret_hash a = token_hash (mw_sha w) secret"
    using open_stream_Ok by blast
  have nonempty: "ag_secret_hash a \<noteq> []" using assms(1) by (simp add: a(3) token_hash_def)
  have "(i, ag_secret_hash a) \<in> row_hashes (sv_db sv)" using a by (force simp: row_hashes_def row_hash_def)
  moreover have "row_hashes (sv_db (new_agent_server empty_db)) = {}"
    by (simp add: row_hashes_def new_agent_server_def empty_db_def)
  ultimately obtain s' where "(i, s') \<in> issued w ops (new_agent_server empty_db)"
    "ag_secret_hash a = token_hash (mw_sha w) s'"
    using run_hashes [of w ops "new_agent_server empty_db"] nonempty unfolding assms(2) by fastforce
  moreover have "ag_status a \<noteq> ''pending''" using inv a(1) nonempty by (auto simp: db_wf_def)
  ultimately show "\<exists>secret issued_secret a. auth_secret md = Ok secret \<and>
      (i, issued_secret) \<in> issued w ops (new_agent_server empty_db) \<and>
      token_hash (mw_sha w) secret = token_hash (mw_sha w) issued_secret \<and>
      a \<in> set (db_agents (sv_db sv)) \<and> ag_id a = i \<and>
      ag_secret_hash a = token_hash (mw_sha w) issued_secret \<and> ag_status a \<noteq> ''pending''"
    using s a by metis
qed

definition stream_world :: manager_world where
  "stream_world = \<lparr>mw_sha = (\<lambda>b. 1 # b), mw_marshal = Some, mw_err_text = (\<lambda>_. [])\<rparr>"

definition stream_ops :: "manager_op list" where
  "stream_ops = [CallCreate True 0 [1] [2] ''web'' [], CallEnroll demo_enroll_io ''02'' [] []]"

definition enrolled_server :: agent_server where
  "enrolled_server = manager_run stream_world stream_ops (new_agent_server empty_db)"

theorem stream_needs_enrollment_witness:
  "\<exists>secret a. (''01'', secret) \<in> issued stream_world stream_ops (new_agent_server empty_db) \<and>
     a \<in> set (db_agents (sv_db enrolled_server)) \<and> ag_id a = ''01'' \<and> ag_status a \<noteq> ''pending'' \<and>
     ag_secret_hash a = token_hash (mw_sha stream_world) secret"
proof -
  have "open_stream True (mw_sha stream_world) (Some [(''authorization'', [''Bearer 07''])]) (sv_db enrolled_server) = Ok ''01''"
    unfolding stream_world_def enrolled_server_def stream_ops_def demo_enroll_io_def by code_simp
  moreover have "\<forall>b. mw_sha stream_world b \<noteq> []" by (simp add: stream_world_def)
  ultimately show ?thesis using stream_needs_enrollment [OF _ enrolled_server_def] by blast
qed

subsection \<open>Enrolling and then streaming\<close>

lemma fields_from_word: "\<forall>c \<in> set w. \<not> is_space c \<Longrightarrow> acc \<noteq> [] \<or> w \<noteq> [] \<Longrightarrow> fields_from acc w = [rev acc @ w]"
  by (induction w arbitrary: acc) auto

lemma fields_bearer: "\<forall>c \<in> set w. \<not> is_space c \<Longrightarrow> w \<noteq> [] \<Longrightarrow> str_fields (''Bearer '' @ w) = [''Bearer'', w]"
  by (simp add: str_fields_def is_space_def fields_from_word)

lemma hex_no_space: "c \<in> set (hex_encode b) \<Longrightarrow> \<not> is_space c"
  by (drule hex_encode_hex) (auto simp: is_lower_hex_def is_space_def)

lemma enroll_Ok:
  assumes "enroll sha io tok h os sv = (sv', Ok resp)"
  shows "es_secret resp = hex_encode (en_secret io) \<and>
    (\<forall>a \<in> set (db_agents (sv_db sv')). ag_id a = es_agent resp \<longrightarrow>
       ag_secret_hash a = token_hash sha (es_secret resp) \<and> ag_status a = ''online'')"
proof -
  obtain sv1 b where a: "allow_enroll_attempt (en_now io) (peer_ip (en_peer io)) sv = (sv1, b)"
    by (metis prod.collapse)
  obtain db cr where c: "consume_enroll_token (en_consume_ok io) sha (en_now_sec io) tok (sv_db sv1) = (db, cr)"
    by (metis prod.collapse)
  obtain i where i: "cr = Ok i" and b: "b" and t: "tok \<noteq> []"
    using assms a c by (auto simp: enroll_def Let_def split: bool.splits if_splits go.splits)
  let ?s = "hex_encode (en_secret io)"
  obtain db' e where e: "enroll_agent (en_enroll_ok io) sha (en_now_sec io) i ?s db = (db', e)"
    by (metis prod.collapse)
  have e0: "e = None" using assms a b t c i e by (auto simp: enroll_def Let_def split: option.splits)
  then have sv': "sv_db sv' = fst (touch (en_touch_ok io) (en_now_sec io) i (peer_ip (en_peer io)) h os db')"
    and resp: "resp = \<lparr>es_agent = i, es_secret = ?s, es_status = ''online''\<rparr>"
    using assms a b t c i e by (auto simp: enroll_def Let_def)
  have "\<forall>a \<in> set (db_agents (sv_db sv')). ag_id a = i \<longrightarrow> ag_secret_hash a = token_hash sha ?s \<and> ag_status a = ''online''"
    using enroll_agent_rows [OF e [unfolded e0]] touch_rows unfolding sv' by metis
  then show ?thesis by (simp add: resp)
qed

lemma enroll_spends:
  assumes "enroll sha io tok h os sv = (sv', Ok resp)"
  shows "\<exists>t \<in> set (db_tokens (sv_db sv)). tk_hash t = token_hash sha tok \<and> tk_agent t = es_agent resp \<and>
    \<not> tk_used t \<and> en_now_sec io \<le> tk_expires t"
proof -
  obtain sv1 b where a: "allow_enroll_attempt (en_now io) (peer_ip (en_peer io)) sv = (sv1, b)"
    by (metis prod.collapse)
  then have db1: "sv_db sv1 = sv_db sv" using allow_attempt_db by (metis fst_conv)
  obtain db cr where c: "consume_enroll_token (en_consume_ok io) sha (en_now_sec io) tok (sv_db sv) = (db, cr)"
    by (metis prod.collapse)
  have i: "cr = Ok (es_agent resp)"
    using assms a c db1 by (auto simp: enroll_def Let_def split: bool.splits if_splits go.splits prod.splits option.splits)
  then obtain t where "find (\<lambda>t. tk_hash t = token_hash sha tok) (db_tokens (sv_db sv)) = Some t"
    "\<not> tk_used t" "en_now_sec io \<le> tk_expires t" "tk_agent t = es_agent resp"
    using c by (auto simp: consume_cases)
  then show ?thesis using find_in by fastforce
qed

lemma secret_opens:
  assumes "enroll sha io tok h os sv = (sv', Ok resp)" and "en_secret io \<noteq> []"
    and "\<exists>a \<in> set (db_agents (sv_db sv')). ag_id a = es_agent resp"
    and "\<forall>a \<in> set (db_agents (sv_db sv')). ag_secret_hash a = token_hash sha (es_secret resp) \<longrightarrow> ag_id a = es_agent resp"
  shows "open_stream True sha (Some [(''authorization'', [''Bearer '' @ es_secret resp])]) (sv_db sv') = Ok (es_agent resp)"
proof -
  from enroll_Ok [OF assms(1)] have secret: "es_secret resp = hex_encode (en_secret io)"
    and rows: "\<forall>a \<in> set (db_agents (sv_db sv')). ag_id a = es_agent resp \<longrightarrow>
      ag_secret_hash a = token_hash sha (es_secret resp)" by auto
  have bearer: "to_lower ''Bearer'' = to_lower ''bearer''" by code_simp
  have "auth_secret (Some [(''authorization'', [''Bearer '' @ es_secret resp])]) = Ok (es_secret resp)"
    using fields_bearer [of "es_secret resp"] hex_no_space assms(2) bearer
    by (simp add: auth_secret_def secret equal_fold_def)
  moreover obtain a where f: "find (\<lambda>a. ag_secret_hash a = token_hash sha (es_secret resp)) (db_agents (sv_db sv')) = Some a"
    using assms(3) rows find_None_iff [of "\<lambda>a. ag_secret_hash a = token_hash sha (es_secret resp)"] by fastforce
  moreover have "ag_id a = es_agent resp" using find_in [OF f] assms(4) by blast
  ultimately show ?thesis by (simp add: open_stream_def agent_id_by_secret_def)
qed

text \<open>
  Round trip: the secret an enrollment returns opens a stream as the agent the token was
  issued for, as long as the agent still exists and no other agent has a secret of the same
  hash.
\<close>

theorem enrolled_secret_opens_stream:
  assumes "enroll sha io tok h os sv = (sv', Ok resp)" and "en_secret io \<noteq> []"
    and "\<exists>a \<in> set (db_agents (sv_db sv')). ag_id a = es_agent resp"
    and "\<forall>a \<in> set (db_agents (sv_db sv')). ag_secret_hash a = token_hash sha (es_secret resp) \<longrightarrow> ag_id a = es_agent resp"
  shows "open_stream True sha (Some [(''authorization'', [''Bearer '' @ es_secret resp])]) (sv_db sv') = Ok (es_agent resp)"
  by (rule secret_opens [OF assms])

theorem enrolled_secret_opens_stream_witness:
  "\<exists>sv' resp. enroll (\<lambda>b. b) demo_enroll_io ''02'' [] [] demo_server = (sv', Ok resp) \<and>
     open_stream True (\<lambda>b. b) (Some [(''authorization'', [''Bearer '' @ es_secret resp])]) (sv_db sv') = Ok ''01''"
proof -
  let ?e = "enroll (\<lambda>b. b) demo_enroll_io ''02'' [] [] demo_server"
  have r: "snd ?e = Ok \<lparr>es_agent = ''01'', es_secret = ''07'', es_status = ''online''\<rparr>"
    unfolding demo_server_def plain_world_def demo_enroll_io_def by code_simp
  have ids: "map (\<lambda>a. (ag_id a, ag_secret_hash a)) (db_agents (sv_db (fst ?e))) = [(''01'', hex_encode (str_to_bytes ''07''))]"
    unfolding demo_server_def plain_world_def demo_enroll_io_def by code_simp
  let ?r = "\<lparr>es_agent = ''01'', es_secret = ''07'', es_status = ''online''\<rparr> :: enroll_response"
  obtain sv' where sv': "?e = (sv', Ok ?r)" using r by (metis prod.collapse)
  from ids sv' obtain a where "db_agents (sv_db sv') = [a]" "ag_id a = ''01''"
    by (auto simp: map_eq_Cons_conv)
  with enrolled_secret_opens_stream [OF sv'] sv' show ?thesis by (auto simp: demo_enroll_io_def)
qed

subsection \<open>One stream touches one agent\<close>

definition touches_only :: "string \<Rightarrow> agent_db \<Rightarrow> agent_db \<Rightarrow> bool" where
  "touches_only i db db' \<longleftrightarrow>
     map ag_id (db_agents db') = map ag_id (db_agents db) \<and>
     filter (\<lambda>a. ag_id a \<noteq> i) (db_agents db') = filter (\<lambda>a. ag_id a \<noteq> i) (db_agents db) \<and>
     map ag_secret_hash (db_agents db') = map ag_secret_hash (db_agents db) \<and>
     db_tokens db' = db_tokens db \<and>
     (\<exists>es. db_events db' = db_events db @ es \<and> (\<forall>e \<in> set es. er_agent e = i))"

lemma touches_refl [simp]: "touches_only i db db"
  by (simp add: touches_only_def)

lemma touches_trans: "touches_only i a b \<Longrightarrow> touches_only i b c \<Longrightarrow> touches_only i a c"
  by (force simp: touches_only_def)

lemma update_agent_touches:
  assumes "\<And>a. ag_id (f a) = ag_id a" and "\<And>a. ag_secret_hash (f a) = ag_secret_hash a"
  shows "touches_only i db (update_agent i f db)"
proof -
  have "filter (\<lambda>a. ag_id a \<noteq> i) (map (\<lambda>a. if ag_id a = i then f a else a) as) = filter (\<lambda>a. ag_id a \<noteq> i) as" for as
    by (induction as) (auto simp: assms(1))
  moreover have "map ag_id (map (\<lambda>a. if ag_id a = i then f a else a) as) = map ag_id as"
    "map ag_secret_hash (map (\<lambda>a. if ag_id a = i then f a else a) as) = map ag_secret_hash as" for as
    by (induction as) (auto simp: assms)
  ultimately show ?thesis by (simp add: touches_only_def update_agent_def)
qed

lemma statements_touch:
  "touches_only i db (fst (touch ok now i ip h os db))" "touches_only i db (fst (set_status ok i st db))"
  "touches_only i db (fst (add_event ok now i ty p db))"
  by (simp_all add: touch_def set_status_def update_agent_touches)
     (simp add: add_event_def touches_only_def split: option.split)

lemma handle_message_touches: "touches_only i db (handle_message marshal err i ip io db)"
proof (cases "si_msg io")
  case (SecEvent ty payload)
  obtain db' e where a: "add_event (si_ok io) (si_now io) i ty (marshal payload) db = (db', e)"
    by (metis prod.collapse)
  then have "touches_only i db db'" using statements_touch(3) by (metis fst_conv)
  with SecEvent a show ?thesis
    by (auto simp: handle_message_def split: option.split intro: touches_trans statements_touch)
qed (simp_all add: handle_message_def statements_touch)

lemma stream_loop_touches:
  "touches_only i db (fst (stream_loop marshal err i ip xs eof db))"
proof (induction xs arbitrary: db)
  case (Cons x xs)
  show ?case
    using touches_trans [OF handle_message_touches Cons] handle_message_touches
    by (auto simp: Let_def)
qed simp

text \<open>
  C20. A stream acts for the agent it authenticated as and for no other: whatever it sends and
  however it ends, the rows of other agents, all tokens, all ids and all secrets are unchanged,
  every event it stores is stored under that agent, and when it ends the agent is offline
  (if the last statement works). A stream that is refused changes nothing.
\<close>

theorem stream_acts_for_one_agent:
  "(case open_stream auth_ok sha md db of
      Ok i \<Rightarrow>
        touches_only i db (fst (stream_handler auth_ok close_ok sha marshal err md peer xs eof db)) \<and>
        (close_ok \<longrightarrow>
          (\<forall>a \<in> set (db_agents (fst (stream_handler auth_ok close_ok sha marshal err md peer xs eof db))).
             ag_id a = i \<longrightarrow> ag_status a = ''offline''))
    | _ \<Rightarrow> fst (stream_handler auth_ok close_ok sha marshal err md peer xs eof db) = db)"
proof (cases "open_stream auth_ok sha md db")
  case (Ok i)
  let ?db = "fst (stream_loop marshal err i (peer_ip peer) xs eof db)"
  have run: "fst (stream_handler auth_ok close_ok sha marshal err md peer xs eof db) =
      fst (set_status close_ok i ''offline'' ?db)"
    by (simp add: stream_handler_def Ok split: prod.split)
  have only: "touches_only i db (fst (set_status close_ok i ''offline'' ?db))"
    by (rule touches_trans [OF stream_loop_touches statements_touch(2)])
  have "close_ok \<longrightarrow> (\<forall>a \<in> set (db_agents (fst (set_status close_ok i ''offline'' ?db))).
      ag_id a = i \<longrightarrow> ag_status a = ''offline'')"
    by (cases close_ok) (auto dest: set_status_rows)
  with only show ?thesis unfolding Ok go.case run by blast
qed (simp_all add: stream_handler_def)

theorem stream_acts_for_one_agent_witness:
  "open_stream True (mw_sha stream_world) (Some [(''authorization'', [''Bearer 07''])]) (sv_db enrolled_server) = Ok ''01'' \<and>
   filter (\<lambda>a. ag_id a = ''01'' \<and> ag_status a \<noteq> ''offline'')
     (db_agents (fst (stream_handler True True (mw_sha stream_world) Some (\<lambda>_. [])
      (Some [(''authorization'', [''Bearer 07''])]) None [] True (sv_db enrolled_server)))) = []"
proof -
  have "open_stream True (mw_sha stream_world) (Some [(''authorization'', [''Bearer 07''])]) (sv_db enrolled_server) = Ok ''01''"
    unfolding stream_world_def enrolled_server_def demo_enroll_io_def by code_simp
  then show ?thesis
    using stream_acts_for_one_agent [where auth_ok = True and sha = "mw_sha stream_world" and close_ok = True
        and md = "Some [(''authorization'', [''Bearer 07''])]" and db = "sv_db enrolled_server"
        and marshal = Some and err = "\<lambda>_. []" and peer = None and xs = "[]" and eof = True]
    by (auto simp: filter_empty_conv)
qed

end
