(* ===== verification/AgentClient.thy ===== *)
theory AgentClient
  imports AgentServer
begin

text \<open>
  The agent side of the channel: package agentclient (agentclient.go, tailer.go) and the
  loops of cmd/swipeshield-agent. Files, the JSON codec, the environment, the gRPC connection
  and the tickers are arguments: a connection is the sequence of ticks it sees.
\<close>

subsection \<open>Identity (agentclient.go)\<close>

record client_config =
  cc_manager :: string
  cc_agent :: string
  cc_secret :: string
  cc_insecure :: bool
  cc_waf_log :: string

datatype client_error = ReadFailed | ParseFailed | IncompleteConfig | MkdirFailed | WriteFailed
  | DialFailed | EnrollFailed | StreamFailed

definition load_client_config ::
    "(string \<Rightarrow> client_config option) \<Rightarrow> (string \<Rightarrow> string option) \<Rightarrow> string \<Rightarrow>
     (client_error, client_config) go" where
  "load_client_config unmarshal files path =
     (case files path of
        None \<Rightarrow> Fail ReadFailed
      | Some b \<Rightarrow>
          (case unmarshal b of
             None \<Rightarrow> Fail ParseFailed
           | Some c \<Rightarrow>
               if cc_manager c = [] \<or> cc_agent c = [] \<or> cc_secret c = [] then Fail IncompleteConfig
               else Ok c))"

definition save_client_config ::
    "(client_config \<Rightarrow> string) \<Rightarrow> (string \<Rightarrow> bool) \<Rightarrow> (string \<Rightarrow> bool) \<Rightarrow> string \<Rightarrow> client_config \<Rightarrow>
     (string \<Rightarrow> string option) \<Rightarrow> (string \<Rightarrow> string option) \<times> client_error option" where
  "save_client_config marshal mkdir write path c files =
     (let d = (case last_index_byte path (CHR ''/'') of Some i \<Rightarrow> take i path | None \<Rightarrow> ''.'') in
      if \<not> mkdir d then (files, Some MkdirFailed)
      else if \<not> write path then (files, Some WriteFailed)
      else (files(path \<mapsto> marshal c), None))"

text \<open>Without the insecure flag the connection is encrypted, but the certificate is not checked.\<close>

datatype transport = Plaintext | TlsUnverified

definition dial_transport :: "bool \<Rightarrow> transport" where
  "dial_transport insecure_flag = (if insecure_flag then Plaintext else TlsUnverified)"

definition os_info :: "string option \<Rightarrow> string" where
  "os_info release =
     (case release of
        None \<Rightarrow> ''linux''
      | Some b \<Rightarrow>
          (case find (\<lambda>l. has_prefix l ''PRETTY_NAME='') (split_on (CHR 0x0A) b) of
             None \<Rightarrow> ''linux''
           | Some l \<Rightarrow>
               let quote = (\<lambda>c. c = CHR 0x22 \<or> c = CHR 0x27) in
               rev (dropWhile quote (rev (dropWhile quote (trim_prefix l ''PRETTY_NAME=''))))))"

text \<open>\<open>rpc\<close> is the manager's Enroll, on its own state.\<close>

definition client_enroll ::
    "(string \<Rightarrow> string \<Rightarrow> string \<Rightarrow> 's \<Rightarrow> 's \<times> ('e, enroll_response) go) \<Rightarrow> bool \<Rightarrow> string \<Rightarrow> string option \<Rightarrow>
     string \<Rightarrow> string \<Rightarrow> bool \<Rightarrow> 's \<Rightarrow> 's \<times> (client_error, client_config) go" where
  "client_enroll rpc dial_ok hostname release manager tok insecure_flag s =
     (if \<not> dial_ok then (s, Fail DialFailed)
      else (case rpc tok hostname (os_info release) s of
              (s', Ok resp) \<Rightarrow>
                (s', Ok \<lparr>cc_manager = manager, cc_agent = es_agent resp, cc_secret = es_secret resp,
                         cc_insecure = insecure_flag, cc_waf_log = []\<rparr>)
            | (s', _) \<Rightarrow> (s', Fail EnrollFailed)))"

text \<open>The metadata of the stream a \<open>Streamer\<close> opens.\<close>

definition stream_metadata :: "client_config \<Rightarrow> (string \<times> string list) list" where
  "stream_metadata c = [(''authorization'', [''Bearer '' @ cc_secret c])]"

definition default_config_path :: "(string \<Rightarrow> string) \<Rightarrow> string option \<Rightarrow> string" where
  "default_config_path env home =
     (if env ''SWIPESHIELD_AGENT_CONFIG'' \<noteq> [] then env ''SWIPESHIELD_AGENT_CONFIG''
      else if env ''XDG_CONFIG_HOME'' \<noteq> []
      then env ''XDG_CONFIG_HOME'' @ ''/swipeshield-agent/agent.json''
      else (case home of
              None \<Rightarrow> ''/etc/swipeshield-agent/agent.json''
            | Some h \<Rightarrow> h @ ''/.config/swipeshield-agent/agent.json''))"

subsection \<open>Following the event log (tailer.go)\<close>

text \<open>
  A tailer is its offset; \<open>content\<close> is the file at the time of the call, \<open>None\<close> when it cannot be
  opened, and \<open>read_ok\<close> says whether the read of the new part works.
\<close>

definition new_tailer :: "string option \<Rightarrow> nat" where
  "new_tailer content = (case content of None \<Rightarrow> 0 | Some c \<Rightarrow> length c)"

function line_loop :: "string \<Rightarrow> nat \<Rightarrow> nat \<Rightarrow> string list \<Rightarrow> nat \<times> string list" where
  "line_loop buf i start out =
     (if i < length buf then
        if buf ! i = CHR 0x0A
        then line_loop buf (i + 1) (i + 1)
               (if i > start then out @ [take (i - start) (drop start buf)] else out)
        else line_loop buf (i + 1) start out
      else (start, out))"
  by pat_completeness auto

termination by (relation "measure (\<lambda>(buf, i, _, _). length buf - i)") auto

declare line_loop.simps [simp del]

definition tailer_lines :: "string option \<Rightarrow> bool \<Rightarrow> nat \<Rightarrow> nat \<times> string list" where
  "tailer_lines content read_ok offset =
     (case content of
        None \<Rightarrow> (offset, [])
      | Some c \<Rightarrow>
          let offset1 = (if length c < offset then 0 else offset) in
          if length c = offset1 then (offset1, [])
          else if \<not> read_ok then (offset1, [])
          else
            let buf = drop offset1 c in
            (case line_loop buf 0 0 [] of
               (start, out) \<Rightarrow> (if start = length buf then length c else offset1 + start, out)))"

subsection \<open>One connection (runOnce)\<close>

datatype tick = HbTick | PollTick "string option" bool

text \<open>
  The \<open>n\<close>-th message of a connection is acknowledged if \<open>ok n\<close>. The loop ends with the first
  message that is not; \<open>True\<close> means that the connection is still up after the ticks.
\<close>

fun send_lines :: "(nat \<Rightarrow> bool) \<Rightarrow> nat \<Rightarrow> string list \<Rightarrow> agent_msg list \<times> nat \<times> bool" where
  "send_lines ok n [] = ([], n, True)"
| "send_lines ok n (l # ls) =
     (if ok n then (case send_lines ok (n + 1) ls of (ms, n', up) \<Rightarrow> (SecEvent ''waf_event'' l # ms, n', up))
      else ([], n, False))"

fun run_ticks :: "(nat \<Rightarrow> bool) \<Rightarrow> string \<Rightarrow> tick list \<Rightarrow> nat \<Rightarrow> nat \<Rightarrow> agent_msg list \<times> bool" where
  "run_ticks ok hostname [] n offset = ([], True)"
| "run_ticks ok hostname (HbTick # ts) n offset =
     (if ok n then (case run_ticks ok hostname ts (n + 1) offset of
                      (ms, up) \<Rightarrow> (Heartbeat hostname ''linux'' # ms, up))
      else ([], False))"
| "run_ticks ok hostname (PollTick content read_ok # ts) n offset =
     (case tailer_lines content read_ok offset of
        (offset', ls) \<Rightarrow>
          (case send_lines ok n ls of
             (ms, n', True) \<Rightarrow>
               (case run_ticks ok hostname ts n' offset' of (ms', up) \<Rightarrow> (ms @ ms', up))
           | (ms, _, False) \<Rightarrow> (ms, False)))"

definition run_once ::
    "bool \<Rightarrow> (nat \<Rightarrow> bool) \<Rightarrow> string \<Rightarrow> string option \<Rightarrow> tick list \<Rightarrow> agent_msg list \<times> bool" where
  "run_once opened ok hostname content ts =
     (if \<not> opened then ([], False)
      else let offset = new_tailer content in
           if ok 0 then (case run_ticks ok hostname ts 1 offset of
                           (ms, up) \<Rightarrow> (Heartbeat hostname ''linux'' # ms, up))
           else ([], False))"

subsection \<open>Reconnecting (runAgent)\<close>

definition next_backoff :: "int \<Rightarrow> int" where
  "next_backoff b = (if b < 60000000000 then b * 2 else b)"

text \<open>The waits of the reconnection loop when \<open>n\<close> connections in a row have ended.\<close>

fun backoff_waits :: "nat \<Rightarrow> int \<Rightarrow> int list" where
  "backoff_waits 0 b = []"
| "backoff_waits (Suc n) b = b # backoff_waits n (next_backoff b)"

definition run_agent_waits :: "nat \<Rightarrow> int list" where
  "run_agent_waits n = backoff_waits n 1000000000"

subsection \<open>The commands of swipeshield-agent\<close>

datatype agent_command = ShowVersion | EnrollCommand "string list" | RunCommand "string list" | UnknownCommand string

definition agent_dispatch :: "string list \<Rightarrow> agent_command" where
  "agent_dispatch args =
     (if args \<noteq> [] \<and> hd args = ''-version'' then ShowVersion
      else
        let named = args \<noteq> [] \<and> hd args \<noteq> [] \<and> hd (hd args) \<noteq> CHR ''-'';
            sub = (if named then hd args else ''run''); rest = (if named then tl args else args)
        in if sub = ''enroll'' then EnrollCommand rest
           else if sub = ''run'' then RunCommand rest else UnknownCommand sub)"

datatype agent_exit = Exited int | Fatal client_error

definition run_enroll ::
    "(string \<Rightarrow> string \<Rightarrow> string \<Rightarrow> 's \<Rightarrow> 's \<times> ('e, enroll_response) go) \<Rightarrow> bool \<Rightarrow> string \<Rightarrow> string option \<Rightarrow>
     (client_config \<Rightarrow> string) \<Rightarrow> (string \<Rightarrow> bool) \<Rightarrow> (string \<Rightarrow> bool) \<Rightarrow>
     string \<Rightarrow> string \<Rightarrow> string \<Rightarrow> bool \<Rightarrow> 's \<times> (string \<Rightarrow> string option) \<Rightarrow>
     ('s \<times> (string \<Rightarrow> string option)) \<times> agent_exit" where
  "run_enroll rpc dial_ok hostname release marshal mkdir write manager tok path insecure_flag st =
     (case st of
        (s, files) \<Rightarrow>
          if manager = [] \<or> tok = [] then (st, Exited 2)
          else (case client_enroll rpc dial_ok hostname release manager tok insecure_flag s of
                  (s', Ok cfg) \<Rightarrow>
                    (case save_client_config marshal mkdir write path cfg files of
                       (files', None) \<Rightarrow> ((s', files'), Exited 0)
                     | (files', Some e) \<Rightarrow> ((s', files'), Fatal e))
                | (s', Fail e) \<Rightarrow> ((s', files), Fatal e)
                | (s', Panic) \<Rightarrow> ((s', files), Exited 2)))"

text \<open>The flags of \<open>run\<close> override what the file says.\<close>

definition effective_config :: "bool \<Rightarrow> string \<Rightarrow> client_config \<Rightarrow> client_config" where
  "effective_config insecure_flag waf_log c =
     c\<lparr>cc_insecure := (insecure_flag \<or> cc_insecure c),
       cc_waf_log := (if waf_log \<noteq> [] then waf_log else cc_waf_log c)\<rparr>"

subsection \<open>The lines of a file\<close>

text \<open>The specification: the nonempty complete lines of a text, and its unfinished last line.\<close>

definition complete_lines :: "string \<Rightarrow> string list" where
  "complete_lines s = filter (\<lambda>l. l \<noteq> []) (butlast (split_on (CHR 0x0A) s))"

definition open_line :: "string \<Rightarrow> string" where
  "open_line s = last (split_on (CHR 0x0A) s)"

lemma line_loop_scan:
  assumes "start \<le> i" and "i \<le> length buf" and "CHR 0x0A \<notin> set (take (i - start) (drop start buf))"
  shows "line_loop buf i start out =
    (length buf - length (open_line (drop start buf)), out @ complete_lines (drop start buf))"
  using assms
proof (induction buf i start out rule: line_loop.induct)
  case (1 buf i start out)
  let ?w = "take (i - start) (drop start buf)"
  show ?case
  proof (cases "i < length buf")
    case False
    with 1(4) have i: "i = length buf" by simp
    with 1(5) have "split_on (CHR 0x0A) (drop start buf) = [drop start buf]" by (simp add: split_on_no_sep)
    with 1(3) i show ?thesis
      by (subst line_loop.simps) (simp add: open_line_def complete_lines_def)
  next
    case True
    have rest: "drop start buf = ?w @ buf ! i # drop (i + 1) buf"
      using 1(3) True by (metis Cons_nth_drop_Suc Suc_eq_plus1 append_take_drop_id drop_drop le_add_diff_inverse2)
    show ?thesis
    proof (cases "buf ! i = CHR 0x0A")
      case nl: True
      have split: "split_on (CHR 0x0A) (drop start buf) = ?w # split_on (CHR 0x0A) (drop (i + 1) buf)"
        by (subst rest, subst nl, rule split_on_append [OF 1(5)])
      have "?w = [] \<longleftrightarrow> \<not> i > start" using 1(3) True by auto
      moreover have "line_loop buf (i + 1) (i + 1) out' =
          (length buf - length (open_line (drop (i + 1) buf)), out' @ complete_lines (drop (i + 1) buf))"
        if "out' = (if i > start then out @ [?w] else out)" for out'
        using 1(1) [OF True nl] True by (simp add: that)
      ultimately show ?thesis
        using True nl split by (subst line_loop.simps) (simp add: open_line_def complete_lines_def)
    next
      case False
      have "take (i + 1 - start) (drop start buf) = ?w @ [buf ! i]"
        using 1(3) True by (simp add: Suc_diff_le take_Suc_conv_app_nth)
      then have "CHR 0x0A \<notin> set (take (i + 1 - start) (drop start buf))"
        using 1(5) False by auto
      with 1(2) [OF True False] 1(3) True show ?thesis
        by (subst line_loop.simps) (simp add: False)
    qed
  qed
qed

lemma split_on_append_last:
  "split_on c (s @ t) = butlast (split_on c s) @ split_on c (last (split_on c s) @ t)"
proof (induction s)
  case (Cons x s)
  then show ?case by (cases "split_on c s") auto
qed simp

lemma complete_lines_append: "complete_lines (s @ t) = complete_lines s @ complete_lines (open_line s @ t)"
  by (simp add: complete_lines_def open_line_def split_on_append_last [of "CHR 0x0A" s t] butlast_append)

lemma open_line_append: "open_line (s @ t) = open_line (open_line s @ t)"
  by (simp add: open_line_def split_on_append_last [of "CHR 0x0A" s t])

lemma open_line_suffix: "\<exists>p. s = p @ open_line s"
proof (induction s)
  case (Cons x s)
  then obtain p where p: "s = p @ open_line s" ..
  show ?case
  proof (cases "x = CHR 0x0A")
    case True
    then have "open_line (x # s) = open_line s" by (simp add: open_line_def)
    then show ?thesis using p by (intro exI [of _ "x # p"]) simp
  next
    case False
    show ?thesis
    proof (cases "split_on (CHR 0x0A) s")
      case (Cons y ys)
      with False have "open_line (x # s) = (if ys = [] then x # y else open_line s)"
        by (simp add: open_line_def)
      moreover have "ys = [] \<Longrightarrow> s = y" using Cons join_split_on [of "CHR 0x0A" s] by simp
      ultimately show ?thesis
        using p by (cases "ys = []") (auto intro: exI [of _ "[]"] exI [of _ "x # p"])
    qed simp
  qed
qed (simp add: open_line_def)

lemma length_open_line: "length (open_line s) \<le> length s"
  using open_line_suffix [of s] by (metis le_add2 length_append)

lemma drop_to_open_line: "drop (length s - length (open_line s)) s = open_line s"
proof -
  obtain p where p: "s = p @ open_line s" using open_line_suffix by blast
  then have "length s - length (open_line s) = length p" by (metis add_diff_cancel_right' length_append)
  with p show ?thesis by (metis append_eq_conv_conj)
qed

lemma complete_lines_Nil [simp]: "complete_lines [] = []" "open_line [] = []"
  by (simp_all add: complete_lines_def open_line_def)

text \<open>One poll of a file that is not shorter than the offset, and of one that is.\<close>

lemma tailer_lines_grown:
  assumes "offset \<le> length c"
  shows "tailer_lines (Some c) True offset =
    (length c - length (open_line (drop offset c)), complete_lines (drop offset c))"
proof -
  have "line_loop (drop offset c) 0 0 [] =
      (length (drop offset c) - length (open_line (drop offset c)), complete_lines (drop offset c))"
    using line_loop_scan [of 0 0 "drop offset c" "[]"] by simp
  then show ?thesis
    using assms length_open_line [of "drop offset c"]
    by (auto simp: tailer_lines_def Let_def)
qed

lemma tailer_lines_rotated:
  assumes "length c < offset" and "c \<noteq> []"
  shows "tailer_lines (Some c) True offset = (length c - length (open_line c), complete_lines c)"
  using tailer_lines_grown [of 0 c] assms by (simp add: tailer_lines_def)

subsection \<open>What a connection delivers\<close>

text \<open>A log that is only appended to, with the heartbeats between the polls.\<close>

datatype growth = Beat | Grow string

fun ticks_of :: "string \<Rightarrow> growth list \<Rightarrow> tick list" where
  "ticks_of c [] = []"
| "ticks_of c (Beat # gs) = HbTick # ticks_of c gs"
| "ticks_of c (Grow a # gs) = PollTick (Some (c @ a)) True # ticks_of (c @ a) gs"

fun appended :: "growth list \<Rightarrow> string" where
  "appended [] = []"
| "appended (Beat # gs) = appended gs"
| "appended (Grow a # gs) = a @ appended gs"

definition payloads :: "agent_msg list \<Rightarrow> string list" where
  "payloads ms = concat (map (\<lambda>m. case m of SecEvent _ l \<Rightarrow> [l] | _ \<Rightarrow> []) ms)"

lemma payloads_simps [simp]:
  "payloads [] = []" "payloads (m # ms) = (case m of SecEvent _ l \<Rightarrow> [l] | _ \<Rightarrow> []) @ payloads ms"
  "payloads (ms @ ms') = payloads ms @ payloads ms'"
  by (simp_all add: payloads_def)

lemma send_lines_payloads:
  assumes "send_lines ok n ls = (ms, n', up)"
  shows "if up then payloads ms = ls else (\<exists>rest. ls = payloads ms @ rest)"
  using assms
proof (induction ls arbitrary: n ms)
  case (Cons l ls)
  then show ?case by (fastforce split: if_splits prod.splits)
qed simp

lemma send_lines_up: "\<forall>n. ok n \<Longrightarrow> \<exists>ms n'. send_lines ok n ls = (ms, n', True)"
  by (induction ls arbitrary: n) (auto split: prod.split, metis prod.inject)

lemma drop_open_line: "drop (length d - length (open_line (drop k d))) d = open_line (drop k d)"
proof -
  obtain p where "drop k d = p @ open_line (drop k d)" using open_line_suffix by blast
  then have d: "d = (take k d @ p) @ open_line (drop k d)" by (metis append.assoc append_take_drop_id)
  then have "length d - length (open_line (drop k d)) = length (take k d @ p)"
    by (metis add_diff_cancel_right' length_append)
  with d show ?thesis by (metis append_eq_conv_conj)
qed

text \<open>What is not yet delivered is the part of the file behind the offset.\<close>

lemma run_ticks_payloads:
  assumes "run_ticks ok h (ticks_of c gs) n k = (ms, up)" and "k \<le> length c"
    and "complete_lines (drop k c) = []"
  shows "if up then payloads ms = complete_lines (drop k c @ appended gs)
    else (\<exists>rest. complete_lines (drop k c @ appended gs) = payloads ms @ rest)"
  using assms
proof (induction gs arbitrary: c n k ms up)
  case Nil
  then show ?case by simp
next
  case (Cons g gs)
  show ?case
  proof (cases g)
    case Beat
    with Cons show ?thesis
      by (cases "run_ticks ok h (ticks_of c gs) (n + 1) k") (auto split: if_splits)
  next
    case (Grow a)
    let ?k = "length (c @ a) - length (open_line (drop k c @ a))"
    have unread: "drop k (c @ a) = drop k c @ a" using Cons.prems(2) by simp
    have poll: "tailer_lines (Some (c @ a)) True k = (?k, complete_lines (drop k c @ a))"
      using tailer_lines_grown [of k "c @ a", unfolded unread] Cons.prems(2) by simp
    have rest: "drop ?k (c @ a) = open_line (drop k c @ a)"
      using drop_open_line [of "c @ a" k] by (simp only: unread)
    have idle: "complete_lines (drop ?k (c @ a)) = []"
      unfolding rest using complete_lines_append [of "drop k c @ a" "[]"] by simp
    have all: "complete_lines (drop k c @ appended (g # gs)) =
        complete_lines (drop k c @ a) @ complete_lines (drop ?k (c @ a) @ appended gs)"
      unfolding rest using complete_lines_append [of "drop k c @ a" "appended gs"] by (simp add: Grow)
    obtain ms1 n1 up1 where s: "send_lines ok n (complete_lines (drop k c @ a)) = (ms1, n1, up1)"
      by (metis prod.collapse)
    show ?thesis
    proof (cases up1)
      case True
      obtain ms2 up2 where t: "run_ticks ok h (ticks_of (c @ a) gs) n1 ?k = (ms2, up2)" by (metis prod.collapse)
      have ms: "ms = ms1 @ ms2" "up = up2" using Cons.prems(1) s t True by (simp_all add: Grow poll)
      have "?k \<le> length (c @ a)" by simp
      from Cons.IH [OF t this idle] send_lines_payloads [OF s] True show ?thesis
        unfolding all ms by auto
    next
      case False
      with Cons.prems(1) s have "ms = ms1" "\<not> up" by (simp_all add: Grow poll)
      with send_lines_payloads [OF s] False show ?thesis unfolding all by auto
    qed
  qed
qed

lemma run_ticks_up:
  assumes "\<forall>n. ok n"
  shows "snd (run_ticks ok h (ticks_of c gs) n k)"
proof (induction gs arbitrary: c n k)
  case (Cons g gs)
  show ?case
  proof (cases g)
    case Beat
    with Cons [of c "n + 1" k] assms show ?thesis by (simp add: split_def)
  next
    case (Grow a)
    obtain k' ls where t: "tailer_lines (Some (c @ a)) True k = (k', ls)" by (metis prod.collapse)
    obtain ms n' where "send_lines ok n ls = (ms, n', True)" using send_lines_up [OF assms] by blast
    with t Cons [of "c @ a" n' k'] show ?thesis by (simp add: Grow split_def)
  qed
qed simp

subsection \<open>Properties\<close>

text \<open>
  C25. Exactly once, per connection: while the log is only appended to, the events a connection
  sends are, in order and without repetition, the nonempty lines completed since it was
  opened, up to the first message that is not acknowledged. What was in the log before, and
  everything that was appended between two connections, is never sent: the tailer of a new
  connection starts at the end of the file.
\<close>

theorem agent_forwards_lines_once:
  assumes "run_once True ok h (Some c) (ticks_of c gs) = (ms, up)"
  shows "(\<exists>rest. complete_lines (appended gs) = payloads ms @ rest) \<and>
    ((\<forall>n. ok n) \<longrightarrow> payloads ms = complete_lines (appended gs))"
proof (cases "ok 0")
  case False
  with assms show ?thesis by (auto simp: run_once_def)
next
  case True
  obtain ms1 up1 where t: "run_ticks ok h (ticks_of c gs) 1 (length c) = (ms1, up1)" by (metis prod.collapse)
  with assms True have ms: "payloads ms = payloads ms1" by (auto simp: run_once_def new_tailer_def)
  have "if up1 then payloads ms1 = complete_lines (appended gs)
      else (\<exists>rest. complete_lines (appended gs) = payloads ms1 @ rest)"
    using run_ticks_payloads [OF t] by (cases up1) simp_all
  moreover have "(\<forall>n. ok n) \<longrightarrow> up1" using run_ticks_up [of ok h c gs 1 "length c"] t by auto
  ultimately show ?thesis unfolding ms by (cases up1) auto
qed

text \<open>
  Rotation: a log that became shorter than the offset is read from its start; one that was
  replaced by a text that is not shorter is read from the old offset, and what the new log has
  before it is never looked at.
\<close>

theorem tailer_rotation:
  "(length c < offset \<and> c \<noteq> [] \<longrightarrow>
      tailer_lines (Some c) True offset = (length c - length (open_line c), complete_lines c)) \<and>
   (offset \<le> length c \<longrightarrow>
      tailer_lines (Some c) True offset =
        (length c - length (open_line (drop offset c)), complete_lines (drop offset c)))"
  using tailer_lines_rotated tailer_lines_grown by blast

text \<open>
  The waits between reconnections: they double from one second up to 64 seconds, four more
  than the minute the loop compares with, and stay there; a connection that was up for days
  does not reset them.
\<close>

theorem agent_backoff_schedule:
  "run_agent_waits n = map (\<lambda>i. 1000000000 * 2 ^ min i 6) [0..<n]"
proof -
  have step: "next_backoff (1000000000 * 2 ^ min i 6) = 1000000000 * 2 ^ min (Suc i) 6" for i
  proof (cases "i < 6")
    case True
    then have "i \<in> {0, 1, 2, 3, 4, 5}" by auto
    then show ?thesis by (auto simp: next_backoff_def)
  qed (simp add: next_backoff_def min_def)
  have "backoff_waits n (1000000000 * 2 ^ min i 6) = map (\<lambda>i. 1000000000 * 2 ^ min i 6) [i..<i + n]" for i
  proof (induction n arbitrary: i)
    case (Suc n)
    show ?case using Suc [of "Suc i"] by (simp add: step upt_conv_Cons del: upt_Suc)
  qed simp
  from this [of 0] show ?thesis by (simp add: run_agent_waits_def)
qed

text \<open>
  C26. The identity round trip of agent and manager: what the client's enrollment writes to its
  config file is read back at the next start, and the stream it then opens is accepted by the
  manager as the agent the token was issued for: the agent in the row of the token, which was
  not used before and not expired (as long as that agent exists and no other has a secret of the
  same hash).
\<close>

theorem agent_identity_roundtrip:
  assumes "client_enroll (enroll sha io) dial_ok hostname release manager tok ins sv = (sv', Ok c)"
    and "save_client_config marshal mkdir write path c files = (files', None)"
    and "unmarshal (marshal c) = Some c" and "manager \<noteq> []" and "cc_agent c \<noteq> []" and "en_secret io \<noteq> []"
    and "\<exists>a \<in> set (db_agents (sv_db sv')). ag_id a = cc_agent c"
    and "\<forall>a \<in> set (db_agents (sv_db sv')). ag_secret_hash a = token_hash sha (cc_secret c) \<longrightarrow> ag_id a = cc_agent c"
  shows "load_client_config unmarshal files' path = Ok c \<and>
    open_stream True sha (Some (stream_metadata c)) (sv_db sv') = Ok (cc_agent c) \<and>
    (\<exists>t \<in> set (db_tokens (sv_db sv)). tk_hash t = token_hash sha tok \<and> tk_agent t = cc_agent c \<and>
       \<not> tk_used t \<and> en_now_sec io \<le> tk_expires t)"
proof (intro conjI)
  from assms(1) obtain resp where e: "enroll sha io tok hostname (os_info release) sv = (sv', Ok resp)"
    and c: "c = \<lparr>cc_manager = manager, cc_agent = es_agent resp, cc_secret = es_secret resp,
                 cc_insecure = ins, cc_waf_log = []\<rparr>"
    by (auto simp: client_enroll_def split: if_splits prod.splits go.splits)
  from assms(7,8) have "open_stream True sha (Some [(''authorization'', [''Bearer '' @ es_secret resp])]) (sv_db sv')
      = Ok (es_agent resp)"
    by (intro secret_opens [OF e assms(6)]) (simp_all add: c)
  then show "open_stream True sha (Some (stream_metadata c)) (sv_db sv') = Ok (cc_agent c)"
    by (simp add: stream_metadata_def c)
  show "\<exists>t \<in> set (db_tokens (sv_db sv)). tk_hash t = token_hash sha tok \<and> tk_agent t = cc_agent c \<and>
      \<not> tk_used t \<and> en_now_sec io \<le> tk_expires t"
    using enroll_spends [OF e] by (simp add: c)
  have "es_secret resp = hex_encode (en_secret io)" using enroll_Ok [OF e] by simp
  then have "cc_secret c \<noteq> []" using assms(6) hex_encode_empty by (simp add: c)
  moreover from assms(2) have "files' path = Some (marshal c)"
    by (auto simp: save_client_config_def Let_def split: if_splits)
  ultimately show "load_client_config unmarshal files' path = Ok c"
    using assms(3-5) by (simp add: load_client_config_def c)
qed

theorem agent_forwards_lines_once_witness:
  "payloads (fst (run_once True (\<lambda>_. True) ''h'' (Some ''old'') (ticks_of ''old'' [Grow ''a'', Beat, Grow ([CHR 0x0A] @ ''b'')])))
     = [''a'']"
proof -
  let ?gs = "[Grow ''a'', Beat, Grow ([CHR 0x0A] @ ''b'')]"
  obtain ms up where "run_once True (\<lambda>_. True) ''h'' (Some ''old'') (ticks_of ''old'' ?gs) = (ms, up)"
    by (metis prod.collapse)
  from agent_forwards_lines_once [OF this] this show ?thesis
    by (simp add: complete_lines_def)
qed

theorem agent_identity_roundtrip_witness:
  "\<exists>c files'. load_client_config (\<lambda>_. Some c) files' ''f'' = Ok c \<and> cc_agent c = ''01'' \<and>
     (\<exists>t. t \<in> set (db_tokens (sv_db demo_server)) \<and> tk_agent t = ''01'' \<and> \<not> tk_used t)"
proof -
  let ?e = "client_enroll (enroll (\<lambda>b. b) demo_enroll_io) True [] None ''m'' ''02'' False demo_server"
  let ?c = "\<lparr>cc_manager = ''m'', cc_agent = ''01'', cc_secret = ''07'', cc_insecure = False, cc_waf_log = []\<rparr>"
  have r: "snd ?e = Ok ?c"
    unfolding demo_server_def plain_world_def demo_enroll_io_def by code_simp
  have ids: "map (\<lambda>a. (ag_id a, ag_secret_hash a)) (db_agents (sv_db (fst ?e))) = [(''01'', hex_encode (str_to_bytes ''07''))]"
    unfolding demo_server_def plain_world_def demo_enroll_io_def by code_simp
  obtain sv' where sv': "?e = (sv', Ok ?c)" using r by (metis prod.collapse)
  from ids sv' obtain a where a: "db_agents (sv_db sv') = [a]" "ag_id a = ''01''"
    by (auto simp: map_eq_Cons_conv)
  have save: "save_client_config (\<lambda>_. []) (\<lambda>_. True) (\<lambda>_. True) ''f'' ?c (\<lambda>_. None) =
      ((\<lambda>_. None)(''f'' \<mapsto> []), None)"
    by (simp add: save_client_config_def)
  from agent_identity_roundtrip [OF sv' save, of "\<lambda>_. Some ?c"] a show ?thesis
    by (force simp: demo_enroll_io_def)
qed

end
