(* ===== verification/Envoy.thy ===== *)
theory Envoy
  imports Gateway
begin

text \<open>
  Package envoy (envoy.go): the external processor. One gRPC stream carries one request as a
  sequence of messages; headers and body are collected and the gateway's \<open>Evaluate\<close> is asked
  once, at the message that ends the stream direction. The protobuf types are the datatypes
  below, with the response variants the server builds; the gRPC transport is the list of
  messages that arrive and whether each answer can be sent.
\<close>

subsection \<open>Messages\<close>

record header_value =
  hv_key :: string
  hv_value :: string
  hv_raw :: string

datatype ext_message =
  RequestHeaders "header_value list option" bool
| RequestBody string bool
| OtherMessage

datatype ext_response =
  ContinueHeaders
| AllowHeaders action
| AllowBody action
| Immediate int string

subsection \<open>The request (buildRequest)\<close>

text \<open>
  \<open>EscapedPath\<close> of a URL whose \<open>Path\<close> was assigned directly: \<open>RawPath\<close> is empty, so the path
  is escaped as a decoded path.
\<close>

definition upper_hex :: "nat \<Rightarrow> char" where
  "upper_hex n = char_of (if n < 10 then 48 + n else 55 + n)"

definition path_char_ok :: "char \<Rightarrow> bool" where
  "path_char_ok c \<longleftrightarrow>
     (let n = (of_char c :: nat) in
      48 \<le> n \<and> n \<le> 57 \<or> 65 \<le> n \<and> n \<le> 90 \<or> 97 \<le> n \<and> n \<le> 122) \<or> c \<in> set ''-_.~$&+,/:;=@''"

definition escape_path_char :: "char \<Rightarrow> string" where
  "escape_path_char c =
     (if path_char_ok c then [c]
      else [CHR ''%'', upper_hex (of_char c div 16), upper_hex (of_char c mod 16)])"

definition escape_path :: "string \<Rightarrow> string" where
  "escape_path p = (if p = ''*'' then p else concat (map escape_path_char p))"

definition path_url :: "string \<Rightarrow> string \<Rightarrow> url" where
  "path_url p q =
     \<lparr>url_scheme = [], url_host = [], url_path = p, url_escaped = escape_path p,
      url_raw_query = q, url_force_query = False\<rparr>"

definition blank_request :: request where
  "blank_request =
     \<lparr>req_method = ''GET'', req_url = Some (path_url ''/'' []), req_proto = ''HTTP/1.1'',
      req_proto_major = 1, req_host = [], req_remote = [], req_header = [], req_body = NilBody,
      req_form = None\<rparr>"

definition set_target :: "string \<Rightarrow> request \<Rightarrow> request" where
  "set_target val r =
     (case index_byte val (CHR ''?'') of
        None \<Rightarrow>
          r\<lparr>req_url := map_option (\<lambda>u. path_url val (url_raw_query u)) (req_url r)\<rparr>
      | Some i \<Rightarrow> r\<lparr>req_url := Some (path_url (take i val) (drop (i + 1) val))\<rparr>)"

definition add_header_value :: "request \<Rightarrow> header_value \<Rightarrow> request" where
  "add_header_value r h =
     (let key = to_lower (hv_key h);
          val = (if hv_value h = [] then hv_raw h else hv_value h)
      in if key = '':method'' then r\<lparr>req_method := val\<rparr>
         else if key = '':path'' then set_target val r
         else if key = '':authority'' \<or> key = ''host'' then r\<lparr>req_host := val\<rparr>
         else if \<not> has_prefix key '':'' then r\<lparr>req_header := header_add (req_header r) (hv_key h) val\<rparr>
         else r)"

definition build_request :: "header_value list option \<Rightarrow> request option" where
  "build_request hs = map_option (foldl add_header_value blank_request) hs"

subsection \<open>Responses\<close>

text \<open>The statuses with an entry in \<open>statusCodes\<close>; any other status is sent as 200.\<close>

definition envoy_status :: "int \<Rightarrow> int" where
  "envoy_status s = (if s \<in> set [400, 403, 413, 429, 500] then s else 200)"

definition block_response :: "int \<Rightarrow> string \<Rightarrow> ext_response" where
  "block_response s details = Immediate (envoy_status s) details"

definition reason_text :: "verdict \<Rightarrow> string" where
  "reason_text v =
     (case v_reasons v of
        [] \<Rightarrow> ''blocked by SwipeShield''
      | r # _ \<Rightarrow> r_module r @ '': '' @ r_message r @ '' (rule '' @ r_rule_id r @ '')'')"

definition verdict_response :: "bool \<Rightarrow> verdict \<Rightarrow> ext_response" where
  "verdict_response on_body v =
     (if v_decision v = Block \<or> v_decision v = Challenge
      then block_response (if v_status v = 0 then 403 else v_status v) (reason_text v)
      else if on_body then AllowBody (v_decision v) else AllowHeaders (v_decision v))"

subsection \<open>The stream (Process and decide)\<close>

text \<open>\<open>eval\<close> is the interface \<open>evaluator\<close>, on an explicit state.\<close>

type_synonym ('g, 'e) evaluator = "request \<Rightarrow> string \<Rightarrow> 'g \<Rightarrow> ('e, 'g \<times> verdict) go"

record stream_state =
  ss_r :: "request option"
  ss_body :: string
  ss_closed :: bool
  ss_on_body :: bool

definition new_stream :: stream_state where
  "new_stream = \<lparr>ss_r = None, ss_body = [], ss_closed = False, ss_on_body = False\<rparr>"

definition decide_stream ::
    "('g, 'e) evaluator \<Rightarrow> stream_state \<Rightarrow> 'g \<Rightarrow> (unit, stream_state \<times> 'g \<times> ext_response option) go" where
  "decide_stream eval st g =
     (if ss_closed st then Ok (st, g, None)
      else
        let st' = st\<lparr>ss_closed := True\<rparr> in
        (case ss_r st of
           None \<Rightarrow> Ok (st', g, Some (block_response 400 ''missing request headers''))
         | Some r \<Rightarrow>
             (case eval r (ss_body st) g of
                Panic \<Rightarrow> Panic
              | Fail _ \<Rightarrow> Ok (st', g, Some (block_response 500 ''inspection failure''))
              | Ok (g', v) \<Rightarrow> Ok (st', g', Some (verdict_response (ss_on_body st) v)))))"

definition on_message ::
    "('g, 'e) evaluator \<Rightarrow> ext_message \<Rightarrow> stream_state \<Rightarrow> 'g \<Rightarrow>
     (unit, stream_state \<times> 'g \<times> ext_response option) go" where
  "on_message eval m st g =
     (case m of
        RequestHeaders hs eos \<Rightarrow>
          let st1 = st\<lparr>ss_on_body := False,
                       ss_r := (case ss_r st of None \<Rightarrow> build_request hs | Some r \<Rightarrow> Some r)\<rparr> in
          if \<not> eos then Ok (st1, g, Some ContinueHeaders) else decide_stream eval st1 g
      | RequestBody b eos \<Rightarrow>
          let st1 = st\<lparr>ss_on_body := True, ss_body := ss_body st @ b\<rparr> in
          if \<not> eos then Ok (st1, g, None) else decide_stream eval st1 g
      | OtherMessage \<Rightarrow> Ok (st, g, None))"

datatype process_end = ProcessDone | ProcessRecvFailed | ProcessAborted | ProcessCrashed

text \<open>
  The loop over the messages that arrive, each with whether an answer could be sent; \<open>eof\<close>
  says how the stream ends after the last one. A panic in the evaluation is not recovered by
  the gRPC server. The responses are those that were sent.
\<close>

fun process ::
    "('g, 'e) evaluator \<Rightarrow> (ext_message \<times> bool) list \<Rightarrow> bool \<Rightarrow> stream_state \<Rightarrow> 'g \<Rightarrow>
     ext_response list \<times> 'g \<times> process_end" where
  "process eval [] eof st g = ([], g, if eof then ProcessDone else ProcessRecvFailed)"
| "process eval ((m, ok) # ms) eof st g =
     (case on_message eval m st g of
        Ok (st', g', None) \<Rightarrow> process eval ms eof st' g'
      | Ok (st', g', Some resp) \<Rightarrow>
          if ok then (case process eval ms eof st' g' of (rs, g'', e) \<Rightarrow> (resp # rs, g'', e))
          else ([], g', ProcessAborted)
      | _ \<Rightarrow> ([], g, ProcessCrashed))"

subsection \<open>What the gateway promises to the external processor\<close>

locale request_evaluator =
  fixes eval :: "('g, 'e) evaluator"
  assumes block_status: "eval r b g = Ok (g', v) \<Longrightarrow> v_decision v = Block \<Longrightarrow> 400 \<le> v_status v"
    and challenge_status: "eval r b g = Ok (g', v) \<Longrightarrow> v_decision v = Challenge \<Longrightarrow> v_status v = 429"
begin

lemma verdict_sent:
  assumes "eval r b g = Ok (g', v)"
  shows "verdict_response on_body v =
    (case v_decision v of
       Block \<Rightarrow> Immediate (envoy_status (v_status v)) (reason_text v)
     | Challenge \<Rightarrow> Immediate 429 (reason_text v)
     | a \<Rightarrow> (if on_body then AllowBody a else AllowHeaders a))"
  using block_status [OF assms] challenge_status [OF assms]
  by (auto simp: verdict_response_def block_response_def envoy_status_def split: action.split)

lemma blocked_code:
  assumes "eval r b g = Ok (g', v)" and "v_decision v = Block"
    and "verdict_response on_body v = Immediate code details"
  shows "code = v_status v \<or> code = 200 \<and> v_status v \<notin> {400, 403, 413, 429, 500}"
  using assms(2,3) by (auto simp: verdict_sent [OF assms(1)] envoy_status_def)

end

interpretation gateway: request_evaluator "gateway_evaluate w" for w
proof unfold_locales
  fix r b and g g' :: "'a gateway" and v
  assume ev: "gateway_evaluate w r b g = Ok (g', v)"
  then consider "v = bad_host_verdict" | rs where "v = summarize rs"
    by (auto simp: gateway_evaluate_def go_bind_Ok_iff inspect_def split: option.splits)
  then have "(v_decision v = Block \<longrightarrow> 400 \<le> v_status v) \<and> (v_decision v = Challenge \<longrightarrow> v_status v = 429)"
    by cases (auto simp: bad_host_verdict_def summarize_def split: prod.split)
  then show "v_decision v = Block \<Longrightarrow> 400 \<le> v_status v" "v_decision v = Challenge \<Longrightarrow> v_status v = 429"
    by blast+
qed

subsection \<open>The stream as a whole\<close>

definition ends_request :: "ext_message \<Rightarrow> bool" where
  "ends_request m \<longleftrightarrow>
     (case m of RequestHeaders _ eos \<Rightarrow> eos | RequestBody _ eos \<Rightarrow> eos | OtherMessage \<Rightarrow> False)"

definition is_body :: "ext_message \<Rightarrow> bool" where
  "is_body m \<longleftrightarrow> (case m of RequestBody _ _ \<Rightarrow> True | _ \<Rightarrow> False)"

text \<open>The request that a sequence of messages describes: the first headers, all body parts.\<close>

definition header_lists :: "ext_message list \<Rightarrow> header_value list list" where
  "header_lists ms = concat (map (\<lambda>m. case m of RequestHeaders (Some hs) _ \<Rightarrow> [hs] | _ \<Rightarrow> []) ms)"

definition request_of :: "ext_message list \<Rightarrow> request option" where
  "request_of ms =
     (case header_lists ms of
        [] \<Rightarrow> None
      | hs # _ \<Rightarrow> build_request (Some hs))"

definition bodies :: "ext_message list \<Rightarrow> string" where
  "bodies ms = concat (map (\<lambda>m. case m of RequestBody b _ \<Rightarrow> b | _ \<Rightarrow> []) ms)"

definition answer :: "('g, 'e) evaluator \<Rightarrow> ext_message list \<Rightarrow> bool \<Rightarrow> 'g \<Rightarrow> ext_response option" where
  "answer eval ms on_body g =
     (case request_of ms of
        None \<Rightarrow> Some (block_response 400 ''missing request headers'')
      | Some r \<Rightarrow>
          (case eval r (bodies ms) g of
             Ok (g', v) \<Rightarrow> Some (verdict_response on_body v)
           | Fail _ \<Rightarrow> Some (block_response 500 ''inspection failure'')
           | Panic \<Rightarrow> None))"

lemma bodies_simps [simp]:
  "bodies [] = []" "bodies (m # ms) = (case m of RequestBody b _ \<Rightarrow> b | _ \<Rightarrow> []) @ bodies ms"
  "bodies (ms @ ms') = bodies ms @ bodies ms'"
  by (simp_all add: bodies_def)

lemma request_of_Nil [simp]: "request_of [] = None"
  by (simp add: request_of_def header_lists_def)

lemma header_lists_snoc:
  "header_lists (ms @ [m]) =
     header_lists ms @ (case m of RequestHeaders (Some hs) _ \<Rightarrow> [hs] | _ \<Rightarrow> [])"
  by (simp add: header_lists_def)

lemma request_of_snoc:
  "request_of (ms @ [m]) =
     (case request_of ms of
        None \<Rightarrow> (case m of RequestHeaders hs _ \<Rightarrow> build_request hs | _ \<Rightarrow> None)
      | Some r \<Rightarrow> Some r)"
  by (cases "header_lists ms")
     (auto simp: request_of_def build_request_def header_lists_snoc split: ext_message.split option.split)

text \<open>The state that collects, before a verdict, is the messages seen so far.\<close>

definition collects :: "ext_message list \<Rightarrow> stream_state \<Rightarrow> bool" where
  "collects ms st \<longleftrightarrow> ss_r st = request_of ms \<and> ss_body st = bodies ms \<and> \<not> ss_closed st"

lemma on_message_closed:
  assumes "ss_closed st"
  obtains st' where "ss_closed st'"
    and "on_message eval m st g = Ok (st', g, None) \<or> on_message eval m st g = Ok (st', g, Some ContinueHeaders)"
proof (cases m)
  case (RequestHeaders hs eos)
  with that [of "st\<lparr>ss_on_body := False,
      ss_r := (case ss_r st of None \<Rightarrow> build_request hs | Some r \<Rightarrow> Some r)\<rparr>"] assms
  show ?thesis by (cases eos) (simp_all add: on_message_def decide_stream_def)
next
  case (RequestBody b eos)
  with that [of "st\<lparr>ss_on_body := True, ss_body := ss_body st @ b\<rparr>"] assms
  show ?thesis by (cases eos) (simp_all add: on_message_def decide_stream_def)
next
  case OtherMessage
  with that [of st] assms show ?thesis by (simp add: on_message_def)
qed

lemma process_closed:
  assumes "ss_closed st"
  shows "set (fst (process eval ms eof st g)) \<subseteq> {ContinueHeaders}"
  using assms
proof (induction ms arbitrary: st)
  case (Cons a ms)
  obtain m ok where a: "a = (m, ok)" by (cases a)
  from on_message_closed [OF Cons.prems, of eval m g] obtain st' where st': "ss_closed st'"
    and "on_message eval m st g = Ok (st', g, None) \<or> on_message eval m st g = Ok (st', g, Some ContinueHeaders)"
    by blast
  then show ?case
    using Cons.IH [OF st'] by (cases "process eval ms eof st' g") (auto simp: a split: if_splits)
qed simp

lemma decide_collected:
  assumes "collects ms st"
  shows "case answer eval ms (ss_on_body st) g of
      Some resp \<Rightarrow> (\<exists>st' g'. ss_closed st' \<and> decide_stream eval st g = Ok (st', g', Some resp))
    | None \<Rightarrow> decide_stream eval st g = Panic"
proof (cases "request_of ms")
  case None
  with assms show ?thesis by (simp add: answer_def decide_stream_def collects_def)
next
  case (Some r)
  with assms show ?thesis
    by (cases "eval r (bodies ms) g") (auto simp: answer_def decide_stream_def collects_def)
qed

lemma message_step:
  assumes "collects (ms @ [m]) t" and "is_body m = ss_on_body t"
    and "on_message eval m st g = (if ends_request m then decide_stream eval t g else Ok (t, g, x))"
  shows "if ends_request m
    then (case answer eval (ms @ [m]) (is_body m) g of
            Some resp \<Rightarrow> (\<exists>st' g'. ss_closed st' \<and> on_message eval m st g = Ok (st', g', Some resp))
          | None \<Rightarrow> on_message eval m st g = Panic)
    else (\<exists>st'. collects (ms @ [m]) st' \<and> on_message eval m st g = Ok (st', g, x))"
proof (cases "ends_request m")
  case True
  then have e: "on_message eval m st g = decide_stream eval t g" using assms(3) by simp
  show ?thesis
    using decide_collected [OF assms(1), of eval g] True unfolding e assms(2) by (simp only: if_True)
next
  case False
  with assms(1,3) show ?thesis by auto
qed

lemma on_message_collects:
  assumes "collects ms st"
  shows "if ends_request m
    then (case answer eval (ms @ [m]) (is_body m) g of
            Some resp \<Rightarrow> (\<exists>st' g'. ss_closed st' \<and> on_message eval m st g = Ok (st', g', Some resp))
          | None \<Rightarrow> on_message eval m st g = Panic)
    else (\<exists>st'. collects (ms @ [m]) st' \<and>
       on_message eval m st g = Ok (st', g, (case m of RequestHeaders _ _ \<Rightarrow> Some ContinueHeaders | _ \<Rightarrow> None)))"
proof (cases m)
  case (RequestHeaders hs eos)
  show ?thesis
    by (rule message_step [where t = "st\<lparr>ss_on_body := False,
               ss_r := (case ss_r st of None \<Rightarrow> build_request hs | Some r \<Rightarrow> Some r)\<rparr>"])
       (use assms in \<open>simp_all add: RequestHeaders collects_def request_of_snoc is_body_def ends_request_def
          on_message_def split: option.split\<close>)
next
  case (RequestBody b eos)
  show ?thesis
    by (rule message_step [where t = "st\<lparr>ss_on_body := True, ss_body := ss_body st @ b\<rparr>"])
       (use assms in \<open>simp_all add: RequestBody collects_def request_of_snoc is_body_def ends_request_def
          on_message_def split: option.split\<close>)
next
  case OtherMessage
  then show ?thesis using assms
    by (auto simp: on_message_def collects_def ends_request_def request_of_snoc split: option.split)
qed

lemma process_answers:
  assumes "collects seen st"
  shows "(\<forall>resp \<in> set (fst (process eval ms eof st g)). resp \<noteq> ContinueHeaders \<longrightarrow>
      (\<exists>ms1 m ok ms2. ms = ms1 @ (m, ok) # ms2 \<and> ends_request m \<and>
         (\<forall>x \<in> set ms1. \<not> ends_request (fst x)) \<and>
         answer eval (seen @ map fst ms1 @ [m]) (is_body m) g = Some resp)) \<and>
    length (filter (\<lambda>x. x \<noteq> ContinueHeaders) (fst (process eval ms eof st g))) \<le> 1"
  using assms
proof (induction ms arbitrary: st seen)
  case (Cons a ms)
  obtain m ok where a: "a = (m, ok)" by (cases a)
  show ?case
  proof (cases "ends_request m")
    case True
    with on_message_collects [OF Cons.prems, of m eval g] have
      step: "case answer eval (seen @ [m]) (is_body m) g of
          Some resp \<Rightarrow> (\<exists>st' g'. ss_closed st' \<and> on_message eval m st g = Ok (st', g', Some resp))
        | None \<Rightarrow> on_message eval m st g = Panic" by simp
    show ?thesis
    proof (cases "answer eval (seen @ [m]) (is_body m) g")
      case None
      with step show ?thesis by (simp add: a)
    next
      case (Some resp)
      with step obtain st' g' where st': "ss_closed st'"
        and ok: "on_message eval m st g = Ok (st', g', Some resp)" by auto
      let ?rest = "fst (process eval ms eof st' g')"
      have rest: "set ?rest \<subseteq> {ContinueHeaders}" by (rule process_closed [OF st'])
      then have "filter (\<lambda>x. x \<noteq> ContinueHeaders) ?rest = []" by (auto simp: filter_empty_conv)
      moreover have out: "fst (process eval (a # ms) eof st g) = (if ok then resp # ?rest else [])"
        using ok by (simp add: a split: prod.split)
      moreover have "\<exists>ms1 m' ok' ms2. a # ms = ms1 @ (m', ok') # ms2 \<and> ends_request m' \<and>
         (\<forall>x \<in> set ms1. \<not> ends_request (fst x)) \<and>
         answer eval (seen @ map fst ms1 @ [m']) (is_body m') g = Some resp"
        by (rule exI [of _ "[]"]) (use a True Some in auto)
      ultimately show ?thesis using rest by auto
    qed
  next
    case False
    with on_message_collects [OF Cons.prems, of m eval g] obtain st' where c: "collects (seen @ [m]) st'"
      and step: "on_message eval m st g =
        Ok (st', g, (case m of RequestHeaders _ _ \<Rightarrow> Some ContinueHeaders | _ \<Rightarrow> None))" by auto
    let ?rest = "fst (process eval ms eof st' g)"
    have sub: "set (fst (process eval (a # ms) eof st g)) \<subseteq> insert ContinueHeaders (set ?rest)"
      and len: "length (filter (\<lambda>x. x \<noteq> ContinueHeaders) (fst (process eval (a # ms) eof st g))) \<le>
         length (filter (\<lambda>x. x \<noteq> ContinueHeaders) ?rest)"
      using step by (auto simp: a split: ext_message.split prod.split)
    have "\<exists>ms1 m' ok' ms2. a # ms = ms1 @ (m', ok') # ms2 \<and> ends_request m' \<and>
        (\<forall>x \<in> set ms1. \<not> ends_request (fst x)) \<and>
        answer eval (seen @ map fst ms1 @ [m']) (is_body m') g = Some resp"
      if resp: "resp \<in> set ?rest" "resp \<noteq> ContinueHeaders" for resp
    proof -
      from Cons.IH [OF c] resp obtain ms1 m' ok' ms2 where "ms = ms1 @ (m', ok') # ms2" "ends_request m'"
        "\<forall>x \<in> set ms1. \<not> ends_request (fst x)"
        "answer eval ((seen @ [m]) @ map fst ms1 @ [m']) (is_body m') g = Some resp" by blast
      with False show ?thesis by (intro exI [of _ "a # ms1"]) (auto simp: a)
    qed
    with sub len Cons.IH [OF c] show ?thesis by fastforce
  qed
qed simp

subsection \<open>Properties\<close>

text \<open>
  C14. The sidecar passes nothing on its own account: whatever messages a stream carries, with
  any evaluator, at most one answer other than the acknowledgement of the headers is sent, and
  it answers the first message that ends the request, for the request described by the first
  headers and the concatenation of all body parts up to there. In particular an allowing
  answer means that exactly this request was evaluated and its verdict was neither block nor
  challenge; and a stream without such a message (a request with trailers) gets no verdict.
\<close>

theorem envoy_allows_only_inspected:
  assumes "resp \<in> set (fst (process eval ms eof new_stream g))" and "resp \<noteq> ContinueHeaders"
  shows "length (filter (\<lambda>x. x \<noteq> ContinueHeaders) (fst (process eval ms eof new_stream g))) \<le> 1 \<and>
    (\<exists>ms1 m ok ms2. ms = ms1 @ (m, ok) # ms2 \<and> ends_request m \<and>
       filter ends_request (map fst ms1) = [] \<and>
       answer eval (map fst ms1 @ [m]) (is_body m) g = Some resp \<and>
       ((\<exists>a. resp = AllowHeaders a \<or> resp = AllowBody a) \<longrightarrow>
          (\<exists>r g' v. request_of (map fst ms1 @ [m]) = Some r \<and>
             eval r (bodies (map fst ms1 @ [m])) g = Ok (g', v) \<and>
             v_decision v \<noteq> Block \<and> v_decision v \<noteq> Challenge)))"
proof
  have "collects [] new_stream" by (simp add: collects_def new_stream_def)
  from process_answers [OF this, of eval ms eof g] assms obtain ms1 m ok ms2 where
      split: "ms = ms1 @ (m, ok) # ms2" "ends_request m" "\<forall>x \<in> set ms1. \<not> ends_request (fst x)"
      "answer eval (map fst ms1 @ [m]) (is_body m) g = Some resp"
    and "length (filter (\<lambda>x. x \<noteq> ContinueHeaders) (fst (process eval ms eof new_stream g))) \<le> 1"
    by auto
  then show "length (filter (\<lambda>x. x \<noteq> ContinueHeaders) (fst (process eval ms eof new_stream g))) \<le> 1"
    by simp
  have "filter ends_request (map fst ms1) = []" using split(3) by (auto simp: filter_empty_conv)
  moreover have "\<exists>r g' v. request_of (map fst ms1 @ [m]) = Some r \<and>
      eval r (bodies (map fst ms1 @ [m])) g = Ok (g', v) \<and> v_decision v \<noteq> Block \<and> v_decision v \<noteq> Challenge"
    if "resp = AllowHeaders a \<or> resp = AllowBody a" for a
    using split(4) that
    by (auto simp: answer_def block_response_def verdict_response_def split: option.splits go.splits if_splits)
  ultimately show "\<exists>ms1 m ok ms2. ms = ms1 @ (m, ok) # ms2 \<and> ends_request m \<and>
       filter ends_request (map fst ms1) = [] \<and>
       answer eval (map fst ms1 @ [m]) (is_body m) g = Some resp \<and>
       ((\<exists>a. resp = AllowHeaders a \<or> resp = AllowBody a) \<longrightarrow>
          (\<exists>r g' v. request_of (map fst ms1 @ [m]) = Some r \<and>
             eval r (bodies (map fst ms1 @ [m])) g = Ok (g', v) \<and>
             v_decision v \<noteq> Block \<and> v_decision v \<noteq> Challenge))"
    using split by blast
qed

lemma process_bodies:
  "process eval (map (\<lambda>b. (RequestBody b False, True)) bs @ ms) eof st g =
     process eval ms eof
       (if bs = [] then st else st\<lparr>ss_on_body := True, ss_body := ss_body st @ concat bs\<rparr>) g"
  by (induction bs arbitrary: st) (simp_all add: on_message_def)

lemma process_buffered:
  assumes "ss_r st = Some r" and "\<not> ss_closed st"
  shows "process eval (map (\<lambda>b. (RequestBody b False, True)) bs @ [(RequestBody b True, True)]) True st g =
    (case eval r (ss_body st @ concat bs @ b) g of
       Ok (g', v) \<Rightarrow> ([verdict_response True v], g', ProcessDone)
     | Fail _ \<Rightarrow> ([block_response 500 ''inspection failure''], g, ProcessDone)
     | Panic \<Rightarrow> ([], g, ProcessCrashed))"
  using assms
  by (cases "eval r (ss_body st @ concat bs @ b) g")
     (auto simp: process_bodies on_message_def decide_stream_def)

text \<open>
  C24. A buffered request end to end through the gateway: after headers and any number of body
  parts exactly one verdict is sent, the one \<open>Evaluate\<close> gives for the whole body. A block is
  an immediate answer with the verdict's status only where \<open>statusCodes\<close> knows it: every other
  blocking status (503, 451, 406 ...) is sent to the client as 200. A challenge is an
  immediate 429, a failed inspection a 500, and a panic of the inspection ends the process.
\<close>

theorem envoy_buffered_verdict:
  "process (gateway_evaluate w)
     ((RequestHeaders (Some hs) False, True) # map (\<lambda>b. (RequestBody b False, True)) bs @
      [(RequestBody b True, True)]) True new_stream g =
   (case gateway_evaluate w (foldl add_header_value blank_request hs) (concat bs @ b) g of
      Ok (g', v) \<Rightarrow>
        ([ContinueHeaders,
          (case v_decision v of
             Block \<Rightarrow> Immediate (if v_status v \<in> {400, 403, 413, 429, 500} then v_status v else 200)
                        (reason_text v)
           | Challenge \<Rightarrow> Immediate 429 (reason_text v)
           | a \<Rightarrow> AllowBody a)], g', ProcessDone)
    | Fail _ \<Rightarrow> ([ContinueHeaders, Immediate 500 ''inspection failure''], g, ProcessDone)
    | Panic \<Rightarrow> ([ContinueHeaders], g, ProcessCrashed))"
proof -
  let ?r = "foldl add_header_value blank_request hs"
  let ?st = "new_stream\<lparr>ss_r := Some ?r\<rparr>"
  have head: "on_message (gateway_evaluate w) (RequestHeaders (Some hs) False) new_stream g =
      Ok (?st, g, Some ContinueHeaders)"
    by (simp add: on_message_def new_stream_def build_request_def)
  have st: "ss_r ?st = Some ?r" "\<not> ss_closed ?st" "ss_body ?st = []" by (simp_all add: new_stream_def)
  show ?thesis
  proof (cases "gateway_evaluate w ?r (concat bs @ b) g")
    case (Ok x)
    obtain g' v where x: "x = (g', v)" by (cases x)
    from gateway.verdict_sent [OF Ok [unfolded x]] process_buffered [OF st(1,2), of "gateway_evaluate w" bs b g]
    show ?thesis by (simp add: head st Ok x envoy_status_def cong: action.case_cong)
  qed (use process_buffered [OF st(1,2), of "gateway_evaluate w" bs b g] in
        \<open>simp_all add: head st block_response_def envoy_status_def\<close>)
qed

text \<open>
  The path reaches the inspection undecoded: \<open>buildRequest\<close> assigns the target Envoy sends
  to \<open>URL.Path\<close>, so the percent signs of an encoded path are encoded once more in the request
  URI. A traversal with encoded dots and a plain slash, which the native rules find in the
  same target parsed by net/http, is found in neither form here.
\<close>

theorem envoy_path_not_decoded:
  assumes "CHR ''?'' \<notin> set p"
    and "build_request (Some [\<lparr>hv_key = '':path'', hv_value = [], hv_raw = p\<rparr>]) = Some r"
  shows "req_url r = Some (path_url p []) \<and>
    (p = ''/a/%2e%2e/secret'' \<and> url_path u = ''/a/../secret'' \<and> t_path_traversal t \<longrightarrow>
       evaluate_native_uri t (engine_uri r) (url_path (path_url p [])) = [] \<and>
       evaluate_native_uri t (request_uri u) (url_path u) \<noteq> [])"
proof -
  have "to_lower '':path'' = '':path''" by code_simp
  moreover from assms(1) have "index_byte p (CHR ''?'') = None" by (simp add: index_byte_None)
  ultimately have r: "r = blank_request\<lparr>req_url := Some (path_url p [])\<rparr>"
    using assms(2)
    by (auto simp: build_request_def add_header_value_def set_target_def blank_request_def path_url_def)
  have "\<not> match_string native_traversal_raw (request_uri (path_url ''/a/%2e%2e/secret'' []))"
    by code_simp
  moreover have "\<not> match_string native_traversal_decoded ''/a/%2e%2e/secret''"
    by code_simp
  moreover have "match_string native_traversal_decoded ''/a/../secret''"
    by code_simp
  ultimately show ?thesis
    by (auto simp: r evaluate_native_uri_def native_uri_rules_def engine_uri_def path_url_def)
qed

text \<open>Witnesses.\<close>

definition traversal_headers :: "header_value list" where
  "traversal_headers = [\<lparr>hv_key = '':path'', hv_value = [], hv_raw = ''/a/%2e%2e/secret''\<rparr>]"

theorem envoy_path_not_decoded_witness:
  "\<exists>r. build_request (Some traversal_headers) = Some r \<and>
     req_url r = Some (path_url ''/a/%2e%2e/secret'' [])"
proof -
  obtain r where r: "build_request (Some [\<lparr>hv_key = '':path'', hv_value = [], hv_raw = ''/a/%2e%2e/secret''\<rparr>]) = Some r"
    by (simp add: build_request_def)
  have "CHR ''?'' \<notin> set ''/a/%2e%2e/secret''" by simp
  from envoy_path_not_decoded [OF this r] r show ?thesis by (auto simp: traversal_headers_def)
qed

definition demo_verdict :: "(unit, unit) evaluator" where
  "demo_verdict r b g = Ok ((), summarize [])"

theorem envoy_allows_only_inspected_witness:
  "\<exists>ms1 m ok ms2. [(RequestHeaders (Some []) True, True)] = ms1 @ (m, ok) # ms2 \<and> ends_request m \<and>
     answer demo_verdict (map fst ms1 @ [m]) (is_body m) () = Some (AllowHeaders Allow)"
proof -
  have "AllowHeaders Allow \<in> set (fst (process demo_verdict [(RequestHeaders (Some []) True, True)] True new_stream ()))"
    by (simp add: on_message_def decide_stream_def new_stream_def build_request_def demo_verdict_def
        verdict_response_def summarize_def)
  from envoy_allows_only_inspected [OF this] show ?thesis by blast
qed

end
