(* ===== verification/MgmtAuth.thy ===== *)
theory MgmtAuth
  imports Http
begin

text \<open>
  Package mgmtapi, authentication (auth.go): password hashes and JSON web tokens. The base64
  codecs of the standard library are modelled; argon2id, HMAC-SHA256, the JSON codec of the
  claims, the clock and random bytes are arguments.
\<close>

subsection \<open>Base64 without padding (encoding/base64)\<close>

text \<open>An alphabet is given by its last two characters.\<close>

type_synonym alphabet = "char \<times> char"

definition std_alphabet :: alphabet where
  "std_alphabet = (CHR ''+'', CHR ''/'')"

definition url_alphabet :: alphabet where
  "url_alphabet = (CHR ''-'', CHR ''_'')"

definition b64_char :: "alphabet \<Rightarrow> nat \<Rightarrow> char" where
  "b64_char al n =
     (if n < 26 then char_of (65 + n)
      else if n < 52 then char_of (71 + n)
      else if n < 62 then char_of (n - 4)
      else if n = 62 then fst al else snd al)"

definition b64_val :: "alphabet \<Rightarrow> char \<Rightarrow> nat option" where
  "b64_val al c =
     (let n = (of_char c :: nat) in
      if 65 \<le> n \<and> n \<le> 90 then Some (n - 65)
      else if 97 \<le> n \<and> n \<le> 122 then Some (n - 71)
      else if 48 \<le> n \<and> n \<le> 57 then Some (n + 4)
      else if c = fst al then Some 62
      else if c = snd al then Some 63 else None)"

fun sextets :: "byte list \<Rightarrow> nat list" where
  "sextets [] = []"
| "sextets [a] = [unat a div 4, unat a mod 4 * 16]"
| "sextets [a, b] = [unat a div 4, unat a mod 4 * 16 + unat b div 16, unat b mod 16 * 4]"
| "sextets (a # b # c # r) =
     (unat a div 4) # (unat a mod 4 * 16 + unat b div 16) #
     (unat b mod 16 * 4 + unat c div 64) # (unat c mod 64) # sextets r"

fun octets :: "nat list \<Rightarrow> byte list option" where
  "octets [] = Some []"
| "octets [x] = None"
| "octets [x, y] = Some [word_of_nat (x * 4 + y div 16)]"
| "octets [x, y, z] = Some [word_of_nat (x * 4 + y div 16), word_of_nat (y mod 16 * 16 + z div 4)]"
| "octets (x # y # z # w # r) =
     map_option (\<lambda>bs. word_of_nat (x * 4 + y div 16) # word_of_nat (y mod 16 * 16 + z div 4) #
                      word_of_nat (z mod 4 * 64 + w) # bs) (octets r)"

definition b64_encode :: "alphabet \<Rightarrow> byte list \<Rightarrow> string" where
  "b64_encode al bs = map (b64_char al) (sextets bs)"

text \<open>The decoder skips line ends and does not look at unused bits of the last character.\<close>

definition b64_decode :: "alphabet \<Rightarrow> string \<Rightarrow> byte list option" where
  "b64_decode al s =
     (case those (map (b64_val al) (filter (\<lambda>c. c \<noteq> CHR 0x0D \<and> c \<noteq> CHR 0x0A) s)) of
        None \<Rightarrow> None | Some ns \<Rightarrow> octets ns)"

lemma byte_parts: "unat (b :: byte) div 4 < 64" "unat b div 16 < 16" "unat b div 64 < 4"
  by (rule less_mult_imp_div_less, simp)+

lemma sextets_small: "n \<in> set (sextets bs) \<Longrightarrow> n < 64"
proof (induction bs rule: sextets.induct)
  case (2 a)
  then show ?case using byte_parts(1) [of a] mod_less_divisor [of 4 "unat a"] by auto
next
  case (3 a b)
  then show ?case
    using byte_parts(1) [of a] byte_parts(2) [of b] mod_less_divisor [of 4 "unat a"]
      mod_less_divisor [of 16 "unat b"] by auto
next
  case (4 a b c r)
  then show ?case
    using byte_parts(1) [of a] byte_parts(2) [of b] byte_parts(3) [of c] mod_less_divisor [of 4 "unat a"]
      mod_less_divisor [of 16 "unat b"] mod_less_divisor [of 64 "unat c"] by auto
qed simp

lemma sextet_parts:
  fixes a b c :: byte
  shows "unat a div 4 * 4 + (unat a mod 4 * 16 + unat b div 16) div 16 = unat a"
    and "(unat a mod 4 * 16 + unat b div 16) mod 16 * 16 + (unat b mod 16 * 4 + unat c div 64) div 4 = unat b"
    and "(unat b mod 16 * 4 + unat c div 64) mod 4 * 64 + unat c mod 64 = unat c"
    and "unat a div 4 * 4 + (unat a mod 4 * 16) div 16 = unat a"
    and "(unat a mod 4 * 16 + unat b div 16) mod 16 * 16 + (unat b mod 16 * 4) div 4 = unat b"
proof -
  note s = byte_parts(2) [of b] byte_parts(3) [of c]
  have join: "(x * 16 + y) div 16 = x" "(x * 16 + y) mod 16 = y" if "y < 16" for x y :: nat
    using that by simp_all
  have join4: "(x * 4 + y) div 4 = x" "(x * 4 + y) mod 4 = y" if "y < 4" for x y :: nat
    using that by simp_all
  show "unat a div 4 * 4 + (unat a mod 4 * 16 + unat b div 16) div 16 = unat a"
    unfolding join [OF s(1)] by (rule div_mult_mod_eq)
  show "(unat a mod 4 * 16 + unat b div 16) mod 16 * 16 + (unat b mod 16 * 4 + unat c div 64) div 4 = unat b"
    unfolding join [OF s(1)] join4 [OF s(2)] by (rule div_mult_mod_eq)
  show "(unat b mod 16 * 4 + unat c div 64) mod 4 * 64 + unat c mod 64 = unat c"
    unfolding join4 [OF s(2)] by (rule div_mult_mod_eq)
  show "unat a div 4 * 4 + (unat a mod 4 * 16) div 16 = unat a" by simp
  show "(unat a mod 4 * 16 + unat b div 16) mod 16 * 16 + (unat b mod 16 * 4) div 4 = unat b"
    unfolding join [OF s(1)] by simp
qed
lemma word_back: "word_of_nat (unat (b :: byte)) = b"
  by simp

lemma octets_sextets: "octets (sextets bs) = Some bs"
  by (induction bs rule: sextets.induct)
     (simp_all only: sextets.simps octets.simps sextet_parts option.map word_back)

lemma b64_val_char:
  assumes "n < 64" and "al \<in> {std_alphabet, url_alphabet}"
  shows "b64_val al (b64_char al n) = Some n"
proof -
  consider "n < 26" | "26 \<le> n \<and> n < 52" | "52 \<le> n \<and> n < 62" | "n = 62" | "n = 63" using assms(1) by linarith
  then show ?thesis
    using assms(2)
    by cases (auto simp: b64_val_def b64_char_def of_char_of_small std_alphabet_def url_alphabet_def Let_def)
qed

text \<open>The characters of encoded text: none of them is a dot, a dollar sign or a line end.\<close>

lemma b64_char_safe:
  assumes "n < 64" and "al \<in> {std_alphabet, url_alphabet}"
  shows "b64_char al n \<notin> {CHR ''.'', CHR ''$'', CHR '','', CHR 0x0D, CHR 0x0A}"
proof -
  have "b64_val al c = None" if "c \<in> {CHR ''.'', CHR ''$'', CHR '','', CHR 0x0D, CHR 0x0A}" for c
    using that assms(2) by (auto simp: b64_val_def std_alphabet_def url_alphabet_def Let_def)
  with b64_val_char [OF assms] show ?thesis by force
qed

lemma b64_encode_safe:
  assumes "al \<in> {std_alphabet, url_alphabet}" and "c \<in> set (b64_encode al bs)"
  shows "c \<notin> {CHR ''.'', CHR ''$'', CHR '','', CHR 0x0D, CHR 0x0A}"
proof -
  from assms(2) obtain n where "n \<in> set (sextets bs)" "c = b64_char al n" by (auto simp: b64_encode_def)
  with b64_char_safe [OF sextets_small assms(1)] show ?thesis by simp
qed

lemma those_Some: "those (map Some xs) = Some xs"
  by (induction xs) simp_all

lemma b64_round:
  assumes "al \<in> {std_alphabet, url_alphabet}"
  shows "b64_decode al (b64_encode al bs) = Some bs"
proof -
  have "filter (\<lambda>c. c \<noteq> CHR 0x0D \<and> c \<noteq> CHR 0x0A) (b64_encode al bs) = b64_encode al bs"
    using b64_encode_safe [OF assms] by (intro filter_True) blast
  moreover have "map (b64_val al) (b64_encode al bs) = map Some (sextets bs)"
    using b64_val_char [OF _ assms] sextets_small by (simp add: b64_encode_def)
  ultimately show ?thesis by (simp add: b64_decode_def those_Some octets_sextets)
qed

subsection \<open>Passwords\<close>

text \<open>\<open>strconv.ParseUint(v, 10, 32)\<close>.\<close>

definition parse_uint32 :: "string \<Rightarrow> nat option" where
  "parse_uint32 s =
     (if s = [] then None
      else case atoi_digits 0 s of
             None \<Rightarrow> None
           | Some n \<Rightarrow> if n < 4294967296 then Some (nat n) else None)"

fun first_param :: "string \<Rightarrow> string list \<Rightarrow> nat" where
  "first_param k [] = 0"
| "first_param k (kv # kvs) =
     (if has_prefix kv (k @ ''='')
      then (case parse_uint32 (drop (length k + 1) kv) of Some n \<Rightarrow> n | None \<Rightarrow> first_param k kvs)
      else first_param k kvs)"

definition parse_param :: "string \<Rightarrow> string \<Rightarrow> nat" where
  "parse_param s k = first_param k (split_on (CHR '','') s)"

record argon_params =
  ar_hash :: "byte list"
  ar_salt :: "byte list"
  ar_m :: nat
  ar_t :: nat
  ar_p :: nat

definition parse_argon2id :: "string \<Rightarrow> argon_params option" where
  "parse_argon2id encoded =
     (case split_on (CHR ''$'') encoded of
        [_, _, v, params, salt, h] \<Rightarrow>
          if \<not> has_prefix v ''v='' then None
          else
            let m = parse_param params ''m''; t = parse_param params ''t''; p = parse_param params ''p'' in
            if m = 0 \<or> t = 0 \<or> p = 0 then None
            else (case (b64_decode std_alphabet salt, b64_decode std_alphabet h) of
                    (Some s, Some k) \<Rightarrow> Some \<lparr>ar_hash = k, ar_salt = s, ar_m = m, ar_t = t, ar_p = p\<rparr>
                  | _ \<Rightarrow> None)
      | _ \<Rightarrow> None)"

text \<open>
  \<open>argon pw salt t m p len\<close> is \<open>argon2.IDKey\<close>, \<open>None\<close> when it panics. The parallelism is
  cut to eight bits.
\<close>

type_synonym argon2 = "string \<Rightarrow> byte list \<Rightarrow> nat \<Rightarrow> nat \<Rightarrow> nat \<Rightarrow> nat \<Rightarrow> byte list option"

definition verify_password :: "argon2 \<Rightarrow> string \<Rightarrow> string \<Rightarrow> (unit, bool) go" where
  "verify_password argon pw stored =
     (if stored = [] then Ok False
      else if \<not> has_prefix stored ''$argon2id$'' then Ok (pw = stored)
      else (case parse_argon2id stored of
              None \<Rightarrow> Ok False
            | Some a \<Rightarrow>
                (case argon pw (ar_salt a) (ar_t a) (ar_m a) (ar_p a mod 256) (length (ar_hash a)) of
                   None \<Rightarrow> Panic
                 | Some k \<Rightarrow> Ok (k = ar_hash a))))"

definition hash_password ::
    "argon2 \<Rightarrow> byte list option \<Rightarrow> string \<Rightarrow> nat \<Rightarrow> nat \<Rightarrow> nat \<Rightarrow> (unit, string) go" where
  "hash_password argon salt pw m t p =
     (case salt of
        None \<Rightarrow> Fail ()
      | Some s \<Rightarrow>
          (case argon pw s t m (p mod 256) 32 of
             None \<Rightarrow> Panic
           | Some k \<Rightarrow>
               Ok (''$argon2id$v=19$m='' @ show_nat m @ '',t='' @ show_nat t @ '',p='' @ show_nat p @
                   ''$'' @ b64_encode std_alphabet s @ ''$'' @ b64_encode std_alphabet k)))"

subsection \<open>Tokens (HS256)\<close>

record claims =
  cm_sub :: string
  cm_iat :: int
  cm_exp :: int

text \<open>The JSON codec of the claims and HMAC-SHA256 of a key and a message.\<close>

record token_codec =
  tc_marshal :: "claims \<Rightarrow> string"
  tc_unmarshal :: "string \<Rightarrow> claims option"
  tc_hmac :: "string \<Rightarrow> string \<Rightarrow> byte list"

definition b64 :: "byte list \<Rightarrow> string" where
  "b64 bs = b64_encode url_alphabet bs"

definition hmac_sha256 :: "token_codec \<Rightarrow> string \<Rightarrow> string \<Rightarrow> string" where
  "hmac_sha256 tc secret data = b64 (tc_hmac tc secret data)"

definition jwt_header :: string where
  "jwt_header = (let q = [CHR 0x22] in
     ''{'' @ q @ ''alg'' @ q @ '':'' @ q @ ''HS256'' @ q @ '','' @ q @ ''typ'' @ q @ '':'' @ q @ ''JWT'' @ q @ ''}'')"

definition sign_token :: "token_codec \<Rightarrow> string \<Rightarrow> claims \<Rightarrow> string" where
  "sign_token tc secret c =
     (let header = b64 (str_to_bytes jwt_header); payload = b64 (str_to_bytes (tc_marshal tc c)) in
      header @ ''.'' @ payload @ ''.'' @ hmac_sha256 tc secret (header @ ''.'' @ payload))"

definition issue_jwt :: "token_codec \<Rightarrow> int \<Rightarrow> string \<Rightarrow> string \<Rightarrow> int \<Rightarrow> string option" where
  "issue_jwt tc now secret sub ttl =
     (if secret = [] then None
      else Some (sign_token tc secret
             \<lparr>cm_sub = sub, cm_iat = now div 1000000000, cm_exp = (now + ttl) div 1000000000\<rparr>))"

datatype jwt_error = MalformedToken | BadSignature | BadEncoding | BadClaims | TokenExpired

definition verify_jwt :: "token_codec \<Rightarrow> int \<Rightarrow> string \<Rightarrow> string \<Rightarrow> (jwt_error, string) go" where
  "verify_jwt tc now secret tok =
     (case split_on (CHR ''.'') tok of
        [h, p, sig] \<Rightarrow>
          if sig \<noteq> hmac_sha256 tc secret (h @ ''.'' @ p) then Fail BadSignature
          else (case b64_decode url_alphabet p of
                  None \<Rightarrow> Fail BadEncoding
                | Some payload \<Rightarrow>
                    (case tc_unmarshal tc (bytes_to_str payload) of
                       None \<Rightarrow> Fail BadClaims
                     | Some c \<Rightarrow>
                         if cm_exp c < now div 1000000000 then Fail TokenExpired else Ok (cm_sub c)))
      | _ \<Rightarrow> Fail MalformedToken)"

subsection \<open>Lemmas\<close>

lemma b64_no_dot: "CHR ''.'' \<notin> set (b64 bs)"
  using b64_encode_safe [of url_alphabet "CHR ''.''" bs] by (auto simp: b64_def)

lemma split_three:
  assumes "c \<notin> set x" and "c \<notin> set y" and "c \<notin> set z"
  shows "split_on c (x @ [c] @ y @ [c] @ z) = [x, y, z]"
  using assms split_on_append [of c x "y @ c # z"] split_on_append [of c y z]
  by (simp add: split_on_no_sep)

lemma sign_token_split:
  "split_on (CHR ''.'') (sign_token tc secret c) =
     [b64 (str_to_bytes jwt_header), b64 (str_to_bytes (tc_marshal tc c)),
      hmac_sha256 tc secret (b64 (str_to_bytes jwt_header) @ ''.'' @ b64 (str_to_bytes (tc_marshal tc c)))]"
  unfolding sign_token_def Let_def
  by (rule split_three) (simp_all add: b64_no_dot hmac_sha256_def)

lemma verify_signed:
  assumes "tc_unmarshal tc (tc_marshal tc c) = Some c"
  shows "verify_jwt tc now secret (sign_token tc secret c) =
     (if cm_exp c < now div 1000000000 then Fail TokenExpired else Ok (cm_sub c))"
  using assms b64_round [of url_alphabet]
  by (simp add: verify_jwt_def sign_token_split b64_def)

subsection \<open>Properties\<close>

text \<open>
  Tokens round trip: a token that a login issues is accepted with its subject up to and
  including the second of its expiry and refused afterwards, whenever the JSON codec reads
  back the claims.
\<close>

theorem jwt_roundtrip:
  assumes "issue_jwt tc now secret sub ttl = Some tok"
    and "c = \<lparr>cm_sub = sub, cm_iat = now div 1000000000, cm_exp = (now + ttl) div 1000000000\<rparr>"
    and "tc_unmarshal tc (tc_marshal tc c) = Some c"
  shows "verify_jwt tc later secret tok =
     (if (now + ttl) div 1000000000 < later div 1000000000 then Fail TokenExpired else Ok sub)"
  using assms verify_signed [OF assms(3)] by (auto simp: issue_jwt_def split: if_splits)

definition genuine_token :: "token_codec \<Rightarrow> int \<Rightarrow> string \<Rightarrow> string \<Rightarrow> bool" where
  "genuine_token tc now secret tok \<longleftrightarrow>
     (\<exists>h p c payload. tok = h @ ''.'' @ p @ ''.'' @ hmac_sha256 tc secret (h @ ''.'' @ p) \<and>
        b64_decode url_alphabet p = Some payload \<and>
        tc_unmarshal tc (bytes_to_str payload) = Some c \<and> now div 1000000000 \<le> cm_exp c)"

lemma verify_jwt_Ok:
  assumes "verify_jwt tc now secret tok = Ok sub"
  shows "\<exists>h p c payload. tok = h @ ''.'' @ p @ ''.'' @ hmac_sha256 tc secret (h @ ''.'' @ p) \<and>
     b64_decode url_alphabet p = Some payload \<and>
     tc_unmarshal tc (bytes_to_str payload) = Some c \<and> cm_sub c = sub \<and> now div 1000000000 \<le> cm_exp c"
proof -
  from assms obtain h p sig where parts: "split_on (CHR ''.'') tok = [h, p, sig]"
    by (auto simp: verify_jwt_def split: list.splits)
  have "tok = h @ ''.'' @ p @ ''.'' @ sig"
    using join_split_on [of "CHR ''.''" tok] by (simp add: parts)
  moreover from assms parts have "sig = hmac_sha256 tc secret (h @ ''.'' @ p)"
    by (auto simp: verify_jwt_def split: if_splits)
  moreover from assms parts obtain payload c where "b64_decode url_alphabet p = Some payload"
    "tc_unmarshal tc (bytes_to_str payload) = Some c" "cm_sub c = sub" "now div 1000000000 \<le> cm_exp c"
    by (auto simp: verify_jwt_def split: if_splits option.splits)
  ultimately show ?thesis by blast
qed

lemma verify_jwt_genuine: "verify_jwt tc now secret tok = Ok sub \<Longrightarrow> genuine_token tc now secret tok"
  unfolding genuine_token_def by (drule verify_jwt_Ok) blast

text \<open>
  What a token proves: an accepted token carries the HMAC of its first two parts under the
  server's secret, and claims that have not expired. The check does not ask for a secret to be
  set: on a server without one (no authentication configured), anybody can make a token for
  any subject, from public data alone, that is accepted until the expiry he chose.
\<close>

theorem jwt_proves_secret:
  "(verify_jwt tc now secret tok = Ok sub \<longrightarrow>
      (\<exists>h p c payload. tok = h @ ''.'' @ p @ ''.'' @ hmac_sha256 tc secret (h @ ''.'' @ p) \<and>
         b64_decode url_alphabet p = Some payload \<and>
         tc_unmarshal tc (bytes_to_str payload) = Some c \<and> cm_sub c = sub \<and>
         now div 1000000000 \<le> cm_exp c)) \<and>
   (tc_unmarshal tc (tc_marshal tc c) = Some c \<and> now div 1000000000 \<le> cm_exp c \<longrightarrow>
      verify_jwt tc now [] (sign_token tc [] c) = Ok (cm_sub c))"
proof (intro conjI impI)
  assume "verify_jwt tc now secret tok = Ok sub"
  from verify_jwt_Ok [OF this]
  show "\<exists>h p c payload. tok = h @ ''.'' @ p @ ''.'' @ hmac_sha256 tc secret (h @ ''.'' @ p) \<and>
         b64_decode url_alphabet p = Some payload \<and>
         tc_unmarshal tc (bytes_to_str payload) = Some c \<and> cm_sub c = sub \<and>
         now div 1000000000 \<le> cm_exp c" .
next
  assume "tc_unmarshal tc (tc_marshal tc c) = Some c \<and> now div 1000000000 \<le> cm_exp c"
  then show "verify_jwt tc now [] (sign_token tc [] c) = Ok (cm_sub c)"
    by (simp add: verify_signed)
qed

text \<open>
  A codec for witnesses: the subject, a separator and the two times in unary, a key that is
  part of the tag.
\<close>

definition demo_codec :: token_codec where
  "demo_codec = \<lparr>
     tc_marshal = (\<lambda>c. cm_sub c),
     tc_unmarshal = (\<lambda>s. Some \<lparr>cm_sub = s, cm_iat = 0, cm_exp = 5\<rparr>),
     tc_hmac = (\<lambda>k d. str_to_bytes (k @ d))\<rparr>"

theorem jwt_roundtrip_witness:
  "\<exists>tok. issue_jwt demo_codec 0 ''k'' ''admin'' 5000000000 = Some tok \<and>
     verify_jwt demo_codec 0 ''k'' tok = Ok ''admin''"
proof -
  obtain tok where "issue_jwt demo_codec 0 ''k'' ''admin'' 5000000000 = Some tok"
    by (simp add: issue_jwt_def)
  with jwt_roundtrip [OF this refl, of 0] show ?thesis by (simp add: demo_codec_def)
qed

theorem jwt_proves_secret_witness:
  "verify_jwt demo_codec 0 [] (sign_token demo_codec [] \<lparr>cm_sub = ''admin'', cm_iat = 0, cm_exp = 5\<rparr>) = Ok ''admin''"
  using jwt_proves_secret [of demo_codec 0 "[]" "[]" "[]" "\<lparr>cm_sub = ''admin'', cm_iat = 0, cm_exp = 5\<rparr>"]
  by (simp add: demo_codec_def)

lemma show_nat_safe: "c \<in> set (show_nat n) \<Longrightarrow> c \<notin> {CHR ''$'', CHR '',''}"
  by (drule show_nat_digits) auto

lemma parse_uint32_show: "n < 4294967296 \<Longrightarrow> parse_uint32 (show_nat n) = Some n"
  by (simp add: parse_uint32_def atoi_digits_show_nat show_nat_nonempty)

text \<open>The parameters as they are printed.\<close>

definition printed_params :: "nat \<Rightarrow> nat \<Rightarrow> nat \<Rightarrow> string" where
  "printed_params m t p = ''m='' @ show_nat m @ '',t='' @ show_nat t @ '',p='' @ show_nat p"

lemma printed_split:
  "split_on (CHR '','') (printed_params m t p) = [''m='' @ show_nat m, ''t='' @ show_nat t, ''p='' @ show_nat p]"
proof -
  show ?thesis
    using split_three [of "CHR '',''" "''m='' @ show_nat m" "''t='' @ show_nat t" "''p='' @ show_nat p"] show_nat_safe
    by (auto simp: printed_params_def)
qed

lemma parse_printed:
  assumes "m < 4294967296" and "t < 4294967296" and "p < 4294967296"
  shows "parse_param (printed_params m t p) ''m'' = m" "parse_param (printed_params m t p) ''t'' = t"
    "parse_param (printed_params m t p) ''p'' = p"
  using assms by (simp_all add: parse_param_def printed_split has_prefix_def parse_uint32_show)

lemma printed_no_dollar: "CHR ''$'' \<notin> set (printed_params m t p)"
  using show_nat_safe by (auto simp: printed_params_def)

definition printed_hash :: "nat \<Rightarrow> nat \<Rightarrow> nat \<Rightarrow> byte list \<Rightarrow> byte list \<Rightarrow> string" where
  "printed_hash m t p s k = ''$argon2id$v=19$'' @ printed_params m t p @ ''$'' @
     b64_encode std_alphabet s @ ''$'' @ b64_encode std_alphabet k"

lemma parse_printed_hash:
  assumes "0 < m" "m < 4294967296" "0 < t" "t < 4294967296" "0 < p" "p < 4294967296"
  shows "parse_argon2id (printed_hash m t p s k) =
    Some \<lparr>ar_hash = k, ar_salt = s, ar_m = m, ar_t = t, ar_p = p\<rparr>"
proof -
  have nd: "CHR ''$'' \<notin> set (b64_encode std_alphabet b)" for b
    using b64_encode_safe [of std_alphabet "CHR ''$''" b] by auto
  have three: "split_on (CHR ''$'') (printed_params m t p @ ''$'' @ b64_encode std_alphabet s @ ''$'' @ b64_encode std_alphabet k)
      = [printed_params m t p, b64_encode std_alphabet s, b64_encode std_alphabet k]"
    by (rule split_three) (simp_all add: nd printed_no_dollar)
  have "split_on (CHR ''$'') (printed_hash m t p s k) =
      [[], ''argon2id'', ''v=19'', printed_params m t p, b64_encode std_alphabet s, b64_encode std_alphabet k]"
    using three by (simp add: printed_hash_def)
  then show ?thesis
    using assms b64_round [of std_alphabet]
    by (simp add: parse_argon2id_def has_prefix_def parse_printed Let_def)
qed

text \<open>
  Passwords round trip: the hash of a password, made with parameters that fit in 32 bits
  and an argon2id that returns the 32 bytes asked for, is accepted for that password, and any
  other password is accepted only if it has the same key.
\<close>

theorem password_roundtrip:
  assumes "hash_password argon salt pw m t p = Ok stored"
    and "0 < m" "m < 4294967296" "0 < t" "t < 4294967296" "0 < p" "p < 4294967296"
    and "\<forall>pw s t m p k. argon pw s t m p 32 = Some k \<longrightarrow> length k = 32"
  shows "verify_password argon pw stored = Ok True \<and>
    (\<exists>s k. salt = Some s \<and> argon pw s t m (p mod 256) 32 = Some k \<and>
       verify_password argon pw' stored =
         (case argon pw' s t m (p mod 256) 32 of None \<Rightarrow> Panic | Some k' \<Rightarrow> Ok (k' = k)))"
proof -
  from assms(1) obtain s k where sk: "salt = Some s" "argon pw s t m (p mod 256) 32 = Some k"
    and "stored = printed_hash m t p s k"
    by (auto simp: hash_password_def printed_hash_def printed_params_def split: option.splits)
  then have stored: "stored \<noteq> []" "has_prefix stored ''$argon2id$''"
      "parse_argon2id stored = Some \<lparr>ar_hash = k, ar_salt = s, ar_m = m, ar_t = t, ar_p = p\<rparr>"
    using parse_printed_hash [OF assms(2-7)] by (simp_all add: printed_hash_def has_prefix_def)
  have "length k = 32" using assms(8) sk(2) by blast
  with sk stored show ?thesis by (simp add: verify_password_def split: option.split)
qed

theorem password_roundtrip_witness:
  "\<exists>stored. hash_password (\<lambda>_ _ _ _ _ n. Some (replicate n 0)) (Some [1]) ''pw'' 64 1 1 = Ok stored \<and>
     verify_password (\<lambda>_ _ _ _ _ n. Some (replicate n 0)) ''pw'' stored = Ok True"
proof -
  obtain stored where h: "hash_password (\<lambda>_ _ _ _ _ n. Some (replicate n 0)) (Some [1]) ''pw'' 64 1 1 = Ok stored"
    by (simp add: hash_password_def)
  from password_roundtrip [OF h] h show ?thesis by simp
qed

end
