(* ===== verification/Paths.thy ===== *)
theory Paths
  imports Prelude
begin

text \<open>
  Paths as Go's path/filepath treats them on Unix (\<open>Clean\<close>, \<open>Join\<close>, \<open>Dir\<close>, \<open>Base\<close>), which
  the management API and the command line programs call, and the runes a Go string ranges over.
  The lemmas show what joining a name to a directory and taking it apart again gives.
\<close>

subsection \<open>path/filepath\<close>

text \<open>
  The elements of a path, innermost first in \<open>acc\<close>. In a relative path the leading parents
  stay.
\<close>

fun clean_segs :: "bool \<Rightarrow> string list \<Rightarrow> string list \<Rightarrow> string list" where
  "clean_segs rooted acc [] = rev acc"
| "clean_segs rooted acc (s # ss) =
     (if s = [] \<or> s = ''.'' then clean_segs rooted acc ss
      else if s = ''..'' then
        (if acc = [] \<or> hd acc = ''..'' then clean_segs rooted (if rooted then acc else s # acc) ss
         else clean_segs rooted (tl acc) ss)
      else clean_segs rooted (s # acc) ss)"

definition file_clean :: "string \<Rightarrow> string" where
  "file_clean p =
     (let rooted = has_prefix p ''/'';
          body = join_with ''/'' (clean_segs rooted [] (split_on (CHR ''/'') p))
      in if rooted then CHR ''/'' # body else if body = [] then ''.'' else body)"

definition file_dir :: "string \<Rightarrow> string" where
  "file_dir p =
     file_clean (case last_index_byte p (CHR ''/'') of None \<Rightarrow> [] | Some i \<Rightarrow> take (i + 1) p)"

definition file_join :: "string list \<Rightarrow> string" where
  "file_join es =
     (let es' = filter (\<lambda>e. e \<noteq> []) es in if es' = [] then [] else file_clean (join_with ''/'' es'))"

definition file_base :: "string \<Rightarrow> string" where
  "file_base p =
     (let q = rev (dropWhile (\<lambda>c. c = CHR ''/'') (rev p)) in
      if p = [] then ''.'' else if q = [] then ''/'' else last (split_on (CHR ''/'') q))"

subsection \<open>Clean paths\<close>

text \<open>An element that cleaning keeps, and the elements that are left: parents, then such elements.\<close>

definition plain_seg :: "string \<Rightarrow> bool" where
  "plain_seg s \<longleftrightarrow> s \<noteq> [] \<and> s \<noteq> ''.'' \<and> s \<noteq> ''..'' \<and> CHR ''/'' \<notin> set s"

definition clean_elems :: "bool \<Rightarrow> string list \<Rightarrow> bool" where
  "clean_elems rooted es \<longleftrightarrow>
     (\<exists>n ps. es = replicate n ''..'' @ ps \<and> (rooted \<longrightarrow> n = 0) \<and> list_all plain_seg ps)"

lemma clean_segs_snoc: "plain_seg f \<Longrightarrow> clean_segs rooted acc (ss @ [f]) = clean_segs rooted acc ss @ [f]"
  by (induction rooted acc ss rule: clean_segs.induct) (auto simp: plain_seg_def)

lemma clean_elems_parent:
  assumes "clean_elems rooted (rev acc)" and "acc = [] \<or> hd acc = ''..''"
  shows "clean_elems rooted (rev (if rooted then acc else ''..'' # acc))"
proof -
  from assms(1) obtain n ps where e: "rev acc = replicate n ''..'' @ ps" "rooted \<longrightarrow> n = 0" "list_all plain_seg ps"
    by (auto simp: clean_elems_def)
  have "ps = []"
  proof (rule ccontr)
    assume "ps \<noteq> []"
    then have "acc \<noteq> []" and "last (rev acc) = last ps" using e(1) by auto
    with assms(2) have "last ps = ''..''" by (simp add: last_rev)
    with \<open>ps \<noteq> []\<close> e(3) show False by (metis last_in_set list_all_iff plain_seg_def)
  qed
  with e show ?thesis
    by (cases rooted) (auto simp: clean_elems_def replicate_append_same intro: exI [of _ "Suc n"] exI [of _ "[]"])
qed

lemma clean_elems_drop:
  assumes "clean_elems rooted (rev (a # acc))" and "a \<noteq> ''..''"
  shows "clean_elems rooted (rev acc)"
proof -
  from assms(1) obtain n ps where e: "rev acc @ [a] = replicate n ''..'' @ ps" "rooted \<longrightarrow> n = 0" "list_all plain_seg ps"
    by (auto simp: clean_elems_def)
  have "ps \<noteq> []"
    using e(1) assms(2) by (cases n) (auto simp: replicate_append_same [symmetric])
  then have "rev acc = replicate n ''..'' @ butlast ps"
    using e(1) by (metis butlast_append butlast_snoc)
  moreover have "list_all plain_seg (butlast ps)" using e(3) by (auto simp: list_all_iff dest: in_set_butlastD)
  ultimately show ?thesis using e(2) unfolding clean_elems_def by blast
qed

lemma clean_elems_add:
  assumes "clean_elems rooted (rev acc)" and "plain_seg s"
  shows "clean_elems rooted (rev (s # acc))"
proof -
  from assms(1) obtain n ps where "rev acc = replicate n ''..'' @ ps" "rooted \<longrightarrow> n = 0" "list_all plain_seg ps"
    by (auto simp: clean_elems_def)
  then have "rev (s # acc) = replicate n ''..'' @ (ps @ [s])" "list_all plain_seg (ps @ [s])" "rooted \<longrightarrow> n = 0"
    using assms(2) by auto
  then show ?thesis unfolding clean_elems_def by blast
qed

lemma clean_segs_clean:
  "clean_elems rooted (rev acc) \<Longrightarrow> list_all (\<lambda>s. CHR ''/'' \<notin> set s) ss \<Longrightarrow>
     clean_elems rooted (clean_segs rooted acc ss)"
proof (induction rooted acc ss rule: clean_segs.induct)
  case (2 rooted acc s ss)
  consider "s = [] \<or> s = ''.''" | "s = ''..''" "acc = [] \<or> hd acc = ''..''"
    | "s = ''..''" "acc \<noteq> []" "hd acc \<noteq> ''..''" | "plain_seg s"
    using 2(6) by (auto simp: plain_seg_def)
  then show ?case
  proof cases
    case 2
    then show ?thesis using "2.IH"(2) "2.prems" clean_elems_parent [of rooted acc] by auto
  next
    case 3
    then show ?thesis using "2.IH"(3) "2.prems" clean_elems_drop [of rooted "hd acc" "tl acc"] by simp
  next
    case 4
    then show ?thesis using "2.IH"(4) "2.prems" clean_elems_add [of rooted acc s] by (simp add: plain_seg_def)
  qed (use "2.IH"(1) "2.prems" in auto)
qed simp

lemma clean_segs_parents:
  "list_all (\<lambda>s. s = ''..'') acc \<Longrightarrow> clean_segs False acc (replicate n ''..'' @ ss) = clean_segs False (replicate n ''..'' @ acc) ss"
proof (induction n arbitrary: acc)
  case (Suc n)
  then have "acc = [] \<or> hd acc = ''..''" by (cases acc) auto
  with Suc show ?case by (simp add: replicate_app_Cons_same)
qed simp

lemma clean_segs_plain_run: "list_all plain_seg ps \<Longrightarrow> clean_segs rooted acc (ps @ ss) = clean_segs rooted (rev ps @ acc) ss"
  by (induction ps arbitrary: acc) (auto simp: plain_seg_def)

lemma clean_segs_fixed:
  assumes "clean_elems rooted es"
  shows "clean_segs rooted [] (es @ ss) = clean_segs rooted (rev es) ss"
proof -
  from assms obtain n ps where e: "es = replicate n ''..'' @ ps" "rooted \<longrightarrow> n = 0" "list_all plain_seg ps"
    by (auto simp: clean_elems_def)
  then show ?thesis
    using clean_segs_parents [of "[]" n "ps @ ss"] clean_segs_plain_run
    by (cases rooted) (auto simp: append_assoc)
qed

lemma split_join: "es \<noteq> [] \<Longrightarrow> list_all (\<lambda>s. c \<notin> set s) es \<Longrightarrow> split_on c (join_with [c] es) = es"
  by (induction "[c]" es rule: join_with.induct) (auto simp: split_on_no_sep split_on_append)

lemma split_on_snoc: "c \<notin> set t \<Longrightarrow> split_on c (s @ c # t) = split_on c s @ [t]"
  by (induction s) (auto simp: split_on_no_sep split: list.split)

lemma last_index_byte_snoc: "c \<notin> set t \<Longrightarrow> last_index_byte (s @ c # t) c = Some (length s)"
proof -
  have "index_byte (u @ c # v) c = Some (length u)" if "c \<notin> set u" for u v :: string
    using that by (induction u) auto
  then show "c \<notin> set t \<Longrightarrow> ?thesis" by (simp add: last_index_byte_def)
qed

lemma last_index_byte_none: "c \<notin> set t \<Longrightarrow> last_index_byte t c = None"
proof -
  have "index_byte u c = None" if "c \<notin> set u" for u :: string
    using that by (induction u) auto
  then show "c \<notin> set t \<Longrightarrow> ?thesis" by (simp add: last_index_byte_def)
qed

text \<open>The path of clean elements.\<close>

definition path_of :: "bool \<Rightarrow> string list \<Rightarrow> string" where
  "path_of rooted es = (if rooted then CHR ''/'' # join_with ''/'' es else if es = [] then ''.'' else join_with ''/'' es)"

lemma clean_elems_Nil [simp]: "clean_elems rooted []"
proof -
  have "[] = replicate 0 ''..'' @ []" by simp
  then show ?thesis unfolding clean_elems_def using list_all_iff [of plain_seg "[]"] by fastforce
qed

lemma clean_elem: assumes "clean_elems rooted es" "s \<in> set es" shows "s \<noteq> [] \<and> CHR ''/'' \<notin> set s"
proof -
  from assms obtain n ps where "s \<in> set (replicate n ''..'') \<or> s \<in> set ps" "list_all plain_seg ps"
    unfolding clean_elems_def by (metis Un_iff set_append)
  then have "s = ''..'' \<or> plain_seg s" by (auto simp: list_all_iff split: if_splits)
  then show ?thesis by (auto simp: plain_seg_def)
qed

lemma join_with_Nil: "join_with c es = [] \<Longrightarrow> [] \<notin> set es \<Longrightarrow> es = []"
proof (induction c es rule: join_with.induct)
  case (2 c x)
  then show ?case by simp
next
  case (3 c x y ys)
  then have "x = []" by simp
  with 3(3) show ?case by simp
qed simp

lemma file_clean_path:
  obtains es where "clean_elems (has_prefix p ''/'') es"
    "clean_segs (has_prefix p ''/'') [] (split_on (CHR ''/'') p) = es" "file_clean p = path_of (has_prefix p ''/'') es"
proof
  let ?es = "clean_segs (has_prefix p ''/'') [] (split_on (CHR ''/'') p)"
  show c: "clean_elems (has_prefix p ''/'') ?es"
    by (rule clean_segs_clean) (auto simp: list_all_iff dest: split_on_pieces)
  then show "file_clean p = path_of (has_prefix p ''/'') ?es"
    using join_with_Nil [of "''/''" ?es] clean_elem [OF c, of "[]"]
    by (cases "has_prefix p ''/''") (auto simp: file_clean_def path_of_def Let_def)
qed simp

lemma path_of_snoc:
  "path_of rooted (es @ [f]) = (if es = [] then if rooted then CHR ''/'' # f else f else path_of rooted es @ CHR ''/'' # f)"
proof -
  have "es \<noteq> [] \<Longrightarrow> join_with ''/'' (es @ [f]) = join_with ''/'' es @ CHR ''/'' # f"
    by (induction "''/''" es rule: join_with.induct) auto
  then show ?thesis by (auto simp: path_of_def)
qed

lemma path_of_rooted: "clean_elems rooted es \<Longrightarrow> has_prefix (path_of rooted es @ t) ''/'' = rooted"
proof (cases es)
  case (Cons e es')
  moreover assume "clean_elems rooted es"
  ultimately have "e \<noteq> []" "CHR ''/'' \<notin> set e" using clean_elem by auto
  with Cons show ?thesis
    by (cases e; cases es') (auto simp: path_of_def has_prefix_def)
qed (auto simp: path_of_def has_prefix_def)

text \<open>A cleaned path, with or without a slash after it, is cleaned to itself.\<close>

lemma file_clean_path_of:
  assumes c: "clean_elems rooted es"
  shows "file_clean (path_of rooted es) = path_of rooted es" (is ?A)
    and "es \<noteq> [] \<Longrightarrow> file_clean (path_of rooted es @ ''/'') = path_of rooted es"
proof -
  have j: "es \<noteq> [] \<Longrightarrow> split_on (CHR ''/'') (join_with ''/'' es) = es"
    using c clean_elem split_join [of es] by (auto simp: list_all_iff)
  have s: "es \<noteq> [] \<Longrightarrow> split_on (CHR ''/'') (path_of rooted es) = (if rooted then [] # es else es)"
    using j by (simp add: path_of_def)
  have k: "es \<noteq> [] \<Longrightarrow> join_with ''/'' es \<noteq> []"
    using c clean_elem join_with_Nil by blast
  have f: "clean_segs rooted [] es = es" "clean_segs rooted [] (es @ [[]]) = es"
    using clean_segs_fixed [OF c, of "[]"] clean_segs_fixed [OF c, of "[[]]"] by simp_all
  have r: "has_prefix (path_of rooted es) ''/'' = rooted" "has_prefix (path_of rooted es @ ''/'') ''/'' = rooted"
    using path_of_rooted [OF c, of "[]"] path_of_rooted [OF c, of "''/''"] by simp_all
  show ?A
  proof (cases "es = []")
    case True
    then show ?thesis by (auto simp: file_clean_def path_of_def has_prefix_def)
  next
    case False
    then show ?thesis using r(1) s f(1) k by (auto simp: file_clean_def path_of_def Let_def)
  qed
  show "es \<noteq> [] \<Longrightarrow> file_clean (path_of rooted es @ ''/'') = path_of rooted es"
    using r(2) s f(2) k split_on_snoc [of "CHR ''/''" "[]" "path_of rooted es"]
    by (auto simp: file_clean_def path_of_def Let_def)
qed

lemma file_clean_idem [simp]: "file_clean (file_clean p) = file_clean p"
  by (metis file_clean_path file_clean_path_of(1))

text \<open>A name joined to a directory, and taken apart again.\<close>

lemma file_join_name:
  assumes "plain_seg f"
  obtains rooted es where "clean_elems rooted es" "file_clean d = path_of rooted es" "file_join [d, f] = path_of rooted (es @ [f])"
proof (cases "d = []")
  case True
  have "\<not> has_prefix f ''/''" "split_on (CHR ''/'') f = [f]"
    using assms by (auto simp: plain_seg_def has_prefix_iff split_on_no_sep)
  then have "file_join [d, f] = path_of False ([] @ [f])" "file_clean d = path_of False []"
    using True assms by (auto simp: file_join_def file_clean_def path_of_def plain_seg_def has_prefix_def Let_def)
  then show ?thesis using that [of False "[]"] by simp
next
  case False
  obtain es where es: "clean_elems (has_prefix d ''/'') es"
      "clean_segs (has_prefix d ''/'') [] (split_on (CHR ''/'') d) = es" "file_clean d = path_of (has_prefix d ''/'') es"
    by (rule file_clean_path)
  have "has_prefix (d @ CHR ''/'' # f) ''/'' = has_prefix d ''/''"
    using False by (cases d) (simp_all add: has_prefix_def)
  moreover have "clean_segs (has_prefix d ''/'') [] (split_on (CHR ''/'') (d @ CHR ''/'' # f)) = es @ [f]"
    using assms es(2) by (simp add: split_on_snoc clean_segs_snoc plain_seg_def)
  moreover have "join_with ''/'' (es @ [f]) \<noteq> []"
    using es(1) clean_elem assms join_with_Nil [of "''/''" "es @ [f]"] by (auto simp: plain_seg_def)
  ultimately have "file_join [d, f] = path_of (has_prefix d ''/'') (es @ [f])"
    using False assms by (auto simp: file_join_def file_clean_def path_of_def plain_seg_def Let_def)
  with es that show ?thesis by blast
qed

lemma file_dir_join: assumes "plain_seg f" shows "file_dir (file_join [d, f]) = file_clean d"
proof -
  obtain rooted es where e: "clean_elems rooted es" "file_clean d = path_of rooted es" "file_join [d, f] = path_of rooted (es @ [f])"
    using file_join_name [OF assms] .
  have f: "CHR ''/'' \<notin> set f" using assms by (simp add: plain_seg_def)
  show ?thesis
  proof (cases "es = []")
    case True
    have "file_clean [] = ''.''" "file_clean ''/'' = ''/''"
      by (simp_all add: file_clean_def has_prefix_def)
    with e(2,3) True show ?thesis
      using f last_index_byte_snoc [OF f, of "[]"]
      by (cases rooted) (simp_all add: file_dir_def path_of_snoc last_index_byte_none path_of_def)
  next
    case False
    then show ?thesis
      using e f file_clean_path_of(2) by (simp add: file_dir_def path_of_snoc last_index_byte_snoc)
  qed
qed

lemma file_base_name: "plain_seg f \<Longrightarrow> file_base (d @ CHR ''/'' # f) = f" "plain_seg f \<Longrightarrow> file_base f = f"
proof -
  assume f: "plain_seg f"
  have n: "rev f \<noteq> []" "hd (rev f) \<noteq> CHR ''/''"
    using f by (auto simp: plain_seg_def hd_rev) (metis last_in_set)
  have dw: "dropWhile (\<lambda>c. c = CHR ''/'') (rev f @ t) = rev f @ t" for t using n by (cases "rev f") auto
  show "file_base (d @ CHR ''/'' # f) = f" "file_base f = f"
    using dw [of "[]"] f by (simp_all add: file_base_def plain_seg_def split_on_snoc split_on_no_sep dw)
qed

lemma file_base_join: assumes "plain_seg f" shows "file_base (file_join [d, f]) = f"
proof -
  obtain rooted es where "file_join [d, f] = path_of rooted (es @ [f])" using file_join_name [OF assms] .
  then show ?thesis
    using file_base_name [OF assms] file_base_name(1) [OF assms, of "[]"] by (auto simp: path_of_snoc)
qed

subsection \<open>Runes\<close>

text \<open>
  The bytes of the first character, as \<open>range\<close> over a Go string decodes it: a well-formed UTF-8
  sequence, or one byte of anything else.
\<close>

definition byte_in :: "nat \<Rightarrow> nat \<Rightarrow> char \<Rightarrow> bool" where
  "byte_in lo hi c \<longleftrightarrow> lo \<le> of_char c \<and> of_char c \<le> hi"

text \<open>The second byte that a first byte of a longer sequence admits.\<close>

definition rune_second3 :: "char \<Rightarrow> char \<Rightarrow> bool" where
  "rune_second3 a b \<longleftrightarrow>
     (if a = CHR 0xE0 then byte_in 0xA0 0xBF b else if a = CHR 0xED then byte_in 0x80 0x9F b
      else byte_in 0xE1 0xEF a \<and> byte_in 0x80 0xBF b)"

definition rune_second4 :: "char \<Rightarrow> char \<Rightarrow> bool" where
  "rune_second4 a b \<longleftrightarrow>
     (if a = CHR 0xF0 then byte_in 0x90 0xBF b else if a = CHR 0xF4 then byte_in 0x80 0x8F b
      else byte_in 0xF1 0xF3 a \<and> byte_in 0x80 0xBF b)"

definition rune_size :: "string \<Rightarrow> nat" where
  "rune_size s =
     (case s of
        a # b # t \<Rightarrow>
          if byte_in 0xC2 0xDF a \<and> byte_in 0x80 0xBF b then 2
          else if rune_second3 a b \<and> t \<noteq> [] \<and> byte_in 0x80 0xBF (hd t) then 3
          else if rune_second4 a b \<and> 2 \<le> length t \<and> list_all (byte_in 0x80 0xBF) (take 2 t) then 4
          else 1
      | _ \<Rightarrow> 1)"

lemma rune_size_pos [simp]: "0 < rune_size s"
  by (simp add: rune_size_def split: list.split)

function runes :: "string \<Rightarrow> string list" where
  "runes s = (if s = [] then [] else take (rune_size s) s # runes (drop (rune_size s) s))"
  by pat_completeness auto
termination by (relation "measure length") auto

declare runes.simps [simp del]

lemma runes_Nil [simp]: "runes [] = []"
  by (simp add: runes.simps)

lemma concat_runes: "concat (runes s) = s"
proof (induction s rule: runes.induct)
  case (1 s)
  show ?case by (cases "s = []") (simp_all add: runes.simps [of s] 1)
qed

end
