(* ===== verification/MgmtApi.thy ===== *)
theory MgmtApi
  imports GatewayState AgentStore MgmtAuth Paths
begin

text \<open>
  Package mgmtapi: the management API (mgmtapi.go, crud.go, telemetry.go, agents.go). A call
  is a routed request with its decoded body (\<open>None\<close> where the body is not the expected JSON).
  \<open>Backend.Config()\<close> returns a pointer to the configuration the gateway serves, so handlers
  change it in place, before it is validated; the site runtimes of the gateway point into the
  array of sites, so they see these changes too, as long as the array has not been reallocated.
  The model keeps that array: the sites of the configuration followed by \<open>as_tail\<close>, the elements
  past the end of the slice, with the index each runtime points to in \<open>as_slots\<close>.
\<close>

subsection \<open>Small helpers\<close>

definition normalize_backend :: "string \<Rightarrow> string" where
  "normalize_backend b =
     (if b = [] then [] else if \<not> str_contains b ''://'' then ''http://'' @ b else b)"

definition normalize_domains :: "string \<Rightarrow> string list" where
  "normalize_domains host = filter (\<lambda>h. h \<noteq> []) (map trim_space (split_on (CHR '','') host))"

text \<open>The client address of the limiter; a forwarded address is not parsed.\<close>

definition split_last_colon :: "string \<Rightarrow> string option" where
  "split_last_colon a = map_option (\<lambda>i. take i a) (last_index_byte a (CHR '':''))"

definition api_client_ip :: "request \<Rightarrow> string" where
  "api_client_ip r =
     (let xff = header_get (req_header r) ''X-Forwarded-For'' in
      if xff \<noteq> [] then
        trim_space (case index_byte xff (CHR '','') of
                      Some i \<Rightarrow> if i > 0 then take i xff else xff | None \<Rightarrow> xff)
      else (case split_last_colon (req_remote r) of Some h \<Rightarrow> h | None \<Rightarrow> req_remote r))"

record site_dto =
  sd_id :: string
  sd_name :: string
  sd_host :: string
  sd_domains :: "string list"
  sd_upstream :: string
  sd_path_prefix :: string
  sd_status :: string

record site_input =
  in_name :: string
  in_host :: string
  in_upstream :: string
  in_path_prefix :: string
  in_status :: string

definition to_site_dto :: "site \<Rightarrow> site_dto" where
  "to_site_dto s =
     \<lparr>sd_id = s_id s, sd_name = s_name s,
      sd_host = (case s_domains s of [] \<Rightarrow> [] | d # _ \<Rightarrow> d), sd_domains = s_domains s,
      sd_upstream = s_backend s, sd_path_prefix = s_path_prefix s,
      sd_status = (if s_status s = [] then ''enabled'' else s_status s)\<rparr>"

record rule_dto =
  rd_id :: string
  rd_name :: string
  rd_message :: string
  rd_severity :: string
  rd_action :: string
  rd_status :: int
  rd_source :: string

definition to_rule_dto :: "string \<Rightarrow> rule \<Rightarrow> rule_dto" where
  "to_rule_dto source r =
     \<lparr>rd_id = rule_id r, rd_name = rule_name r, rd_message = rule_description r,
      rd_severity = rule_severity r, rd_action = rule_action r, rd_status = rule_status r,
      rd_source = source\<rparr>"

text \<open>
  \<open>sanitize\<close> lowers the name and then goes over its runes, so a multi-byte character becomes one
  dash. Two characters outside ASCII have an ASCII letter as their lower case: the dotted capital
  I (U+0130) and the Kelvin sign (U+212A).
\<close>

definition sanitize_char :: "char \<Rightarrow> char" where
  "sanitize_char c =
     (let n = (of_char c :: nat) in
      if 97 \<le> n \<and> n \<le> 122 \<or> 48 \<le> n \<and> n \<le> 57 \<or> c = CHR ''-'' \<or> c = CHR ''_'' then c else CHR ''-'')"

definition sanitize_rune :: "string \<Rightarrow> char" where
  "sanitize_rune u =
     (case u of
        [c] \<Rightarrow> sanitize_char (lower_char c)
      | _ \<Rightarrow> if u = [CHR 0xC4, CHR 0xB0] then CHR ''i''
             else if u = [CHR 0xE2, CHR 0x84, CHR 0xAA] then CHR ''k'' else CHR ''-'')"

definition sanitize :: "string \<Rightarrow> string" where
  "sanitize s = (if s = [] then ''rule'' else map sanitize_rune (runes s))"

definition rule_filename :: "string \<Rightarrow> string \<Rightarrow> string" where
  "rule_filename site_id rid = sanitize site_id @ ''-'' @ sanitize rid @ ''.yaml''"

definition hex12 :: "string \<Rightarrow> bool" where
  "hex12 s \<longleftrightarrow> length s = 12 \<and> list_all is_lower_hex s"

text \<open>The pattern \<open>^[a-z0-9]+_[a-f0-9]{12}_[a-f0-9]{12}$\<close>, or 32 hex digits.\<close>

definition ja4_re :: "string \<Rightarrow> bool" where
  "ja4_re h \<longleftrightarrow>
     (case split_on (CHR ''_'') h of
        [a, b, c] \<Rightarrow>
          a \<noteq> [] \<and> list_all (\<lambda>x. let n = (of_char x :: nat) in 97 \<le> n \<and> n \<le> 122 \<or> 48 \<le> n \<and> n \<le> 57) a \<and>
          hex12 b \<and> hex12 c
      | _ \<Rightarrow> False)"

definition valid_ja4 :: "string \<Rightarrow> bool" where
  "valid_ja4 h \<longleftrightarrow> ja4_re h \<or> length h = 32 \<and> list_all is_lower_hex h"

subsection \<open>State, calls and responses\<close>

record 'b api_state =
  as_gw :: "'b gateway"
  as_tail :: "site list"
  as_slots :: "string \<Rightarrow> nat option"
  as_windows :: "string \<Rightarrow> (int \<times> nat) option"
  as_files :: "string \<Rightarrow> string option"
  as_db :: "agent_db option"

record api_options =
  ao_rules_dir :: string
  ao_jwt_secret :: string
  ao_admin_user :: string
  ao_admin_hash :: string
  ao_limit :: int
  ao_agent_port :: string

text \<open>\<open>New\<close> fills in the defaults.\<close>

definition api_new :: "api_options \<Rightarrow> api_options" where
  "api_new o0 =
     o0\<lparr>ao_rules_dir := (if ao_rules_dir o0 = [] then ''rules/custom'' else ao_rules_dir o0),
        ao_limit := (if ao_limit o0 \<le> 0 then 120 else ao_limit o0)\<rparr>"

record api_world =
  aw_now :: int
  aw_tokens :: token_codec
  aw_argon :: argon2
  aw_io :: build_io
  aw_rand_id :: string
  aw_spare :: nat
  aw_mkdir :: bool
  aw_write :: "string \<Rightarrow> bool"
  aw_yaml :: "rule \<Rightarrow> string"
  aw_flusher :: bool
  aw_db_ok :: bool
  aw_db_ok2 :: bool
  aw_sha :: sha
  aw_agent_bytes :: "byte list"
  aw_token_bytes :: "byte list"

datatype apply_error = ConfigRejected config_error | ApplyFailed reload_error

datatype api_body =
  NoContent
| ErrorText string
| TwoErrors string string
| ApplyError apply_error
| RuleError rule_error
| StoreError store_error
| TokenBody string
| SiteBody site_dto
| SitesBody "site_dto list"
| RulesBody "rule_dto list"
| BlocklistBody "string list"
| BlockedBody string string
| StatsBody stats
| AgentsBody "agent_row list"
| AgentBody agent_row string string
| PayloadsBody "string list"
| StreamBody nat

type_synonym api_response = "int \<times> api_body"

text \<open>A handler panics (and net/http drops the connection) when the response is \<open>None\<close>.\<close>

type_synonym 'b api_result = "'b api_state \<times> api_response option"

definition reply :: "int \<Rightarrow> api_body \<Rightarrow> 'b api_state \<Rightarrow> 'b api_result" where
  "reply code b st = (st, Some (code, b))"

subsection \<open>Configuration changes\<close>

definition live_config :: "'b api_state \<Rightarrow> config option" where
  "live_config st = st_cfg (gt_store (as_gw st))"

text \<open>What the runtimes see once the array of sites has the contents \<open>arr\<close>.\<close>

definition see_sites ::
    "(string \<Rightarrow> nat option) \<Rightarrow> site list \<Rightarrow> (string \<Rightarrow> site_rt option) \<Rightarrow> string \<Rightarrow> site_rt option" where
  "see_sites slots arr rts i =
     (case rts i of
        None \<Rightarrow> None
      | Some rt \<Rightarrow> (case slots i of None \<Rightarrow> Some rt | Some k \<Rightarrow> Some (rt\<lparr>rt_cfg := arr ! k\<rparr>)))"

definition write_config :: "config \<Rightarrow> 'b api_state \<Rightarrow> 'b api_state" where
  "write_config c st =
     st\<lparr>as_gw := (as_gw st)
          \<lparr>gt_store := (gt_store (as_gw st))\<lparr>st_cfg := Some c\<rparr>,
           gt_sites := see_sites (as_slots st) (c_sites c @ as_tail st) (gt_sites (as_gw st))\<rparr>\<rparr>"

text \<open>
  \<open>append\<close> to the sites writes into the spare capacity when there is some; otherwise the slice
  moves to a new array, with \<open>aw_spare\<close> empty elements behind it, and the runtimes keep
  pointing into the old one, which nobody changes any more.
\<close>

definition zero_site :: site where
  "zero_site =
     \<lparr>s_id = [], s_name = [], s_domains = [], s_backend = [], s_preserve_host = False,
      s_max_body_bytes = 0, s_fail_mode = [], s_status = [], s_path_prefix = [], s_crs = None,
      s_custom_rules = [], s_graphql = None, s_grpc = None, s_websocket = None, s_sse = None,
      s_rate_limit = None, s_bot_score = None, s_llm_routes = []\<rparr>"

definition grow_sites :: "api_world \<Rightarrow> 'b api_state \<Rightarrow> 'b api_state" where
  "grow_sites w st =
     (case as_tail st of
        [] \<Rightarrow> st\<lparr>as_slots := (\<lambda>_. None), as_tail := replicate (aw_spare w) zero_site\<rparr>
      | _ # spare \<Rightarrow> st\<lparr>as_tail := spare\<rparr>)"

text \<open>
  Compacting in place: the kept sites are moved to the front of the array, and the elements
  after them stay what they were.
\<close>

definition compact_sites :: "site list \<Rightarrow> config \<Rightarrow> 'b api_state \<Rightarrow> 'b api_state" where
  "compact_sites kept c st = st\<lparr>as_tail := drop (length kept) (c_sites c @ as_tail st)\<rparr>"

definition slots_of :: "site list \<Rightarrow> string \<Rightarrow> nat option" where
  "slots_of ss = map_of (rev (zip (map s_id ss) [0..<length ss]))"

text \<open>A reload reads the rule files as the API left them.\<close>

definition api_io :: "api_world \<Rightarrow> 'b api_state \<Rightarrow> build_io" where
  "api_io w st = (aw_io w)\<lparr>bi_read := as_files st\<rparr>"

text \<open>\<open>apply\<close>: \<open>Validate\<close> works on the live configuration, so what it filled in stays.\<close>

definition api_apply :: "api_world \<Rightarrow> config \<Rightarrow> 'b api_state \<Rightarrow> 'b api_state \<times> apply_error option" where
  "api_apply w c st =
     (case validate c of
        (c', Some e) \<Rightarrow> (write_config c' st, Some (ConfigRejected e))
      | (c', None) \<Rightarrow>
          let st1 = write_config c' st in
          (case gateway_reload (api_io w st1) c' (as_gw st1) of
             (g, Some e) \<Rightarrow> (st1\<lparr>as_gw := g\<rparr>, Some (ApplyFailed e))
           | (g, None) \<Rightarrow> (st1\<lparr>as_gw := g, as_slots := slots_of (c_sites c')\<rparr>, None)))"

text \<open>The rest of a handler after \<open>apply\<close>.\<close>

definition after_apply ::
    "api_world \<Rightarrow> config \<Rightarrow> 'b api_state \<Rightarrow> ('b api_state \<Rightarrow> 'b api_result) \<Rightarrow> 'b api_result" where
  "after_apply w c st k =
     (case api_apply w c st of
        (st', Some (ApplyFailed ReloadPanic)) \<Rightarrow> (st', None)
      | (st', Some e) \<Rightarrow> reply 400 (ApplyError e) st'
      | (st', None) \<Rightarrow> k st')"

definition reply_site :: "int \<Rightarrow> string \<Rightarrow> 'b api_state \<Rightarrow> 'b api_result" where
  "reply_site code i st =
     (case live_config st of
        None \<Rightarrow> (st, None)
      | Some c \<Rightarrow>
          (case site_by_id c i of None \<Rightarrow> (st, None) | Some s \<Rightarrow> reply code (SiteBody (to_site_dto s)) st))"

definition with_config :: "'b api_state \<Rightarrow> (config \<Rightarrow> 'b api_result) \<Rightarrow> 'b api_result" where
  "with_config st k = (case live_config st of None \<Rightarrow> (st, None) | Some c \<Rightarrow> k c)"

definition list_sites :: "'b api_state \<Rightarrow> 'b api_result" where
  "list_sites st = with_config st (\<lambda>c. reply 200 (SitesBody (map to_site_dto (c_sites c))) st)"

definition get_site :: "string \<Rightarrow> 'b api_state \<Rightarrow> 'b api_result" where
  "get_site i st = with_config st (\<lambda>c.
     (case site_by_id c i of
        None \<Rightarrow> reply 404 (ErrorText ''site not found'') st
      | Some s \<Rightarrow> reply 200 (SiteBody (to_site_dto s)) st))"

definition new_site :: "string \<Rightarrow> site_input \<Rightarrow> site" where
  "new_site rid i =
     \<lparr>s_id = ''site-'' @ rid, s_name = in_name i, s_domains = normalize_domains (in_host i),
      s_backend = normalize_backend (in_upstream i), s_preserve_host = False, s_max_body_bytes = 0,
      s_fail_mode = [], s_status = ''enabled'', s_path_prefix = in_path_prefix i,
      s_crs = Some full_crs, s_custom_rules = [], s_graphql = None, s_grpc = None,
      s_websocket = None, s_sse = None, s_rate_limit = None, s_bot_score = None, s_llm_routes = []\<rparr>"

definition create_site :: "api_world \<Rightarrow> site_input option \<Rightarrow> 'b api_state \<Rightarrow> 'b api_result" where
  "create_site w inp st =
     (case inp of
        None \<Rightarrow> reply 400 (ErrorText ''invalid body'') st
      | Some i \<Rightarrow> with_config st (\<lambda>c.
          let s = new_site (aw_rand_id w) i in
          after_apply w (c\<lparr>c_sites := c_sites c @ [s]\<rparr>) (grow_sites w st) (reply_site 201 (s_id s))))"

definition merge_input :: "site_input \<Rightarrow> site \<Rightarrow> site" where
  "merge_input i s =
     s\<lparr>s_name := (if in_name i \<noteq> [] then in_name i else s_name s),
       s_domains := (if in_host i \<noteq> [] then normalize_domains (in_host i) else s_domains s),
       s_backend := (if in_upstream i \<noteq> [] then normalize_backend (in_upstream i) else s_backend s),
       s_path_prefix := (if in_path_prefix i \<noteq> [] then in_path_prefix i else s_path_prefix s),
       s_status := (if in_status i \<noteq> [] then in_status i else s_status s)\<rparr>"

text \<open>The first site with the id, which is the one \<open>SiteByID\<close> points to, is changed in place.\<close>

fun update_first :: "string \<Rightarrow> (site \<Rightarrow> site) \<Rightarrow> site list \<Rightarrow> site list" where
  "update_first i f [] = []"
| "update_first i f (s # ss) = (if s_id s = i then f s # ss else s # update_first i f ss)"

definition update_site :: "api_world \<Rightarrow> string \<Rightarrow> site_input option \<Rightarrow> 'b api_state \<Rightarrow> 'b api_result" where
  "update_site w i inp st =
     (case inp of
        None \<Rightarrow> reply 400 (ErrorText ''invalid body'') st
      | Some x \<Rightarrow> with_config st (\<lambda>c.
          (case site_by_id c i of
             None \<Rightarrow> reply 404 (ErrorText ''site not found'') st
           | Some _ \<Rightarrow>
               after_apply w (c\<lparr>c_sites := update_first i (merge_input x) (c_sites c)\<rparr>) st
                 (reply_site 200 i))))"

definition delete_site :: "api_world \<Rightarrow> string \<Rightarrow> 'b api_state \<Rightarrow> 'b api_result" where
  "delete_site w i st = with_config st (\<lambda>c.
     (case site_by_id c i of
        None \<Rightarrow> reply 404 (ErrorText ''site not found'') st
      | Some _ \<Rightarrow>
          let kept = filter (\<lambda>s. s_id s \<noteq> i) (c_sites c) in
          after_apply w (c\<lparr>c_sites := kept\<rparr>) (compact_sites kept c st) (reply 204 NoContent)))"

subsection \<open>Rules\<close>

definition load_rules :: "api_world \<Rightarrow> 'b api_state \<Rightarrow> string \<Rightarrow> (unit, rule list) go" where
  "load_rules w st p =
     (case as_files st p of
        None \<Rightarrow> Fail ()
      | Some data \<Rightarrow>
          (case parse_rules (bi_compile (aw_io w)) (bi_yaml (aw_io w)) (bi_json (aw_io w)) data of
             Ok rs \<Rightarrow> Ok rs | Fail _ \<Rightarrow> Fail () | Panic \<Rightarrow> Panic))"

text \<open>A file that cannot be read or parsed is passed over.\<close>

fun list_files :: "api_world \<Rightarrow> 'b api_state \<Rightarrow> string list \<Rightarrow> rule_dto list option" where
  "list_files w st [] = Some []"
| "list_files w st (p # ps) =
     (case load_rules w st p of
        Panic \<Rightarrow> None
      | Fail _ \<Rightarrow> list_files w st ps
      | Ok rs \<Rightarrow> map_option ((@) (map (to_rule_dto p) rs)) (list_files w st ps))"

definition list_rules :: "api_world \<Rightarrow> string \<Rightarrow> 'b api_state \<Rightarrow> 'b api_result" where
  "list_rules w i st = with_config st (\<lambda>c.
     (case site_by_id c i of
        None \<Rightarrow> reply 404 (ErrorText ''site not found'') st
      | Some s \<Rightarrow>
          (case list_files w st (s_custom_rules s) of
             None \<Rightarrow> (st, None)
           | Some ds \<Rightarrow> reply 200 (RulesBody ds) st)))"

definition rule_path :: "api_options \<Rightarrow> string \<Rightarrow> rule \<Rightarrow> string" where
  "rule_path opts site_id r = file_join [ao_rules_dir opts, rule_filename site_id (rule_id r)]"

definition add_path :: "string \<Rightarrow> site \<Rightarrow> site" where
  "add_path p s = s\<lparr>s_custom_rules := (if p \<in> set (s_custom_rules s) then s_custom_rules s else s_custom_rules s @ [p])\<rparr>"

text \<open>
  The loop that writes the files and lists them in the site, both at once; it stops at the
  first directory or file that cannot be written, and what was done before stays.
\<close>

fun write_rules ::
    "api_world \<Rightarrow> api_options \<Rightarrow> string \<Rightarrow> rule list \<Rightarrow> config \<Rightarrow> (string \<Rightarrow> string option) \<Rightarrow>
     (config \<times> (string \<Rightarrow> string option)) \<times> rule_dto list option" where
  "write_rules w opts i [] c files = ((c, files), Some [])"
| "write_rules w opts i (r # rs) c files =
     (let p = rule_path opts i r in
      if \<not> aw_mkdir w \<or> \<not> aw_write w p then ((c, files), None)
      else (case write_rules w opts i rs (c\<lparr>c_sites := update_first i (add_path p) (c_sites c)\<rparr>)
                   (files(p \<mapsto> aw_yaml w r)) of
              (cf, added) \<Rightarrow> (cf, map_option ((#) (to_rule_dto p r)) added)))"

definition create_rules :: "api_world \<Rightarrow> api_options \<Rightarrow> string \<Rightarrow> string option \<Rightarrow> 'b api_state \<Rightarrow> 'b api_result" where
  "create_rules w opts i body st =
     (case body of
        None \<Rightarrow> reply 400 (ErrorText ''invalid body'') st
      | Some yaml \<Rightarrow>
          (case parse_rules (bi_compile (aw_io w)) (bi_yaml (aw_io w)) (bi_json (aw_io w)) yaml of
             Panic \<Rightarrow> (st, None)
           | Fail e \<Rightarrow> reply 400 (RuleError e) st
           | Ok rs \<Rightarrow> with_config st (\<lambda>c.
               (case site_by_id c i of
                  None \<Rightarrow> reply 404 (ErrorText ''site not found'') st
                | Some _ \<Rightarrow>
                    if \<not> distinct (map rule_id rs) then reply 400 (ErrorText ''duplicate rule id'') st
                    else (case write_rules w opts i rs c (as_files st) of
                            ((c', files), None) \<Rightarrow>
                              reply 500 (ErrorText ''write failed'') (write_config c' (st\<lparr>as_files := files\<rparr>))
                          | ((c', files), Some added) \<Rightarrow>
                              after_apply w c' (st\<lparr>as_files := files\<rparr>) (reply 201 (RulesBody added)))))))"

definition rule_path_matches ::
    "api_world \<Rightarrow> 'b api_state \<Rightarrow> string \<Rightarrow> string \<Rightarrow> string \<Rightarrow> (unit, bool) go" where
  "rule_path_matches w st i rid p =
     (if file_base p = rule_filename i rid then Ok True
      else (case load_rules w st p of
              Ok rs \<Rightarrow> Ok (rid \<in> set (map rule_id rs)) | Fail _ \<Rightarrow> Ok False | Panic \<Rightarrow> Panic))"

text \<open>
  The loop over the listed files: what is kept, whether any was removed, and the files left.
  Files outside the managed directory are unlisted but not deleted; a file deleted for one
  entry can no longer be read for a later one.
\<close>

datatype drop_result = Dropped "string list" bool | DropPanic "string list"

fun drop_rule_paths ::
    "api_world \<Rightarrow> api_options \<Rightarrow> string \<Rightarrow> string \<Rightarrow> string list \<Rightarrow> string list \<Rightarrow> bool \<Rightarrow>
     'b api_state \<Rightarrow> drop_result \<times> 'b api_state" where
  "drop_rule_paths w opts i rid [] kept found st = (Dropped kept found, st)"
| "drop_rule_paths w opts i rid (p # ps) kept found st =
     (case rule_path_matches w st i rid p of
        Ok True \<Rightarrow>
          drop_rule_paths w opts i rid ps kept True
            (if file_dir p = ao_rules_dir opts then st\<lparr>as_files := (as_files st)(p := None)\<rparr> else st)
      | Ok False \<Rightarrow> drop_rule_paths w opts i rid ps (kept @ [p]) found st
      | _ \<Rightarrow> (DropPanic kept, st))"

definition set_rules :: "string \<Rightarrow> string list \<Rightarrow> config \<Rightarrow> config" where
  "set_rules i ps c = c\<lparr>c_sites := update_first i (\<lambda>s. s\<lparr>s_custom_rules := ps\<rparr>) (c_sites c)\<rparr>"

text \<open>The list is compacted in place, which a panic half way leaves visible.\<close>

definition delete_rule :: "api_world \<Rightarrow> api_options \<Rightarrow> string \<Rightarrow> string \<Rightarrow> 'b api_state \<Rightarrow> 'b api_result" where
  "delete_rule w opts i rid st = with_config st (\<lambda>c.
     (case site_by_id c i of
        None \<Rightarrow> reply 404 (ErrorText ''site not found'') st
      | Some s \<Rightarrow>
          (case drop_rule_paths w opts i rid (s_custom_rules s) [] False st of
             (DropPanic kept, st1) \<Rightarrow>
               (write_config (set_rules i (kept @ drop (length kept) (s_custom_rules s)) c) st1, None)
           | (Dropped kept found, st1) \<Rightarrow>
               if \<not> found then reply 404 (ErrorText ''rule not found'') st
               else after_apply w (set_rules i kept c) st1 (reply 204 NoContent))))"

subsection \<open>The fingerprint blocklist\<close>

definition set_blocklist :: "string list \<Rightarrow> config \<Rightarrow> config" where
  "set_blocklist hs c = c\<lparr>c_fingerprint := (c_fingerprint c)\<lparr>fp_blocklist := hs\<rparr>\<rparr>"

definition list_blocklist :: "'b api_state \<Rightarrow> 'b api_result" where
  "list_blocklist st = with_config st (\<lambda>c. reply 200 (BlocklistBody (fp_blocklist (c_fingerprint c))) st)"

definition add_blocklist :: "api_world \<Rightarrow> (string \<times> string) option \<Rightarrow> 'b api_state \<Rightarrow> 'b api_result" where
  "add_blocklist w inp st =
     (case inp of
        None \<Rightarrow> reply 400 (ErrorText ''invalid body'') st
      | Some (j, nt) \<Rightarrow>
          let h = to_lower (trim_space j) in
          if \<not> valid_ja4 h then reply 400 (ErrorText ''invalid JA4 hash (expected 32 hex chars)'') st
          else with_config st (\<lambda>c.
            if h \<in> set (fp_blocklist (c_fingerprint c)) then reply 409 (ErrorText ''already blocked'') st
            else after_apply w (set_blocklist (fp_blocklist (c_fingerprint c) @ [h]) c) st
                   (reply 201 (BlockedBody h nt))))"

definition delete_blocklist :: "api_world \<Rightarrow> string \<Rightarrow> 'b api_state \<Rightarrow> 'b api_result" where
  "delete_blocklist w j st = with_config st (\<lambda>c.
     (let h = to_lower (trim_space j); hs = fp_blocklist (c_fingerprint c) in
      if h \<notin> set hs then reply 404 (ErrorText ''not blocked'') st
      else after_apply w (set_blocklist (filter (\<lambda>x. x \<noteq> h) hs) c) st (reply 204 NoContent)))"

subsection \<open>Metrics and events\<close>

definition get_metrics :: "'b api_state \<Rightarrow> 'b api_result" where
  "get_metrics st =
     (case gateway_stats (as_gw st) of Ok x \<Rightarrow> reply 200 (StatsBody x) st | _ \<Rightarrow> (st, None))"

definition query_field :: "request \<Rightarrow> string \<Rightarrow> string" where
  "query_field r k = (case req_url r of None \<Rightarrow> [] | Some u \<Rightarrow> query_get u k)"

text \<open>
  The event stream authenticates by the query only. The response is the subscription; each
  event is then written as one frame.
\<close>

definition event_frame :: "string \<Rightarrow> string" where
  "event_frame js = ''event: audit'' @ [CHR 0x0A] @ ''data: '' @ js @ [CHR 0x0A] @ [CHR 0x0A]"

definition stream_events :: "api_world \<Rightarrow> api_options \<Rightarrow> request \<Rightarrow> 'b api_state \<Rightarrow> 'b api_result" where
  "stream_events w opts r st =
     (let tok = query_field r ''token'' in
      if tok = [] then reply 401 (ErrorText ''missing token'') st
      else (case verify_jwt (aw_tokens w) (aw_now w) (ao_jwt_secret opts) tok of
              Ok _ \<Rightarrow>
                if \<not> aw_flusher w then reply 500 (ErrorText ''streaming unsupported'') st
                else (case subscribe_events (as_gw st) of
                        (g, ch) \<Rightarrow> reply 200 (StreamBody ch) (st\<lparr>as_gw := g\<rparr>))
            | _ \<Rightarrow> reply 401 (ErrorText ''invalid token'') st))"

subsection \<open>Agents\<close>

definition with_db :: "'b api_state \<Rightarrow> (agent_db \<Rightarrow> 'b api_result) \<Rightarrow> 'b api_result" where
  "with_db st k =
     (case as_db st of
        None \<Rightarrow> reply 503 (ErrorText ''agent store not configured'') st
      | Some db \<Rightarrow> k db)"

definition api_list_agents :: "api_world \<Rightarrow> 'b api_state \<Rightarrow> 'b api_result" where
  "api_list_agents w st = with_db st (\<lambda>db.
     (case list_agents (aw_db_ok w) db of
        Ok as \<Rightarrow> reply 200 (AgentsBody as) st
      | Fail e \<Rightarrow> reply 500 (StoreError e) st
      | Panic \<Rightarrow> (st, None)))"

text \<open>\<open>readJSON\<close> has already written an error when the handler writes its own.\<close>

definition enroll_command :: "api_options \<Rightarrow> request \<Rightarrow> string \<Rightarrow> string" where
  "enroll_command opts r tok =
     (let host = (case index_byte (req_host r) (CHR '':'') of Some i \<Rightarrow> take i (req_host r) | None \<Rightarrow> req_host r);
          port = (if ao_agent_port opts = [] then ''9443'' else ao_agent_port opts)
      in ''swipeshield-agent enroll -m '' @ host @ '':'' @ port @ '' -t '' @ tok)"

definition api_create_agent ::
    "api_world \<Rightarrow> api_options \<Rightarrow> request \<Rightarrow> (string \<times> string) option \<Rightarrow> 'b api_state \<Rightarrow> 'b api_result" where
  "api_create_agent w opts r inp st = with_db st (\<lambda>db.
     (case inp of
        None \<Rightarrow> reply 400 (TwoErrors ''invalid body'' ''decode error'') st
      | Some (name0, ip) \<Rightarrow>
          let name = (if name0 = [] then ip else name0) in
          if name = [] then reply 400 (ErrorText ''name or ip is required'') st
          else (case create_agent (aw_db_ok w) (aw_sha w) (aw_now w div 1000000000) (aw_agent_bytes w)
                       (aw_token_bytes w) name ip db of
                  (db', Ok (i, tok)) \<Rightarrow>
                    let st' = st\<lparr>as_db := Some db'\<rparr> in
                    (case get_agent (aw_db_ok2 w) i db' of
                       Ok a \<Rightarrow> reply 201 (AgentBody a tok (enroll_command opts r tok)) st'
                     | Fail e \<Rightarrow> reply 500 (StoreError e) st'
                     | Panic \<Rightarrow> (st', None))
                | (db', Fail e) \<Rightarrow> reply 500 (StoreError e) (st\<lparr>as_db := Some db'\<rparr>)
                | (db', Panic) \<Rightarrow> (st, None))))"

definition api_delete_agent :: "api_world \<Rightarrow> string \<Rightarrow> 'b api_state \<Rightarrow> 'b api_result" where
  "api_delete_agent w i st = with_db st (\<lambda>db.
     (case delete_agent (aw_db_ok w) i db of
        (db', None) \<Rightarrow> reply 204 NoContent (st\<lparr>as_db := Some db'\<rparr>)
      | (db', Some e) \<Rightarrow> reply 500 (StoreError e) st))"

text \<open>\<open>n\<close> is what \<open>strconv.Atoi\<close> makes of the query field limit.\<close>

definition agent_events :: "api_world \<Rightarrow> string \<Rightarrow> int \<Rightarrow> 'b api_state \<Rightarrow> 'b api_result" where
  "agent_events w i n st = with_db st (\<lambda>db.
     (case get_agent (aw_db_ok w) i db of
        Ok _ \<Rightarrow>
          (case list_events (aw_db_ok2 w) i (if n \<le> 0 then 100 else n) db of
             Ok es \<Rightarrow> reply 200 (PayloadsBody (map er_payload es)) st
           | Fail e \<Rightarrow> reply 500 (StoreError e) st
           | Panic \<Rightarrow> (st, None))
      | _ \<Rightarrow> reply 404 (ErrorText ''agent not found'') st))"

subsection \<open>Login, authentication, rate limit and dispatch\<close>

definition login :: "api_world \<Rightarrow> api_options \<Rightarrow> (string \<times> string) option \<Rightarrow> 'b api_state \<Rightarrow> 'b api_result" where
  "login w opts inp st =
     (case inp of
        None \<Rightarrow> reply 400 (ErrorText ''invalid body'') st
      | Some (user, pw) \<Rightarrow>
          if user \<noteq> ao_admin_user opts then reply 401 (ErrorText ''invalid credentials'') st
          else (case verify_password (aw_argon w) pw (ao_admin_hash opts) of
                  Ok True \<Rightarrow>
                    (case issue_jwt (aw_tokens w) (aw_now w) (ao_jwt_secret opts) user 28800000000000 of
                       None \<Rightarrow> reply 500 (ErrorText ''token issue failed'') st
                     | Some tok \<Rightarrow> reply 200 (TokenBody tok) st)
                | Ok False \<Rightarrow> reply 401 (ErrorText ''invalid credentials'') st
                | _ \<Rightarrow> (st, None)))"

datatype api_call =
  Login "(string \<times> string) option"
| ListSites | CreateSite "site_input option" | GetSite string | UpdateSite string "site_input option"
| DeleteSite string
| ListRules string | CreateRules string "string option" | DeleteRule string string
| ListBlocklist | AddBlocklist "(string \<times> string) option" | DeleteBlocklist string
| GetMetrics | StreamEvents
| ListAgents | CreateAgent "(string \<times> string) option" | DeleteAgent string | AgentEvents string int

fun run_call :: "api_world \<Rightarrow> api_options \<Rightarrow> request \<Rightarrow> api_call \<Rightarrow> 'b api_state \<Rightarrow> 'b api_result" where
  "run_call w opts r (Login inp) st = login w opts inp st"
| "run_call w opts r ListSites st = list_sites st"
| "run_call w opts r (CreateSite inp) st = create_site w inp st"
| "run_call w opts r (GetSite i) st = get_site i st"
| "run_call w opts r (UpdateSite i inp) st = update_site w i inp st"
| "run_call w opts r (DeleteSite i) st = delete_site w i st"
| "run_call w opts r (ListRules i) st = list_rules w i st"
| "run_call w opts r (CreateRules i body) st = create_rules w opts i body st"
| "run_call w opts r (DeleteRule i rid) st = delete_rule w opts i rid st"
| "run_call w opts r ListBlocklist st = list_blocklist st"
| "run_call w opts r (AddBlocklist inp) st = add_blocklist w inp st"
| "run_call w opts r (DeleteBlocklist j) st = delete_blocklist w j st"
| "run_call w opts r GetMetrics st = get_metrics st"
| "run_call w opts r StreamEvents st = stream_events w opts r st"
| "run_call w opts r ListAgents st = api_list_agents w st"
| "run_call w opts r (CreateAgent inp) st = api_create_agent w opts r inp st"
| "run_call w opts r (DeleteAgent i) st = api_delete_agent w i st"
| "run_call w opts r (AgentEvents i n) st = agent_events w i n st"

text \<open>The calls whose handler is wrapped in \<open>auth\<close>.\<close>

definition guarded :: "api_call \<Rightarrow> bool" where
  "guarded call \<longleftrightarrow> (case call of Login _ \<Rightarrow> False | StreamEvents \<Rightarrow> False | _ \<Rightarrow> True)"

definition request_token :: "request \<Rightarrow> string" where
  "request_token r =
     (let t = trim_prefix (header_get (req_header r) ''Authorization'') ''Bearer '' in
      if t \<noteq> [] then t else query_field r ''token'')"

definition auth_call :: "api_world \<Rightarrow> api_options \<Rightarrow> request \<Rightarrow> api_call \<Rightarrow> 'b api_state \<Rightarrow> 'b api_result" where
  "auth_call w opts r call st =
     (if \<not> guarded call then run_call w opts r call st
      else if request_token r = [] then reply 401 (ErrorText ''missing token'') st
      else (case verify_jwt (aw_tokens w) (aw_now w) (ao_jwt_secret opts) (request_token r) of
              Ok _ \<Rightarrow> run_call w opts r call st
            | _ \<Rightarrow> reply 401 (ErrorText ''invalid token'') st))"

definition count_request :: "int \<Rightarrow> (int \<times> nat) option \<Rightarrow> int \<times> nat" where
  "count_request now wd =
     (case wd of
        None \<Rightarrow> (now, 1)
      | Some (start, n) \<Rightarrow> if now - start > 60000000000 then (now, 1) else (start, n + 1))"

definition api_handle :: "api_world \<Rightarrow> api_options \<Rightarrow> request \<Rightarrow> api_call \<Rightarrow> 'b api_state \<Rightarrow> 'b api_result" where
  "api_handle w opts r call st =
     (let ip = api_client_ip r; wd = count_request (aw_now w) (as_windows st ip);
          st1 = st\<lparr>as_windows := (as_windows st)(ip \<mapsto> wd)\<rparr>
      in if int (snd wd) > ao_limit opts then reply 429 (ErrorText ''api rate limit exceeded'') st1
         else auth_call w opts r call st1)"

end
