(* ===== verification/MgmtSafety.thy ===== *)
theory MgmtSafety
  imports MgmtApi
begin

text \<open>
  Correctness of the management API (MgmtApi): what a call may change and who may make it,
  which files it writes, what an accepted and a rejected change leave behind.
\<close>

subsection \<open>Who may change what\<close>

lemma login_state: "fst (login w opts inp st) = st"
  by (simp add: login_def reply_def split: option.split prod.split go.split bool.split)

lemma stream_events_state:
  assumes "\<And>sub. verify_jwt (aw_tokens w) (aw_now w) (ao_jwt_secret opts) (query_field r ''token'') \<noteq> Ok sub"
  shows "fst (stream_events w opts r st) = st \<and>
    (\<exists>m. snd (stream_events w opts r st) = Some (401, ErrorText m))"
  using assms by (auto simp: stream_events_def reply_def Let_def split: go.split)

lemma refused_call:
  assumes "\<And>sub. verify_jwt (aw_tokens w) (aw_now w) (ao_jwt_secret opts) (request_token r) \<noteq> Ok sub"
    and "guarded call"
  shows "fst (auth_call w opts r call st) = st \<and>
    (\<exists>m. snd (auth_call w opts r call st) = Some (401, ErrorText m))"
  using assms by (auto simp: auth_call_def reply_def split: go.split)

text \<open>
  C6. Authentication guards every call but the login: a call that changes anything beyond the
  request counters, or that is answered with anything but 401 or 429, came with a token (in
  the Authorization header or the query) that carries the HMAC under the server's secret and
  has not expired. The login itself changes nothing.
\<close>

theorem api_needs_token:
  assumes "api_handle w opts r call st = (st', resp)"
    and "st' \<noteq> st\<lparr>as_windows := as_windows st'\<rparr> \<or>
      (\<forall>inp. call \<noteq> Login inp) \<and> (\<forall>code m. resp = Some (code, ErrorText m) \<longrightarrow> code \<noteq> 401 \<and> code \<noteq> 429)"
  shows "genuine_token (aw_tokens w) (aw_now w) (ao_jwt_secret opts) (request_token r) \<or>
    genuine_token (aw_tokens w) (aw_now w) (ao_jwt_secret opts) (query_field r ''token'')"
proof (rule ccontr)
  assume "\<not> ?thesis"
  then have no: "verify_jwt (aw_tokens w) (aw_now w) (ao_jwt_secret opts) (request_token r) \<noteq> Ok sub"
    "verify_jwt (aw_tokens w) (aw_now w) (ao_jwt_secret opts) (query_field r ''token'') \<noteq> Ok sub" for sub
    using verify_jwt_genuine by blast+
  let ?st = "st\<lparr>as_windows := (as_windows st)
      (api_client_ip r \<mapsto> count_request (aw_now w) (as_windows st (api_client_ip r)))\<rparr>"
  have "fst (auth_call w opts r call ?st) = ?st \<and>
      ((\<exists>inp. call = Login inp) \<or> (\<exists>m. snd (auth_call w opts r call ?st) = Some (401, ErrorText m)))"
  proof (cases "guarded call")
    case True
    with refused_call [OF no(1)] show ?thesis by blast
  next
    case False
    then consider inp where "call = Login inp" | "call = StreamEvents"
      by (cases call) (auto simp: guarded_def)
    then show ?thesis
    proof cases
      case 1
      with False show ?thesis by (simp add: auth_call_def login_state)
    next
      case 2
      with False stream_events_state [OF no(2)] show ?thesis by (simp add: auth_call_def)
    qed
  qed
  then have "st' = st\<lparr>as_windows := as_windows st'\<rparr> \<and>
      ((\<exists>inp. call = Login inp) \<or> (\<exists>code m. resp = Some (code, ErrorText m) \<and> (code = 401 \<or> code = 429)))"
    using assms(1) by (auto simp: api_handle_def reply_def Let_def split: if_splits)
  with assms(2) show False by blast
qed

text \<open>A call is refused, or it runs in the state in which the request is counted.\<close>

definition counted :: "api_world \<Rightarrow> request \<Rightarrow> 'b api_state \<Rightarrow> 'b api_state" where
  "counted w r st = st\<lparr>as_windows := (as_windows st)
     (api_client_ip r \<mapsto> count_request (aw_now w) (as_windows st (api_client_ip r)))\<rparr>"

lemma counted_simps [simp]:
  "as_files (counted w r st) = as_files st" "as_gw (counted w r st) = as_gw st"
  "as_tail (counted w r st) = as_tail st" "as_slots (counted w r st) = as_slots st"
  "as_db (counted w r st) = as_db st" "live_config (counted w r st) = live_config st"
  by (simp_all add: counted_def live_config_def)

lemma api_handle_cases:
  assumes "api_handle w opts r call st = (st', resp)"
  obtains code m where "st' = counted w r st" "resp = Some (code, ErrorText m)" "code = 401 \<or> code = 429"
    | "run_call w opts r call (counted w r st) = (st', resp)"
proof (cases "api_handle w opts r call st = auth_call w opts r call (counted w r st)")
  case True
  with assms have a: "auth_call w opts r call (counted w r st) = (st', resp)" by simp
  show ?thesis
  proof (cases "auth_call w opts r call (counted w r st) = run_call w opts r call (counted w r st)")
    case False
    with a that(1) show ?thesis by (auto simp: auth_call_def reply_def split: if_splits go.splits)
  qed (use a that(2) in simp)
next
  case False
  with assms that(1) show ?thesis
    by (auto simp: api_handle_def reply_def counted_def Let_def split: if_splits)
qed

subsection \<open>Which files are written\<close>

definition rule_char :: "char \<Rightarrow> bool" where
  "rule_char c \<longleftrightarrow> sanitize_char c = c"

lemma sanitize_char_idem: "rule_char (sanitize_char c)"
  by (auto simp: rule_char_def sanitize_char_def Let_def)

lemma rule_char_no_slash: "\<not> rule_char (CHR ''/'')"
  by (simp add: rule_char_def sanitize_char_def)

lemma sanitize_rune_char: "rule_char (sanitize_rune u)"
  by (auto simp: sanitize_rune_def sanitize_char_idem split: list.split)
     (auto simp: rule_char_def sanitize_char_def Let_def)

lemma sanitize_chars: "list_all rule_char (sanitize s)"
  by (auto simp: sanitize_def list_all_iff sanitize_rune_char) (auto simp: rule_char_def sanitize_char_def Let_def)

lemma rule_filename_chars: "\<exists>n. rule_filename i rid = n @ ''.yaml'' \<and> list_all rule_char n \<and> n \<noteq> []"
  using sanitize_chars [of i] sanitize_chars [of rid]
  by (intro exI [of _ "sanitize i @ ''-'' @ sanitize rid"])
     (simp add: rule_filename_def rule_char_def sanitize_char_def)

lemma rule_filename_plain: "plain_seg (rule_filename i rid)"
proof -
  obtain n where n: "rule_filename i rid = n @ ''.yaml''" "list_all rule_char n"
    using rule_filename_chars by blast
  have "length (rule_filename i rid) > 2" by (simp add: n(1))
  moreover have "CHR ''/'' \<notin> set (rule_filename i rid)"
    using n rule_char_no_slash by (auto simp: list_all_iff)
  ultimately show ?thesis unfolding plain_seg_def by auto
qed

text \<open>A path directly in the rules directory, with a name of safe characters.\<close>

definition managed_path :: "api_options \<Rightarrow> string \<Rightarrow> bool" where
  "managed_path opts p \<longleftrightarrow>
     file_dir p = file_clean (ao_rules_dir opts) \<and>
     (\<exists>n. file_base p = n @ ''.yaml'' \<and> list_all rule_char n \<and> n \<noteq> [])"

lemma rule_path_managed: "managed_path opts (rule_path opts i r)"
  using rule_filename_chars [of i "rule_id r"]
  by (simp add: managed_path_def rule_path_def file_dir_join file_base_join rule_filename_plain)

lemma write_rules_files:
  assumes "write_rules w opts i rs c files = ((c', files'), added)" and "files' p \<noteq> files p"
  shows "\<exists>r. r \<in> set rs \<and> p = rule_path opts i r \<and> files' p = Some (aw_yaml w r)"
  using assms
proof (induction rs arbitrary: c files added)
  case (Cons r rs)
  let ?p = "rule_path opts i r"
  show ?case
  proof (cases "aw_mkdir w \<and> aw_write w ?p")
    case True
    let ?c = "c\<lparr>c_sites := update_first i (add_path ?p) (c_sites c)\<rparr>"
    obtain added' where run: "write_rules w opts i rs ?c (files(?p \<mapsto> aw_yaml w r)) = ((c', files'), added')"
      using Cons.prems(1) True by (auto simp: Let_def split: prod.splits)
    show ?thesis
    proof (cases "files' p = (files(?p \<mapsto> aw_yaml w r)) p")
      case True
      with Cons.prems(2) show ?thesis by (auto split: if_splits)
    next
      case False
      from Cons.IH [OF run False] show ?thesis by auto
    qed
  qed (use Cons.prems in \<open>auto simp: Let_def\<close>)
qed simp

lemma rule_path_matches_files:
  "as_files st p = as_files st1 p \<Longrightarrow> rule_path_matches w st i rid p = rule_path_matches w st1 i rid p"
  by (simp add: rule_path_matches_def load_rules_def)

lemma drop_rule_paths_files:
  assumes "drop_rule_paths w opts i rid ps kept found st = (res, st')" and "as_files st' p \<noteq> as_files st p"
  shows "as_files st' p = None \<and> p \<in> set ps \<and> file_dir p = ao_rules_dir opts \<and> rule_path_matches w st i rid p = Ok True"
  using assms
proof (induction w opts i rid ps kept found st rule: drop_rule_paths.induct)
  case (2 w opts i rid q ps kept found st)
  show ?case
  proof (cases "rule_path_matches w st i rid q = Ok True")
    case True
    let ?st = "if file_dir q = ao_rules_dir opts then st\<lparr>as_files := (as_files st)(q := None)\<rparr> else st"
    have run: "drop_rule_paths w opts i rid ps kept True ?st = (res, st')" using 2(3) True by simp
    show ?thesis
    proof (cases "as_files st' p = as_files ?st p")
      case gone: True
      with 2(4) True show ?thesis by (auto split: if_splits)
    next
      case False
      from 2(1) [OF True _ run False] 2(4) True rule_path_matches_files [of ?st p st w i rid] show ?thesis
        by (cases "p = q") (auto split: if_splits)
    qed
  next
    case False
    then show ?thesis using 2 by (auto split: go.splits bool.splits)
  qed
qed simp

lemma write_config_simps [simp]:
  "as_files (write_config c st) = as_files st" "as_tail (write_config c st) = as_tail st"
  "as_slots (write_config c st) = as_slots st" "as_windows (write_config c st) = as_windows st"
  "as_db (write_config c st) = as_db st" "live_config (write_config c st) = Some c"
  "gt_fp_block (as_gw (write_config c st)) = gt_fp_block (as_gw st)"
  "gt_sites (as_gw (write_config c st)) =
     see_sites (as_slots st) (c_sites c @ as_tail st) (gt_sites (as_gw st))"
  by (simp_all add: write_config_def live_config_def)

lemma build_sites_Fail: "build_sites io ss m = Fail e \<Longrightarrow> e \<noteq> ReloadPanic"
  by (induction ss arbitrary: m) (auto split: go.splits)

text \<open>The two outcomes of \<open>apply\<close>.\<close>

lemma gateway_reload_Some: "gateway_reload io c g = (g', Some e) \<Longrightarrow> g' = g \<and> e \<noteq> ReloadPanic"
  using build_sites_no_Panic build_sites_Fail
  by (auto simp: gateway_reload_def reload_runtimes_def split: option.splits go.splits)

lemma api_apply_Some:
  assumes "api_apply w c st = (st', Some e)"
  shows "st' = write_config (fst (validate c)) st \<and> e \<noteq> ApplyFailed ReloadPanic"
  using assms
  by (auto simp: api_apply_def Let_def dest!: gateway_reload_Some split: prod.splits option.splits)

lemma api_apply_None:
  assumes "api_apply w c st = (st', None)"
  obtains c' m block where "validate c = (c', None)" "live_config st' = Some c'"
    "as_slots st' = slots_of (c_sites c')" "as_tail st' = as_tail st" "as_files st' = as_files st"
    "as_windows st' = as_windows st" "as_db st' = as_db st"
    "build_sites (api_io w st) (c_sites c') (\<lambda>_. None) = Ok m" "gt_sites (as_gw st') = m"
    "load_fingerprint_blocklist (as_files st) (fp_blocklist (c_fingerprint c'))
       (fp_blocklist_file (c_fingerprint c')) = Some block" "gt_fp_block (as_gw st') = block"
  using assms that
  by (auto simp: api_apply_def gateway_reload_def reload_runtimes_def publish_config_def store_set_def Let_def
      live_config_def api_io_def split: prod.splits option.splits go.splits)

lemma after_apply_cases:
  assumes "after_apply w c st k = (st', resp)"
  obtains e where "st' = write_config (fst (validate c)) st" "resp = Some (400, ApplyError e)"
      "api_apply w c st = (st', Some e)"
    | st1 where "api_apply w c st = (st1, None)" "k st1 = (st', resp)"
  using assms api_apply_Some
  by (force simp: after_apply_def reply_def split: prod.splits option.splits apply_error.splits reload_error.splits)

lemma after_apply_files:
  assumes "after_apply w c st k = (st', resp)" and "\<And>s. as_files (fst (k s)) = as_files s"
  shows "as_files st' = as_files st"
  using assms(1)
proof (cases rule: after_apply_cases)
  case (2 st1)
  from 2(1) obtain "as_files st1 = as_files st" by (rule api_apply_None)
  with 2(2) assms(2) [of st1] show ?thesis by simp
qed simp

lemma reply_simps [simp]: "reply code b st = (st, Some (code, b))"
  by (simp add: reply_def)

lemma reply_site_state [simp]: "fst (reply_site code i st) = st"
  by (simp add: reply_site_def split: option.split)

text \<open>Every call but the two that work on rule files leaves the files alone.\<close>

lemma other_calls_files:
  assumes "run_call w opts r call st = (st', resp)"
    and "\<And>i body. call \<noteq> CreateRules i body" and "\<And>i rid. call \<noteq> DeleteRule i rid"
  shows "as_files st' = as_files st"
proof (cases call)
  case (CreateSite inp)
  with assms(1) show ?thesis
    by (auto simp: create_site_def with_config_def grow_sites_def Let_def
        dest!: after_apply_files split: option.splits list.splits)
next
  case (UpdateSite i inp)
  with assms(1) show ?thesis
    by (auto simp: update_site_def with_config_def dest!: after_apply_files split: option.splits)
next
  case (DeleteSite i)
  with assms(1) show ?thesis
    by (auto simp: delete_site_def with_config_def compact_sites_def Let_def
        dest!: after_apply_files split: option.splits)
next
  case (AddBlocklist inp)
  with assms(1) show ?thesis
    by (auto simp: add_blocklist_def with_config_def Let_def dest!: after_apply_files split: option.splits if_splits)
next
  case (DeleteBlocklist j)
  with assms(1) show ?thesis
    by (auto simp: delete_blocklist_def with_config_def Let_def dest!: after_apply_files split: option.splits if_splits)
next
  case (Login inp)
  with assms(1) login_state [of w opts inp st] show ?thesis by simp
qed (use assms in \<open>auto simp: list_sites_def get_site_def list_rules_def list_blocklist_def get_metrics_def
    stream_events_def api_list_agents_def api_create_agent_def api_delete_agent_def agent_events_def
    with_config_def with_db_def Let_def split: option.splits go.splits prod.splits if_splits\<close>)

lemma create_rules_files:
  assumes "create_rules w opts i body st = (st', resp)" and "as_files st' p \<noteq> as_files st p"
  shows "\<exists>yaml rs r. body = Some yaml \<and>
    parse_rules (bi_compile (aw_io w)) (bi_yaml (aw_io w)) (bi_json (aw_io w)) yaml = Ok rs \<and>
    r \<in> set rs \<and> p = rule_path opts i r \<and> as_files st' p = Some (aw_yaml w r)"
  using assms
  by (auto simp: create_rules_def with_config_def dest!: after_apply_files dest: write_rules_files
      split: option.splits go.splits if_splits prod.splits)

lemma delete_rule_files:
  assumes "delete_rule w opts i rid st = (st', resp)" and "as_files st' p \<noteq> as_files st p"
  shows "\<exists>c s. live_config st = Some c \<and> site_by_id c i = Some s \<and> p \<in> set (s_custom_rules s) \<and>
    as_files st' p = None \<and> file_dir p = ao_rules_dir opts \<and> rule_path_matches w st i rid p = Ok True"
  using assms
  by (auto simp: delete_rule_def with_config_def dest!: after_apply_files dest: drop_rule_paths_files
      split: option.splits if_splits prod.splits drop_result.splits)

lemma rule_path_matches_True:
  "rule_path_matches w st i rid p = Ok True \<longleftrightarrow>
     file_base p = rule_filename i rid \<or> (\<exists>rs. load_rules w st p = Ok rs \<and> rid \<in> rule_id ` set rs)"
  by (auto simp: rule_path_matches_def split: go.split)

text \<open>
  C22. Which files a call writes and which it removes. A file that is there afterwards and was
  created or changed is a rule of the body of a rule creation, written as its YAML, directly in
  the rules directory under a name of lower-case letters, digits, dashes and underscores with
  the suffix .yaml, whatever site and rule ids the call names. A file that is gone was removed
  by a rule deletion: the named site listed it, it lies directly in the rules directory, and
  it has the file name of the rule or contains a rule with the deleted id. Any listed file
  of the directory may be removed, whatever its name.
\<close>

theorem api_writes_managed_files:
  assumes "api_handle w opts r call st = (st', resp)" and "as_files st' p \<noteq> as_files st p"
  shows "case as_files st' p of
      Some data \<Rightarrow> \<exists>i yaml rs rl n. call = CreateRules i (Some yaml) \<and>
        parse_rules (bi_compile (aw_io w)) (bi_yaml (aw_io w)) (bi_json (aw_io w)) yaml = Ok rs \<and>
        rl \<in> set rs \<and> p = rule_path opts i rl \<and> data = aw_yaml w rl \<and>
        file_dir p = file_clean (ao_rules_dir opts) \<and> file_base p = n @ ''.yaml'' \<and> list_all rule_char n \<and> n \<noteq> []
    | None \<Rightarrow> \<exists>i rid c s. call = DeleteRule i rid \<and> live_config st = Some c \<and> site_by_id c i = Some s \<and>
        p \<in> set (s_custom_rules s) \<and> file_dir p = ao_rules_dir opts \<and>
        (file_base p = rule_filename i rid \<or> (\<exists>rs. load_rules w st p = Ok rs \<and> rid \<in> rule_id ` set rs))"
proof -
  let ?st = "counted w r st"
  have run: "run_call w opts r call ?st = (st', resp)"
    using assms(1)
  proof (cases rule: api_handle_cases)
    case (1 code m)
    with assms(2) show ?thesis by simp
  qed
  with assms(2) consider i body where "call = CreateRules i body" | i rid where "call = DeleteRule i rid"
    using other_calls_files [OF run] by (cases call) auto
  then show ?thesis
  proof cases
    case (1 i body)
    with run have "create_rules w opts i body ?st = (st', resp)" by simp
    from create_rules_files [OF this, of p] assms(2) obtain yaml rs rl where
      "body = Some yaml" "parse_rules (bi_compile (aw_io w)) (bi_yaml (aw_io w)) (bi_json (aw_io w)) yaml = Ok rs"
      "rl \<in> set rs" "p = rule_path opts i rl" "as_files st' p = Some (aw_yaml w rl)" by auto
    moreover from this(4) rule_path_managed [of opts i rl] obtain n where
      "file_dir p = file_clean (ao_rules_dir opts)" "file_base p = n @ ''.yaml''" "list_all rule_char n" "n \<noteq> []"
      by (auto simp: managed_path_def)
    ultimately show ?thesis using 1 by auto
  next
    case (2 i rid)
    with run have "delete_rule w opts i rid ?st = (st', resp)" by simp
    from delete_rule_files [OF this, of p] assms(2) obtain c s where
      "live_config st = Some c" "site_by_id c i = Some s" "p \<in> set (s_custom_rules s)"
      "as_files st' p = None" "file_dir p = ao_rules_dir opts" "rule_path_matches w ?st i rid p = Ok True" by auto
    then show ?thesis using 2 rule_path_matches_files [of st p ?st]
      by (auto simp: rule_path_matches_True load_rules_def)
  qed
qed

subsection \<open>A rejected change stays in the live configuration\<close>

lemma validate_sites_backends:
  "validate_sites i seen ss = (ss', e) \<Longrightarrow> map s_backend ss' = map s_backend ss"
  "validate_sites i seen ss = (ss', None) \<Longrightarrow> [] \<notin> set (map s_backend ss)"
proof (induction i seen ss arbitrary: ss' e rule: validate_sites.induct)
  case (2 i seen s ss)
  {
    case 1
    then show ?case using "2.IH"(1) [OF refl] by (auto simp: Let_def split: if_splits prod.splits)
  next
    case 2
    then show ?case using "2.IH"(2) [OF refl] by (auto simp: Let_def split: if_splits prod.splits)
  }
qed simp_all

lemma validate_backends:
  "map s_backend (c_sites (fst (validate c))) = map s_backend (c_sites c)"
  "validate c = (c', None) \<Longrightarrow> [] \<notin> set (map s_backend (c_sites c))"
proof -
  show "map s_backend (c_sites (fst (validate c))) = map s_backend (c_sites c)"
    by (auto simp: validate_def Let_def dest!: validate_sites_backends(1)
        split: option.split prod.split simp del: map_eq_conv)
  assume "validate c = (c', None)"
  then obtain ss where "validate_sites 0 [] (c_sites c) = (ss, None)" by (rule validate_None)
  then show "[] \<notin> set (map s_backend (c_sites c))" by (rule validate_sites_backends(2))
qed

text \<open>
  The live configuration has a site with id \<open>d\<close> and no backend, which no validation accepts.
  Validation names a site that has no id, and changes no other id and no backend.
\<close>

definition dead_in :: "string \<Rightarrow> site list \<Rightarrow> bool" where
  "dead_in d ss \<longleftrightarrow> (\<exists>s \<in> set ss. s_id s = d \<and> s_backend s = [])"

definition dead_at :: "string \<Rightarrow> 'b api_state \<Rightarrow> bool" where
  "dead_at d st \<longleftrightarrow> (\<exists>c. live_config st = Some c \<and> dead_in d (c_sites c))"

lemma dead_in_simps [simp]:
  "\<not> dead_in d []" "dead_in d (s # ss) \<longleftrightarrow> s_id s = d \<and> s_backend s = [] \<or> dead_in d ss"
  "dead_in d (ss @ ts) \<longleftrightarrow> dead_in d ss \<or> dead_in d ts"
  by (auto simp: dead_in_def)

lemma dead_in_backends: "dead_in d ss \<Longrightarrow> [] \<in> set (map s_backend ss)"
  by (force simp: dead_in_def)

lemma validate_sites_dead: "dead_in d ss \<Longrightarrow> d \<noteq> [] \<Longrightarrow> validate_sites i seen ss = (ss', e) \<Longrightarrow> dead_in d ss'"
proof (induction i seen ss arbitrary: ss' rule: validate_sites.induct)
  case (2 i seen s ss)
  have "s_id s = d \<Longrightarrow> s_id (site_names i s) = d" using "2.prems"(2) by (simp add: site_names_def or_str_def Let_def)
  with 2 show ?case by (auto simp: Let_def split: if_splits prod.splits)
qed simp

lemma validate_dead: "dead_in d (c_sites c) \<Longrightarrow> d \<noteq> [] \<Longrightarrow> dead_in d (c_sites (fst (validate c)))"
  by (auto simp: validate_def Let_def dest: validate_sites_dead split: option.split prod.split)

lemma dead_apply:
  assumes "dead_in d (c_sites c)" and "d \<noteq> []" and "after_apply w c st k = (st', resp)"
  shows "dead_at d st' \<and> (\<exists>e. resp = Some (400, ApplyError e)) \<and>
    gt_fp_block (as_gw st') = gt_fp_block (as_gw st)"
  using assms(3)
proof (cases rule: after_apply_cases)
  case (1 e)
  then show ?thesis using validate_dead [OF assms(1,2)] by (simp add: dead_at_def)
next
  case (2 st1)
  from 2(1) obtain c' where "validate c = (c', None)" by (rule api_apply_None)
  with validate_backends(2) dead_in_backends [OF assms(1)] show ?thesis by blast
qed

lemma update_first_dead:
  "(\<And>s. s_id (f s) = s_id s) \<Longrightarrow> dead_in d ss \<Longrightarrow> j \<noteq> d \<or> (\<forall>s. s_backend (f s) = s_backend s) \<Longrightarrow>
     dead_in d (update_first j f ss)"
  by (induction ss) auto

lemma filter_dead: "dead_in d ss \<Longrightarrow> j \<noteq> d \<Longrightarrow> dead_in d (filter (\<lambda>s. s_id s \<noteq> j) ss)"
  by (induction ss) auto

lemma write_rules_dead:
  "write_rules w opts i rs c files = ((c', files'), added) \<Longrightarrow> dead_in d (c_sites c) \<Longrightarrow> dead_in d (c_sites c')"
proof (induction rs arbitrary: c files added)
  case (Cons r rs)
  have "dead_in d (update_first i (add_path (rule_path opts i r)) (c_sites c))"
    using Cons.prems(2) by (intro update_first_dead) (auto simp: add_path_def)
  with Cons show ?case by (auto simp: Let_def split: if_splits prod.splits)
qed simp

lemma set_rules_dead: "dead_in d (c_sites c) \<Longrightarrow> dead_in d (c_sites (set_rules i ps c))"
  by (auto simp: set_rules_def intro: update_first_dead)

definition mutates :: "api_call \<Rightarrow> bool" where
  "mutates call \<longleftrightarrow>
     (case call of CreateSite _ \<Rightarrow> True | UpdateSite _ _ \<Rightarrow> True | DeleteSite _ \<Rightarrow> True
      | CreateRules _ _ \<Rightarrow> True | DeleteRule _ _ \<Rightarrow> True | AddBlocklist _ \<Rightarrow> True
      | DeleteBlocklist _ \<Rightarrow> True | _ \<Rightarrow> False)"

text \<open>The calls that repair site \<open>d\<close>: it gets an upstream, or it is deleted.\<close>

definition repairs_site :: "string \<Rightarrow> api_call \<Rightarrow> bool" where
  "repairs_site d call \<longleftrightarrow>
     (case call of UpdateSite j (Some x) \<Rightarrow> j = d \<and> in_upstream x \<noteq> [] | DeleteSite j \<Rightarrow> j = d | _ \<Rightarrow> False)"

text \<open>The answer of a call that was refused or failed; \<open>None\<close> is a panicking handler.\<close>

definition refused :: "api_response option \<Rightarrow> bool" where
  "refused resp \<longleftrightarrow> (case resp of None \<Rightarrow> True | Some (code, _) \<Rightarrow> 400 \<le> code)"

lemma refused_simps [simp]: "refused None" "refused (Some (code, b)) \<longleftrightarrow> 400 \<le> code"
  by (simp_all add: refused_def)

definition stuck :: "string \<Rightarrow> 'b api_state \<Rightarrow> 'b api_state \<Rightarrow> bool" where
  "stuck d st st' \<longleftrightarrow> dead_at d st' \<and> gt_fp_block (as_gw st') = gt_fp_block (as_gw st)"

lemma stuck_apply:
  assumes "dead_in d (c_sites c)" and "gt_fp_block (as_gw st1) = gt_fp_block (as_gw st)"
    and "after_apply w c st1 k = (st', resp)" and "d \<noteq> []"
  shows "stuck d st st' \<and> refused resp"
  using dead_apply [OF assms(1,4,3)] assms(2) by (auto simp: stuck_def)

lemma stuck_write:
  assumes "dead_in d (c_sites c)" and "gt_fp_block (as_gw st1) = gt_fp_block (as_gw st)"
  shows "stuck d st (write_config c st1)"
  unfolding stuck_def dead_at_def using assms by simp

lemma stuck_refl: "dead_at d st \<Longrightarrow> stuck d st st"
  by (simp add: stuck_def)

lemma drop_rule_paths_gw:
  "drop_rule_paths w opts i rid ps kept found st = (res, st') \<Longrightarrow> as_gw st' = as_gw st"
proof (induction w opts i rid ps kept found st rule: drop_rule_paths.induct)
  case (2 w opts i rid p ps kept found st)
  then show ?case by (auto split: go.splits bool.splits if_splits)
qed simp

lemma dead_site_calls:
  assumes "dead_at d st" and "d \<noteq> []" and "run_call w opts r call st = (st', resp)" and "\<not> repairs_site d call"
  shows "stuck d st st' \<and> (mutates call \<longrightarrow> refused resp)"
proof -
  from assms(1) obtain c where c: "live_config st = Some c" and dead: "dead_in d (c_sites c)"
    by (auto simp: dead_at_def)
  note same = stuck_refl [OF assms(1)]
  have stay: "after_apply w c1 st1 k = (st', resp) \<Longrightarrow> dead_in d (c_sites c1) \<Longrightarrow>
      gt_fp_block (as_gw st1) = gt_fp_block (as_gw st) \<Longrightarrow> stuck d st st' \<and> refused resp" for c1 st1 k
    using stuck_apply assms(2) by blast
  show ?thesis
  proof (cases call)
    case (CreateSite inp)
    then show ?thesis using assms(3) c dead same
      by (auto simp: create_site_def with_config_def Let_def grow_sites_def
          dest!: stay split: option.splits list.splits)
  next
    case (UpdateSite j inp)
    have "dead_in d (update_first j (merge_input x) (c_sites c))" if "inp = Some x" for x
      using assms(4) dead that UpdateSite by (intro update_first_dead) (auto simp: merge_input_def repairs_site_def)
    then show ?thesis using assms(3) c same UpdateSite
      by (auto simp: update_site_def with_config_def dest!: stay split: option.splits)
  next
    case (DeleteSite j)
    then have "dead_in d (filter (\<lambda>s. s_id s \<noteq> j) (c_sites c))"
      using assms(4) dead by (intro filter_dead) (auto simp: repairs_site_def)
    then show ?thesis using assms(3) c same DeleteSite
      by (auto simp: delete_site_def with_config_def compact_sites_def Let_def dest!: stay split: option.splits)
  next
    case (CreateRules i body)
    then show ?thesis using assms(3) c dead same
      by (auto simp: create_rules_def with_config_def write_rules_dead
          dest!: stay intro!: stuck_write split: option.splits go.splits if_splits prod.splits)
  next
    case (DeleteRule i rid)
    then show ?thesis using assms(3) c dead same
      by (auto simp: delete_rule_def with_config_def set_rules_dead drop_rule_paths_gw
          dest!: stay intro!: stuck_write split: option.splits if_splits prod.splits drop_result.splits)
  next
    case (AddBlocklist inp)
    then show ?thesis using assms(3) c dead same
      by (auto simp: add_blocklist_def with_config_def set_blocklist_def Let_def
          dest!: stay split: option.splits if_splits)
  next
    case (DeleteBlocklist j)
    then show ?thesis using assms(3) c dead same
      by (auto simp: delete_blocklist_def with_config_def set_blocklist_def Let_def
          dest!: stay split: option.splits if_splits)
  next
    case (Login inp)
    with assms(3) login_state [of w opts inp st] same show ?thesis by (simp add: mutates_def)
  next
    case StreamEvents
    with assms(1,3) same show ?thesis
      by (auto simp: stream_events_def subscribe_events_def stuck_def dead_at_def live_config_def
          mutates_def Let_def split: go.splits if_splits prod.splits)
  qed (use assms same in \<open>auto simp: list_sites_def get_site_def list_rules_def list_blocklist_def
      get_metrics_def api_list_agents_def api_create_agent_def api_delete_agent_def agent_events_def
      mutates_def stuck_def dead_at_def live_config_def
      with_config_def with_db_def Let_def split: option.splits go.splits prod.splits if_splits\<close>)
qed

lemma dead_site_handle:
  assumes "dead_at d st" and "d \<noteq> []" and "api_handle w opts r call st = (st', resp)" and "\<not> repairs_site d call"
  shows "stuck d st st' \<and> (mutates call \<longrightarrow> refused resp)"
  using assms(3)
proof (cases rule: api_handle_cases)
  case (1 code m)
  with assms(1) show ?thesis by (auto simp: stuck_def dead_at_def)
next
  case 2
  have "dead_at d (counted w r st)" using assms(1) by (simp add: dead_at_def)
  from dead_site_calls [OF this assms(2) 2 assms(4)] show ?thesis by (simp add: stuck_def)
qed

type_synonym api_step = "api_world \<times> request \<times> api_call"

definition api_run :: "api_options \<Rightarrow> api_step list \<Rightarrow> 'b api_state \<Rightarrow> 'b api_state" where
  "api_run opts steps st = foldl (\<lambda>st (w, r, call). fst (api_handle w opts r call st)) st steps"

lemma stuck_run:
  assumes "dead_at d st" and "d \<noteq> []" and "\<forall>x \<in> set steps. \<not> repairs_site d (snd (snd x))"
  shows "stuck d st (api_run opts steps st)"
  using assms(1,3)
proof (induction steps rule: rev_induct)
  case Nil
  then show ?case by (simp add: api_run_def stuck_refl)
next
  case (snoc x steps)
  obtain w r call where x: "x = (w, r, call)" by (cases x)
  from snoc have st: "stuck d st (api_run opts steps st)" and call: "\<not> repairs_site d call" by (simp_all add: x)
  obtain st' resp where h: "api_handle w opts r call (api_run opts steps st) = (st', resp)"
    by (cases "api_handle w opts r call (api_run opts steps st)")
  from st have "dead_at d (api_run opts steps st)" by (simp add: stuck_def)
  from dead_site_handle [OF this assms(2) h call] st h show ?case
    by (simp add: api_run_def x stuck_def)
qed

text \<open>
  C10. A rejected change stays: creating a site without an upstream is answered 400, and still
  the site is in the live configuration, which no validation accepts from then on. Every later
  call that would change the configuration is refused, whatever it is about (other sites, their
  deletion, rules, the blocklist), and the blocklist in force stays the same, until a call gives
  that site an upstream or deletes it.
\<close>

theorem rejected_site_wedges_api:
  assumes "live_config st = Some c" and "in_upstream i = []" and "d = ''site-'' @ aw_rand_id w"
    and "\<forall>x \<in> set steps. \<not> repairs_site d (snd (snd x))"
    and "api_handle w' opts r call (api_run opts steps (fst (create_site w (Some i) st))) = (st', resp)"
    and "mutates call" and "\<not> repairs_site d call"
  shows "(\<exists>e. snd (create_site w (Some i) st) = Some (400, ApplyError e)) \<and>
    (\<exists>c' s. live_config st' = Some c' \<and> s \<in> set (c_sites c') \<and> s_id s = d \<and> s_backend s = []) \<and>
    refused resp \<and> gt_fp_block (as_gw st') = gt_fp_block (as_gw st)"
proof -
  let ?c = "c\<lparr>c_sites := c_sites c @ [new_site (aw_rand_id w) i]\<rparr>"
  obtain st1 resp1 where create: "create_site w (Some i) st = (st1, resp1)"
    by (cases "create_site w (Some i) st")
  have d: "d \<noteq> []" and dead: "dead_in d (c_sites ?c)"
    using assms(2,3) by (simp_all add: new_site_def normalize_backend_def)
  from create have "after_apply w ?c (grow_sites w st) (reply_site 201 (s_id (new_site (aw_rand_id w) i))) = (st1, resp1)"
    by (simp add: create_site_def with_config_def assms(1) Let_def)
  from dead_apply [OF dead d this] have 1: "dead_at d st1" "\<exists>e. resp1 = Some (400, ApplyError e)"
    and "gt_fp_block (as_gw st1) = gt_fp_block (as_gw st)"
    by (auto simp: grow_sites_def split: list.splits)
  moreover from stuck_run [OF 1(1) d assms(4)] have run: "stuck d st1 (api_run opts steps st1)" .
  moreover from run have "dead_at d (api_run opts steps st1)" by (simp add: stuck_def)
  from dead_site_handle [OF this d _ assms(7)] assms(5,6) have
    fin: "stuck d (api_run opts steps st1) st'" "refused resp" by (auto simp: create)
  moreover from fin have "\<exists>c' s. live_config st' = Some c' \<and> s \<in> set (c_sites c') \<and> s_id s = d \<and> s_backend s = []"
    unfolding stuck_def dead_at_def dead_in_def by blast
  ultimately show ?thesis using fin by (simp add: create stuck_def)
qed

subsection \<open>An accepted change is in force\<close>

lemma validate_distinct:
  assumes "validate c = (c', None)"
  shows "distinct (map s_id (c_sites c'))"
proof -
  from assms obtain ss where ss: "validate_sites 0 [] (c_sites c) = (ss, None)"
    and c': "c' = global_defaults (c\<lparr>c_version := or_num (c_version c) 1, c_sites := ss\<rparr>)"
    by (rule validate_None)
  from validate_sites_ok [OF ss] show ?thesis by (simp add: c')
qed

lemma build_sites_view:
  assumes "build_sites io ss m = Ok m'" and "distinct (map s_id ss)" and "s \<in> set ss"
  shows "\<exists>rt. m' (s_id s) = Some rt \<and> build_site_rt io s = Ok rt"
  using assms
proof (induction ss arbitrary: m)
  case (Cons t ss)
  from Cons.prems(1) obtain rt where rt: "build_site_rt io t = Ok rt"
    and rest: "build_sites io ss (m(s_id t \<mapsto> rt)) = Ok m'" by (auto split: go.splits)
  show ?case
  proof (cases "s \<in> set ss")
    case True
    with Cons.IH [OF rest] Cons.prems(2) show ?thesis by simp
  next
    case False
    with Cons.prems have s: "s = t" by simp
    with Cons.prems(2) have "s_id t \<notin> s_id ` set ss" by simp
    with build_sites_runtimes [OF rest, THEN spec, of "s_id t"] have "m' (s_id t) = Some rt"
      by (auto simp: image_iff)
    with rt s show ?thesis by simp
  qed
qed simp

text \<open>
  What a validated site looks like: its name and the defaults are filled in. A site that has an
  id keeps it.
\<close>

definition settled :: "site \<Rightarrow> site" where
  "settled s = site_defaults (site_names 0 s)"

lemma validate_sites_settled:
  "[] \<notin> s_id ` set ss \<Longrightarrow> validate_sites i seen ss = (ss', None) \<Longrightarrow> ss' = map settled ss"
proof (induction i seen ss arbitrary: ss' rule: validate_sites.induct)
  case (2 i seen s ss)
  have "s_id s \<noteq> []" using "2.prems"(1) by auto
  then have "site_names i s = site_names 0 s" by (simp add: site_names_def or_str_def Let_def)
  with 2 show ?case by (auto simp: Let_def settled_def split: if_splits prod.splits)
qed simp

lemma validate_settled:
  assumes "[] \<notin> s_id ` set (c_sites c)" and "validate c = (c', None)"
  shows "c_sites c' = map settled (c_sites c)"
proof -
  from assms(2) obtain ss where "validate_sites 0 [] (c_sites c) = (ss, None)"
    and "c' = global_defaults (c\<lparr>c_version := or_num (c_version c) 1, c_sites := ss\<rparr>)"
    by (rule validate_None)
  with validate_sites_settled [OF assms(1)] show ?thesis by simp
qed

lemma settled_id: "s_id s \<noteq> [] \<Longrightarrow> s_id (settled s) = s_id s"
  by (simp add: settled_def site_names_def or_str_def Let_def)

lemma settled_simps [simp]:
  "s_domains (settled s) = s_domains s" "s_backend (settled s) = s_backend s"
  "s_path_prefix (settled s) = s_path_prefix s" "s_custom_rules (settled s) = s_custom_rules s"
  "s_name s \<noteq> [] \<Longrightarrow> s_name (settled s) = s_name s" "s_status s \<noteq> [] \<Longrightarrow> s_status (settled s) = s_status s"
  by (simp_all add: settled_def site_names_def site_defaults_def or_str_def Let_def)

lemma find_settled:
  "[] \<notin> s_id ` set ss \<Longrightarrow> find (\<lambda>s. s_id s = i) (map settled ss) = map_option settled (find (\<lambda>s. s_id s = i) ss)"
  by (induction ss) (auto simp: settled_id)

text \<open>
  A configuration is in force: it is valid and it is the live one, every site in it has a
  runtime built from exactly that site with the files as they are, no other site is served,
  and the blocklist is the loaded one.
\<close>

definition in_force :: "api_world \<Rightarrow> config \<Rightarrow> 'b api_state \<Rightarrow> bool" where
  "in_force w c st \<longleftrightarrow>
     live_config st = Some c \<and> config_ok c \<and>
     (\<forall>s \<in> set (c_sites c). \<exists>rt. gt_sites (as_gw st) (s_id s) = Some rt \<and> build_site_rt (api_io w st) s = Ok rt) \<and>
     (\<forall>i. gt_sites (as_gw st) i \<noteq> None \<longrightarrow> i \<in> s_id ` set (c_sites c)) \<and>
     load_fingerprint_blocklist (as_files st) (fp_blocklist (c_fingerprint c))
       (fp_blocklist_file (c_fingerprint c)) = Some (gt_fp_block (as_gw st))"

lemma apply_in_force:
  assumes "api_apply w c st = (st', None)"
  shows "\<exists>c'. validate c = (c', None) \<and> in_force w c' st' \<and> as_files st' = as_files st"
  using assms
proof (rule api_apply_None)
  fix c' m block
  assume v: "validate c = (c', None)" and live: "live_config st' = Some c'" and files: "as_files st' = as_files st"
    and m: "build_sites (api_io w st) (c_sites c') (\<lambda>_. None) = Ok m" "gt_sites (as_gw st') = m"
    and b: "load_fingerprint_blocklist (as_files st) (fp_blocklist (c_fingerprint c'))
       (fp_blocklist_file (c_fingerprint c')) = Some block" "gt_fp_block (as_gw st') = block"
  have io: "api_io w st' = api_io w st" by (simp add: api_io_def files)
  have "\<exists>rt. m (s_id s) = Some rt \<and> build_site_rt (api_io w st) s = Ok rt" if "s \<in> set (c_sites c')" for s
    using build_sites_view [OF m(1) validate_distinct [OF v] that] .
  moreover have "i \<in> s_id ` set (c_sites c')" if "m i \<noteq> None" for i
    using build_sites_runtimes [OF m(1), THEN spec, of i] that by auto
  ultimately show ?thesis
    unfolding in_force_def using live validate_config_ok [OF v] m(2) b v io files by auto
qed

lemma accepted_in_force:
  assumes "after_apply w c st k = (st', Some (code, b))" and "code < 400" and "\<And>s. fst (k s) = s"
  shows "\<exists>c'. validate c = (c', None) \<and> in_force w c' st' \<and> as_files st' = as_files st"
  using assms(1)
proof (cases rule: after_apply_cases)
  case (1 e)
  with assms(2) show ?thesis by simp
next
  case (2 st1)
  from apply_in_force [OF 2(1)] 2(2) assms(3) [of st1] show ?thesis by simp
qed

lemma trim_space_no_space: "list_all (\<lambda>c. \<not> is_space c) s \<Longrightarrow> trim_space s = s"
proof -
  assume "list_all (\<lambda>c. \<not> is_space c) s"
  then have "dropWhile is_space s = s" "dropWhile is_space (rev s) = rev s"
    by (auto simp: list_all_iff dropWhile_eq_self_iff hd_in_set)
       (metis hd_in_set rev_is_Nil_conv set_rev)
  then show ?thesis by (simp add: trim_space_def)
qed

lemma valid_ja4_no_space:
  assumes "valid_ja4 h"
  shows "list_all (\<lambda>c. \<not> is_space c) h"
proof -
  have hex: "is_lower_hex c \<Longrightarrow> \<not> is_space c" for c
    by (auto simp: is_lower_hex_def is_space_def Let_def)
  have alnum: "97 \<le> n \<and> n \<le> 122 \<or> 48 \<le> n \<and> n \<le> 57 \<Longrightarrow> n = of_char c \<Longrightarrow> \<not> is_space c" for c and n :: nat
    by (auto simp: is_space_def Let_def)
  from assms consider "ja4_re h" | "list_all is_lower_hex h" by (auto simp: valid_ja4_def)
  then show ?thesis
  proof cases
    case 1
    then obtain a b c where parts: "split_on (CHR ''_'') h = [a, b, c]"
      by (auto simp: ja4_re_def split: list.splits)
    have "h = a @ ''_'' @ b @ ''_'' @ c" using join_split_on [of "CHR ''_''" h] by (simp add: parts)
    moreover from 1 parts have "list_all (\<lambda>c. \<not> is_space c) (a @ b @ c)"
      using hex alnum by (auto simp: ja4_re_def hex12_def list_all_iff Let_def)
    moreover have "\<not> is_space (CHR ''_'')" by code_simp
    ultimately show ?thesis by (auto simp: list_all_iff)
  qed (use hex in \<open>auto simp: list_all_iff\<close>)
qed

lemma valid_ja4_nonempty: "valid_ja4 h \<Longrightarrow> h \<noteq> []"
  by (auto simp: valid_ja4_def ja4_re_def)

lemma validate_fingerprint: "c_fingerprint (fst (validate c)) = c_fingerprint c"
  by (auto simp: validate_def global_defaults_def Let_def split: option.split prod.split)

lemma load_inline:
  assumes "load_fingerprint_blocklist rd hs file = Some block" and "h \<in> set hs" and "valid_ja4 h" and "to_lower h = h"
  shows "h \<in> set block"
proof -
  from assms(2-4) valid_ja4_nonempty have "h \<in> set (inline_hashes hs)"
    using trim_space_no_space [OF valid_ja4_no_space] by (force simp: inline_hashes_def)
  with assms(1) show ?thesis
    by (auto simp: load_fingerprint_blocklist_def Let_def split: if_splits option.splits prod.splits)
qed

text \<open>What each change has done once it is in force.\<close>

definition has_fields :: "site_input \<Rightarrow> site \<Rightarrow> bool" where
  "has_fields x s \<longleftrightarrow>
     (in_name x \<noteq> [] \<longrightarrow> s_name s = in_name x) \<and>
     (in_host x \<noteq> [] \<longrightarrow> s_domains s = normalize_domains (in_host x)) \<and>
     (in_upstream x \<noteq> [] \<longrightarrow> s_backend s = normalize_backend (in_upstream x)) \<and>
     (in_path_prefix x \<noteq> [] \<longrightarrow> s_path_prefix s = in_path_prefix x)"

definition change_done :: "api_world \<Rightarrow> api_options \<Rightarrow> api_call \<Rightarrow> config \<Rightarrow> config \<Rightarrow> 'b api_state \<Rightarrow> bool" where
  "change_done w opts call c0 c st \<longleftrightarrow>
     (case call of
        CreateSite (Some x) \<Rightarrow>
          (\<exists>s. map s_id (c_sites c) = map s_id (c_sites c0) @ [''site-'' @ aw_rand_id w] \<and>
             site_by_id c (''site-'' @ aw_rand_id w) = Some s \<and> has_fields x s \<and> s_status s = ''enabled'')
      | UpdateSite i (Some x) \<Rightarrow>
          (\<exists>s. map s_id (c_sites c) = map s_id (c_sites c0) \<and> site_by_id c i = Some s \<and> has_fields x s \<and>
             (in_status x \<noteq> [] \<longrightarrow> s_status s = in_status x))
      | DeleteSite i \<Rightarrow>
          i \<in> set (map s_id (c_sites c0)) \<and> map s_id (c_sites c) = filter (\<lambda>j. j \<noteq> i) (map s_id (c_sites c0))
      | CreateRules i (Some yaml) \<Rightarrow>
          (\<exists>rs s. parse_rules (bi_compile (aw_io w)) (bi_yaml (aw_io w)) (bi_json (aw_io w)) yaml = Ok rs \<and>
             site_by_id c i = Some s \<and>
             (\<forall>r\<in>set rs. rule_path opts i r \<in> set (s_custom_rules s) \<and>
                (\<exists>r'\<in>set rs. rule_path opts i r' = rule_path opts i r \<and>
                   as_files st (rule_path opts i r) = Some (aw_yaml w r'))))
      | DeleteRule i rid \<Rightarrow>
          (\<exists>s. site_by_id c i = Some s \<and> (\<forall>p\<in>set (s_custom_rules s). file_base p \<noteq> rule_filename i rid))
      | AddBlocklist (Some (j, nt)) \<Rightarrow> fp_blocked (as_gw st) (to_lower (trim_space j))
      | DeleteBlocklist j \<Rightarrow> to_lower (trim_space j) \<notin> set (fp_blocklist (c_fingerprint c))
      | _ \<Rightarrow> False)"

text \<open>The site a change is about. Every other site stays what it was.\<close>

definition call_site :: "api_world \<Rightarrow> api_call \<Rightarrow> string option" where
  "call_site w call =
     (case call of CreateSite _ \<Rightarrow> Some (''site-'' @ aw_rand_id w) | UpdateSite i _ \<Rightarrow> Some i | DeleteSite i \<Rightarrow> Some i
      | CreateRules i _ \<Rightarrow> Some i | DeleteRule i _ \<Rightarrow> Some i | _ \<Rightarrow> None)"

lemma accepted_edit:
  assumes "after_apply w c1 st1 k = (st', Some (code, b))" and "code < 400" and "\<And>s. fst (k s) = s"
    and "[] \<notin> set (map s_id (c_sites c1))"
  obtains c where "in_force w c st'" "c_sites c = map settled (c_sites c1)" "map s_id (c_sites c) = map s_id (c_sites c1)"
    "c_fingerprint c = c_fingerprint c1" "as_files st' = as_files st1"
    "\<And>j. site_by_id c j = map_option settled (site_by_id c1 j)" "distinct (map s_id (c_sites c1))"
proof -
  obtain c where c: "validate c1 = (c, None)" "in_force w c st'" "as_files st' = as_files st1"
    using accepted_in_force [OF assms(1-3)] by blast
  have ids: "[] \<notin> s_id ` set (c_sites c1)" using assms(4) by simp
  have ss: "c_sites c = map settled (c_sites c1)" using validate_settled [OF ids c(1)] .
  moreover have same: "map s_id (c_sites c) = map s_id (c_sites c1)"
    using ids by (auto simp: ss settled_id image_iff)
  moreover have "c_fingerprint c = c_fingerprint c1" using validate_fingerprint [of c1] c(1) by simp
  moreover have "site_by_id c j = map_option settled (site_by_id c1 j)" for j
    by (simp add: site_by_id_def ss find_settled [OF ids])
  moreover have "distinct (map s_id (c_sites c1))" using validate_distinct [OF c(1)] same by simp
  ultimately show ?thesis using that c by blast
qed

lemma find_update_first:
  "(\<And>s. s_id (f s) = s_id s) \<Longrightarrow> find (\<lambda>s. s_id s = j) (update_first i f ss) =
     (if j = i then map_option f (find (\<lambda>s. s_id s = j) ss) else find (\<lambda>s. s_id s = j) ss)"
  by (induction ss) auto

lemma update_first_ids: "(\<And>s. s_id (f s) = s_id s) \<Longrightarrow> map s_id (update_first i f ss) = map s_id ss"
  by (induction ss) auto

lemma find_filter_other: "j \<noteq> i \<Longrightarrow> find (\<lambda>s. s_id s = j) (filter (\<lambda>s. s_id s \<noteq> i) ss) = find (\<lambda>s. s_id s = j) ss"
  by (induction ss) auto

lemma find_append_other: "s_id s \<noteq> j \<Longrightarrow> find (\<lambda>t. s_id t = j) (ss @ [s]) = find (\<lambda>t. s_id t = j) ss"
  by (induction ss) auto

lemma find_append_new: "s_id s = j \<Longrightarrow> j \<notin> s_id ` set ss \<Longrightarrow> find (\<lambda>t. s_id t = j) (ss @ [s]) = Some s"
  by (induction ss) auto

lemma filter_ids: "map s_id (filter (\<lambda>s. s_id s \<noteq> i) ss) = filter (\<lambda>j. j \<noteq> i) (map s_id ss)"
  by (induction ss) auto

lemma add_path_id: "s_id (add_path p s) = s_id s"
  by (simp add: add_path_def)

lemma write_rules_sites:
  assumes "write_rules w opts i rs c files = ((c', files'), added)"
  shows "map s_id (c_sites c') = map s_id (c_sites c) \<and> c_fingerprint c' = c_fingerprint c \<and>
    (\<forall>j. j \<noteq> i \<longrightarrow> site_by_id c' j = site_by_id c j)"
  using assms
proof (induction rs arbitrary: c files added)
  case (Cons r rs)
  let ?c = "c\<lparr>c_sites := update_first i (add_path (rule_path opts i r)) (c_sites c)\<rparr>"
  have "map s_id (c_sites ?c) = map s_id (c_sites c)" "j \<noteq> i \<Longrightarrow> site_by_id ?c j = site_by_id c j" for j
    by (simp_all add: update_first_ids find_update_first add_path_id site_by_id_def del: map_eq_conv)
  with Cons show ?case by (auto simp: Let_def simp del: map_eq_conv split: if_splits prod.splits)
qed simp

lemma write_rules_lists:
  assumes "write_rules w opts i rs c files = ((c', files'), Some added)" and "site_by_id c i = Some s"
  shows "\<exists>s'. site_by_id c' i = Some s' \<and> set (s_custom_rules s) \<union> rule_path opts i ` set rs \<subseteq> set (s_custom_rules s')"
  using assms
proof (induction rs arbitrary: c files added s)
  case (Cons r rs)
  let ?p = "rule_path opts i r"
  let ?c = "c\<lparr>c_sites := update_first i (add_path ?p) (c_sites c)\<rparr>"
  obtain added' where "write_rules w opts i rs ?c (files(?p \<mapsto> aw_yaml w r)) = ((c', files'), Some added')"
    using Cons.prems(1) by (auto simp: Let_def split: if_splits prod.splits)
  moreover have "site_by_id ?c i = Some (add_path ?p s)"
    using Cons.prems(2) by (simp add: site_by_id_def find_update_first add_path_id)
  ultimately obtain s' where s': "site_by_id c' i = Some s'"
    "set (s_custom_rules (add_path ?p s)) \<union> rule_path opts i ` set rs \<subseteq> set (s_custom_rules s')"
    using Cons.IH by blast
  moreover have "set (s_custom_rules (add_path ?p s)) = insert ?p (set (s_custom_rules s))"
    by (auto simp: add_path_def)
  ultimately show ?case by auto
qed simp

lemma write_rules_written:
  assumes "write_rules w opts i rs c files = ((c', files'), Some added)" and "r \<in> set rs"
  shows "\<exists>r'\<in>set rs. rule_path opts i r' = rule_path opts i r \<and> files' (rule_path opts i r) = Some (aw_yaml w r')"
  using assms
proof (induction rs arbitrary: c files added)
  case (Cons q rs)
  let ?p = "rule_path opts i q"
  let ?c = "c\<lparr>c_sites := update_first i (add_path ?p) (c_sites c)\<rparr>"
  obtain added' where rest: "write_rules w opts i rs ?c (files(?p \<mapsto> aw_yaml w q)) = ((c', files'), Some added')"
    using Cons.prems(1) by (auto simp: Let_def split: if_splits prod.splits)
  show ?case
  proof (cases "r \<in> set rs")
    case True
    from Cons.IH [OF rest this] show ?thesis by auto
  next
    case False
    with Cons.prems(2) have "r = q" by simp
    then show ?thesis
      using write_rules_files [OF rest, of ?p] by (cases "files' ?p = Some (aw_yaml w q)") auto
  qed
qed simp

lemma drop_rule_paths_kept:
  assumes "drop_rule_paths w opts i rid ps kept found st = (Dropped kept' found', st')" and "p \<in> set kept'"
  shows "p \<in> set kept \<or> file_base p \<noteq> rule_filename i rid"
  using assms
proof (induction w opts i rid ps kept found st rule: drop_rule_paths.induct)
  case (2 w opts i rid q ps kept found st)
  then show ?case by (auto simp: rule_path_matches_def split: go.splits bool.splits if_splits)
qed simp

text \<open>The changes, one by one.\<close>

definition done_well :: "api_world \<Rightarrow> api_options \<Rightarrow> api_call \<Rightarrow> config \<Rightarrow> 'b api_state \<Rightarrow> bool" where
  "done_well w opts call c0 st \<longleftrightarrow>
     (\<exists>c. in_force w c st \<and> change_done w opts call c0 c st \<and>
        (\<forall>j. Some j \<noteq> call_site w call \<longrightarrow> site_by_id c j = map_option settled (site_by_id c0 j)))"

lemma create_site_done:
  assumes "create_site w inp st = (st', Some (code, b))" and "code < 400"
    and "live_config st = Some c0" and "[] \<notin> set (map s_id (c_sites c0))"
  shows "done_well w opts (CreateSite inp) c0 st'"
proof -
  let ?d = "''site-'' @ aw_rand_id w"
  from assms obtain x where x: "inp = Some x" and
    run: "after_apply w (c0\<lparr>c_sites := c_sites c0 @ [new_site (aw_rand_id w) x]\<rparr>) (grow_sites w st)
      (reply_site 201 (s_id (new_site (aw_rand_id w) x))) = (st', Some (code, b))"
    by (auto simp: create_site_def with_config_def Let_def split: option.splits)
  let ?s = "new_site (aw_rand_id w) x"
  have id: "s_id ?s = ?d" by (simp add: new_site_def)
  obtain c where c: "in_force w c st'" "map s_id (c_sites c) = map s_id (c_sites c0) @ [?d]"
      "\<And>j. site_by_id c j = map_option settled (find (\<lambda>s. s_id s = j) (c_sites c0 @ [?s]))"
      "distinct (map s_id (c_sites c0) @ [?d])"
    using assms(4) by (rule_tac accepted_edit [OF run assms(2) reply_site_state]) (auto simp: id site_by_id_def)
  have "site_by_id c ?d = Some (settled ?s)"
    using c(4) by (simp only: c(3)) (simp add: find_append_new id)
  moreover have "has_fields x (settled ?s)" "s_status (settled ?s) = ''enabled''"
    by (simp_all add: has_fields_def new_site_def)
  moreover have "site_by_id c j = map_option settled (site_by_id c0 j)" if "j \<noteq> ?d" for j
    using that by (simp only: c(3)) (simp add: find_append_other id site_by_id_def)
  ultimately show ?thesis using c(1,2) by (auto simp: done_well_def change_done_def call_site_def x)
qed

lemma update_site_done:
  assumes "update_site w i inp st = (st', Some (code, b))" and "code < 400"
    and "live_config st = Some c0" and "[] \<notin> set (map s_id (c_sites c0))"
  shows "done_well w opts (UpdateSite i inp) c0 st'"
proof -
  from assms obtain x s where x: "inp = Some x" and s: "site_by_id c0 i = Some s" and
    run: "after_apply w (c0\<lparr>c_sites := update_first i (merge_input x) (c_sites c0)\<rparr>) st (reply_site 200 i)
      = (st', Some (code, b))"
    by (auto simp: update_site_def with_config_def split: option.splits)
  have id: "s_id (merge_input x t) = s_id t" for t by (simp add: merge_input_def)
  obtain c where c: "in_force w c st'" "map s_id (c_sites c) = map s_id (c_sites c0)"
      "\<And>j. site_by_id c j = map_option settled (find (\<lambda>s. s_id s = j) (update_first i (merge_input x) (c_sites c0)))"
    using assms(4)
    by (rule_tac accepted_edit [OF run assms(2) reply_site_state])
       (auto simp: id site_by_id_def update_first_ids simp del: map_eq_conv)
  have look: "site_by_id c j = map_option settled (if j = i then Some (merge_input x s) else site_by_id c0 j)" for j
    using s by (simp only: c(3)) (simp add: find_update_first id site_by_id_def)
  have "has_fields x (settled (merge_input x s))" "in_status x \<noteq> [] \<Longrightarrow> s_status (settled (merge_input x s)) = in_status x"
    by (simp_all add: has_fields_def merge_input_def)
  then show ?thesis
    using c(1,2) look by (auto simp: done_well_def change_done_def call_site_def x simp del: map_eq_conv)
qed

lemma delete_site_done:
  assumes "delete_site w i st = (st', Some (code, b))" and "code < 400"
    and "live_config st = Some c0" and "[] \<notin> set (map s_id (c_sites c0))"
  shows "done_well w opts (DeleteSite i) c0 st'"
proof -
  let ?kept = "filter (\<lambda>s. s_id s \<noteq> i) (c_sites c0)"
  from assms obtain s where s: "site_by_id c0 i = Some s" and
    run: "after_apply w (c0\<lparr>c_sites := ?kept\<rparr>) (compact_sites ?kept c0 st) (reply 204 NoContent) = (st', Some (code, b))"
    by (auto simp: delete_site_def with_config_def Let_def split: option.splits)
  obtain c where c: "in_force w c st'" "map s_id (c_sites c) = map s_id ?kept"
      "\<And>j. site_by_id c j = map_option settled (find (\<lambda>s. s_id s = j) ?kept)"
    using assms(4)
    by (rule_tac accepted_edit [OF run assms(2)]) (auto simp: reply_def site_by_id_def filter_ids simp del: map_eq_conv)
  have "i \<in> set (map s_id (c_sites c0))" using s by (auto simp: site_by_id_def find_Some_iff)
  moreover have "site_by_id c j = map_option settled (site_by_id c0 j)" if "j \<noteq> i" for j
    using that by (simp only: c(3)) (simp add: find_filter_other site_by_id_def)
  ultimately show ?thesis
    using c(1,2) by (auto simp: done_well_def change_done_def call_site_def filter_ids simp del: map_eq_conv)
qed

lemma create_rules_done:
  assumes "create_rules w opts i body st = (st', Some (code, b))" and "code < 400"
    and "live_config st = Some c0" and "[] \<notin> set (map s_id (c_sites c0))"
  shows "done_well w opts (CreateRules i body) c0 st'"
proof -
  from assms(1-3) obtain yaml rs s c1 files added where
    body: "body = Some yaml" "parse_rules (bi_compile (aw_io w)) (bi_yaml (aw_io w)) (bi_json (aw_io w)) yaml = Ok rs" and
    s: "site_by_id c0 i = Some s" and
    wr: "write_rules w opts i rs c0 (as_files st) = ((c1, files), Some added)" and
    run: "after_apply w c1 (st\<lparr>as_files := files\<rparr>) (reply 201 (RulesBody added)) = (st', Some (code, b))"
    by (auto simp: create_rules_def with_config_def split: option.splits go.splits if_splits prod.splits)
  note sites = write_rules_sites [OF wr]
  obtain c where c: "in_force w c st'" "as_files st' = files" "\<And>j. site_by_id c j = map_option settled (site_by_id c1 j)"
    using assms(4) sites
    by (rule_tac accepted_edit [OF run assms(2)]) (auto simp: reply_def simp del: map_eq_conv)
  obtain s' where s': "site_by_id c1 i = Some s'" "rule_path opts i ` set rs \<subseteq> set (s_custom_rules s')"
    using write_rules_lists [OF wr s] by auto
  have "change_done w opts (CreateRules i body) c0 c st'"
    using body s' c(2) write_rules_written [OF wr] by (auto simp: change_done_def c(3))
  then show ?thesis using c(1,3) sites by (auto simp: done_well_def call_site_def)
qed

lemma delete_rule_done:
  assumes "delete_rule w opts i rid st = (st', Some (code, b))" and "code < 400"
    and "live_config st = Some c0" and "[] \<notin> set (map s_id (c_sites c0))"
  shows "done_well w opts (DeleteRule i rid) c0 st'"
proof -
  from assms(1-3) obtain s kept found st1 where s: "site_by_id c0 i = Some s" and
    drop: "drop_rule_paths w opts i rid (s_custom_rules s) [] False st = (Dropped kept found, st1)" and
    run: "after_apply w (set_rules i kept c0) st1 (reply 204 NoContent) = (st', Some (code, b))"
    by (auto simp: delete_rule_def with_config_def split: option.splits if_splits prod.splits drop_result.splits)
  obtain c where c: "in_force w c st'" "\<And>j. site_by_id c j = map_option settled (site_by_id (set_rules i kept c0) j)"
    using assms(4)
    by (rule_tac accepted_edit [OF run assms(2)])
       (auto simp: reply_def set_rules_def update_first_ids simp del: map_eq_conv)
  have "site_by_id (set_rules i kept c0) j =
      (if j = i then Some (s\<lparr>s_custom_rules := kept\<rparr>) else site_by_id c0 j)" for j
    using s by (simp add: set_rules_def site_by_id_def find_update_first)
  then show ?thesis
    using c drop_rule_paths_kept [OF drop] by (auto simp: done_well_def change_done_def call_site_def)
qed

lemma add_blocklist_done:
  assumes "add_blocklist w inp st = (st', Some (code, b))" and "code < 400"
    and "live_config st = Some c0" and "[] \<notin> set (map s_id (c_sites c0))"
  shows "done_well w opts (AddBlocklist inp) c0 st'"
proof -
  from assms obtain j nt h where h: "inp = Some (j, nt)" "h = to_lower (trim_space j)" "valid_ja4 h" and
    run: "after_apply w (set_blocklist (fp_blocklist (c_fingerprint c0) @ [h]) c0) st (reply 201 (BlockedBody h nt))
      = (st', Some (code, b))"
    by (auto simp: add_blocklist_def with_config_def Let_def split: if_splits option.splits)
  obtain c where c: "in_force w c st'" "c_fingerprint c = c_fingerprint (set_blocklist (fp_blocklist (c_fingerprint c0) @ [h]) c0)"
      "\<And>j. site_by_id c j = map_option settled (site_by_id c0 j)"
    using assms(4)
    by (rule_tac accepted_edit [OF run assms(2)]) (auto simp: reply_def set_blocklist_def site_by_id_def)
  from c(1) have "load_fingerprint_blocklist (as_files st') (fp_blocklist (c_fingerprint c))
      (fp_blocklist_file (c_fingerprint c)) = Some (gt_fp_block (as_gw st'))"
    by (simp add: in_force_def)
  from load_inline [OF this _ h(3)] have "fp_blocked (as_gw st') h"
    using valid_ja4_nonempty [OF h(3)] h(2) by (simp add: c(2) set_blocklist_def fp_blocked_def to_lower_idem)
  then show ?thesis using c(1,3) h(1,2) by (auto simp: done_well_def change_done_def)
qed

lemma delete_blocklist_done:
  assumes "delete_blocklist w j st = (st', Some (code, b))" and "code < 400"
    and "live_config st = Some c0" and "[] \<notin> set (map s_id (c_sites c0))"
  shows "done_well w opts (DeleteBlocklist j) c0 st'"
proof -
  let ?h = "to_lower (trim_space j)"
  let ?hs = "filter (\<lambda>x. x \<noteq> ?h) (fp_blocklist (c_fingerprint c0))"
  from assms have run: "after_apply w (set_blocklist ?hs c0) st (reply 204 NoContent) = (st', Some (code, b))"
    by (auto simp: delete_blocklist_def with_config_def Let_def split: if_splits)
  obtain c where "in_force w c st'" "c_fingerprint c = c_fingerprint (set_blocklist ?hs c0)"
      "\<And>j. site_by_id c j = map_option settled (site_by_id c0 j)"
    using assms(4)
    by (rule_tac accepted_edit [OF run assms(2)]) (auto simp: reply_def set_blocklist_def site_by_id_def)
  then show ?thesis by (auto simp: done_well_def change_done_def set_blocklist_def)
qed

lemma accepted_calls:
  assumes "run_call w opts r call st = (st', Some (code, b))" and "mutates call" and "code < 400"
    and "live_config st = Some c0" and "[] \<notin> set (map s_id (c_sites c0))"
  shows "done_well w opts call c0 st'"
  using assms
  by (cases call)
     (auto simp: mutates_def intro: create_site_done update_site_done delete_site_done create_rules_done
        delete_rule_done add_blocklist_done delete_blocklist_done)

text \<open>
  C13. An accepted change is in force. When a call that changes the configuration is answered
  with a success, what it asked for is done: the site is there with the given fields, gone, or
  lists the written rule files; no listed file has the deleted rule's name; the fingerprint is
  blocked, or no longer listed. Every other site is what it was, with the defaults filled in.
  The live configuration passed validation, and every host it routes has a runtime, with the
  engine and the target built from exactly the site it is routed to. The sites have ids to begin
  with, as validation leaves them.
\<close>

theorem accepted_change_in_force:
  assumes "api_handle w opts r call st = (st', Some (code, b))" and "mutates call" and "code < 400"
    and "live_config st = Some c0" and "[] \<notin> set (map s_id (c_sites c0))"
  shows "\<exists>c. live_config st' = Some c \<and> config_ok c \<and> change_done w opts call c0 c st' \<and>
    (\<forall>j. Some j \<noteq> call_site w call \<longrightarrow> site_by_id c j = map_option settled (site_by_id c0 j)) \<and>
    (\<forall>host s. site_by_domain c host = Some s \<longrightarrow>
       (\<exists>rt. gt_sites (as_gw st') (s_id s) = Some rt \<and> rt_cfg rt = s \<and> build_site_rt (api_io w st') s = Ok rt))"
  using assms(1)
proof (cases rule: api_handle_cases)
  case (1 code' m)
  with assms(3) show ?thesis by auto
next
  case 2
  have live: "live_config (counted w r st) = Some c0" using assms(4) by simp
  from accepted_calls [OF 2 assms(2,3) live assms(5)] obtain c where
    c: "in_force w c st'" "change_done w opts call c0 c st'"
    "\<forall>j. Some j \<noteq> call_site w call \<longrightarrow> site_by_id c j = map_option settled (site_by_id c0 j)"
    by (auto simp: done_well_def)
  have "s \<in> set (c_sites c)" if "site_by_domain c host = Some s" for host s
    using that by (auto simp: site_by_domain_def find_site_in Let_def split: if_splits)
  moreover have "\<exists>rt. gt_sites (as_gw st') (s_id s) = Some rt \<and> rt_cfg rt = s \<and> build_site_rt (api_io w st') s = Ok rt"
    if "s \<in> set (c_sites c)" for s
  proof -
    from c(1) that obtain rt where "gt_sites (as_gw st') (s_id s) = Some rt" "build_site_rt (api_io w st') s = Ok rt"
      by (auto simp: in_force_def)
    with build_site_rt_cfg show ?thesis by blast
  qed
  ultimately have "\<exists>rt. gt_sites (as_gw st') (s_id s) = Some rt \<and> rt_cfg rt = s \<and> build_site_rt (api_io w st') s = Ok rt"
    if "site_by_domain c host = Some s" for host s
    using that by blast
  with c show ?thesis by (auto simp: in_force_def)
qed

subsection \<open>What the runtimes see of the array of sites\<close>

text \<open>
  A rejected deletion rewires other sites: when the deletion of the first of several sites
  is refused (by validation, or because a rule file of any site fails to load), the sites were
  already moved up in the array the running gateway points into, so the runtime of the second
  site now sees the third one, and an upgrade for the second site's host is dialed to the third
  site's backend.
\<close>

theorem rejected_delete_rewires:
  assumes "live_config st = Some c" and "c_sites c = a # b # d # rest"
    and "distinct (map s_id (c_sites c))" and "as_slots st (s_id b) = Some 1"
    and "gt_sites (as_gw st) (s_id b) = Some rt"
    and "delete_site w (s_id a) st = (st', Some (400, e))"
  shows "\<exists>c' rt'. live_config st' = Some c' \<and> map s_backend (c_sites c') = map s_backend (b # d # rest) \<and>
    gt_sites (as_gw st') (s_id b) = Some rt' \<and> s_backend (rt_cfg rt') = s_backend d"
proof -
  let ?kept = "b # d # rest"
  let ?c = "c\<lparr>c_sites := ?kept\<rparr>"
  have "filter (\<lambda>s. s_id s \<noteq> s_id a) (c_sites c) = ?kept"
    using assms(3) by (auto simp: assms(2) filter_id_conv) (metis imageI)
  moreover have "site_by_id c (s_id a) = Some a" by (simp add: site_by_id_def assms(2))
  ultimately have "after_apply w ?c (compact_sites ?kept c st) (reply 204 NoContent) = (st', Some (400, e))"
    using assms(6) by (simp add: delete_site_def with_config_def assms(1) Let_def)
  then have st': "st' = write_config (fst (validate ?c)) (compact_sites ?kept c st)"
    by (cases rule: after_apply_cases) auto
  have bks: "map s_backend (c_sites (fst (validate ?c))) = map s_backend ?kept"
    using validate_backends(1) [of ?c] by simp
  then obtain x y zs where xs: "c_sites (fst (validate ?c)) = x # y # zs" "s_backend y = s_backend d"
    by (auto simp: map_eq_Cons_conv)
  have "gt_sites (as_gw st') (s_id b) = Some (rt\<lparr>rt_cfg := y\<rparr>)"
    using assms(4,5) by (simp add: st' compact_sites_def see_sites_def xs)
  then show ?thesis
    using bks xs by (auto simp: st')
qed

subsection \<open>A server for the witnesses\<close>

text \<open>The demo gateway with four sites, the last of which cannot be validated.\<close>

definition wit_site :: "string \<Rightarrow> string \<Rightarrow> site" where
  "wit_site i b = zero_site\<lparr>s_id := i, s_backend := b\<rparr>"

definition wit_config :: config where
  "wit_config = demo_config\<lparr>c_sites := [wit_site ''a'' ''http://a'', wit_site ''b'' ''http://b'',
     wit_site ''d'' ''http://d'', wit_site ''x'' []]\<rparr>"

definition wit_rt :: "site \<Rightarrow> site_rt" where
  "wit_rt s = \<lparr>rt_cfg = s, rt_engine = new_engine, rt_grpc = None, rt_target = demo_url, rt_ws = None\<rparr>"

definition wit_state :: "mem_backend api_state" where
  "wit_state =
     \<lparr>as_gw = demo_gateway\<lparr>gt_store := (gt_store demo_gateway)\<lparr>st_cfg := Some wit_config\<rparr>,
        gt_sites := [''b'' \<mapsto> wit_rt (wit_site ''b'' ''http://b'')]\<rparr>,
      as_tail = [], as_slots = [''b'' \<mapsto> 1], as_windows = (\<lambda>_. None), as_files = (\<lambda>_. None), as_db = None\<rparr>"

definition wit_opts :: api_options where
  "wit_opts = \<lparr>ao_rules_dir = ''rules'', ao_jwt_secret = [], ao_admin_user = [], ao_admin_hash = [],
                ao_limit = 120, ao_agent_port = []\<rparr>"

definition wit_world :: api_world where
  "wit_world = \<lparr>aw_now = 0, aw_tokens = demo_codec, aw_argon = (\<lambda>_ _ _ _ _ _. None), aw_io = demo_io,
      aw_rand_id = ''1'', aw_spare = 0, aw_mkdir = True, aw_write = (\<lambda>_. True), aw_yaml = (\<lambda>_. []),
      aw_flusher = True, aw_db_ok = True, aw_db_ok2 = True, aw_sha = (\<lambda>b. b), aw_agent_bytes = [],
      aw_token_bytes = []\<rparr>"

lemma wit_facts:
  "live_config wit_state = Some wit_config" "as_slots wit_state ''b'' = Some 1"
  "gt_sites (as_gw wit_state) ''b'' = Some (wit_rt (wit_site ''b'' ''http://b''))"
  by (simp_all add: wit_state_def live_config_def)

theorem rejected_delete_rewires_witness:
  "\<exists>rt'. gt_sites (as_gw (fst (delete_site wit_world ''a'' wit_state))) ''b'' = Some rt' \<and>
     s_backend (rt_cfg rt') = ''http://d''"
proof -
  obtain st' resp where d: "delete_site wit_world (s_id (wit_site ''a'' ''http://a'')) wit_state = (st', resp)"
    by (cases "delete_site wit_world (s_id (wit_site ''a'' ''http://a'')) wit_state")
  have sites: "c_sites wit_config = [wit_site ''a'' ''http://a'', wit_site ''b'' ''http://b'',
     wit_site ''d'' ''http://d'', wit_site ''x'' []]" by (simp add: wit_config_def)
  have ids: "distinct (map s_id (c_sites wit_config))" "s_id (wit_site i bk) = i" "s_backend (wit_site i bk) = bk"
    for i bk by (simp_all add: sites wit_site_def)
  have dead: "dead_in ''x'' (c_sites (wit_config\<lparr>c_sites := [wit_site ''b'' ''http://b'',
     wit_site ''d'' ''http://d'', wit_site ''x'' []]\<rparr>))" "''x'' \<noteq> []" by (simp_all add: ids)
  have "delete_site wit_world ''a'' wit_state = after_apply wit_world
      (wit_config\<lparr>c_sites := [wit_site ''b'' ''http://b'', wit_site ''d'' ''http://d'', wit_site ''x'' []]\<rparr>)
      (compact_sites [wit_site ''b'' ''http://b'', wit_site ''d'' ''http://d'', wit_site ''x'' []] wit_config wit_state)
      (reply 204 NoContent)"
    by (simp add: delete_site_def with_config_def wit_facts site_by_id_def sites ids Let_def)
  with dead_apply [OF dead] d have "\<exists>e. resp = Some (400, e)" by (metis ids(2))
  then obtain e where "resp = Some (400, e)" ..
  with d have "delete_site wit_world (s_id (wit_site ''a'' ''http://a'')) wit_state = (st', Some (400, e))" by simp
  from rejected_delete_rewires [OF wit_facts(1) sites ids(1) _ _ this] wit_facts(2,3) d
  show ?thesis by (auto simp: ids)
qed

text \<open>A caller with a token of the demo server, which has no secret.\<close>

definition wit_token :: string where
  "wit_token = sign_token demo_codec [] \<lparr>cm_sub = [], cm_iat = 0, cm_exp = 5\<rparr>"

definition wit_request :: request where
  "wit_request =
     \<lparr>req_method = ''GET'', req_url = None, req_proto = ''HTTP/1.1'', req_proto_major = 1, req_host = [],
      req_remote = [], req_header = [(''Authorization'', [wit_token])], req_body = NilBody, req_form = None\<rparr>"

lemma wit_token_ok: "verify_jwt demo_codec 0 [] wit_token = Ok []"
  unfolding wit_token_def by (subst verify_signed) (simp_all add: demo_codec_def)

lemma wit_request_token:
  "req_header r = req_header wit_request \<Longrightarrow> request_token r = wit_token" "wit_token \<noteq> []"
proof -
  have "canonical_key ''Authorization'' = ''Authorization''" by code_simp
  moreover have "\<not> has_prefix wit_token ''Bearer ''"
    unfolding wit_token_def by code_simp
  moreover show "wit_token \<noteq> []" by (auto simp: wit_token_def sign_token_def Let_def)
  ultimately show "req_header r = req_header wit_request \<Longrightarrow> request_token r = wit_token"
    by (simp add: request_token_def wit_request_def header_get_def trim_prefix_def)
qed

lemma wit_authorized:
  assumes "guarded call" and "as_windows st = (\<lambda>_. None)"
  shows "api_handle wit_world wit_opts wit_request call st =
    run_call wit_world wit_opts wit_request call (counted wit_world wit_request st)"
  using assms wit_token_ok wit_request_token(1) [OF refl] wit_request_token(2)
  by (simp add: api_handle_def auth_call_def counted_def wit_world_def wit_opts_def count_request_def)

theorem api_needs_token_witness:
  "genuine_token demo_codec 0 [] (request_token wit_request) \<or>
   genuine_token demo_codec 0 [] (query_field wit_request ''token'')"
proof -
  have "api_handle wit_world wit_opts wit_request ListSites wit_state =
      (counted wit_world wit_request wit_state, Some (200, SitesBody (map to_site_dto (c_sites wit_config))))"
    by (subst wit_authorized) (simp_all add: guarded_def wit_state_def list_sites_def with_config_def live_config_def counted_def)
  from api_needs_token [OF this] show ?thesis by (simp add: wit_world_def wit_opts_def)
qed

text \<open>A managed rule file of site b.\<close>

definition rule_state :: "mem_backend api_state" where
  "rule_state = wit_state\<lparr>
     as_gw := (as_gw wit_state)\<lparr>gt_store := (gt_store demo_gateway)\<lparr>st_cfg := Some (demo_config\<lparr>c_sites :=
       [(wit_site ''b'' ''http://b'')\<lparr>s_custom_rules := [''rules/b-r.yaml'']\<rparr>]\<rparr>)\<rparr>\<rparr>,
     as_files := [''rules/b-r.yaml'' \<mapsto> []]\<rparr>"

theorem api_writes_managed_files_witness:
  "\<exists>st' resp. api_handle wit_world wit_opts wit_request (DeleteRule ''b'' ''r'') rule_state = (st', resp) \<and>
     as_files st' ''rules/b-r.yaml'' = None \<and> file_dir ''rules/b-r.yaml'' = ao_rules_dir wit_opts"
proof -
  let ?st = "counted wit_world wit_request rule_state" and ?p = "''rules/b-r.yaml''"
  obtain st' resp where h: "api_handle wit_world wit_opts wit_request (DeleteRule ''b'' ''r'') rule_state = (st', resp)"
    by (cases "api_handle wit_world wit_opts wit_request (DeleteRule ''b'' ''r'') rule_state")
  have "file_base ?p = rule_filename ''b'' ''r''" "file_dir ?p = ''rules''"
    by code_simp+
  then have drop: "drop_rule_paths wit_world wit_opts ''b'' ''r'' [?p] [] False ?st =
      (Dropped [] True, ?st\<lparr>as_files := (as_files ?st)(?p := None)\<rparr>)"
    by (simp add: rule_path_matches_def wit_opts_def)
  from h have "delete_rule wit_world wit_opts ''b'' ''r'' ?st = (st', resp)"
    by (subst (asm) wit_authorized) (simp_all add: guarded_def rule_state_def wit_state_def)
  then have "as_files st' = as_files (?st\<lparr>as_files := (as_files ?st)(?p := None)\<rparr>)"
    using drop
    by (auto simp: delete_rule_def with_config_def live_config_def rule_state_def site_by_id_def wit_site_def
        dest!: after_apply_files)
  then have "as_files st' ?p = None" "as_files st' ?p \<noteq> as_files rule_state ?p"
    by (simp_all add: rule_state_def)
  with api_writes_managed_files [OF h this(2)] h show ?thesis by auto
qed

theorem rejected_site_wedges_api_witness:
  "\<exists>e st' resp. snd (create_site wit_world (Some \<lparr>in_name = [], in_host = [], in_upstream = [], in_path_prefix = [],
     in_status = []\<rparr>) wit_state) = Some (400, ApplyError e) \<and>
   api_handle wit_world wit_opts wit_request (DeleteSite ''a'') (api_run wit_opts []
     (fst (create_site wit_world (Some \<lparr>in_name = [], in_host = [], in_upstream = [], in_path_prefix = [],
     in_status = []\<rparr>) wit_state))) = (st', resp) \<and> refused resp"
proof -
  let ?i = "\<lparr>in_name = [], in_host = [], in_upstream = [], in_path_prefix = [], in_status = []\<rparr>"
  obtain st' resp where h: "api_handle wit_world wit_opts wit_request (DeleteSite ''a'')
      (api_run wit_opts [] (fst (create_site wit_world (Some ?i) wit_state))) = (st', resp)"
    by (cases "api_handle wit_world wit_opts wit_request (DeleteSite ''a'')
      (api_run wit_opts [] (fst (create_site wit_world (Some ?i) wit_state)))")
  have "mutates (DeleteSite ''a'')" "\<not> repairs_site (''site-'' @ aw_rand_id wit_world) (DeleteSite ''a'')" "in_upstream ?i = []"
    by (simp_all add: mutates_def repairs_site_def)
  from rejected_site_wedges_api [OF wit_facts(1) this(3) refl _ h this(1,2)] h show ?thesis by auto
qed

definition served_state :: "mem_backend api_state" where
  "served_state = wit_state\<lparr>as_gw :=
     demo_gateway\<lparr>gt_store := (gt_store demo_gateway)\<lparr>st_cfg := Some served_config\<rparr>\<rparr>\<rparr>"

definition wit_hash :: string where
  "wit_hash = ''t13d_000000000000_000000000000''"

theorem accepted_change_in_force_witness:
  "\<exists>st' code b. api_handle wit_world wit_opts wit_request (AddBlocklist (Some (wit_hash, []))) served_state =
     (st', Some (code, b)) \<and> code < 400 \<and> fp_blocked (as_gw st') wit_hash \<and>
     (\<exists>c. live_config st' = Some c \<and> config_ok c)"
proof -
  let ?st = "counted wit_world wit_request served_state"
  let ?c = "set_blocklist [wit_hash] served_config"
  let ?s = "site_defaults (site_names 0 (empty_site\<lparr>s_domains := [''a.example''], s_backend := ''http://127.0.0.1:9000''\<rparr>))"
  have h: "to_lower (trim_space wit_hash) = wit_hash" "valid_ja4 wit_hash" unfolding wit_hash_def by code_simp+
  have "config_ok served_config"
    using validate_config_ok demo_config_valid by (metis prod.collapse served_config_def)
  then have "config_ok ?c" by (auto simp: config_ok_def globals_ok_def set_blocklist_def)
  then have v: "validate ?c = (?c, None)" by (rule config_ok_validate)
  have sites: "c_sites ?c = [?s]" by (simp add: set_blocklist_def served_sites)
  have "s_custom_rules ?s = []" "s_grpc ?s = None"
    by (simp_all add: site_defaults_def site_names_def empty_site_def Let_def)
  then have "\<exists>rt. build_site_rt (demo_io\<lparr>bi_read := \<lambda>_. None\<rparr>) ?s = Ok rt"
    by (simp add: build_site_rt_def build_engine_def build_registry_def set_crs_toggles_def rebuild_def demo_io_def)
  then obtain m where m: "build_sites (demo_io\<lparr>bi_read := \<lambda>_. None\<rparr>) (c_sites ?c) (\<lambda>_. None) = Ok m"
    by (auto simp: sites)
  have io: "api_io wit_world (write_config ?c ?st) = demo_io\<lparr>bi_read := \<lambda>_. None\<rparr>"
    by (simp add: api_io_def wit_world_def served_state_def wit_state_def)
  have "fp_blocklist (c_fingerprint ?c) = [wit_hash]" "fp_blocklist_file (c_fingerprint ?c) = []"
    by (simp_all add: set_blocklist_def served_fingerprint)
  then have "\<exists>st1. api_apply wit_world ?c ?st = (st1, None)"
    by (simp add: api_apply_def v io m gateway_reload_def reload_runtimes_def
        load_fingerprint_blocklist_def Let_def)
  then obtain st1 where st1: "api_apply wit_world ?c ?st = (st1, None)" ..
  have live: "live_config ?st = Some served_config" "live_config served_state = Some served_config"
    "as_windows served_state = (\<lambda>_. None)"
    by (simp_all add: served_state_def wit_state_def live_config_def counted_def)
  have "api_handle wit_world wit_opts wit_request (AddBlocklist (Some (wit_hash, []))) served_state =
      (st1, Some (201, BlockedBody wit_hash []))"
    by (subst wit_authorized)
       (simp_all add: guarded_def add_blocklist_def h with_config_def live served_fingerprint
          after_apply_def st1)
  moreover have "[] \<notin> set (map s_id (c_sites served_config))"
    using \<open>config_ok served_config\<close> by (auto simp: config_ok_def list_all_iff site_ok_def)
  ultimately have "fp_blocked (as_gw st1) wit_hash \<and> (\<exists>c. live_config st1 = Some c \<and> config_ok c)"
    using accepted_change_in_force [OF _ _ _ live(2)] by (force simp: mutates_def change_done_def h)
  moreover note \<open>api_handle wit_world wit_opts wit_request _ served_state = _\<close>
  ultimately show ?thesis by force
qed

end
