(* ===== verification/Routes.thy ===== *)
theory Routes
  imports MgmtSafety Gateway
begin

text \<open>
  The route table of the management API (\<open>Handler\<close> in internal/mgmtapi/mgmtapi.go) and what
  Go's \<open>net/http\<close> does with it: \<open>ServeMux\<close> cleans the path, redirects a request whose path
  was not clean, matches the segments, and tells an unknown path (404) from an unknown method
  (405). \<open>api_serve\<close> is the whole API as an HTTP handler, from the rate limit to the route.
\<close>

subsection \<open>Clean paths\<close>

text \<open>\<open>cleanPath\<close> of net/http is \<open>path.Clean\<close>, which is \<open>file_clean\<close> on Unix, and keeps a slash at the end.\<close>

definition clean_path :: "string \<Rightarrow> string" where
  "clean_path p =
     (if p = [] then ''/''
      else let np = file_clean (if hd p = CHR ''/'' then p else CHR ''/'' # p)
           in if last p = CHR ''/'' \<and> np \<noteq> ''/'' then np @ ''/'' else np)"

subsection \<open>ServeMux\<close>

fun path_unescape :: "string \<Rightarrow> string option" where
  "path_unescape [] = Some []"
| "path_unescape (c # cs) =
     (if c = CHR ''%'' then
        (case cs of
           a # b # r \<Rightarrow>
             (case (hex_val a, hex_val b) of
                (Some x, Some y) \<Rightarrow> map_option (\<lambda>t. char_of (16 * x + y) # t) (path_unescape r)
              | _ \<Rightarrow> None)
         | _ \<Rightarrow> None)
      else map_option (\<lambda>t. c # t) (path_unescape cs))"

definition segment_value :: "string \<Rightarrow> string" where
  "segment_value s = (case path_unescape s of None \<Rightarrow> s | Some t \<Rightarrow> t)"

definition path_segs :: "string \<Rightarrow> string list" where
  "path_segs p = (if p = [] then [] else split_on (CHR ''/'') (tl p))"

text \<open>
  The values of the wildcards. A pattern that ends with a slash matches every path below it; a
  wildcard does not match the empty segment behind a slash at the end of the path.
\<close>

fun match_segs :: "string list \<Rightarrow> string list \<Rightarrow> string list option" where
  "match_segs [] ss = (if ss = [] then Some [] else None)"
| "match_segs (p # ps) [] = None"
| "match_segs (p # ps) (s # ss) =
     (if p = [] \<and> ps = [] then Some []
      else if has_prefix p ''{'' then
        (if s = [] \<and> ss = [] then None else map_option (Cons (segment_value s)) (match_segs ps ss))
      else if p = segment_value s then match_segs ps ss else None)"

definition method_matches :: "string \<Rightarrow> string \<Rightarrow> bool" where
  "method_matches pm m \<longleftrightarrow> pm = [] \<or> pm = m \<or> pm = ''GET'' \<and> m = ''HEAD''"

text \<open>
  A table lists method (empty for any), pattern and handler, the more specific patterns first.
\<close>

type_synonym 'h route_table = "(string \<times> string \<times> 'h) list"

fun find_route :: "'h route_table \<Rightarrow> string \<Rightarrow> string \<Rightarrow> (string \<times> 'h \<times> string list) option" where
  "find_route [] m p = None"
| "find_route ((pm, pat, h) # tbl) m p =
     (if method_matches pm m
      then (case match_segs (path_segs pat) (path_segs p) of
              Some vs \<Rightarrow> Some (pat, h, vs)
            | None \<Rightarrow> find_route tbl m p)
      else find_route tbl m p)"

definition exact_match :: "(string \<times> 'h \<times> string list) option \<Rightarrow> string \<Rightarrow> bool" where
  "exact_match n p =
     (case n of
        None \<Rightarrow> False
      | Some (pat, _) \<Rightarrow>
          \<not> has_suffix pat ''/'' \<or>
          (p = [] \<or> has_suffix p ''/'') \<and> length (path_segs pat) = count_list p (CHR ''/''))"

definition slash_redirect :: "'h route_table \<Rightarrow> string \<Rightarrow> string \<Rightarrow> bool" where
  "slash_redirect tbl m p \<longleftrightarrow>
     \<not> exact_match (find_route tbl m p) p \<and> \<not> has_suffix p ''/'' \<and>
     exact_match (find_route tbl m (p @ ''/'')) (p @ ''/'')"

datatype 'h mux_result =
  BadTarget | MovedTo string string | NoMethod | NoRoute | RouteTo 'h "string list"

definition mux_find :: "'h route_table \<Rightarrow> string \<Rightarrow> url \<Rightarrow> 'h mux_result" where
  "mux_find tbl m u =
     (let p = (if m = ''CONNECT'' then url_escaped u else clean_path (url_escaped u)) in
      if url_path u = ''*'' then BadTarget
      else if slash_redirect tbl m p then MovedTo (clean_path (url_path u) @ ''/'') (url_raw_query u)
      else if m \<noteq> ''CONNECT'' \<and> p \<noteq> url_escaped u then MovedTo p (url_raw_query u)
      else (case find_route tbl m p of
              Some (_, h, vs) \<Rightarrow> RouteTo h vs
            | None \<Rightarrow>
                if list_ex (\<lambda>(pm, pat, h). match_segs (path_segs pat) (path_segs p) \<noteq> None) tbl
                then NoMethod else NoRoute))"

subsection \<open>The API's routes\<close>

datatype endpoint =
  EpLogin | EpListSites | EpCreateSite | EpGetSite | EpUpdateSite | EpDeleteSite
| EpListRules | EpCreateRules | EpDeleteRule | EpListBlocklist | EpAddBlocklist | EpDeleteBlocklist
| EpMetrics | EpEvents | EpListAgents | EpCreateAgent | EpDeleteAgent | EpAgentEvents

definition api_table :: "endpoint route_table" where
  "api_table =
     [(''POST'', ''/api/v1/auth/login'', EpLogin),
      (''GET'', ''/api/v1/sites'', EpListSites),
      (''POST'', ''/api/v1/sites'', EpCreateSite),
      (''GET'', ''/api/v1/sites/{id}'', EpGetSite),
      (''PUT'', ''/api/v1/sites/{id}'', EpUpdateSite),
      (''DELETE'', ''/api/v1/sites/{id}'', EpDeleteSite),
      (''GET'', ''/api/v1/sites/{id}/rules'', EpListRules),
      (''POST'', ''/api/v1/sites/{id}/rules'', EpCreateRules),
      (''DELETE'', ''/api/v1/sites/{id}/rules/{rule_id}'', EpDeleteRule),
      (''GET'', ''/api/v1/fingerprint/blocklist'', EpListBlocklist),
      (''POST'', ''/api/v1/fingerprint/blocklist'', EpAddBlocklist),
      (''DELETE'', ''/api/v1/fingerprint/blocklist/{ja4}'', EpDeleteBlocklist),
      (''GET'', ''/api/v1/metrics'', EpMetrics),
      (''GET'', ''/api/v1/events'', EpEvents),
      (''GET'', ''/api/v1/agents'', EpListAgents),
      (''POST'', ''/api/v1/agents'', EpCreateAgent),
      (''DELETE'', ''/api/v1/agents/{id}'', EpDeleteAgent),
      (''GET'', ''/api/v1/agents/{id}/events'', EpAgentEvents)]"

text \<open>The JSON decoder applied to the first MiB of the body.\<close>

record body_decoder =
  bd_login :: "request \<Rightarrow> (string \<times> string) option"
  bd_site :: "request \<Rightarrow> site_input option"
  bd_rules :: "request \<Rightarrow> string option"
  bd_block :: "request \<Rightarrow> (string \<times> string) option"
  bd_agent :: "request \<Rightarrow> (string \<times> string) option"

text \<open>\<open>strconv.Atoi\<close>, whose value is used although its error is not: out of range it is the bound.\<close>

fun parse_uint64 :: "nat \<Rightarrow> string \<Rightarrow> nat option" where
  "parse_uint64 n [] = Some n"
| "parse_uint64 n (c # cs) =
     (if (of_char c :: nat) < 48 \<or> 57 < (of_char c :: nat) then None
      else let n' = 10 * n + (of_char c - 48) in
           if 2 ^ 64 \<le> n' then Some (2 ^ 64 - 1) else parse_uint64 n' cs)"

definition atoi_value :: "string \<Rightarrow> int" where
  "atoi_value s =
     (let neg = has_prefix s ''-'';
          ds = (if neg \<or> has_prefix s ''+'' then tl s else s)
      in if ds = [] then 0
         else (case parse_uint64 0 ds of
                 None \<Rightarrow> 0
               | Some n \<Rightarrow> if neg then - int (min n (2 ^ 63)) else int (min n (2 ^ 63 - 1))))"

fun call_of :: "body_decoder \<Rightarrow> request \<Rightarrow> endpoint \<Rightarrow> string list \<Rightarrow> api_call" where
  "call_of dec r EpLogin vs = Login (bd_login dec r)"
| "call_of dec r EpListSites vs = ListSites"
| "call_of dec r EpCreateSite vs = CreateSite (bd_site dec r)"
| "call_of dec r EpGetSite vs = GetSite (vs ! 0)"
| "call_of dec r EpUpdateSite vs = UpdateSite (vs ! 0) (bd_site dec r)"
| "call_of dec r EpDeleteSite vs = DeleteSite (vs ! 0)"
| "call_of dec r EpListRules vs = ListRules (vs ! 0)"
| "call_of dec r EpCreateRules vs = CreateRules (vs ! 0) (bd_rules dec r)"
| "call_of dec r EpDeleteRule vs = DeleteRule (vs ! 0) (vs ! 1)"
| "call_of dec r EpListBlocklist vs = ListBlocklist"
| "call_of dec r EpAddBlocklist vs = AddBlocklist (bd_block dec r)"
| "call_of dec r EpDeleteBlocklist vs = DeleteBlocklist (vs ! 0)"
| "call_of dec r EpMetrics vs = GetMetrics"
| "call_of dec r EpEvents vs = StreamEvents"
| "call_of dec r EpListAgents vs = ListAgents"
| "call_of dec r EpCreateAgent vs = CreateAgent (bd_agent dec r)"
| "call_of dec r EpDeleteAgent vs = DeleteAgent (vs ! 0)"
| "call_of dec r EpAgentEvents vs = AgentEvents (vs ! 0) (atoi_value (query_field r ''limit''))"

text \<open>
  What a handler behind a mux answers: the API's response (\<open>None\<close>: the handler panicked and
  the connection is dropped), or what the mux writes itself.
\<close>

datatype front = ApiReply "api_response option" | MuxStatus int | MuxMoved string string | Preflight
  | GatewayReply writer | GatewayAbort | ProcessDown | UiStub | UiFile string

definition mux_reply :: "'h mux_result \<Rightarrow> ('h \<Rightarrow> string list \<Rightarrow> 's \<Rightarrow> 's \<times> front) \<Rightarrow> 's \<Rightarrow> 's \<times> front" where
  "mux_reply res k st =
     (case res of
        BadTarget \<Rightarrow> (st, MuxStatus 400)
      | MovedTo p q \<Rightarrow> (st, MuxMoved p q)
      | NoMethod \<Rightarrow> (st, MuxStatus 405)
      | NoRoute \<Rightarrow> (st, MuxStatus 404)
      | RouteTo h vs \<Rightarrow> k h vs st)"

definition over_limit :: "api_world \<Rightarrow> api_options \<Rightarrow> request \<Rightarrow> 'b api_state \<Rightarrow> bool" where
  "over_limit w opts r st \<longleftrightarrow>
     ao_limit opts < int (snd (count_request (aw_now w) (as_windows st (api_client_ip r))))"

definition api_serve ::
    "api_world \<Rightarrow> api_options \<Rightarrow> body_decoder \<Rightarrow> request \<Rightarrow> url \<Rightarrow> 'b api_state \<Rightarrow> 'b api_state \<times> front" where
  "api_serve w opts dec r u st =
     (if over_limit w opts r st
      then (counted w r st, ApiReply (Some (429, ErrorText ''api rate limit exceeded'')))
      else mux_reply (mux_find api_table (req_method r) u)
             (\<lambda>ep vs st1. case auth_call w opts r (call_of dec r ep vs) st1 of
                             (st', resp) \<Rightarrow> (st', ApiReply resp))
             (counted w r st))"

subsection \<open>Clean paths are clean\<close>

lemma clean_segs_plain:
  assumes "list_all plain_seg acc" and "\<forall>s\<in>set ss. CHR ''/'' \<notin> set s"
  shows "list_all plain_seg (clean_segs True acc ss)"
  using assms
proof (induction True acc ss rule: clean_segs.induct)
  case (2 acc s ss)
  then show ?case by (cases acc) (auto simp: plain_seg_def)
qed simp

lemma clean_segs_id: "list_all plain_seg ss \<Longrightarrow> clean_segs True acc ss = rev acc @ ss"
  using clean_segs_plain_run [of ss True acc "[]"] by simp

lemma split_join_plain: "list_all plain_seg ss \<Longrightarrow> ss \<noteq> [] \<Longrightarrow> split_on (CHR ''/'') (join_with ''/'' ss) = ss"
  using split_join [of ss "CHR ''/''"] by (auto simp: list_all_iff plain_seg_def)

lemma file_clean_rooted:
  "file_clean (CHR ''/'' # p) = CHR ''/'' # join_with ''/'' (clean_segs True [] (split_on (CHR ''/'') p))"
  by (simp add: file_clean_def has_prefix_def Let_def)

text \<open>A rooted path in its clean form: its plain elements, and perhaps a slash at the end.\<close>

definition canonical :: "string list \<Rightarrow> bool \<Rightarrow> string" where
  "canonical es slash = CHR ''/'' # join_with ''/'' es @ (if slash \<and> es \<noteq> [] then ''/'' else [])"

lemma clean_path_canonical:
  obtains es sl where "list_all plain_seg es" "clean_path p = canonical es sl"
proof -
  let ?r = "if p = [] then [] else if hd p = CHR ''/'' then tl p else p"
  let ?es = "clean_segs True [] (split_on (CHR ''/'') ?r)"
  have "list_all plain_seg ?es"
    using clean_segs_plain [of "[]"] split_on_pieces by simp
  moreover have "join_with ''/'' ?es = [] \<longleftrightarrow> ?es = []"
    using \<open>list_all plain_seg ?es\<close> by (cases ?es; cases "tl ?es") (auto simp: plain_seg_def)
  then have "clean_path p = canonical ?es (p \<noteq> [] \<and> last p = CHR ''/'')"
    by (cases p) (auto simp: clean_path_def canonical_def file_clean_rooted Let_def)
  ultimately show ?thesis using that by blast
qed

lemma clean_segs_slash: "list_all plain_seg es \<Longrightarrow> clean_segs True acc (es @ [[]]) = rev acc @ es"
  using clean_segs_plain_run [of es True acc "[[]]"] by simp

lemma join_plain_last:
  assumes "list_all plain_seg es" "es \<noteq> []"
  shows "join_with ''/'' es \<noteq> [] \<and> last (join_with ''/'' es) \<noteq> CHR ''/''"
proof -
  from join_with_last [OF assms(2)] obtain a where "join_with ''/'' es = a @ last es" by blast
  moreover from assms have "plain_seg (last es)" by (simp add: list_all_iff)
  ultimately show ?thesis by (auto simp: plain_seg_def) (metis last_in_set)
qed

lemma path_segs_canonical:
  "list_all plain_seg es \<Longrightarrow>
     path_segs (canonical es sl) = (if es = [] then [[]] else if sl then es @ [[]] else es)"
  by (auto simp: path_segs_def canonical_def split_join_plain split_on_snoc)

lemma clean_path_of_canonical:
  assumes "list_all plain_seg es"
  shows "clean_path (canonical es sl) = canonical es sl"
proof (cases "es = []")
  case True
  then show ?thesis by (simp add: canonical_def clean_path_def file_clean_rooted)
next
  case False
  let ?p = "join_with ''/'' es @ (if sl then ''/'' else [])"
  have "split_on (CHR ''/'') ?p = path_segs (canonical es sl)"
    using False by (simp add: path_segs_def canonical_def)
  then have "clean_segs True [] (split_on (CHR ''/'') ?p) = es"
    using False assms by (simp add: path_segs_canonical clean_segs_id clean_segs_slash)
  then show ?thesis
    using False join_plain_last [OF assms False]
    by (auto simp: canonical_def clean_path_def file_clean_rooted Let_def)
qed

lemma clean_path_idem [simp]: "clean_path (clean_path p) = clean_path p"
  by (metis clean_path_canonical clean_path_of_canonical)

subsection \<open>What a mux routes\<close>

lemma mux_routes_clean:
  assumes "mux_find tbl m u = RouteTo h vs" and "m \<noteq> ''CONNECT''"
  shows "clean_path (url_escaped u) = url_escaped u"
    and "\<exists>pat. find_route tbl m (url_escaped u) = Some (pat, h, vs)"
    and "url_path u \<noteq> ''*''" and "\<not> slash_redirect tbl m (url_escaped u)"
  using assms by (auto simp: mux_find_def Let_def split: if_splits option.splits prod.splits)

lemma count_path_segs: "has_prefix p ''/'' \<Longrightarrow> count_list p (CHR ''/'') = length (path_segs p)"
proof -
  have "Suc (count_list q (CHR ''/'')) = length (split_on (CHR ''/'') q)" for q
    by (induction q) (auto split: list.splits)
  then show "has_prefix p ''/'' \<Longrightarrow> ?thesis" by (cases p) (auto simp: path_segs_def has_prefix_def)
qed

lemma find_route_Some:
  "find_route tbl m p = Some (pat, h, vs) \<Longrightarrow>
     \<exists>pm. (pm, pat, h) \<in> set tbl \<and> method_matches pm m \<and> match_segs (path_segs pat) (path_segs p) = Some vs"
  by (induction tbl) (auto split: if_splits option.splits)

text \<open>The number of wildcards is the number of values.\<close>

lemma match_segs_length:
  "match_segs ps ss = Some vs \<Longrightarrow> [] \<notin> set ps \<Longrightarrow>
     length vs = length (filter (\<lambda>p. has_prefix p ''{'') ps) \<and> length ss = length ps"
  by (induction ps ss arbitrary: vs rule: match_segs.induct) (auto split: if_splits)

definition values_of :: "endpoint \<Rightarrow> nat" where
  "values_of ep =
     (case ep of
        EpDeleteRule \<Rightarrow> 2
      | EpGetSite \<Rightarrow> 1 | EpUpdateSite \<Rightarrow> 1 | EpDeleteSite \<Rightarrow> 1 | EpListRules \<Rightarrow> 1 | EpCreateRules \<Rightarrow> 1
      | EpDeleteBlocklist \<Rightarrow> 1 | EpDeleteAgent \<Rightarrow> 1 | EpAgentEvents \<Rightarrow> 1 | _ \<Rightarrow> 0)"

lemma api_table_segs:
  "list_all (\<lambda>(pm, pat, ep). pm \<noteq> [] \<and> pm \<noteq> ''CONNECT'' \<and> [] \<notin> set (path_segs pat) \<and> 2 < length (path_segs pat) \<and>
       take 2 (path_segs pat) = [''api'', ''v1''] \<and>
       length (filter (\<lambda>p. has_prefix p ''{'') (path_segs pat)) = values_of ep) api_table"
  by code_simp

lemma api_table_entry:
  assumes "(pm, pat, ep) \<in> set api_table"
  shows "pm \<noteq> []" "pm \<noteq> ''CONNECT''" "[] \<notin> set (path_segs pat)" "2 < length (path_segs pat)"
    "take 2 (path_segs pat) = [''api'', ''v1'']"
    "length (filter (\<lambda>p. has_prefix p ''{'') (path_segs pat)) = values_of ep"
  using assms api_table_segs by (auto simp: list_all_iff)

text \<open>A route of the API: its handler gets a value for every wildcard, and the path was clean.\<close>

lemma api_route:
  assumes "mux_find api_table m u = RouteTo ep vs"
  obtains pm pat where "(pm, pat, ep) \<in> set api_table" "m \<noteq> ''CONNECT''"
    "match_segs (path_segs pat) (path_segs (url_escaped u)) = Some vs" "length vs = values_of ep"
    "length (path_segs pat) = length (path_segs (url_escaped u))"
proof -
  from assms obtain pat p where
    "find_route api_table m p = Some (pat, ep, vs)" "p = url_escaped u \<or> m \<noteq> ''CONNECT''"
    by (auto simp: mux_find_def Let_def split: if_splits option.splits prod.splits)
  from find_route_Some [OF this(1)] obtain pm' where
    "(pm', pat, ep) \<in> set api_table" "method_matches pm' m" by blast
  with api_table_entry(1,2) have m: "m \<noteq> ''CONNECT''"
    by (fastforce simp: method_matches_def)
  from mux_routes_clean(2) [OF assms m] obtain pat where
    "find_route api_table m (url_escaped u) = Some (pat, ep, vs)" ..
  from find_route_Some [OF this] obtain pm where e: "(pm, pat, ep) \<in> set api_table"
    "match_segs (path_segs pat) (path_segs (url_escaped u)) = Some vs" by blast
  with match_segs_length [OF e(2) api_table_entry(3) [OF e(1)]] api_table_entry(6) [OF e(1)] m that
  show thesis by simp
qed

lemma match_segs_take:
  "match_segs (p # ps) ss = Some vs \<Longrightarrow> \<not> has_prefix p ''{'' \<Longrightarrow> ps \<noteq> [] \<Longrightarrow>
     \<exists>s ss'. ss = s # ss' \<and> segment_value s = p \<and> match_segs ps ss' = Some vs"
  by (cases ss) (auto split: if_splits)

lemma api_route_prefix:
  assumes "mux_find api_table m u = RouteTo ep vs"
  shows "\<exists>a b rest. path_segs (url_escaped u) = a # b # rest \<and> rest \<noteq> [] \<and>
     segment_value a = ''api'' \<and> segment_value b = ''v1''"
proof -
  from api_route [OF assms] obtain pm pat where e: "(pm, pat, ep) \<in> set api_table"
    "match_segs (path_segs pat) (path_segs (url_escaped u)) = Some vs" .
  from api_table_entry(4,5) [OF e(1)] obtain rest where
    pat: "path_segs pat = ''api'' # ''v1'' # rest" "rest \<noteq> []"
    by (cases "path_segs pat"; cases "tl (path_segs pat)") (auto)
  have "\<not> has_prefix ''api'' ''{''" "\<not> has_prefix ''v1'' ''{''" by (simp_all add: has_prefix_def)
  from match_segs_take [OF _ this(1), of "''v1'' # rest" _ vs] match_segs_take [OF _ this(2), of rest _ vs] e(2) pat
  obtain a b ss where "path_segs (url_escaped u) = a # b # ss" "segment_value a = ''api''"
    "segment_value b = ''v1''" "match_segs rest ss = Some vs" by (metis list.distinct(1))
  moreover from this(4) pat(2) have "ss \<noteq> []" by (cases rest) auto
  ultimately show ?thesis by blast
qed

end
