(* ===== verification/Commands.thy ===== *)
theory Commands
  imports Routes
begin

text \<open>
  The gateway program (core/cmd/swipeshield/main.go): what the configuration starts, where the
  management API and the dashboard (internal/webui) are mounted, the handlers in front of them,
  and the path and address helpers. Flags, sockets, signals and logging are the process's environment.
\<close>

subsection \<open>Addresses and directories\<close>

text \<open>\<open>managedRulesDir\<close>; the working directory is an argument, \<open>None\<close> when it cannot be read.\<close>

definition abs_path :: "string option \<Rightarrow> string \<Rightarrow> string option" where
  "abs_path cwd p =
     (if has_prefix p ''/'' then Some (file_clean p) else map_option (\<lambda>d. file_join [d, p]) cwd)"

definition managed_rules_dir :: "string option \<Rightarrow> string \<Rightarrow> string" where
  "managed_rules_dir cwd p =
     (case abs_path cwd p of
        Some a \<Rightarrow> file_join [file_dir a, ''rules'', ''custom'']
      | None \<Rightarrow> ''rules/custom'')"

definition listen_port :: "string \<Rightarrow> string" where
  "listen_port a = (case last_index_byte a (CHR '':'') of Some i \<Rightarrow> drop (i + 1) a | None \<Rightarrow> a)"

text \<open>\<open>net.SplitHostPort\<close> and \<open>net.JoinHostPort\<close>.\<close>

definition split_host_port :: "string \<Rightarrow> (string \<times> string) option" where
  "split_host_port a = map_option (\<lambda>h. (h, listen_port a)) (split_host a)"

definition join_host_port :: "string \<Rightarrow> string \<Rightarrow> string" where
  "join_host_port h p =
     (if CHR '':'' \<in> set h then ''['' @ h @ '']:'' @ p else h @ '':'' @ p)"

definition udp_addr_for :: "string \<Rightarrow> string" where
  "udp_addr_for a =
     (case split_host_port a of
        None \<Rightarrow> a
      | Some (h, p) \<Rightarrow>
          if h \<in> {[], ''0.0.0.0'', ''::'', ''[::]''} then '':'' @ p else join_host_port h p)"

subsection \<open>What the configuration starts\<close>

datatype start_error =
  PluginsFailed plugin_error | GatewayFailed reload_error | StoreFailed string | CertFailed
| ListenFailed string | KeyPairFailed string | Http3Failed string

text \<open>A listener: its handler is the front, or the gateway itself for HTTP/3.\<close>

record served_listener =
  sl_address :: string
  sl_h2c :: bool
  sl_tls13 :: bool
  sl_protos :: "string list"
  sl_capture :: bool
  sl_http3 :: "(string \<times> bool) option"

record agent_service =
  sv_address :: string
  sv_cert :: string
  sv_key :: string
  sv_self_signed :: bool

record startup =
  su_plugins :: "string option"
  su_db :: "string option"
  su_sidecar :: "string option"
  su_agent :: "agent_service option"
  su_admin :: "string option"
  su_api_on_front :: bool
  su_listeners :: "served_listener list"

definition serve_listener :: "listener \<Rightarrow> served_listener" where
  "serve_listener l =
     \<lparr>sl_address = l_address l, sl_h2c = (\<not> l_tls l), sl_tls13 = l_tls l,
      sl_protos = (if l_tls l then [''h2'', ''http/1.1''] else []), sl_capture = l_tls l,
      sl_http3 = (if l_tls l \<and> l_http3 l then Some (udp_addr_for (l_address l), l_allow_0rtt l) else None)\<rparr>"

definition start_agent :: "config \<Rightarrow> agent_service option" where
  "start_agent c =
     (let a = c_agent c; dir = file_join [file_dir (c_db_path c), ''tls''] in
      if agt_enabled a \<and> c_db_path c \<noteq> [] then
        Some (if agt_tls_cert a = [] \<or> agt_tls_key a = []
              then \<lparr>sv_address = agt_listen a, sv_cert = file_join [dir, ''agent-cert.pem''],
                    sv_key = file_join [dir, ''agent-key.pem''], sv_self_signed = True\<rparr>
              else \<lparr>sv_address = agt_listen a, sv_cert = agt_tls_cert a, sv_key = agt_tls_key a,
                    sv_self_signed = False\<rparr>)
      else None)"

definition nonempty :: "string \<Rightarrow> string option" where
  "nonempty s = (if s = [] then None else Some s)"

definition plan :: "bool \<Rightarrow> config \<Rightarrow> startup" where
  "plan mgmt c =
     \<lparr>su_plugins = nonempty (plug_dir (c_plugins c)), su_db = nonempty (c_db_path c),
      su_sidecar = nonempty (c_envoy_listen c), su_agent = start_agent c,
      su_admin = (if mgmt \<and> adm_enabled (c_admin c) then Some (adm_address (c_admin c)) else None),
      su_api_on_front = (mgmt \<and> \<not> adm_enabled (c_admin c)),
      su_listeners = map serve_listener (listener_list c)\<rparr>"

text \<open>
  The steps of \<open>main\<close> that can end the process, in order: each argument says whether the
  outside world lets a step succeed.
\<close>

record start_world =
  sw_plugins :: "string \<Rightarrow> plugin_error option"
  sw_gateway :: "config \<Rightarrow> reload_error option"
  sw_open_db :: "string \<Rightarrow> bool"
  sw_self_signed :: "string \<Rightarrow> string \<Rightarrow> bool"
  sw_listen :: "string \<Rightarrow> bool"
  sw_key_pair :: "string \<Rightarrow> string \<Rightarrow> bool"
  sw_listen_udp :: "string \<Rightarrow> bool"

definition check :: "'e \<Rightarrow> bool \<Rightarrow> ('e, unit) go" where
  "check e ok = (if ok then Ok () else Fail e)"

fun open_listeners :: "start_world \<Rightarrow> listener list \<Rightarrow> (start_error, unit) go" where
  "open_listeners w [] = Ok ()"
| "open_listeners w (l # ls) =
     go_bind (check (ListenFailed (l_address l)) (sw_listen w (l_address l))) (\<lambda>_.
     go_bind (check (KeyPairFailed (l_address l)) (l_tls l \<longrightarrow> sw_key_pair w (l_cert_path l) (l_key_path l))) (\<lambda>_.
     go_bind (check (Http3Failed (udp_addr_for (l_address l)))
                (l_tls l \<and> l_http3 l \<longrightarrow> sw_listen_udp w (udp_addr_for (l_address l)))) (\<lambda>_.
     open_listeners w ls)))"

definition start_main :: "start_world \<Rightarrow> bool \<Rightarrow> config \<Rightarrow> (start_error, startup) go" where
  "start_main w mgmt c =
     go_bind (case su_plugins (plan mgmt c) of
                None \<Rightarrow> Ok ()
              | Some d \<Rightarrow> (case sw_plugins w d of None \<Rightarrow> Ok () | Some e \<Rightarrow> Fail (PluginsFailed e))) (\<lambda>_.
     go_bind (case sw_gateway w c of None \<Rightarrow> Ok () | Some e \<Rightarrow> Fail (GatewayFailed e)) (\<lambda>_.
     go_bind (case su_db (plan mgmt c) of
                None \<Rightarrow> Ok () | Some p \<Rightarrow> check (StoreFailed p) (sw_open_db w p)) (\<lambda>_.
     go_bind (case su_agent (plan mgmt c) of
                None \<Rightarrow> Ok ()
              | Some a \<Rightarrow> check CertFailed (sv_self_signed a \<longrightarrow> sw_self_signed w (sv_cert a) (sv_key a))) (\<lambda>_.
     go_bind (open_listeners w (listener_list c)) (\<lambda>_. Ok (plan mgmt c))))))"

subsection \<open>The handlers\<close>

definition mgmt_options :: "string option \<Rightarrow> string \<Rightarrow> config \<Rightarrow> api_options" where
  "mgmt_options cwd p c =
     api_new \<lparr>ao_rules_dir = managed_rules_dir cwd p, ao_jwt_secret = auth_jwt_secret (c_auth c),
              ao_admin_user = auth_admin_user (c_auth c),
              ao_admin_hash = auth_admin_password_hash (c_auth c), ao_limit = 0,
              ao_agent_port = listen_port (agt_listen (c_agent c))\<rparr>"

definition gateway_front :: "'b world \<Rightarrow> request \<Rightarrow> 'b api_state \<Rightarrow> 'b api_state \<times> front" where
  "gateway_front gw r st =
     (case serve_http gw r (as_gw st) of
        Served g wr \<Rightarrow> (st\<lparr>as_gw := g\<rparr>, GatewayReply wr)
      | Aborted g \<Rightarrow> (st\<lparr>as_gw := g\<rparr>, GatewayAbort)
      | Crashed \<Rightarrow> (st, ProcessDown))"

datatype mount = ApiMount | RestMount

definition front_table :: "mount route_table" where
  "front_table = [([], ''/api/v1/'', ApiMount), ([], ''/'', RestMount)]"

text \<open>
  A mux dereferences the URL, so without one (which net/http never passes on) the handler
  panics and the connection is dropped.
\<close>

definition mounted ::
    "api_world \<Rightarrow> api_options \<Rightarrow> body_decoder \<Rightarrow> ('b api_state \<Rightarrow> 'b api_state \<times> front) \<Rightarrow>
     request \<Rightarrow> 'b api_state \<Rightarrow> 'b api_state \<times> front" where
  "mounted w opts dec rest r st =
     (case req_url r of
        None \<Rightarrow> (st, GatewayAbort)
      | Some u \<Rightarrow>
          mux_reply (mux_find front_table (req_method r) u)
            (\<lambda>m _ st1. case m of ApiMount \<Rightarrow> api_serve w opts dec r u st1 | RestMount \<Rightarrow> rest st1) st)"

text \<open>The handler of the configured listeners: the API rides on it in the legacy mode only.\<close>

definition front_door ::
    "bool \<Rightarrow> config \<Rightarrow> 'b world \<Rightarrow> api_world \<Rightarrow> api_options \<Rightarrow> body_decoder \<Rightarrow> request \<Rightarrow>
     'b api_state \<Rightarrow> 'b api_state \<times> front" where
  "front_door mgmt c gw w opts dec r st =
     (if su_api_on_front (plan mgmt c)
      then mounted w opts dec (gateway_front gw r) r st
      else gateway_front gw r st)"

text \<open>\<open>cors\<close> and \<open>buildAdminHandler\<close>.\<close>

definition cors_headers :: header where
  "cors_headers =
     [(''Access-Control-Allow-Origin'', [''*'']),
      (''Access-Control-Allow-Headers'', [''Authorization, Content-Type, X-Requested-With'']),
      (''Access-Control-Allow-Methods'', [''GET, POST, PUT, DELETE, OPTIONS''])]"

definition cors :: "(request \<Rightarrow> 's \<Rightarrow> 's \<times> front) \<Rightarrow> request \<Rightarrow> 's \<Rightarrow> 's \<times> header \<times> front" where
  "cors nxt r st =
     (if req_method r = ''OPTIONS'' then (st, cors_headers, Preflight)
      else (case nxt r st of (st', resp) \<Rightarrow> (st', cors_headers, resp)))"

text \<open>
  The dashboard (internal/webui): \<open>files\<close> tells what the embedded file system holds, \<open>None\<close> for
  the build without it. Every unknown path gets the application's page, the root.
\<close>

definition ui_serve :: "(string \<Rightarrow> bool) option \<Rightarrow> string \<Rightarrow> front" where
  "ui_serve files p =
     (case files of
        None \<Rightarrow> UiStub
      | Some has_file \<Rightarrow>
          let name = trim_prefix (file_clean p) ''/'' in
          if name = [] \<or> name = ''.'' \<or> \<not> has_file name then UiFile ''/'' else UiFile p)"

definition ui_front :: "(string \<Rightarrow> bool) option \<Rightarrow> request \<Rightarrow> 's \<Rightarrow> 's \<times> front" where
  "ui_front files r st =
     (case req_url r of None \<Rightarrow> (st, GatewayAbort) | Some u \<Rightarrow> (st, ui_serve files (url_path u)))"

definition admin_handler ::
    "api_world \<Rightarrow> api_options \<Rightarrow> body_decoder \<Rightarrow> (string \<Rightarrow> bool) option \<Rightarrow> request \<Rightarrow> 'b api_state \<Rightarrow>
     'b api_state \<times> header \<times> front" where
  "admin_handler w opts dec files = cors (\<lambda>r. mounted w opts dec (ui_front files r) r)"

subsection \<open>Where the API is mounted\<close>

lemma front_table_segs: "path_segs ''/api/v1/'' = [''api'', ''v1'', []]" "path_segs ''/'' = [[]]"
  by code_simp+

lemma has_suffix_slash: "has_suffix (p @ ''/'') ''/''"
  by (auto simp: has_suffix_iff)

lemma path_segs_snoc: "p \<noteq> [] \<Longrightarrow> path_segs (p @ ''/'') = path_segs p @ [[]]"
  by (cases p) (simp_all add: path_segs_def split_on_snoc)

lemma clean_path_rooted: "has_prefix (clean_path p) ''/''"
  by (metis clean_path_canonical canonical_def append_Cons append_Nil has_prefix_append)

lemma not_prefix_brace: "\<not> has_prefix ''api'' ''{''" "\<not> has_prefix ''v1'' ''{''" "\<not> has_prefix [] ''{''"
  by (simp_all add: has_prefix_def)

text \<open>A path below \<open>/api/v1\<close> goes to the API, every other clean path to what is mounted beside it.\<close>

lemma find_front:
  assumes "path_segs p = a # b # rest" "rest \<noteq> []" "segment_value a = ''api''" "segment_value b = ''v1''"
  shows "find_route front_table m p = Some (''/api/v1/'', ApiMount, [])"
proof -
  from assms(2) have "match_segs [[]] rest = Some []" by (cases rest) simp_all
  with assms show ?thesis
    by (simp add: front_table_def method_matches_def front_table_segs not_prefix_brace del: match_segs.simps(1))
qed

lemma api_route_mounted:
  assumes "mux_find api_table m u = RouteTo ep vs"
  shows "mux_find front_table m u = RouteTo ApiMount []"
proof -
  let ?p = "url_escaped u"
  from api_route [OF assms] have m: "m \<noteq> ''CONNECT''" .
  from api_route_prefix [OF assms] obtain a b rest where segs: "path_segs ?p = a # b # rest" "rest \<noteq> []"
    "segment_value a = ''api''" "segment_value b = ''v1''" by blast
  note route = mux_routes_clean [OF assms m]
  have rooted: "has_prefix ?p ''/''" using clean_path_rooted [of ?p] route(1) by simp
  then have ne: "?p \<noteq> []" by (auto simp: has_prefix_def)
  have "count_list (?p @ ''/'') (CHR ''/'') = length (path_segs ?p) + 1"
    using rooted ne by (simp add: count_path_segs)
  then have "\<not> exact_match (find_route front_table m (?p @ ''/'')) (?p @ ''/'')"
    using segs ne
    by (subst find_front [of _ a b "rest @ [[]]"])
       (auto simp: exact_match_def path_segs_snoc front_table_segs has_suffix_slash has_suffix_def)
  then have "\<not> slash_redirect front_table m ?p" by (simp add: slash_redirect_def)
  with route m find_front [OF segs] show ?thesis by (simp add: mux_find_def Let_def)
qed

subsection \<open>A configuration without credentials\<close>

lemma mgmt_options_simps [simp]:
  "ao_jwt_secret (mgmt_options cwd p c) = auth_jwt_secret (c_auth c)"
  "ao_admin_user (mgmt_options cwd p c) = auth_admin_user (c_auth c)"
  "ao_admin_hash (mgmt_options cwd p c) = auth_admin_password_hash (c_auth c)"
  "ao_limit (mgmt_options cwd p c) = 120"
  by (simp_all add: mgmt_options_def api_new_def)

lemma auth_call_Ok:
  assumes "verify_jwt (aw_tokens w) (aw_now w) (ao_jwt_secret opts) (request_token r) = Ok sub"
    and "request_token r \<noteq> []"
  shows "auth_call w opts r call st = run_call w opts r call st"
  using assms by (simp add: auth_call_def)

text \<open>
  C7. A configuration that names no administrator and no JWT secret is accepted by
  \<open>Validate\<close>, and with it the gateway, in its default mode, serves the management API on the
  front door: no login can succeed, but a token that any caller signs with the empty key opens
  every operation of the API, under the rate limit only.
\<close>

theorem unconfigured_api_is_open:
  assumes "validate c0 = (c, None)" and "auth_jwt_secret (c_auth c) = []"
    and "\<not> adm_enabled (c_admin c)"
    and "opts = mgmt_options cwd path c"
    and "tc_unmarshal (aw_tokens w) (tc_marshal (aw_tokens w) forged) = Some forged"
    and "aw_now w div 1000000000 \<le> cm_exp forged"
    and "request_token r = sign_token (aw_tokens w) [] forged"
    and "req_url r = Some u" and "mux_find api_table (req_method r) u = RouteTo ep vs"
    and "\<not> over_limit w opts r st"
  shows "front_door True c gw w opts dec r st =
      (case run_call w opts r (call_of dec r ep vs) (counted w r st) of (st', resp) \<Rightarrow> (st', ApiReply resp)) \<and>
    snd (login w opts inp st) \<noteq> Some (200, TokenBody tok)"
proof
  let ?run = "case run_call w opts r (call_of dec r ep vs) (counted w r st) of (st', resp) \<Rightarrow> (st', ApiReply resp)"
  have tok: "verify_jwt (aw_tokens w) (aw_now w) (ao_jwt_secret opts) (request_token r) = Ok (cm_sub forged)"
    using verify_signed [OF assms(5)] assms(2,4,6,7) by simp
  have "request_token r \<noteq> []" using assms(7) by (auto simp: sign_token_def Let_def)
  note run = auth_call_Ok [OF tok this]
  from assms(3,8-10) api_route_mounted [OF assms(9)]
  show "front_door True c gw w opts dec r st = ?run"
    by (simp add: front_door_def plan_def mounted_def mux_reply_def api_serve_def run)
  have "globals_ok c" using validate_config_ok [OF assms(1)] by (simp add: config_ok_def)
  then have "auth_admin_password_hash (c_auth c) = []" using assms(2) by (auto simp: globals_ok_def)
  then show "snd (login w opts inp st) \<noteq> Some (200, TokenBody tok)"
    using assms(4) by (auto simp: login_def reply_def verify_password_def split: option.splits)
qed

subsection \<open>What the mux keeps from the gateway\<close>

text \<open>
  In the default mode the mux in front of the gateway answers every request whose path is
  not clean itself, by a redirect to the cleaned path: the gateway neither inspects nor records
  it. The target is clean, so it is not redirected for its form again. With the admin listener
  enabled the same request goes through the gateway.
\<close>

theorem unclean_path_not_inspected:
  assumes "req_url r = Some u" and "req_method r \<noteq> ''CONNECT''" and "url_path u \<noteq> ''*''"
    and "clean_path (url_escaped u) \<noteq> url_escaped u"
    and "\<not> adm_enabled (c_admin c)" and "adm_enabled (c_admin c')"
  shows "(\<exists>p. front_door True c gw w opts dec r st = (st, MuxMoved p (url_raw_query u)) \<and>
        (p = clean_path (url_escaped u) \<or> p = clean_path (url_path u) @ ''/'')) \<and>
    clean_path (clean_path (url_escaped u)) = clean_path (url_escaped u) \<and>
    front_door True c' gw w opts dec r st = gateway_front gw r st"
  using assms
  by (auto simp: front_door_def plan_def mounted_def mux_find_def mux_reply_def Let_def)

subsection \<open>What runs\<close>

lemma open_listeners_Ok:
  "open_listeners w ls = Ok () \<longleftrightarrow>
     (\<forall>l\<in>set ls. sw_listen w (l_address l) \<and> (l_tls l \<longrightarrow> sw_key_pair w (l_cert_path l) (l_key_path l)) \<and>
        (l_tls l \<and> l_http3 l \<longrightarrow> sw_listen_udp w (udp_addr_for (l_address l))))"
  by (induction ls) (auto simp: check_def)

lemma start_main_Ok:
  assumes "start_main w mgmt c = Ok s"
  shows "s = plan mgmt c" "open_listeners w (listener_list c) = Ok ()" "sw_gateway w c = None"
    "c_db_path c \<noteq> [] \<longrightarrow> sw_open_db w (c_db_path c)"
  using assms
  by (auto simp: start_main_def go_bind_Ok_iff check_def plan_def nonempty_def
      split: option.splits if_split_asm)

text \<open>
  The gateway starts all of what a valid configuration asks for, or nothing: every listener
  is open, TLS listeners capture hellos and speak TLS 1.3 only, the others speak HTTP/2 in clear,
  HTTP/3 runs exactly where it is configured, on the port of its listener; the agent service and
  the admin listener run exactly when they are enabled, with the database open; the API is on one
  of the two fronts, never on both.
\<close>

theorem starts_what_is_configured:
  assumes "validate c0 = (c, None)" and "start_main w mgmt c = Ok s"
  shows "map sl_address (su_listeners s) = map l_address (listener_list c) \<and>
    (\<forall>l\<in>set (listener_list c). sw_listen w (l_address l)) \<and>
    (\<forall>x\<in>set (su_listeners s). sl_capture x = sl_tls13 x \<and> sl_h2c x = (\<not> sl_tls13 x)) \<and>
    map (\<lambda>x. sl_http3 x \<noteq> None) (su_listeners s) = map l_http3 (listener_list c) \<and>
    (su_agent s \<noteq> None \<longleftrightarrow> agt_enabled (c_agent c)) \<and>
    (su_agent s \<noteq> None \<or> su_admin s \<noteq> None \<longrightarrow> sw_open_db w (c_db_path c)) \<and>
    (mgmt \<longleftrightarrow> (su_api_on_front s \<noteq> (su_admin s \<noteq> None)))"
proof -
  note start = start_main_Ok [OF assms(2)]
  have ok: "globals_ok c" "list_all listener_ok (c_listeners c)"
    using validate_config_ok [OF assms(1)] by (simp_all add: config_ok_def)
  then have lok: "list_all listener_ok (listener_list c)"
    by (auto simp: listener_list_def listener_ok_def)
  have "map (\<lambda>x. sl_http3 x \<noteq> None) (su_listeners s) = map l_http3 (listener_list c)"
    using lok by (auto simp: start plan_def serve_listener_def list_all_iff listener_ok_def)
  moreover have "map sl_address (su_listeners s) = map l_address (listener_list c)"
    "\<forall>x\<in>set (su_listeners s). sl_capture x = sl_tls13 x \<and> sl_h2c x = (\<not> sl_tls13 x)"
    "mgmt \<longleftrightarrow> (su_api_on_front s \<noteq> (su_admin s \<noteq> None))"
    by (auto simp: start plan_def serve_listener_def)
  moreover have "\<forall>l\<in>set (listener_list c). sw_listen w (l_address l)"
    using start(2) by (simp add: open_listeners_Ok)
  moreover have "su_agent s \<noteq> None \<longleftrightarrow> agt_enabled (c_agent c)"
    "su_agent s \<noteq> None \<or> su_admin s \<noteq> None \<longrightarrow> sw_open_db w (c_db_path c)"
    using ok(1) start(4) by (auto simp: start(1) plan_def start_agent_def globals_ok_def Let_def)
  ultimately show ?thesis by blast
qed

subsection \<open>Examples\<close>

definition front_request :: "string \<Rightarrow> request" where
  "front_request p = wit_request\<lparr>req_url := Some
     \<lparr>url_scheme = [], url_host = [], url_path = p, url_escaped = p, url_raw_query = [], url_force_query = False\<rparr>\<rparr>"

definition silent_decoder :: body_decoder where
  "silent_decoder = \<lparr>bd_login = (\<lambda>_. None), bd_site = (\<lambda>_. None), bd_rules = (\<lambda>_. None),
     bd_block = (\<lambda>_. None), bd_agent = (\<lambda>_. None)\<rparr>"

lemma served_valid: "validate demo_config = (served_config, None)"
  using demo_config_valid by (simp add: served_config_def prod_eq_iff)

lemma served_plain:
  "auth_jwt_secret (c_auth served_config) = []" "\<not> adm_enabled (c_admin served_config)"
  "listener_list served_config =
     [\<lparr>l_address = '':8080'', l_tls = False, l_cert_path = [], l_key_path = [],
       l_client_ca = [], l_http3 = False, l_allow_0rtt = False\<rparr>]"
  unfolding served_config_def by code_simp+

theorem unconfigured_api_is_open_witness:
  "\<exists>st'. front_door True served_config demo_world wit_world (mgmt_options None [] served_config) silent_decoder
     (front_request ''/api/v1/sites'') served_state = (st', ApiReply (Some (200, SitesBody (map to_site_dto (c_sites served_config)))))"
proof -
  let ?r = "front_request ''/api/v1/sites''" and ?cm = "\<lparr>cm_sub = [], cm_iat = 0, cm_exp = 5\<rparr>"
  obtain u where u: "req_url ?r = Some u" "mux_find api_table (req_method ?r) u = RouteTo EpListSites []"
    by (rule that, simp add: front_request_def, simp add: front_request_def wit_request_def, code_simp)
  have "request_token ?r = wit_token"
    by (rule wit_request_token(1)) (simp add: front_request_def)
  with u have front: "front_door True served_config demo_world wit_world (mgmt_options None [] served_config) silent_decoder ?r served_state =
      (case run_call wit_world (mgmt_options None [] served_config) ?r (call_of silent_decoder ?r EpListSites []) (counted wit_world ?r served_state)
       of (st', resp) \<Rightarrow> (st', ApiReply resp))"
    by (intro conjunct1 [OF unconfigured_api_is_open [OF served_valid served_plain(1,2) refl _ _ _ u,
          where w = wit_world and forged = ?cm]])
       (simp_all add: wit_token_def wit_world_def demo_codec_def over_limit_def count_request_def
          served_state_def wit_state_def)
  then show ?thesis
    by (simp add: list_sites_def with_config_def live_config_def counted_def served_state_def wit_state_def reply_def)
qed

theorem unclean_path_not_inspected_witness:
  "\<exists>p. front_door True served_config demo_world wit_world wit_opts silent_decoder (front_request ''/a/../b'') served_state =
     (served_state, MuxMoved p [])"
proof -
  let ?r = "front_request ''/a/../b''"
  obtain u where u: "req_url ?r = Some u" "url_raw_query u = []" "url_path u \<noteq> ''*''"
      "clean_path (url_escaped u) \<noteq> url_escaped u"
    by (rule that, simp add: front_request_def, simp_all) code_simp+
  have "req_method ?r \<noteq> ''CONNECT''" by (simp add: front_request_def wit_request_def)
  from unclean_path_not_inspected [OF u(1) this u(3,4) served_plain(2),
      where c' = "served_config\<lparr>c_admin := (c_admin served_config)\<lparr>adm_enabled := True\<rparr>\<rparr>"] u(2)
  show ?thesis by fastforce
qed

definition willing_world :: start_world where
  "willing_world =
     \<lparr>sw_plugins = (\<lambda>_. None), sw_gateway = (\<lambda>_. None), sw_open_db = (\<lambda>_. True), sw_self_signed = (\<lambda>_ _. True),
      sw_listen = (\<lambda>_. True), sw_key_pair = (\<lambda>_ _. True), sw_listen_udp = (\<lambda>_. True)\<rparr>"

theorem starts_what_is_configured_witness:
  "su_agent (plan True served_config) = None \<and> su_api_on_front (plan True served_config)"
proof -
  have "agt_enabled (c_agent served_config) = False" "c_db_path served_config = []"
    "plug_dir (c_plugins served_config) = []" unfolding served_config_def by code_simp+
  then have "start_main willing_world True served_config = Ok (plan True served_config)"
    by (simp add: start_main_def plan_def nonempty_def start_agent_def willing_world_def check_def served_plain(3))
  from starts_what_is_configured [OF served_valid this] \<open>agt_enabled (c_agent served_config) = False\<close> served_plain(2)
  show ?thesis by (simp add: plan_def)
qed

end
