(* ===== verification/Listeners.thy ===== *)
theory Listeners
  imports Gateway
begin

text \<open>
  What surrounds the gateway's handler: the accepting side of its listeners (listener.go and
  http3.go in internal/proxy), the self-made certificate of the agent service
  (internal/agent/certs.go) and the optional eBPF pre-filter (internal/ebpf). Sockets, QUIC,
  TLS, X.509 and the file system are arguments.
\<close>

subsection \<open>Accepting a connection (listener.go)\<close>

text \<open>
  What the server is handed: a bare connection, one whose hello was captured, or TLS on top of
  either.
\<close>

datatype net_conn = BareConn "byte list" | CapturedConn conn | TlsConn net_conn

datatype accept_error = AcceptFailed

text \<open>Capturing runs inside \<open>Accept\<close>: a panic of the hello parser is a panic of the accept loop.\<close>

definition accept :: "bool \<Rightarrow> byte list option \<Rightarrow> (accept_error, net_conn) go" where
  "accept enabled next_conn =
     (case next_conn of
        None \<Rightarrow> Fail AcceptFailed
      | Some bytes \<Rightarrow>
          if \<not> enabled then Ok (BareConn bytes)
          else (case wrap_conn bytes of Ok c \<Rightarrow> Ok (CapturedConn c) | _ \<Rightarrow> Panic))"

record conn_ctx =
  cc_hello :: "client_hello option"
  cc_zero_rtt :: "bool option"

definition empty_conn_ctx :: conn_ctx where
  "empty_conn_ctx = \<lparr>cc_hello = None, cc_zero_rtt = None\<rparr>"

definition conn_context :: "conn_ctx \<Rightarrow> net_conn \<Rightarrow> conn_ctx" where
  "conn_context ctx c =
     (let fc = (case c of CapturedConn v \<Rightarrow> Some v | TlsConn (CapturedConn v) \<Rightarrow> Some v | _ \<Rightarrow> None)
      in case fc of
           None \<Rightarrow> ctx
         | Some v \<Rightarrow> (case cn_hello v of None \<Rightarrow> ctx | Some h \<Rightarrow> ctx\<lparr>cc_hello := Some h\<rparr>))"

subsection \<open>HTTP/3 (http3.go)\<close>

definition zero_rtt :: "conn_ctx \<Rightarrow> bool" where
  "zero_rtt ctx \<longleftrightarrow> cc_zero_rtt ctx = Some True"

definition h3_conn_context :: "bool \<Rightarrow> conn_ctx \<Rightarrow> conn_ctx" where
  "h3_conn_context used_0rtt ctx = ctx\<lparr>cc_zero_rtt := Some used_0rtt\<rparr>"

definition is_http3 :: "request \<Rightarrow> bool" where
  "is_http3 r \<longleftrightarrow> req_proto_major r = 3"

record tls_config =
  tls_min :: nat
  tls_protos :: "string list"

definition h3_tls_config :: "tls_config \<Rightarrow> tls_config" where
  "h3_tls_config base =
     (let c = base\<lparr>tls_min := 0x0304\<rparr> in
      if ''h3'' \<in> set (tls_protos c) then c else c\<lparr>tls_protos := ''h3'' # tls_protos c\<rparr>)"

text \<open>An address that cannot be resolved becomes \<open>0.0.0.0:0\<close>, a port of the system's choice.\<close>

definition resolve_udp_addr :: "(string \<Rightarrow> (string \<times> nat) option) \<Rightarrow> string \<Rightarrow> string \<times> nat" where
  "resolve_udp_addr resolve a = (case resolve a of None \<Rightarrow> (''0.0.0.0'', 0) | Some x \<Rightarrow> x)"

record http3_server =
  h3_config_addr :: string
  h3_bound :: "string \<times> nat"
  h3_tls :: tls_config
  h3_allow_0rtt :: bool

text \<open>\<open>bind\<close> is \<open>net.ListenUDP\<close>, which tells the address it bound.\<close>

definition start_http3 ::
    "(string \<Rightarrow> (string \<times> nat) option) \<Rightarrow> (string \<times> nat \<Rightarrow> (string \<times> nat) option) \<Rightarrow>
     string \<Rightarrow> tls_config \<Rightarrow> bool \<Rightarrow> http3_server option" where
  "start_http3 resolve bind a tls allow =
     map_option (\<lambda>b. \<lparr>h3_config_addr = a, h3_bound = b, h3_tls = h3_tls_config tls, h3_allow_0rtt = allow\<rparr>)
       (bind (resolve_udp_addr resolve a))"

text \<open>The world of one request over TCP or QUIC, as the connection's context has it.\<close>

definition world_of_conn :: "conn_ctx \<Rightarrow> 'b world \<Rightarrow> 'b world" where
  "world_of_conn ctx w = w\<lparr>wd_hello := cc_hello ctx, wd_zero_rtt := zero_rtt ctx\<rparr>"

subsection \<open>The self-made certificate (certs.go)\<close>

type_synonym disk = "string \<Rightarrow> string option"

datatype cert_error =
  MkdirError | KeyGenError | SerialError | CertError | CreateError | EncodeError | KeyEncodeError

record cert_world =
  cw_mkdir :: bool
  cw_keygen :: bool
  cw_serial :: bool
  cw_sign :: "string option"
  cw_create :: bool
  cw_pem_cert :: bool
  cw_key :: "string option"
  cw_open_key :: bool
  cw_pem_key :: bool

definition file_exists :: "disk \<Rightarrow> string \<Rightarrow> bool" where
  "file_exists d p \<longleftrightarrow> d p \<noteq> None"

text \<open>
  The certificate is on disk before the key is encoded: a failure in between leaves a new
  certificate beside an old key or none. A write that fails leaves the truncated file.
\<close>

definition self_signed :: "cert_world \<Rightarrow> string \<Rightarrow> string \<Rightarrow> disk \<Rightarrow> disk \<times> cert_error option" where
  "self_signed w cert key d =
     (if file_exists d cert \<and> file_exists d key then (d, None)
      else if \<not> cw_mkdir w then (d, Some MkdirError)
      else if \<not> cw_keygen w then (d, Some KeyGenError)
      else if \<not> cw_serial w then (d, Some SerialError)
      else (case cw_sign w of
              None \<Rightarrow> (d, Some CertError)
            | Some der \<Rightarrow>
                if \<not> cw_create w then (d, Some CreateError)
                else if \<not> cw_pem_cert w then (d(cert \<mapsto> []), Some EncodeError)
                else let d1 = d(cert \<mapsto> der) in
                  (case cw_key w of
                     None \<Rightarrow> (d1, Some KeyEncodeError)
                   | Some kb \<Rightarrow>
                       if \<not> cw_open_key w then (d1, Some CreateError)
                       else if \<not> cw_pem_key w then (d1(key \<mapsto> []), Some EncodeError)
                       else (d1(key \<mapsto> kb), None))))"

subsection \<open>The eBPF pre-filter (ebpf.go)\<close>

datatype probe_error = NeedsRoot | NoBpffs

datatype filter_reason = DisabledByConfig | Unsupported probe_error | NoDevice | NoProgram

record 'p ebpf_filter =
  ef_enabled :: bool
  ef_reason :: filter_reason
  ef_program :: "'p option"

definition probe_support :: "int \<Rightarrow> bool \<Rightarrow> probe_error option" where
  "probe_support euid bpffs =
     (if euid \<noteq> 0 then Some NeedsRoot else if \<not> bpffs then Some NoBpffs else None)"

definition new_filter :: "int \<Rightarrow> bool \<Rightarrow> ebpf_config \<Rightarrow> 'p ebpf_filter" where
  "new_filter euid bpffs cfg =
     (let off = (\<lambda>why. \<lparr>ef_enabled = False, ef_reason = why, ef_program = None\<rparr>) in
      if \<not> ebpf_enabled cfg then off DisabledByConfig
      else (case probe_support euid bpffs of
              Some e \<Rightarrow> off (Unsupported e)
            | None \<Rightarrow> if ebpf_device cfg = [] then off NoDevice else off NoProgram))"

definition should_drop :: "'p ebpf_filter \<Rightarrow> bool" where
  "should_drop f = False"

definition filter_close :: "'p ebpf_filter \<Rightarrow> 'p ebpf_filter" where
  "filter_close f = f\<lparr>ef_program := None\<rparr>"

subsection \<open>The fingerprint of a connection\<close>

text \<open>What the first record of the stream says, read directly off the bytes.\<close>

definition first_hello :: "byte list \<Rightarrow> (hello_error, client_hello) go option" where
  "first_hello bytes =
     (let n = len16 (bytes ! 3) (bytes ! 4) in
      if 5 \<le> length bytes \<and> bytes ! 0 = 0x16 \<and> 0 < n \<and> 5 + n \<le> 4096 \<and> 5 + n \<le> length bytes
      then Some (parse_client_hello (take (5 + n) bytes)) else None)"

fun wire :: "net_conn \<Rightarrow> byte list" where
  "wire (BareConn bytes) = bytes"
| "wire (CapturedConn c) = conn_stream c"
| "wire (TlsConn c) = wire c"

lemma len16_bound: "len16 a b \<le> 65535"
proof -
  have "unat a < 256" "unat b < 256" using unsigned_less [of a, where ?'a = nat] unsigned_less [of b, where ?'a = nat] by simp_all
  then show ?thesis unfolding len16_def by linarith
qed

definition read_upto :: "nat \<Rightarrow> byte list \<Rightarrow> conn" where
  "read_upto k bytes = \<lparr>cn_buffered = take k bytes, cn_incoming = drop k bytes, cn_hello = None\<rparr>"

lemma read_upto_0: "\<lparr>cn_buffered = [], cn_incoming = bytes, cn_hello = None\<rparr> = read_upto 0 bytes"
  by (simp add: read_upto_def)

lemma peek_read_upto:
  "\<exists>m. peek (read_upto k bytes) n =
     (read_upto m bytes, if n \<le> 4096 \<and> n \<le> length bytes then Some (take n bytes) else None)"
proof -
  let ?need = "min n 4096 - length (take k bytes)"
  let ?m = "if k \<le> length bytes then k + ?need else k"
  have "take k bytes @ take ?need (drop k bytes) = take ?m bytes" "drop ?need (drop k bytes) = drop ?m bytes"
    by (auto simp: take_add ac_simps)
  then have "peek (read_upto k bytes) n =
      (read_upto ?m bytes, if n \<le> 4096 \<and> n \<le> length bytes then Some (take n bytes) else None)"
    by (auto simp: peek_def read_upto_def Let_def min_def)
  then show ?thesis by blast
qed

lemma conn_capture_fresh:
  "(\<exists>m. conn_capture (read_upto 0 bytes) =
      (case first_hello bytes of
         Some Panic \<Rightarrow> Panic | Some (Ok h) \<Rightarrow> Ok (read_upto m bytes, Some h) | _ \<Rightarrow> Ok (read_upto m bytes, None)))"
proof -
  obtain m1 where p1: "peek (read_upto 0 bytes) 5 =
      (read_upto m1 bytes, if 5 \<le> length bytes then Some (take 5 bytes) else None)"
    using peek_read_upto [of 0 bytes 5] by auto
  let ?n = "len16 (bytes ! 3) (bytes ! 4)"
  obtain m2 where p2: "peek (read_upto m1 bytes) (5 + ?n) =
      (read_upto m2 bytes, if 5 + ?n \<le> 4096 \<and> 5 + ?n \<le> length bytes then Some (take (5 + ?n) bytes) else None)"
    using peek_read_upto [of m1 bytes "5 + ?n"] by auto
  have bound: "\<not> 1048576 < ?n" using len16_bound [of "bytes ! 3" "bytes ! 4"] by simp
  show ?thesis
  proof (cases "5 \<le> length bytes \<and> bytes ! 0 = 0x16 \<and> 0 < ?n")
    case False
    with p1 bound show ?thesis by (auto simp: conn_capture_def first_hello_def Let_def)
  next
    case True
    with p1 p2 bound show ?thesis
      by (auto simp: conn_capture_def first_hello_def Let_def split: go.split)
  qed
qed

text \<open>
  C28. From the wire to the audit record: a connection accepted on a TLS listener leaves its
  stream to the TLS library untouched, and every request on it is inspected with the JA4 of the
  hello in its first record when that record is complete and fits the 4096 bytes that are
  peeked, and without a fingerprint otherwise. The accept loop panics exactly when the parser
  does.
\<close>

theorem connection_fingerprint:
  "(accept True (Some bytes) = Panic \<longleftrightarrow> first_hello bytes = Some Panic) \<and>
   (\<forall>c. accept True (Some bytes) = Ok c \<longrightarrow>
      wire c = bytes \<and>
      x_ja4 (initial_ctx (world_of_conn (conn_context empty_conn_ctx (TlsConn c)) w) r s u) =
        (case first_hello bytes of Some (Ok h) \<Rightarrow> ja4 (wd_sha w) h | _ \<Rightarrow> []))"
proof -
  from conn_capture_fresh obtain m where "conn_capture (read_upto 0 bytes) =
      (case first_hello bytes of
         Some Panic \<Rightarrow> Panic | Some (Ok h) \<Rightarrow> Ok (read_upto m bytes, Some h) | _ \<Rightarrow> Ok (read_upto m bytes, None))"
    by blast
  then have "accept True (Some bytes) =
      (case first_hello bytes of
         Some Panic \<Rightarrow> Panic
       | Some (Ok h) \<Rightarrow> Ok (CapturedConn (read_upto m bytes\<lparr>cn_hello := Some h\<rparr>))
       | _ \<Rightarrow> Ok (CapturedConn (read_upto m bytes\<lparr>cn_hello := None\<rparr>)))"
    by (auto simp: accept_def wrap_conn_def read_upto_0 split: option.split go.split)
  then show ?thesis
    by (auto simp: initial_ctx_def world_of_conn_def conn_context_def empty_conn_ctx_def conn_stream_def
        read_upto_def Let_def split: option.splits go.splits)
qed

theorem connection_fingerprint_witness:
  "\<exists>c. accept True (Some [0x17, 3, 1, 0, 5]) = Ok c \<and> wire c = [0x17, 3, 1, 0, 5]"
proof -
  obtain c where c: "accept True (Some [0x17, 3, 1, 0, 5]) = Ok c"
    by (simp add: accept_def wrap_conn_def conn_capture_def peek_def Let_def)
  with connection_fingerprint [of "[0x17, 3, 1, 0, 5]" undefined undefined undefined undefined]
  show ?thesis by blast
qed

subsection \<open>HTTP/3 and the pre-filter\<close>

text \<open>The QUIC configuration offers h3, keeps what was offered, and is TLS 1.3 only.\<close>

lemma h3_tls_config_offers:
  "''h3'' \<in> set (tls_protos (h3_tls_config t))" "set (tls_protos t) \<subseteq> set (tls_protos (h3_tls_config t))"
  "tls_min (h3_tls_config t) = 0x0304" "h3_tls_config (h3_tls_config t) = h3_tls_config t"
  by (auto simp: h3_tls_config_def Let_def)

text \<open>Without a precompiled program no configuration and no host gives a filter that drops.\<close>

lemma filter_is_noop:
  "\<not> ef_enabled (new_filter euid bpffs cfg)" "\<not> should_drop (new_filter euid bpffs cfg)"
  "filter_close (new_filter euid bpffs cfg) = new_filter euid bpffs cfg"
  by (simp_all add: new_filter_def should_drop_def filter_close_def Let_def split: option.split)

subsection \<open>The certificate pair\<close>

lemma self_signed_ok:
  assumes "self_signed w cert key d = (d', None)"
  shows "file_exists d' cert \<and> file_exists d' key"
    and "d' = d \<or> (\<exists>der kb. cw_sign w = Some der \<and> cw_key w = Some kb \<and> d' = d(cert \<mapsto> der, key \<mapsto> kb))"
  using assms
  by (auto simp: self_signed_def file_exists_def Let_def split: if_splits option.splits)

lemma self_signed_existing:
  "file_exists d cert \<Longrightarrow> file_exists d key \<Longrightarrow> self_signed w cert key d = (d, None)"
  by (simp add: self_signed_def)

lemma self_signed_failed:
  assumes "self_signed w cert key d = (d', Some err)" "d' \<noteq> d" "file_exists d key"
  shows "d cert = None \<and> file_exists d' cert \<and> file_exists d' key"
proof -
  from assms(1,2) have "\<not> (file_exists d cert \<and> file_exists d key)" by (auto simp: self_signed_def)
  with assms(3) have none: "d cert = None" by (simp add: file_exists_def)
  from assms(1,2) consider x where "d' = d(cert \<mapsto> x)" | x y where "d' = d(cert \<mapsto> x, key \<mapsto> y)"
    unfolding self_signed_def Let_def
    by (auto split: if_split_asm option.split_asm)
  then show ?thesis using none assms(3) by cases (auto simp: file_exists_def)
qed

text \<open>
  The certificate of the agent service: a run that succeeds leaves both files, and either
  both are the old ones or both are new and of one key. A run that fails after it has written
  the certificate beside an older key leaves a pair that does not belong together, which every
  later start takes for the existing one and keeps.
\<close>

theorem self_signed_pair:
  assumes "self_signed w cert key d = (d', e)" and "cert \<noteq> key"
  shows "(e = None \<longrightarrow> file_exists d' cert \<and> file_exists d' key \<and>
      (d' = d \<or> (\<exists>der kb. cw_sign w = Some der \<and> cw_key w = Some kb \<and> d' = d(cert \<mapsto> der, key \<mapsto> kb)))) \<and>
    (e \<noteq> None \<and> d' \<noteq> d \<and> file_exists d key \<longrightarrow>
      d' cert \<noteq> d cert \<and> (\<forall>w'. self_signed w' cert key d' = (d', None)))"
proof (cases e)
  case None
  with assms self_signed_ok show ?thesis by simp
next
  case (Some err)
  then have "d' cert \<noteq> d cert \<and> (\<forall>w'. self_signed w' cert key d' = (d', None))"
    if "d' \<noteq> d" "file_exists d key"
  proof -
    from assms(1) Some have "self_signed w cert key d = (d', Some err)" by simp
    from self_signed_failed [OF this that] show ?thesis
      by (metis file_exists_def self_signed_existing)
  qed
  with Some show ?thesis by simp
qed

definition read_only_key :: cert_world where
  "read_only_key =
     \<lparr>cw_mkdir = True, cw_keygen = True, cw_serial = True, cw_sign = Some ''new'', cw_create = True,
      cw_pem_cert = True, cw_key = Some ''key'', cw_open_key = False, cw_pem_key = True\<rparr>"

theorem self_signed_pair_witness:
  "self_signed read_only_key ''c'' ''k'' [''c'' \<mapsto> ''new'', ''k'' \<mapsto> ''old''] =
     ([''c'' \<mapsto> ''new'', ''k'' \<mapsto> ''old''], None)"
proof -
  have run: "self_signed read_only_key ''c'' ''k'' [''k'' \<mapsto> ''old''] =
      ([''k'' \<mapsto> ''old'', ''c'' \<mapsto> ''new''], Some CreateError)"
    by (simp add: self_signed_def file_exists_def read_only_key_def)
  have "[''k'' \<mapsto> ''old'', ''c'' \<mapsto> ''new''] \<noteq> [''k'' \<mapsto> ''old'']"
    by (auto dest: fun_cong [of _ _ "''c''"])
  with self_signed_pair [OF run] have "self_signed read_only_key ''c'' ''k'' [''k'' \<mapsto> ''old'', ''c'' \<mapsto> ''new''] =
      ([''k'' \<mapsto> ''old'', ''c'' \<mapsto> ''new''], None)" by (simp add: file_exists_def)
  then show ?thesis by (simp add: fun_upd_twist [of "''c''" "''k''"])
qed

end
