(* ===== verification/RelaySession.thy ===== *)
theory RelaySession
  imports WebSocket
begin

text \<open>
  The two goroutines of \<open>Relay\<close> (relay.go) as one session: the inspected direction from the
  client and the plain one from the backend share the client's connection. A step is one read
  of a frame (with its inspection and what it sends to the backend, which nobody else writes
  to) or one \<open>Write\<close> to the client, so a schedule is a list of such steps.
\<close>

subsection \<open>The session\<close>

record 'b session_state =
  dx_left :: "'b relay"
  dx_left_todo :: "byte list list"
  dx_left_end :: "ws_error option"
  dx_right_in :: "byte list"
  dx_right_todo :: "byte list list"
  dx_right_end :: "ws_error option"

definition start_session :: "'b relay \<Rightarrow> byte list \<Rightarrow> 'b session_state" where
  "start_session l server =
     \<lparr>dx_left = l, dx_left_todo = [], dx_left_end = None,
      dx_right_in = server, dx_right_todo = [], dx_right_end = None\<rparr>"

text \<open>The writes of a frame towards the client: the header, then the payload.\<close>

definition client_writes :: "frame \<Rightarrow> byte list list" where
  "client_writes f = [frame_header f False, fr_payload f]"

definition client_out :: "'b session_state \<Rightarrow> sink" where
  "client_out d = rl_client_out (dx_left d)"

definition set_client_out :: "sink \<Rightarrow> 'b session_state \<Rightarrow> 'b session_state" where
  "set_client_out s d = d\<lparr>dx_left := (dx_left d)\<lparr>rl_client_out := s\<rparr>\<rparr>"

datatype turn = LeftRead | LeftWrite | RightRead | RightWrite

text \<open>
  \<open>None\<close>: the goroutine is not there now. Errors of the close frame's writes are ignored, an
  error of a forwarded frame ends its direction. A rejected frame ends the left direction once
  the close frame is written.
\<close>

fun session_turn :: "'b relay_env \<Rightarrow> turn \<Rightarrow> 'b session_state \<Rightarrow> (unit, 'b session_state) go option" where
  "session_turn env LeftRead d =
     (if dx_left_end d \<noteq> None then None
      else Some (case relay_step env (dx_left d) of
             Ok (l, None) \<Rightarrow> Ok (d\<lparr>dx_left := l\<rparr>)
           | Ok (l, Some e) \<Rightarrow>
               Ok (d\<lparr>dx_left := l\<lparr>rl_client_out := client_out d\<rparr>, dx_left_end := Some e,
                     dx_left_todo := (if e = Rejected then client_writes (close_frame False) else [])\<rparr>)
           | Fail u \<Rightarrow> Fail u
           | Panic \<Rightarrow> Panic))"
| "session_turn env LeftWrite d =
     (case dx_left_todo d of
        [] \<Rightarrow> None
      | b # bs \<Rightarrow>
          (case w_write (client_out d) b of
             (s, ok) \<Rightarrow> Some (Ok ((set_client_out s d)\<lparr>dx_left_todo := (if ok then bs else [])\<rparr>))))"
| "session_turn env RightRead d =
     (if dx_right_end d \<noteq> None \<or> dx_right_todo d \<noteq> [] then None
      else Some (case read_frame (dx_right_in d) of
             Ok (f, rest) \<Rightarrow> Ok (d\<lparr>dx_right_in := rest, dx_right_todo := client_writes f\<rparr>)
           | Fail e \<Rightarrow> Ok (d\<lparr>dx_right_end := Some e\<rparr>)
           | Panic \<Rightarrow> Panic))"
| "session_turn env RightWrite d =
     (case dx_right_todo d of
        [] \<Rightarrow> None
      | b # bs \<Rightarrow>
          (case w_write (client_out d) b of
             (s, True) \<Rightarrow> Some (Ok ((set_client_out s d)\<lparr>dx_right_todo := bs\<rparr>))
           | (s, False) \<Rightarrow>
               Some (Ok ((set_client_out s d)\<lparr>dx_right_todo := [], dx_right_end := Some WriteError\<rparr>))))"

text \<open>\<open>Relay\<close> waits for both goroutines.\<close>

definition relay_returned :: "'b session_state \<Rightarrow> bool" where
  "relay_returned d \<longleftrightarrow>
     dx_left_end d \<noteq> None \<and> dx_left_todo d = [] \<and> dx_right_end d \<noteq> None \<and> dx_right_todo d = []"

inductive session_step :: "'b relay_env \<Rightarrow> 'b session_state \<Rightarrow> 'b session_state \<Rightarrow> bool" for env where
  turn: "session_turn env a d = Some (Ok d') \<Longrightarrow> session_step env d d'"

inductive session_reach :: "'b relay_env \<Rightarrow> 'b session_state \<Rightarrow> 'b session_state \<Rightarrow> bool" for env d0 where
  start: "session_reach env d0 d0"
| step: "session_reach env d0 d \<Longrightarrow> session_step env d d' \<Longrightarrow> session_reach env d0 d'"

text \<open>A schedule, for concrete runs.\<close>

fun run_turns :: "'b relay_env \<Rightarrow> turn list \<Rightarrow> 'b session_state \<Rightarrow> 'b session_state option" where
  "run_turns env [] d = Some d"
| "run_turns env (a # as) d =
     (case session_turn env a d of Some (Ok d') \<Rightarrow> run_turns env as d' | _ \<Rightarrow> None)"

lemma run_turns_reach: "run_turns env as d = Some d' \<Longrightarrow> session_reach env d0 d \<Longrightarrow> session_reach env d0 d'"
proof (induction as arbitrary: d)
  case (Cons a as)
  from Cons.prems(1) obtain e where "session_turn env a d = Some (Ok e)" "run_turns env as e = Some d'"
    by (auto split: option.splits go.splits)
  with Cons.IH [OF this(2)] Cons.prems(2) show ?case by (blast intro: turn step)
qed simp

lemma session_step_cases:
  assumes "session_step env d d'"
  obtains (left) "session_turn env LeftRead d = Some (Ok d')"
    | (lwrite) b bs s ok where "dx_left_todo d = b # bs" "w_write (client_out d) b = (s, ok)"
        "d' = (set_client_out s d)\<lparr>dx_left_todo := (if ok then bs else [])\<rparr>"
    | (right) f rest where "dx_right_end d = None" "dx_right_todo d = []" "read_frame (dx_right_in d) = Ok (f, rest)"
        "d' = d\<lparr>dx_right_in := rest, dx_right_todo := client_writes f\<rparr>"
    | (rend) e where "dx_right_end d = None" "dx_right_todo d = []" "d' = d\<lparr>dx_right_end := Some e\<rparr>"
    | (rwrite) b bs s where "dx_right_todo d = b # bs" "w_write (client_out d) b = (s, True)"
        "d' = (set_client_out s d)\<lparr>dx_right_todo := bs\<rparr>"
    | (rfail) b bs s where "dx_right_todo d = b # bs" "w_write (client_out d) b = (s, False)"
        "d' = (set_client_out s d)\<lparr>dx_right_todo := [], dx_right_end := Some WriteError\<rparr>"
proof -
  from assms obtain a where a: "session_turn env a d = Some (Ok d')" by (auto elim: session_step.cases)
  show ?thesis
  proof (cases a)
    case LeftRead
    with a left show ?thesis by simp
  next
    case LeftWrite
    with a obtain b bs where b: "dx_left_todo d = b # bs" by (auto split: list.splits)
    obtain s ok where "w_write (client_out d) b = (s, ok)" by fastforce
    with a b LeftWrite lwrite [OF b this] show ?thesis by simp
  next
    case RightRead
    with a have "dx_right_end d = None" "dx_right_todo d = []" by (auto split: if_splits)
    with a RightRead right rend show ?thesis by (cases "read_frame (dx_right_in d)") auto
  next
    case RightWrite
    with a obtain b bs where b: "dx_right_todo d = b # bs" by (auto split: list.splits)
    obtain s ok where "w_write (client_out d) b = (s, ok)" by fastforce
    with a b RightWrite rwrite [OF b, of s] rfail [OF b, of s] show ?thesis by (cases ok) simp_all
  qed
qed

subsection \<open>The inspected direction under every schedule\<close>

text \<open>What the left direction alone would end with; the client's sink, which both write, aside.\<close>

definition core :: "'b relay \<Rightarrow> 'b relay" where
  "core l = l\<lparr>rl_client_out := fresh_sink\<rparr>"

definition left_outcome :: "'b relay_env \<Rightarrow> 'b relay \<Rightarrow> (unit, 'b relay \<times> ws_error) go" where
  "left_outcome env l = go_bind (relay_client_to_backend env l) (\<lambda>(l', e). Ok (core l', e))"

lemma core_simps [simp]:
  "core (l\<lparr>rl_client_out := c\<rparr>) = core l" "rl_backend_out (core l) = rl_backend_out l"
  "rl_violations (core l) = rl_violations l" "rl_in (core l) = rl_in l"
  by (simp_all add: core_def)

lemma to_backend_core:
  "core (fst (to_backend env l f)) = fst (to_backend env (core l) f)"
  "snd (to_backend env l f) = snd (to_backend env (core l) f)"
  by (simp_all add: to_backend_def core_def split: prod.split)

text \<open>Nothing the left direction does depends on what was written to the client.\<close>

definition same_core :: "(unit, 'b relay \<times> 'e) go \<Rightarrow> (unit, 'b relay \<times> 'e) go \<Rightarrow> bool" where
  "same_core x y \<longleftrightarrow> go_bind x (\<lambda>p. Ok (core (fst p), snd p)) = go_bind y (\<lambda>p. Ok (core (fst p), snd p))"

lemma same_core_to_backend:
  "core l = core m \<Longrightarrow> same_core (Ok (to_backend env l f)) (Ok (to_backend env m f))"
  using to_backend_core [of env l f] to_backend_core [of env m f] by (simp add: same_core_def)

lemma same_core_closed:
  "core l = core m \<Longrightarrow> same_core (Ok (fst (to_backend env l f), e)) (Ok (fst (to_backend env m f), e))"
  using to_backend_core(1) [of env l f] to_backend_core(1) [of env m f] by (simp add: same_core_def)

lemma same_core_bind: "(\<And>x. same_core (f x) (g x)) \<Longrightarrow> same_core (go_bind m f) (go_bind m g)"
  by (cases m) (simp_all add: same_core_def)

lemma relay_step_client_out: "same_core (relay_step env (l\<lparr>rl_client_out := c\<rparr>)) (relay_step env l)"
proof (cases "read_frame (rl_in l)")
  case (Ok r)
  obtain f rest where r: "read_frame (rl_in l) = Ok (f, rest)" using Ok by (cases r) simp
  then have "read_frame (rl_in (l\<lparr>rl_client_out := c\<rparr>)) = Ok (f, rest)" by simp
  from relay_step_cases [OF r] relay_step_cases [OF this] show ?thesis
    by (auto simp: Let_def core_def intro!: same_core_bind same_core_to_backend same_core_closed)
qed (simp_all add: relay_step_def same_core_def)

lemma left_outcome_step:
  "relay_step env l = Ok (l', None) \<Longrightarrow> left_outcome env l = left_outcome env l'"
  "relay_step env l = Ok (l', Some e) \<Longrightarrow> left_outcome env l = Ok (core l', e)"
  by (simp_all add: left_outcome_def relay_client_to_backend.simps [of env l])

lemma left_outcome_client_out: "left_outcome env (l\<lparr>rl_client_out := c\<rparr>) = left_outcome env l"
proof (induction "length (rl_in l)" arbitrary: l c rule: less_induct)
  case less
  show ?case
  proof (cases "relay_step env l")
    case (Ok r)
    obtain l' e where r: "r = (l', e)" by (cases r)
    from relay_step_client_out [of env c l] Ok r obtain m where
      m: "relay_step env (l\<lparr>rl_client_out := c\<rparr>) = Ok (m, e)" "core m = core l'"
      by (cases "relay_step env (l\<lparr>rl_client_out := c\<rparr>)") (auto simp: same_core_def)
    then have "m = l'\<lparr>rl_client_out := rl_client_out m\<rparr>" by (cases m; cases l'; simp add: core_def)
    with m Ok r less relay_step_progress [of env l l'] show ?thesis
      by (cases e) (metis left_outcome_step(1), simp add: left_outcome_step(2))
  next
    case (Fail u)
    with relay_step_client_out [of env c l] show ?thesis
      by (cases "relay_step env (l\<lparr>rl_client_out := c\<rparr>)")
         (auto simp: same_core_def left_outcome_def relay_client_to_backend.simps [of env l]
           relay_client_to_backend.simps [of env "l\<lparr>rl_client_out := c\<rparr>"])
  next
    case Panic
    with relay_step_client_out [of env c l] show ?thesis
      by (cases "relay_step env (l\<lparr>rl_client_out := c\<rparr>)")
         (auto simp: same_core_def left_outcome_def relay_client_to_backend.simps [of env l]
           relay_client_to_backend.simps [of env "l\<lparr>rl_client_out := c\<rparr>"])
  qed
qed

definition left_rest :: "'b relay_env \<Rightarrow> 'b session_state \<Rightarrow> (unit, 'b relay \<times> ws_error) go" where
  "left_rest env d =
     (case dx_left_end d of None \<Rightarrow> left_outcome env (dx_left d) | Some e \<Rightarrow> Ok (core (dx_left d), e))"

lemma set_client_out_simps [simp]:
  "dx_left_end (set_client_out s d) = dx_left_end d" "dx_right_in (set_client_out s d) = dx_right_in d"
  "dx_left (set_client_out s d) = (dx_left d)\<lparr>rl_client_out := s\<rparr>"
  "dx_right_end (set_client_out s d) = dx_right_end d" "dx_right_todo (set_client_out s d) = dx_right_todo d"
  "dx_left_todo (set_client_out s d) = dx_left_todo d" "client_out (set_client_out s d) = s"
  by (simp_all add: set_client_out_def client_out_def)

lemma left_rest_step:
  assumes "session_step env d d'"
  shows "left_rest env d' = left_rest env d"
  using assms
proof (cases rule: session_step_cases)
  case left
  then obtain l e where "dx_left_end d = None" "relay_step env (dx_left d) = Ok (l, e)"
    by (auto split: if_splits go.splits)
  with left show ?thesis
    by (cases e) (auto simp: left_rest_def left_outcome_step)
qed (simp_all add: left_rest_def left_outcome_client_out split: option.split)

lemma left_rest_reach: "session_reach env d0 d \<Longrightarrow> left_rest env d = left_rest env d0"
  by (induction rule: session_reach.induct) (simp_all add: left_rest_step)

lemma write_frame_extends: "\<exists>bs. sk_bytes (fst (write_frame key w f)) = sk_bytes w @ bs"
  by (auto simp: write_frame_def write_frame_raw_def w_write_def
      split: option.split nat.split prod.split bool.split)

lemma to_backend_extends: "\<exists>bs. sk_bytes (rl_backend_out (fst (to_backend env l f))) = sk_bytes (rl_backend_out l) @ bs"
  using write_frame_extends [of "re_keys env (rl_draws l)" "rl_backend_out l" f]
  by (auto simp: to_backend_def split: prod.split)

lemma relay_step_extends:
  assumes "relay_step env l = Ok (l', e)"
  shows "\<exists>bs. sk_bytes (rl_backend_out l') = sk_bytes (rl_backend_out l) @ bs"
proof (cases "read_frame (rl_in l)")
  case (Ok r)
  obtain f rest where "read_frame (rl_in l) = Ok (f, rest)" using Ok by (cases r) simp
  from assms [unfolded relay_step_cases [OF this]] obtain m g where
    "rl_backend_out m = rl_backend_out l" "l' = fst (to_backend env m g)"
    by (auto simp: Let_def go_bind_Ok_iff split: if_splits) (metis fst_conv relay.select_convs(3) relay.surjective relay.update_convs)+
  with to_backend_extends [of env m g] show ?thesis by simp
next
  case (Fail x)
  with assms show ?thesis by (auto simp: relay_step_def)
next
  case Panic
  with assms show ?thesis by (simp add: relay_step_def)
qed

lemma left_outcome_extends:
  "left_outcome env l = Ok (l', e) \<Longrightarrow> \<exists>bs. sk_bytes (rl_backend_out l') = sk_bytes (rl_backend_out l) @ bs"
proof (induction "length (rl_in l)" arbitrary: l rule: less_induct)
  case less
  show ?case
  proof (cases "relay_step env l")
    case (Ok r)
    obtain m x where m: "relay_step env l = Ok (m, x)" using Ok by (cases r) simp
    from relay_step_extends [OF m] obtain bs where bs: "sk_bytes (rl_backend_out m) = sk_bytes (rl_backend_out l) @ bs" ..
    show ?thesis
    proof (cases x)
      case None
      with m less.prems have "left_outcome env m = Ok (l', e)" by (simp add: left_outcome_step(1))
      from less.hyps [OF _ this] relay_step_progress [of env l m] m None bs show ?thesis by auto
    next
      case (Some y)
      with m less.prems bs show ?thesis by (auto simp: left_outcome_step(2))
    qed
  qed (use less.prems in \<open>simp_all add: left_outcome_def relay_client_to_backend.simps [of env l]\<close>)
qed

text \<open>
  C30. Inspection holds under every schedule of the two directions: whenever the relay is looked
  at, the backend has received a beginning of bytes that decode to the frames the
  specification lets through, and when the client's direction has ended it has received all of
  them, every violation was reported, and the end is a rejection exactly when a frame failed.
\<close>

theorem every_schedule_inspects:
  assumes "keys_ok env" and "rl_client_out l = fresh_sink" and "rl_backend_out l = fresh_sink"
    and "relay_frames env (rl_limiter l) (rl_frames l) (decode_all dec_frame (rl_in l)) = Ok (out, viol, rej)"
    and "session_reach env (start_session l server) d"
  shows "\<exists>bs. decode_all dec_frame (sk_bytes (rl_backend_out (dx_left d)) @ bs) = out \<and>
    (dx_left_end d \<noteq> None \<longrightarrow> bs = [] \<and> rl_violations (dx_left d) = rl_violations l @ viol \<and>
       (dx_left_end d = Some Rejected \<longleftrightarrow> rej))"
proof -
  have "sinks_open l" using assms(2,3) by (simp add: sinks_open_def fresh_sink_def)
  from relay_refines_frames [OF assms(1) this, unfolded assms(4) go.case prod.case] assms(3)
  obtain l' e where l': "relay_client_to_backend env l = Ok (l', e)"
    "decode_all dec_frame (sk_bytes (rl_backend_out l')) = out"
    "rl_violations l' = rl_violations l @ viol" "e = Rejected \<longleftrightarrow> rej"
    by (auto simp: fresh_sink_def)
  have rest: "left_rest env d = Ok (core l', e)"
    using left_rest_reach [OF assms(5)] l'(1)
    by (simp add: left_rest_def start_session_def left_outcome_def)
  show ?thesis
  proof (cases "dx_left_end d")
    case None
    with rest left_outcome_extends [of env "dx_left d" "core l'" e] l'(2) show ?thesis
      by (auto simp: left_rest_def)
  next
    case (Some x)
    with rest have "core (dx_left d) = core l'" "x = e" by (simp_all add: left_rest_def)
    then have "rl_backend_out (dx_left d) = rl_backend_out l'" "rl_violations (dx_left d) = rl_violations l'"
      by (metis core_simps(2), metis core_simps(3))
    with Some \<open>x = e\<close> l' show ?thesis by (intro exI [of _ "[]"]) simp
  qed
qed

subsection \<open>The other direction\<close>

lemma relay_step_keeps_client:
  "relay_step env l = Ok (l', None) \<Longrightarrow> rl_client_out l' = rl_client_out l"
  by (auto simp: relay_step_def to_backend_def Let_def go_bind_Ok_iff
      split: go.splits if_splits option.splits prod.splits)

definition to_client :: "frame \<Rightarrow> byte list" where
  "to_client f = frame_bytes [] (f\<lparr>fr_masked := False\<rparr>)"

lemma client_writes_bytes: "concat (client_writes f) = to_client f"
proof -
  have "flag_bits (f\<lparr>fr_masked := False\<rparr>) = flag_bits f" by (simp add: flag_bits_def)
  then show ?thesis
    by (simp add: client_writes_def to_client_def frame_bytes_def frame_header_def Let_def)
qed

definition downstream_ok :: "byte list \<Rightarrow> 'b session_state \<Rightarrow> bool" where
  "downstream_ok server d \<longleftrightarrow>
     sk_left (client_out d) = None \<and>
     (dx_left_end d \<noteq> Some Rejected \<longrightarrow> dx_left_todo d = [] \<and>
        (\<exists>sent. decode_all dec_frame server = sent @ decode_all dec_frame (dx_right_in d) \<and>
           sk_bytes (client_out d) @ concat (dx_right_todo d) = concat (map to_client sent)))"

lemma w_write_open: "sk_left w = None \<Longrightarrow> w_write w b = (w\<lparr>sk_bytes := sk_bytes w @ b\<rparr>, True)"
  by (simp add: w_write_def)

lemma downstream_step:
  assumes "session_step env d d'" and "downstream_ok server d"
  shows "downstream_ok server d'"
  using assms(1)
proof (cases rule: session_step_cases)
  case left
  then obtain l e where "dx_left_end d = None" "relay_step env (dx_left d) = Ok (l, e)"
    by (auto split: if_splits go.splits)
  with left assms(2) relay_step_keeps_client [of env "dx_left d" l] show ?thesis
    by (cases e) (auto simp: downstream_ok_def client_out_def)
next
  case (right f rest)
  have "decode_all dec_frame (dx_right_in d) = f # decode_all dec_frame rest"
    by (rule frames.decode_all_Cons) (simp add: dec_frame_read [OF right(3)])
  then have "decode_all dec_frame server = sent @ decode_all dec_frame (dx_right_in d) \<Longrightarrow>
      decode_all dec_frame server = (sent @ [f]) @ decode_all dec_frame rest" for sent by simp
  moreover have "sk_bytes (client_out d) @ concat (dx_right_todo d) = concat (map to_client sent) \<Longrightarrow>
      sk_bytes (client_out d) @ concat (client_writes f) = concat (map to_client (sent @ [f]))" for sent
    using right(2) by (simp add: client_writes_bytes)
  ultimately show ?thesis
    using assms(2) right(4) unfolding downstream_ok_def client_out_def by fastforce
next
  case (rend e)
  with assms(2) show ?thesis by (simp add: downstream_ok_def client_out_def)
qed (use assms(2) in \<open>auto simp: downstream_ok_def w_write_open client_out_def\<close>)

lemma downstream_reach:
  "session_reach env d0 d \<Longrightarrow> downstream_ok server d0 \<Longrightarrow> downstream_ok server d"
  by (induction rule: session_reach.induct) (simp_all add: downstream_step)

text \<open>
  Until a frame is rejected, the client gets exactly the server's frames, unmasked, whole
  and in order, under every schedule.
\<close>

theorem downstream_intact:
  assumes "rl_client_out l = fresh_sink" and "session_reach env (start_session l server) d"
    and "dx_left_end d \<noteq> Some Rejected"
  shows "\<exists>sent rest. decode_all dec_frame server = sent @ rest \<and>
    sk_bytes (client_out d) @ concat (dx_right_todo d) = concat (map to_client sent)"
proof -
  have "downstream_ok server (start_session l server)"
    using assms(1) by (simp add: downstream_ok_def start_session_def client_out_def fresh_sink_def)
  from downstream_reach [OF assms(2) this] assms(3) show ?thesis
    by (auto simp: downstream_ok_def)
qed

subsection \<open>The close frame\<close>

text \<open>A rejection tells the client, but the relay goes on delivering what the server sends.\<close>

lemma rejection_keeps_delivering:
  assumes "dx_left_todo d = []" "dx_right_todo d = []" "dx_right_end d = None"
    and "read_frame (dx_right_in d) = Ok (f, rest)" "sk_left (client_out d) = None"
  shows "\<exists>d'. session_reach env d d' \<and> dx_left_end d' = dx_left_end d \<and>
    sk_bytes (client_out d') = sk_bytes (client_out d) @ to_client f"
proof -
  have "\<exists>d'. run_turns env [RightRead, RightWrite, RightWrite] d = Some d' \<and> dx_left_end d' = dx_left_end d \<and>
      sk_bytes (client_out d') = sk_bytes (client_out d) @ to_client f"
    using assms by (simp add: client_writes_def w_write_open client_out_def client_writes_bytes [symmetric])
  then show ?thesis using run_turns_reach [OF _ session_reach.start] by blast
qed

text \<open>A server message of two bytes, and the schedule that writes the close frame into it.\<close>

definition server_frame :: frame where
  "server_frame = (text_frame [1, 2])\<lparr>fr_masked := False\<rparr>"

definition split_schedule :: "turn list" where
  "split_schedule =
     [RightRead, RightWrite, LeftRead, LeftRead, LeftWrite, LeftWrite, RightWrite, RightRead]"

definition demo_rest :: "byte list" where
  "demo_rest = frame_bytes [1, 2, 3, 4] (text_frame [1, 2, 3]) @ frame_bytes [7, 7, 7, 7] (text_frame [73])"

lemma demo_first_turn:
  assumes "rl_in m = demo_stream" "rl_limiter m = None" "rl_frames m = 0" "sinks_open m"
  shows "\<exists>l. relay_step demo_env m = Ok (l, None) \<and> rl_in l = demo_rest \<and>
     rl_client_out l = rl_client_out m \<and> rl_limiter l = None"
proof -
  have r: "read_frame (rl_in m) = Ok (text_frame [72], demo_rest)"
    by (simp add: assms(1) demo_stream_def demo_rest_def read_frame_bytes text_frame_ok)
  let ?l = "m\<lparr>rl_in := demo_rest, rl_frames := 1, rl_limiter := None\<rparr>"
  have "inspect_frame demo_env None 0 (text_frame [72]) = Ok (None, [], True)"
    by (simp add: inspect_frame_def demo_env_def text_frame_def op_text_def inspect_message_def ws_policies_def)
  with relay_step_cases [OF r, of demo_env] assms(2,3)
  have s: "relay_step demo_env m = Ok (to_backend demo_env ?l (text_frame [72]))" by simp
  have "sinks_open ?l" using assms(4) by (simp add: sinks_open_def)
  moreover have "frame_ok (text_frame [72])" by (simp add: text_frame_ok)
  ultimately show ?thesis using to_backend_open [OF _ demo_env_keys, of ?l "text_frame [72]"] s by fastforce
qed

lemma demo_second_turn:
  assumes "rl_in l = demo_rest" "rl_limiter l = None"
  shows "\<exists>l'. relay_step demo_env l = Ok (l', Some Rejected)"
proof -
  have r: "read_frame (rl_in l) = Ok (text_frame [1, 2, 3], frame_bytes [7, 7, 7, 7] (text_frame [73]))"
    by (simp add: assms(1) demo_rest_def read_frame_bytes text_frame_ok)
  have "\<exists>rs. inspect_frame demo_env None n (text_frame [1, 2, 3]) = Ok (None, rs, False)" for n
    by (simp add: inspect_frame_def demo_env_def text_frame_def op_text_def inspect_message_def)
  then obtain rs where "inspect_frame demo_env None (rl_frames l) (text_frame [1, 2, 3]) = Ok (None, rs, False)" by blast
  then show ?thesis by (simp add: relay_step_cases [OF r] assms(2) Let_def)
qed

lemma server_frame_read: "read_frame (frame_bytes [] server_frame) = Ok (server_frame, [])"
proof -
  have "frame_bytes [] server_frame = frame_bytes [0, 0, 0, 0] server_frame"
    by (simp add: server_frame_def frame_bytes_def)
  then show ?thesis
    using read_frame_bytes [of server_frame "[0, 0, 0, 0]" "[]"]
    by (simp add: frame_ok_def server_frame_def text_frame_def op_text_def max_frame_bytes_def)
qed

lemma split_run:
  "\<exists>d. session_reach demo_env (start_session (demo_relay demo_stream) (frame_bytes [] server_frame)) d \<and>
     relay_returned d \<and> dx_left_end d = Some Rejected \<and>
     sk_bytes (client_out d) = [0x81, 2, 0x88, 2, 3, 0xf0, 1, 2]"
proof -
  let ?m = "(demo_relay demo_stream)\<lparr>rl_client_out := \<lparr>sk_bytes = [0x81, 2], sk_left = None\<rparr>\<rparr>"
  have "sinks_open ?m" by (simp add: sinks_open_def demo_relay_simps fresh_sink_def)
  from demo_first_turn [OF _ _ _ this] obtain l where l: "relay_step demo_env ?m = Ok (l, None)"
    "rl_in l = demo_rest" "rl_client_out l = \<lparr>sk_bytes = [0x81, 2], sk_left = None\<rparr>" "rl_limiter l = None"
    by (auto simp: demo_relay_simps)
  obtain l' where l': "relay_step demo_env l = Ok (l', Some Rejected)"
    using demo_second_turn [OF l(2,4)] by blast
  have eof: "read_frame [] = Fail EofErr" by (simp add: read_frame_def read_full_def)
  have w: "client_writes server_frame = [[0x81, 2], [1, 2]]" "client_writes (close_frame False) = [[0x88, 2], [3, 0xf0]]"
    by (simp_all add: client_writes_def frame_header_def flag_bits_def server_frame_def text_frame_def
        op_text_def close_frame_def op_close_def)
  have "\<exists>d. run_turns demo_env split_schedule (start_session (demo_relay demo_stream) (frame_bytes [] server_frame)) = Some d \<and>
      relay_returned d \<and> dx_left_end d = Some Rejected \<and> sk_bytes (client_out d) = [0x81, 2, 0x88, 2, 3, 0xf0, 1, 2]"
    using l l' by (simp add: split_schedule_def start_session_def server_frame_read eof w w_write_def client_out_def
        set_client_out_def demo_relay_simps fresh_sink_def relay_returned_def)
  then show ?thesis using run_turns_reach [OF _ session_reach.start] by blast
qed

text \<open>
  C17. The two directions write to the client without a lock, header and payload apart: there is a
  schedule in which the close frame lands inside a server's message. The client then reads a
  message that nobody sent, made of the close frame's header, and never sees the close.
\<close>

theorem close_frame_can_split:
  "\<exists>d. session_reach demo_env (start_session (demo_relay demo_stream) (frame_bytes [] server_frame)) d \<and>
     relay_returned d \<and> dx_left_end d = Some Rejected \<and>
     decode_all dec_frame (sk_bytes (client_out d)) = [server_frame\<lparr>fr_payload := [0x88, 2]\<rparr>]"
proof -
  let ?forged = "server_frame\<lparr>fr_payload := [0x88, 2]\<rparr>"
  have "frame_bytes [0, 0, 0, 0] ?forged = [0x81, 2, 0x88, 2]"
    by (simp add: frame_bytes_def frame_header_def flag_bits_def server_frame_def text_frame_def op_text_def)
  then have bytes: "[0x81, 2, 0x88, 2, 3, 0xf0, 1, 2] = frame_bytes [0, 0, 0, 0] ?forged @ [3, 0xf0, 1, 2]" by simp
  have "dec_frame [3, 0xf0, 1, 2] = None"
    by (simp add: dec_frame_def read_frame_def read_full_def read_length_def be_value_def Let_def)
  moreover have "frame_ok ?forged"
    by (simp add: frame_ok_def server_frame_def text_frame_def op_text_def max_frame_bytes_def)
  ultimately have "decode_all dec_frame [0x81, 2, 0x88, 2, 3, 0xf0, 1, 2] = [?forged]"
    unfolding bytes by (simp add: frames.decode_all_enc frames.decode_all_None)
  with split_run show ?thesis by metis
qed

text \<open>In the same run the backend has received what the specification lets through.\<close>

theorem every_schedule_inspects_witness:
  "\<exists>d. session_reach demo_env (start_session (demo_relay demo_stream) (frame_bytes [] server_frame)) d \<and>
     dx_left_end d = Some Rejected \<and>
     decode_all dec_frame (sk_bytes (rl_backend_out (dx_left d))) = [text_frame [72], close_frame True]"
proof -
  have "relay_frames demo_env (rl_limiter (demo_relay demo_stream)) (rl_frames (demo_relay demo_stream))
      (decode_all dec_frame (rl_in (demo_relay demo_stream))) =
      Ok ([text_frame [72], close_frame True], [[ws_reason [] ''message exceeds per-message size limit'']], True)"
    by (simp add: demo_stream_frames inspect_frame_def demo_env_def text_frame_def op_text_def
        inspect_message_def ws_policies_def demo_relay_simps)
  note inspects = every_schedule_inspects [OF demo_env_keys demo_relay_simps(2,3) this]
  from split_run obtain d where
    d: "session_reach demo_env (start_session (demo_relay demo_stream) (frame_bytes [] server_frame)) d"
    "dx_left_end d = Some Rejected" by blast
  with inspects [OF d(1)] have "decode_all dec_frame (sk_bytes (rl_backend_out (dx_left d))) =
      [text_frame [72], close_frame True]" by auto
  with d show ?thesis by blast
qed

theorem downstream_intact_witness:
  "\<exists>d sent rest. session_reach demo_env (start_session (demo_relay []) (frame_bytes [] server_frame)) d \<and>
     decode_all dec_frame (frame_bytes [] server_frame) = sent @ rest \<and>
     sk_bytes (client_out d) = to_client server_frame \<and>
     sk_bytes (client_out d) @ concat (dx_right_todo d) = concat (map to_client sent)"
proof -
  let ?d = "start_session (demo_relay []) (frame_bytes [] server_frame)"
  have "client_out ?d = fresh_sink" by (simp add: start_session_def client_out_def demo_relay_simps)
  with rejection_keeps_delivering [of ?d server_frame "[]" demo_env] obtain d where d: "session_reach demo_env ?d d" "dx_left_end d = None" "sk_bytes (client_out d) = to_client server_frame"
    by (auto simp: start_session_def fresh_sink_def server_frame_read)
  from downstream_intact [OF demo_relay_simps(2) d(1)] d(2) obtain sent rest where
    "decode_all dec_frame (frame_bytes [] server_frame) = sent @ rest"
    "sk_bytes (client_out d) @ concat (dx_right_todo d) = concat (map to_client sent)" by auto
  with d(1,3) show ?thesis by blast
qed

end
