(* ===== verification/Server.thy ===== *)
theory Server
  imports Commands Envoy AgentServer AuditTrail
begin

text \<open>
  The deployed program as one machine: everything that arrives at any of its listeners (the
  front, HTTP/3, the admin listener, the Envoy sidecar, the agent service) is a step on the
  shared state, in any order. Shown: what traffic without credentials can and cannot change.
\<close>

subsection \<open>The machine\<close>

text \<open>What \<open>main\<close> was started with.\<close>

record deployment =
  dp_mgmt :: bool
  dp_config :: config
  dp_cwd :: "string option"
  dp_path :: string
  dp_ui :: "(string \<Rightarrow> bool) option"
  dp_agents :: manager_world

definition server_options :: "deployment \<Rightarrow> api_options" where
  "server_options d = mgmt_options (dp_cwd d) (dp_path d) (dp_config d)"

definition server_plan :: "deployment \<Rightarrow> startup" where
  "server_plan d = plan (dp_mgmt d) (dp_config d)"

text \<open>The agent service and the API share the database of the API's state.\<close>

record 'b server_state =
  sm_api :: "'b api_state"
  sm_attempts :: "string \<Rightarrow> int list"
  sm_up :: bool

datatype 'b arrival =
  AtFront "'b world" api_world body_decoder request
| AtHttp3 "'b world" request
| AtAdmin api_world body_decoder request
| AtSidecar "'b world" "(ext_message \<times> bool) list" bool
| AgentEnrolls enroll_io string string string
| AgentStreams bool bool "(string \<times> string list) list option" "string option" "stream_io list" bool

text \<open>A panic nobody recovers ends the process.\<close>

definition front_step :: "'b server_state \<Rightarrow> 'b api_state \<times> front \<Rightarrow> 'b server_state" where
  "front_step s res = (case res of (st, f) \<Rightarrow> s\<lparr>sm_api := st, sm_up := (f \<noteq> ProcessDown)\<rparr>)"

text \<open>A listener that the configuration does not start serves nobody.\<close>

fun arrive :: "deployment \<Rightarrow> 'b arrival \<Rightarrow> 'b server_state \<Rightarrow> 'b server_state" where
  "arrive d (AtFront gw w dec r) s =
     front_step s (front_door (dp_mgmt d) (dp_config d) gw w (server_options d) dec r (sm_api s))"
| "arrive d (AtHttp3 gw r) s =
     (if \<exists>l\<in>set (su_listeners (server_plan d)). sl_http3 l \<noteq> None
      then front_step s (gateway_front gw r (sm_api s)) else s)"
| "arrive d (AtAdmin w dec r) s =
     (if su_admin (server_plan d) \<noteq> None
      then s\<lparr>sm_api := fst (admin_handler w (server_options d) dec (dp_ui d) r (sm_api s))\<rparr> else s)"
| "arrive d (AtSidecar gw ms eof) s =
     (if su_sidecar (server_plan d) \<noteq> None
      then (case process (gateway_evaluate gw) ms eof new_stream (as_gw (sm_api s)) of
              (_, g, e) \<Rightarrow> s\<lparr>sm_api := (sm_api s)\<lparr>as_gw := g\<rparr>, sm_up := (e \<noteq> ProcessCrashed)\<rparr>)
      else s)"
| "arrive d (AgentEnrolls io tok h os) s =
     (case as_db (sm_api s) of
        Some db \<Rightarrow>
          if su_agent (server_plan d) \<noteq> None
          then (case fst (enroll (mw_sha (dp_agents d)) io tok h os \<lparr>sv_db = db, sv_attempts = sm_attempts s\<rparr>) of
                  sv \<Rightarrow> s\<lparr>sm_api := (sm_api s)\<lparr>as_db := Some (sv_db sv)\<rparr>, sm_attempts := sv_attempts sv\<rparr>)
          else s
      | None \<Rightarrow> s)"
| "arrive d (AgentStreams auth_ok close_ok md peer ios eof) s =
     (case as_db (sm_api s) of
        Some db \<Rightarrow>
          if su_agent (server_plan d) \<noteq> None
          then s\<lparr>sm_api := (sm_api s)\<lparr>as_db := Some (fst (stream_handler auth_ok close_ok
                  (mw_sha (dp_agents d)) (mw_marshal (dp_agents d)) (mw_err_text (dp_agents d))
                  md peer ios eof db))\<rparr>\<rparr>
          else s
      | None \<Rightarrow> s)"

fun serve_all :: "deployment \<Rightarrow> 'b arrival list \<Rightarrow> 'b server_state \<Rightarrow> 'b server_state" where
  "serve_all d [] s = s"
| "serve_all d (x # xs) s = (if sm_up s then serve_all d xs (arrive d x s) else s)"

subsection \<open>What a request leaves alone in the gateway\<close>

definition policy where
  "policy g = (gt_store g, gt_sites g, gt_fp_block g, gt_plugins g, gt_llm g, gt_ml_enabled g,
     gt_ml_threshold g, gt_llm_enabled g)"

lemma policy_updates [simp]:
  "policy (g\<lparr>gt_events := e\<rparr>) = policy g" "policy (g\<lparr>gt_stats := t\<rparr>) = policy g"
  "policy (g\<lparr>gt_limiter := l\<rparr>) = policy g" "policy (g\<lparr>gt_chall := c\<rparr>) = policy g"
  "policy (g\<lparr>gt_ml := m\<rparr>) = policy g" "policy (g\<lparr>gt_feed := f\<rparr>) = policy g"
  by (simp_all add: policy_def)

lemma policy_emit [simp]: "policy (emit w c t st a b g) = policy g"
  by (simp add: emit_def)

lemma policy_deny [simp]: "policy (fst (deny w a s rs st)) = policy (fst st)"
  by (simp add: deny_def Let_def split: prod.split)

lemma policy_sse [simp]: "policy (emit_sse_violations w i r vs g) = policy g"
proof -
  have one: "policy (emit_sse_violation w' r v g) = policy g" for w' v and g :: "'a gateway"
    by (simp add: emit_sse_violation_def split: option.split)
  show ?thesis by (induction vs arbitrary: i g) (simp_all add: one)
qed

definition keeps_policy :: "'b gateway \<Rightarrow> 'b served \<Rightarrow> bool" where
  "keeps_policy g x \<longleftrightarrow>
     (case x of Served g' wr \<Rightarrow> policy g' = policy g | Aborted g' \<Rightarrow> policy g' = policy g | Crashed \<Rightarrow> True)"

lemma keeps_policy_ends [simp]:
  "keeps_policy g (session_end st) = (policy (fst st) = policy g)"
  "keeps_policy g (recovered r g' wr) = (policy g' = policy g)"
  "keeps_policy g (Served g' wr) = (policy g' = policy g)"
  "keeps_policy g (Aborted g') = (policy g' = policy g)"
  "keeps_policy g Crashed"
  by (simp_all add: keeps_policy_def session_end_def recovered_def split: prod.split)

lemma serve_policy: "keeps_policy (fst st) (serve w act st)"
  by (auto simp: serve_def Let_def split: prod.split option.split go.split upstream_reply.split)

lemma issue_page_policy [simp]: "policy (fst (issue_page w bc st)) = policy (fst st)"
  by (auto simp: issue_page_def Let_def split: prod.split option.split)

lemma handle_challenge_policy [simp]: "policy (fst (handle_challenge w bc st)) = policy (fst st)"
  by (auto simp: handle_challenge_def Let_def split: prod.split bool.split)

lemma run_module_policy:
  "run_module w m (g, c) = Ok (g', c') \<Longrightarrow> policy g' = policy g"
proof (cases m)
  case MRateLimit
  assume "run_module w m (g, c) = Ok (g', c')"
  with MRateLimit show ?thesis
    by (auto simp: inspect_rate_limit_def with_site_def Let_def split: option.splits if_splits prod.splits)
next
  case MMl
  assume "run_module w m (g, c) = Ok (g', c')"
  with MMl show ?thesis
    by (auto simp: inspect_ml_def with_site_def Let_def split: option.splits if_splits prod.splits go.splits)
qed (auto dest: inspect_rules_frame inspect_protocol_frame inspect_bot_frame inspect_plugins_frame
      inspect_llm_frame)

lemma run_modules_policy: "run_modules w ms (g, c) = Ok (g', c') \<Longrightarrow> policy g' = policy g"
proof (induction ms arbitrary: g c)
  case (Cons m ms)
  then obtain g1 c1 where "run_module w m (g, c) = Ok (g1, c1)" "run_modules w ms (g1, c1) = Ok (g', c')"
    by (auto simp: go_bind_Ok_iff)
  with run_module_policy Cons.IH show ?case by metis
qed simp

lemma inspect_policy: "inspect w (g, c) = Ok ((g', c'), v) \<Longrightarrow> policy g' = policy g"
  by (auto simp: inspect_def go_bind_Ok_iff dest: run_modules_policy)

lemma apply_verdict_policy: "keeps_policy (fst st) (apply_verdict w s v st)"
  by (auto simp: apply_verdict_def serve_policy split: action.split option.split prod.split)

lemma keeps_policy_cong: "policy g = policy g' \<Longrightarrow> keeps_policy g x = keeps_policy g' x"
  by (simp add: keeps_policy_def split: served.split)

lemma after_body_policy: "keeps_policy (fst st) (after_body w s st)"
proof -
  obtain g c wr where st: "st = (g, c, wr)" by (cases st)
  show ?thesis
  proof (cases "inspect w (g, c)")
    case (Ok r)
    obtain g' c' v where r: "r = ((g', c'), v)" by (metis prod.collapse)
    with Ok inspect_policy [of w g c g' c' v] keeps_policy_cong apply_verdict_policy [of "(g', c', wr)" w s v]
    show ?thesis by (simp add: after_body_def st keeps_policy_cong [of g g'])
  next
    case (Fail e)
    let ?d = "deny (later w 0) Log 200 [engine_err] (g, c, wr)"
    have "keeps_policy g (serve w Allow ?d)"
      using serve_policy [of ?d w Allow] by (simp add: keeps_policy_cong [of g "fst ?d"])
    with Fail show ?thesis by (cases e) (simp add: after_body_def st)
  qed (simp add: after_body_def st)
qed

lemma handle_upgrade_policy: "keeps_policy (fst st) (handle_upgrade w st)"
proof -
  obtain g c wr where st: "st = (g, c, wr)" by (cases st)
  show ?thesis
  proof (cases "handle_websocket w (g, c\<lparr>x_protocol := ''websocket''\<rparr>, wr)")
    case (Ok r)
    obtain g' c' wr' where r: "r = (g', c', wr')" by (cases r)
    with websocket_trail [OF Ok [unfolded r]] have
      "g' = g\<lparr>gt_limiter := gt_limiter g', gt_events := gt_events g', gt_stats := gt_stats g'\<rparr>" by blast
    then have "policy g' = policy g" by (metis policy_updates(1-3))
    with Ok r show ?thesis by (simp add: handle_upgrade_def st)
  qed (simp_all add: handle_upgrade_def st)
qed

lemma serve_http_policy: "keeps_policy g (serve_http w r g)"
proof -
  have "keeps_policy g (serve_site w r s u g)" for s u
    using handle_upgrade_policy [of "(g, initial_ctx w r s u, fresh_writer)" w]
      after_body_policy [of "(g, c, wr)" w s for c wr]
    by (auto simp: serve_site_def Let_def split: go.split)
  then show ?thesis by (simp add: serve_http_def split: option.split)
qed

lemma evaluate_policy: "gateway_evaluate w r body g = Ok (g', v) \<Longrightarrow> policy g' = policy g"
  by (cases "v_decision v")
     (auto simp: gateway_evaluate_def go_bind_Ok_iff dest!: inspect_policy split: option.splits)

lemma process_policy: "policy (fst (snd (process (gateway_evaluate w) ms eof st g))) = policy g"
proof -
  have m: "on_message (gateway_evaluate w) m st g = Ok (st', g', o') \<Longrightarrow> policy g' = policy g" for m st g st' g' o'
    by (auto simp: on_message_def decide_stream_def Let_def dest: evaluate_policy
        split: ext_message.splits if_splits option.splits go.splits)
  show ?thesis
  proof (induction ms arbitrary: st g)
    case (Cons x ms)
    obtain a ok where x: "x = (a, ok)" by (cases x)
    show ?case
    proof (cases "on_message (gateway_evaluate w) a st g")
      case (Ok r)
      obtain st' g' o' where r: "r = (st', g', o')" by (cases r)
      with m [OF Ok [unfolded r]] Ok Cons.IH [of st' g'] x show ?thesis
        by (cases o') (auto split: prod.split)
    qed (simp_all add: x)
  qed simp
qed

subsection \<open>Calls without a token\<close>

definition authorized :: "api_options \<Rightarrow> api_world \<Rightarrow> request \<Rightarrow> bool" where
  "authorized opts w r \<longleftrightarrow>
     genuine_token (aw_tokens w) (aw_now w) (ao_jwt_secret opts) (request_token r) \<or>
     genuine_token (aw_tokens w) (aw_now w) (ao_jwt_secret opts) (query_field r ''token'')"

lemma stranger_call:
  assumes "\<not> authorized opts w r"
  shows "fst (auth_call w opts r call st) = st"
proof -
  from assms have no: "verify_jwt (aw_tokens w) (aw_now w) (ao_jwt_secret opts) (request_token r) \<noteq> Ok sub"
    "verify_jwt (aw_tokens w) (aw_now w) (ao_jwt_secret opts) (query_field r ''token'') \<noteq> Ok sub" for sub
    using verify_jwt_genuine unfolding authorized_def by blast+
  show ?thesis
  proof (cases "guarded call")
    case True
    with refused_call [OF no(1)] show ?thesis by blast
  next
    case False
    then consider inp where "call = Login inp" | "call = StreamEvents"
      by (cases call) (auto simp: guarded_def)
    then show ?thesis
      using False stream_events_state [OF no(2), of st] by cases (simp_all add: auth_call_def login_state)
  qed
qed

text \<open>
  What counts as the setup: the gateway's policy, the rule files, the array of sites, and who
  is registered with which secret or token.
\<close>

definition roster :: "agent_db \<Rightarrow> (string \<times> string \<times> string) list \<times> token_row list" where
  "roster db = (map (\<lambda>a. (ag_id a, ag_name a, ag_secret_hash a)) (db_agents db), db_tokens db)"

definition server_setup where
  "server_setup st = (policy (as_gw st), as_files st, as_slots st, as_tail st, map_option roster (as_db st))"

lemma setup_gateway [simp]: "policy g = policy (as_gw st) \<Longrightarrow> server_setup (st\<lparr>as_gw := g\<rparr>) = server_setup st"
  by (simp add: server_setup_def)

lemma setup_counted [simp]: "server_setup (counted w r st) = server_setup st"
  by (simp add: server_setup_def)

lemma gateway_front_setup: "server_setup (fst (gateway_front gw r st)) = server_setup st"
  using serve_http_policy [of "as_gw st" gw r]
  by (auto simp: gateway_front_def keeps_policy_def split: served.splits)

lemma mux_reply_setup:
  "(\<And>h vs. server_setup (fst (k h vs st)) = server_setup st) \<Longrightarrow> server_setup (fst (mux_reply res k st)) = server_setup st"
  by (simp add: mux_reply_def split: mux_result.split)

lemma api_serve_setup:
  assumes "\<not> authorized opts w r"
  shows "server_setup (fst (api_serve w opts dec r u st)) = server_setup st"
proof -
  have "server_setup (fst (mux_reply (mux_find api_table (req_method r) u)
      (\<lambda>ep vs st1. case auth_call w opts r (call_of dec r ep vs) st1 of (st', resp) \<Rightarrow> (st', ApiReply resp))
      (counted w r st))) = server_setup (counted w r st)"
    by (rule mux_reply_setup) (simp add: stranger_call [OF assms] case_prod_unfold)
  then show ?thesis by (simp add: api_serve_def)
qed

lemma mounted_setup:
  assumes "\<not> authorized opts w r" and "\<And>st. server_setup (fst (rest st)) = server_setup st"
  shows "server_setup (fst (mounted w opts dec rest r st)) = server_setup st"
proof -
  have "server_setup (fst (mux_reply (mux_find front_table (req_method r) u)
      (\<lambda>m _ st1. case m of ApiMount \<Rightarrow> api_serve w opts dec r u st1 | RestMount \<Rightarrow> rest st1) st)) = server_setup st" for u
    by (rule mux_reply_setup) (simp add: api_serve_setup [OF assms(1)] assms(2) split: mount.split)
  then show ?thesis by (simp add: mounted_def split: option.split)
qed

lemma front_door_setup:
  "\<not> authorized opts w r \<Longrightarrow> server_setup (fst (front_door mgmt c gw w opts dec r st)) = server_setup st"
  by (simp add: front_door_def mounted_setup gateway_front_setup)

lemma admin_setup:
  "\<not> authorized opts w r \<Longrightarrow> server_setup (fst (admin_handler w opts dec files r st)) = server_setup st"
  using mounted_setup [of opts w r "ui_front files r" dec st]
  by (auto simp: admin_handler_def cors_def ui_front_def split: option.split prod.split)

subsection \<open>Agents\<close>

lemma update_roster [simp]:
  "(\<And>a. ag_id (f a) = ag_id a \<and> ag_name (f a) = ag_name a \<and> ag_secret_hash (f a) = ag_secret_hash a) \<Longrightarrow>
   roster (update_agent i f db) = roster db"
  by (auto simp: roster_def update_agent_def)

lemma statement_roster [simp]:
  "roster (fst (touch ok now i ip h os db)) = roster db" "roster (fst (set_status ok i x db)) = roster db"
  "roster (fst (add_event ok now i typ p db)) = roster db"
  by (simp_all add: touch_def set_status_def add_event_def roster_def update_agent_def split: option.split)

lemma message_roster [simp]: "roster (handle_message marshal err i ip io db) = roster db"
proof (cases "si_msg io")
  case (SecEvent ty payload)
  obtain db' e where a: "add_event (si_ok io) (si_now io) i ty (marshal payload) db = (db', e)" by (metis prod.collapse)
  then have "roster db' = roster db" using statement_roster(3) by (metis fst_conv)
  with SecEvent a show ?thesis by (simp add: handle_message_def split: option.split)
qed (simp_all add: handle_message_def)

lemma stream_loop_roster: "roster (fst (stream_loop marshal err i ip ios eof db)) = roster db"
  by (induction ios arbitrary: db) (simp_all add: Let_def)

lemma stream_roster [simp]:
  "roster (fst (stream_handler auth_ok close_ok sha marshal err md peer ios eof db)) = roster db"
proof (cases "open_stream auth_ok sha md db")
  case (Ok i)
  obtain db' e where "stream_loop marshal err i (peer_ip peer) ios eof db = (db', e)" by (metis prod.collapse)
  with Ok stream_loop_roster [of marshal err i "peer_ip peer" ios eof db] show ?thesis
    by (simp add: stream_handler_def)
qed (simp_all add: stream_handler_def)

lemma enroll_without_token:
  assumes "tok \<notin> held_tokens sha (sv_db sv)"
  shows "sv_db (fst (enroll sha io tok h os sv)) = sv_db sv"
proof -
  have c: "\<exists>e. consume_enroll_token ok sha now tok (sv_db sv) = (sv_db sv, Fail e)" for ok now
  proof -
    obtain db r where r: "consume_enroll_token ok sha now tok (sv_db sv) = (db, r)" by (metis prod.collapse)
    with assms have "r \<noteq> Ok i" for i by (auto simp: consume_cases held_tokens_def dest!: find_in)
    with r consume_fails consume_no_Panic show ?thesis by (cases r) fastforce+
  qed
  obtain sv1 b where a: "allow_enroll_attempt (en_now io) (peer_ip (en_peer io)) sv = (sv1, b)"
    by (metis prod.collapse)
  then have "sv_db sv1 = sv_db sv" using allow_attempt_db by (metis fst_conv)
  with a c [of "en_consume_ok io" "en_now_sec io"] show ?thesis
    by (auto simp: enroll_def Let_def split: bool.split)
qed

subsection \<open>Traffic without credentials\<close>

text \<open>
  A request has credentials when it carries a token the API would accept, an enrollment when
  its token is outstanding.
\<close>

fun credentials :: "deployment \<Rightarrow> 'b api_state \<Rightarrow> 'b arrival \<Rightarrow> bool" where
  "credentials d st (AtFront gw w dec r) = authorized (server_options d) w r"
| "credentials d st (AtAdmin w dec r) = authorized (server_options d) w r"
| "credentials d st (AgentEnrolls io tok h os) =
     (case as_db st of Some db \<Rightarrow> tok \<in> held_tokens (mw_sha (dp_agents d)) db | None \<Rightarrow> False)"
| "credentials d st _ = False"

lemma credentials_setup: "server_setup st' = server_setup st \<Longrightarrow> credentials d st' x = credentials d st x"
  by (cases x) (auto simp: server_setup_def roster_def held_tokens_def split: option.splits)

lemma arrival_setup:
  assumes "\<not> credentials d (sm_api s) x"
  shows "server_setup (sm_api (arrive d x s)) = server_setup (sm_api s)"
proof (cases x)
  case (AtFront gw w dec r)
  with assms show ?thesis by (simp add: front_step_def front_door_setup case_prod_unfold)
next
  case (AtHttp3 gw r)
  then show ?thesis by (simp add: front_step_def gateway_front_setup case_prod_unfold)
next
  case (AtAdmin w dec r)
  with assms show ?thesis by (simp add: admin_setup)
next
  case (AtSidecar gw ms eof)
  with process_policy [of gw ms eof new_stream "as_gw (sm_api s)"] show ?thesis by (auto split: prod.split)
next
  case (AgentEnrolls io tok h os)
  with assms enroll_without_token [of tok "mw_sha (dp_agents d)" "\<lparr>sv_db = db, sv_attempts = sm_attempts s\<rparr>" io h os for db]
  show ?thesis by (auto simp: server_setup_def split: option.split)
next
  case (AgentStreams auth_ok close_ok md peer ios eof)
  then show ?thesis by (auto simp: server_setup_def split: option.split)
qed

text \<open>
  C3. Nobody without credentials changes the setup: whatever arrives at the listeners of the
  deployed program, in whatever order, as long as no request carries an accepted token and no
  enrollment an outstanding one, the configuration, the runtimes of the sites, the blocklist,
  the rule files, the registered agents, their secrets and the enrollment tokens stay what they
  were. What such traffic changes is the limiter, the challenges, counters and events.
\<close>

theorem strangers_change_nothing:
  assumes "\<forall>x\<in>set xs. \<not> credentials d (sm_api s) x"
  shows "server_setup (sm_api (serve_all d xs s)) = server_setup (sm_api s)"
  using assms
proof (induction xs arbitrary: s)
  case (Cons x xs)
  then have one: "server_setup (sm_api (arrive d x s)) = server_setup (sm_api s)" by (intro arrival_setup) simp
  with Cons.prems have "\<forall>y\<in>set xs. \<not> credentials d (sm_api (arrive d x s)) y"
    by (simp add: credentials_setup [OF one])
  from Cons.IH [OF this] one show ?case by simp
qed simp

text \<open>A visitor, a stream from Envoy and an enrollment with a made-up token.\<close>

definition demo_deployment :: deployment where
  "demo_deployment = \<lparr>dp_mgmt = True,
     dp_config = served_config\<lparr>c_agent := (c_agent served_config)\<lparr>agt_enabled := True\<rparr>,
       c_db_path := ''agents.db'', c_envoy_listen := '':9001''\<rparr>,
     dp_cwd = None, dp_path = [], dp_ui = None, dp_agents = plain_world\<rparr>"

definition demo_running :: "mem_backend server_state" where
  "demo_running = \<lparr>sm_api = served_state\<lparr>as_db := Some (sv_db demo_server)\<rparr>, sm_attempts = \<lambda>_. [], sm_up = True\<rparr>"

lemma demo_unheld: "''00'' \<notin> held_tokens (mw_sha (dp_agents demo_deployment)) (sv_db demo_server)"
  unfolding held_tokens_def by code_simp

lemma no_token: "\<not> genuine_token tc now secret []"
  by (simp add: genuine_token_def)

theorem strangers_change_nothing_witness:
  "server_setup (sm_api (serve_all demo_deployment
     [AtFront demo_world wit_world silent_decoder plain_request, AtSidecar demo_world [] True,
      AgentEnrolls demo_enroll_io ''00'' [] []] demo_running)) = server_setup (sm_api demo_running)"
proof -
  have "request_token plain_request = []" "query_field plain_request ''token'' = []" by code_simp+
  then have "\<not> authorized opts w plain_request" for opts w by (simp add: authorized_def no_token)
  then show ?thesis
    by (subst strangers_change_nothing) (simp_all add: demo_running_def demo_unheld)
qed

end
