(* ===== verification/GrpcSchemas.thy ===== *)
theory GrpcSchemas
  imports Inspection
begin

text \<open>
  The registry of gRPC methods (grpcproto.go, \<open>NewRegistry\<close>): collecting the schema files,
  indexing what the compiler makes of them, and what that means for a request. The compiler
  (protocompile) is an argument: it gets the import paths and the names of the files.
\<close>

subsection \<open>Collecting files\<close>

text \<open>
  What \<open>filepath.WalkDir\<close> sees below a path, the entries of a directory in order. An error is
  handed to the callback, which ignores it: an unreadable directory counts as empty.
\<close>

datatype dir_tree = PlainFile | Unreadable | SubDir "(string \<times> dir_tree) list"

fun tree_files :: "string list \<Rightarrow> dir_tree \<Rightarrow> string list"
  and entry_files :: "string list \<Rightarrow> (string \<times> dir_tree) list \<Rightarrow> string list" where
  "tree_files p PlainFile = [join_with ''/'' p]"
| "tree_files p Unreadable = []"
| "tree_files p (SubDir es) = entry_files p es"
| "entry_files p [] = []"
| "entry_files p ((n, t) # es) = tree_files (p @ [n]) t @ entry_files p es"

text \<open>The names are relative to the directory; of a path to a plain file it is a dot.\<close>

definition proto_files :: "(string \<Rightarrow> dir_tree option) \<Rightarrow> string \<Rightarrow> string list" where
  "proto_files fs dir =
     (case fs dir of
        None \<Rightarrow> []
      | Some PlainFile \<Rightarrow> if has_suffix dir ''.proto'' then [''.''] else []
      | Some t \<Rightarrow> filter (\<lambda>f. has_suffix f ''.proto'') (tree_files [] t))"

subsection \<open>Indexing\<close>

datatype msg_desc = MsgDesc string "msg_desc list"

record service_desc =
  sd_name :: string
  sd_methods :: "(string \<times> (string \<Rightarrow> (pfield \<times> pval) list option)) list"

text \<open>An import without a descriptor (a placeholder) is \<open>None\<close>.\<close>

datatype file_desc = FileDesc "service_desc list" "msg_desc list" "file_desc option list"

record schema_registry =
  rg_methods :: grpc_registry
  rg_types :: "string list"

definition empty_registry :: schema_registry where
  "empty_registry = \<lparr>rg_methods = (\<lambda>_. None), rg_types = []\<rparr>"

text \<open>A name that is taken is an error, and the message is skipped with what it nests.\<close>

fun register_messages :: "msg_desc list \<Rightarrow> string list \<Rightarrow> string list" where
  "register_messages [] ts = ts"
| "register_messages (MsgDesc n ns # ms) ts =
     register_messages ms (if n \<in> set ts then ts else register_messages ns (ts @ [n]))"

definition method_key :: "string \<Rightarrow> string \<Rightarrow> string" where
  "method_key svc m = ''/'' @ svc @ ''/'' @ m"

definition index_service :: "service_desc \<Rightarrow> grpc_registry \<Rightarrow> grpc_registry" where
  "index_service s reg = fold (\<lambda>(m, d) r. r(method_key (sd_name s) m \<mapsto> d)) (sd_methods s) reg"

fun index_file :: "file_desc \<Rightarrow> schema_registry \<Rightarrow> schema_registry"
  and index_imports :: "file_desc option list \<Rightarrow> schema_registry \<Rightarrow> schema_registry" where
  "index_file (FileDesc ss ms is) r =
     index_imports is (r\<lparr>rg_methods := fold index_service ss (rg_methods r),
                         rg_types := register_messages ms (rg_types r)\<rparr>)"
| "index_imports [] r = r"
| "index_imports (None # is) r = index_imports is r"
| "index_imports (Some f # is) r = index_imports is (index_file f r)"

definition new_registry ::
    "(string \<Rightarrow> dir_tree option) \<Rightarrow> (string list \<Rightarrow> string list \<Rightarrow> file_desc list option) \<Rightarrow>
     string list \<Rightarrow> string list \<Rightarrow> schema_registry option" where
  "new_registry fs compile dirs imps =
     (if dirs = [] then Some empty_registry
      else let files = concat (map (proto_files fs) dirs) in
        if files = [] then Some empty_registry
        else (case compile (imps @ dirs) files of
                None \<Rightarrow> None
              | Some ds \<Rightarrow> Some (fold index_file ds empty_registry)))"

text \<open>The world of a reload, with this in the place of its schema compiler.\<close>

definition with_schemas ::
    "(string \<Rightarrow> dir_tree option) \<Rightarrow> (string list \<Rightarrow> string list \<Rightarrow> file_desc list option) \<Rightarrow> build_io \<Rightarrow> build_io" where
  "with_schemas fs compile io =
     io\<lparr>bi_schemas := (\<lambda>d imps. map_option rg_methods (new_registry fs compile [d] imps))\<rparr>"

subsection \<open>What the registry knows\<close>

text \<open>The methods a file declares or imports, transitively.\<close>

definition service_keys :: "service_desc \<Rightarrow> string set" where
  "service_keys s = (\<lambda>(m, d). method_key (sd_name s) m) ` set (sd_methods s)"

fun method_keys :: "file_desc \<Rightarrow> string set" where
  "method_keys (FileDesc ss ms is) =
     (\<Union>s\<in>set ss. service_keys s) \<union> (\<Union>i\<in>set is. case i of None \<Rightarrow> {} | Some f \<Rightarrow> method_keys f)"

lemma index_service_knows:
  "has_method (index_service s reg) k \<longleftrightarrow> has_method reg k \<or> k \<in> service_keys s"
proof -
  have "has_method (fold (\<lambda>(m, d) r. r(method_key svc m \<mapsto> d)) ms reg) k \<longleftrightarrow>
      has_method reg k \<or> k \<in> (\<lambda>(m, d). method_key svc m) ` set ms" for svc ms
    by (induction ms arbitrary: reg) (auto simp: has_method_def)
  then show ?thesis by (simp add: index_service_def service_keys_def)
qed

lemma index_services_know:
  "has_method (fold index_service ss reg) k \<longleftrightarrow> has_method reg k \<or> (\<exists>s\<in>set ss. k \<in> service_keys s)"
  by (induction ss arbitrary: reg) (auto simp: index_service_knows)

lemma index_knows:
  "has_method (rg_methods (index_file f r)) k \<longleftrightarrow> has_method (rg_methods r) k \<or> k \<in> method_keys f"
  "has_method (rg_methods (index_imports is r)) k \<longleftrightarrow> has_method (rg_methods r) k \<or>
     (\<exists>i\<in>set is. \<exists>f. i = Some f \<and> k \<in> method_keys f)"
  by (induction f r and "is" r rule: index_file_index_imports.induct)
     (auto simp: index_services_know split: option.splits)

lemma index_files_know:
  "has_method (rg_methods (fold index_file ds r)) k \<longleftrightarrow> has_method (rg_methods r) k \<or> (\<exists>f\<in>set ds. k \<in> method_keys f)"
  by (induction ds arbitrary: r) (auto simp: index_knows)

lemma empty_registry_knows [simp]: "\<not> has_method (rg_methods empty_registry) k"
  by (simp add: empty_registry_def has_method_def)

text \<open>Every message of a file gets registered, each name once.\<close>

lemma register_messages_mono: "x \<in> set ts \<Longrightarrow> x \<in> set (register_messages ms ts)"
  by (induction ms ts rule: register_messages.induct) auto

lemma register_messages_adds:
  "MsgDesc n ns \<in> set ms \<Longrightarrow> n \<in> set (register_messages ms ts)"
  "distinct ts \<Longrightarrow> distinct (register_messages ms ts)"
  by (induction ms ts rule: register_messages.induct) (auto simp: register_messages_mono)

lemma new_registry_knows:
  assumes "new_registry fs compile dirs imps = Some r"
  shows "has_method (rg_methods r) k \<longleftrightarrow>
    concat (map (proto_files fs) dirs) \<noteq> [] \<and>
    (\<exists>ds f. compile (imps @ dirs) (concat (map (proto_files fs) dirs)) = Some ds \<and> f \<in> set ds \<and> k \<in> method_keys f)"
proof (cases "concat (map (proto_files fs) dirs) = []")
  case True
  with assms have "r = empty_registry" unfolding new_registry_def Let_def by (simp split: if_splits)
  with True show ?thesis by simp
next
  case False
  with assms obtain ds where "compile (imps @ dirs) (concat (map (proto_files fs) dirs)) = Some ds"
    "r = fold index_file ds empty_registry"
    unfolding new_registry_def Let_def by (auto split: if_splits option.splits)
  with False show ?thesis by (auto simp: index_files_know)
qed

lemma unknown_method_report:
  "\<not> has_method reg m \<Longrightarrow> \<exists>rep. grpc_inspect show_val reg m body = Ok rep \<and> \<not> gw_malformed rep \<and> gw_flat rep = []"
  by (simp add: has_method_def grpc_inspect_def Let_def)

text \<open>What a site built with schema inspection does with a call.\<close>

lemma built_registry_covers:
  assumes "s_grpc s = Some gc" and "grpc_enabled gc" and "grpc_schema_dir gc \<noteq> []"
    and "build_site_rt (with_schemas fs compile io) s = Ok rt"
    and "req_url (x_request c) = Some u"
  shows "\<exists>reg. rt_grpc rt = Some reg \<and>
    (has_method reg (url_path u) \<longleftrightarrow>
       proto_files fs (grpc_schema_dir gc) \<noteq> [] \<and>
       (\<exists>ds f. compile (grpc_import_dirs gc @ [grpc_schema_dir gc]) (proto_files fs (grpc_schema_dir gc)) = Some ds \<and>
          f \<in> set ds \<and> url_path u \<in> method_keys f)) \<and>
    (has_method reg (url_path u) \<or>
       (\<exists>c'. inspect_grpc w (Some rt) c = Ok c' \<and> x_reasons c' = x_reasons c))"
proof -
  from assms(1-4) obtain r where
    r: "new_registry fs compile [grpc_schema_dir gc] (grpc_import_dirs gc) = Some r" "rt_grpc rt = Some (rg_methods r)"
    by (auto simp: build_site_rt_def build_registry_def with_schemas_def go_bind_Ok_iff split: option.splits)
  note knows = new_registry_knows [OF r(1), of "url_path u", simplified]
  show ?thesis
  proof (cases "has_method (rg_methods r) (url_path u)")
    case True
    with r(2) knows show ?thesis by auto
  next
    case False
    from unknown_method_report [OF this, of "wd_show w" "x_body c"] obtain rep where
      "grpc_inspect (wd_show w) (rg_methods r) (url_path u) (x_body c) = Ok rep" "\<not> gw_malformed rep" "gw_flat rep = []"
      by blast
    then have "\<exists>c'. inspect_grpc w (Some rt) c = Ok c' \<and> x_reasons c' = x_reasons c"
      using assms(5) r(2) by (simp add: inspect_grpc_def grpc_field_reasons_def add_reasons_eq)
    with r(2) knows show ?thesis by auto
  qed
qed

text \<open>A schema inspection never fails but for the compiler: without files there is nothing to compile.\<close>

lemma new_registry_None:
  "new_registry fs compile [dir] imps = None \<longleftrightarrow>
     proto_files fs dir \<noteq> [] \<and> compile (imps @ [dir]) (proto_files fs dir) = None"
  by (auto simp: new_registry_def Let_def split: option.split)

lemma load_all_rules_schemas: "load_all_rules (io\<lparr>bi_schemas := f\<rparr>) ps = load_all_rules io ps"
  by (induction ps) (simp_all split: option.split go.split)

lemma build_engine_schemas: "build_engine (io\<lparr>bi_schemas := f\<rparr>) s = build_engine io (s\<lparr>s_grpc := None\<rparr>)"
  by (simp add: build_engine_def load_all_rules_schemas site_toggles_def split: prod.split bool.split)

lemma schemas_build:
  assumes "s_grpc s = Some gc" and "grpc_enabled gc" and "grpc_schema_dir gc \<noteq> []"
    and "build_site_rt io (s\<lparr>s_grpc := None\<rparr>) = Ok rt0"
  shows "case build_site_rt (with_schemas fs compile io) s of
      Ok rt \<Rightarrow> True
    | Fail e \<Rightarrow> new_registry fs compile [grpc_schema_dir gc] (grpc_import_dirs gc) = None
    | Panic \<Rightarrow> False"
  using assms
  by (auto simp: build_site_rt_def build_engine_schemas build_registry_def with_schemas_def go_bind_Ok_iff
      split: go.splits option.splits)

text \<open>
  C31. A site with schema inspection starts whenever it would start without it and the compiler
  accepts the schema files found; it fails to start exactly when there are files and the compiler
  rejects them. A schema directory that does not exist, cannot be read or holds no schema is
  no error. Inspection then covers a gRPC call exactly when its method is declared in a file the
  compiler was given, or in one that such a file imports; any other call passes the gRPC
  module with no reason added, whatever its payload. So without schema files all gRPC traffic
  of the site passes.
\<close>

theorem grpc_covers_declared_methods:
  assumes "s_grpc s = Some gc" and "grpc_enabled gc" and "grpc_schema_dir gc \<noteq> []"
    and "build_site_rt io (s\<lparr>s_grpc := None\<rparr>) = Ok rt0"
    and "req_url (x_request c) = Some u"
    and "files = proto_files fs (grpc_schema_dir gc)"
  shows "case build_site_rt (with_schemas fs compile io) s of
      Ok rt \<Rightarrow> (files = [] \<or> compile (grpc_import_dirs gc @ [grpc_schema_dir gc]) files \<noteq> None) \<and>
        (\<exists>reg. rt_grpc rt = Some reg \<and>
          (has_method reg (url_path u) \<longleftrightarrow> files \<noteq> [] \<and>
             (\<exists>ds f. compile (grpc_import_dirs gc @ [grpc_schema_dir gc]) files = Some ds \<and>
                f \<in> set ds \<and> url_path u \<in> method_keys f)) \<and>
          (has_method reg (url_path u) \<or>
             (\<exists>c'. inspect_grpc w (Some rt) c = Ok c' \<and> x_reasons c' = x_reasons c)))
    | Fail e \<Rightarrow> files \<noteq> [] \<and> compile (grpc_import_dirs gc @ [grpc_schema_dir gc]) files = None
    | Panic \<Rightarrow> False"
proof (cases "build_site_rt (with_schemas fs compile io) s")
  case (Ok rt)
  have "new_registry fs compile [grpc_schema_dir gc] (grpc_import_dirs gc) \<noteq> None"
    using assms(1-3) Ok
    by (auto simp: build_site_rt_def build_registry_def with_schemas_def go_bind_Ok_iff split: option.splits)
  then show ?thesis
    using built_registry_covers [OF assms(1-3) Ok assms(5), of w] Ok
    by (simp add: assms(6) new_registry_None)
next
  case (Fail e)
  with schemas_build [OF assms(1-4), of fs compile] show ?thesis by (simp add: assms(6) new_registry_None)
next
  case Panic
  with schemas_build [OF assms(1-4), of fs compile] show ?thesis by simp
qed

text \<open>A site whose schema directory does not exist.\<close>

definition grpc_site :: site where
  "grpc_site = demo_site\<lparr>s_grpc := Some \<lparr>grpc_enabled = True, grpc_schema_dir = ''protos'', grpc_import_dirs = []\<rparr>\<rparr>"

theorem grpc_covers_declared_methods_witness:
  "\<exists>rt c'. build_site_rt (with_schemas (\<lambda>_. None) (\<lambda>_ _. None) demo_io) grpc_site = Ok rt \<and>
     inspect_grpc demo_world (Some rt) empty_ctx = Ok c' \<and> x_reasons c' = []"
proof -
  have "s_custom_rules grpc_site = []"
    by (simp add: grpc_site_def demo_site_def served_sites site_defaults_def site_names_def empty_site_def Let_def)
  then obtain rt0 where rt0: "build_site_rt demo_io (grpc_site\<lparr>s_grpc := None\<rparr>) = Ok rt0"
    by (simp add: build_site_rt_def build_engine_def build_registry_def set_crs_toggles_def rebuild_def
        demo_io_def grpc_site_def)
  obtain u where u: "req_url (x_request empty_ctx) = Some u" by (simp add: empty_ctx_def demo_request_def)
  have g: "s_grpc grpc_site = Some \<lparr>grpc_enabled = True, grpc_schema_dir = ''protos'', grpc_import_dirs = []\<rparr>"
    by (simp add: grpc_site_def)
  have files: "[] = proto_files (\<lambda>_. None) (grpc_schema_dir \<lparr>grpc_enabled = True, grpc_schema_dir = ''protos'', grpc_import_dirs = []\<rparr>)"
    by (simp add: proto_files_def)
  from grpc_covers_declared_methods [OF g _ _ rt0 u files, of "\<lambda>_ _. None" demo_world] show ?thesis
    by (auto simp: empty_ctx_def split: go.splits)
qed

end
