(* ===== verification/EventStream.thy ===== *)
theory EventStream
  imports MgmtApi
begin

text \<open>
  The body of the management API's live event stream (mgmtapi/telemetry.go, \<open>handleEvents\<close>
  after its checks): what the loop writes for what wakes it, and that a client of server-sent
  events reads the audit events back.
\<close>

subsection \<open>The loop\<close>

text \<open>
  What the \<open>select\<close> takes, in order: an event of the subscription, with its JSON text or \<open>None\<close>
  when it cannot be encoded; the closed subscription; the ticker; the end of the request.
\<close>

datatype wake = FeedEvent "string option" | FeedClosed | Heartbeat | ClientGone

definition written_event :: "string option \<Rightarrow> string" where
  "written_event j =
     (case j of
        Some js \<Rightarrow> event_frame js
      | None \<Rightarrow> ''event: audit'' @ [CHR 0x0A] @ ''data: '' @ [CHR 0x0A])"

definition keepalive :: string where
  "keepalive = '': keepalive'' @ [CHR 0x0A] @ [CHR 0x0A]"

text \<open>What is written, and whether the loop has returned.\<close>

fun event_loop :: "wake list \<Rightarrow> string \<times> bool" where
  "event_loop [] = ([], False)"
| "event_loop (FeedEvent j # xs) = (case event_loop xs of (out, e) \<Rightarrow> (written_event j @ out, e))"
| "event_loop (Heartbeat # xs) = (case event_loop xs of (out, e) \<Rightarrow> (keepalive @ out, e))"
| "event_loop (FeedClosed # xs) = ([], True)"
| "event_loop (ClientGone # xs) = ([], True)"

definition stream_headers :: header where
  "stream_headers =
     [(''Content-Type'', [''text/event-stream'']), (''Cache-Control'', [''no-cache'']),
      (''Connection'', [''keep-alive'']), (''X-Accel-Buffering'', [''no''])]"

text \<open>The subscription ends with the handler.\<close>

definition end_stream :: "nat \<Rightarrow> wake list \<Rightarrow> 'b gateway \<Rightarrow> 'b gateway" where
  "end_stream ch xs g =
     (if snd (event_loop xs) then g\<lparr>gt_feed := unsubscribe (gt_feed g) ch\<rparr> else g)"

subsection \<open>The reader\<close>

text \<open>
  A client by the specification of server-sent events, on the fields the server uses: the
  event's type, its data lines so far, the lines to come.
\<close>

fun sse_client :: "string \<Rightarrow> string list \<Rightarrow> string list \<Rightarrow> (string \<times> string list) list" where
  "sse_client ev data [] = []"
| "sse_client ev data (l # ls) =
     (if l = [] then (if data = [] then [] else [(ev, data)]) @ sse_client [] [] ls
      else if has_prefix l ''event: '' then sse_client (drop 7 l) data ls
      else if has_prefix l ''data: '' then sse_client ev (data @ [drop 6 l]) ls
      else sse_client ev data ls)"

text \<open>The events the loop took before it returned.\<close>

fun events_taken :: "wake list \<Rightarrow> string list" where
  "events_taken (FeedEvent (Some js) # xs) = js # events_taken xs"
| "events_taken (FeedEvent None # xs) = events_taken xs"
| "events_taken (Heartbeat # xs) = events_taken xs"
| "events_taken _ = []"

lemma client_event:
  "CHR 0x0A \<notin> set js \<Longrightarrow>
   sse_client [] [] (split_on (CHR 0x0A) (event_frame js @ out)) =
     (''audit'', [js]) # sse_client [] [] (split_on (CHR 0x0A) out)"
  using split_on_append [of "CHR 0x0A" "''event: audit''" "''data: '' @ js @ CHR 0x0A # CHR 0x0A # out"]
    split_on_append [of "CHR 0x0A" "''data: '' @ js" "CHR 0x0A # out"]
  by (simp add: event_frame_def has_prefix_def)

lemma client_keepalive:
  "sse_client [] [] (split_on (CHR 0x0A) (keepalive @ out)) = sse_client [] [] (split_on (CHR 0x0A) out)"
  using split_on_append [of "CHR 0x0A" "'': keepalive''" "CHR 0x0A # out"]
  by (simp add: keepalive_def has_prefix_def)

text \<open>
  The live stream loses and invents nothing: a client reads exactly the audit events that
  the subscription handed over before the handler returned, in order, whatever keep-alives come
  between them.
\<close>

theorem event_stream_roundtrip:
  assumes "\<forall>j. FeedEvent j \<in> set xs \<longrightarrow> (\<exists>js. j = Some js \<and> CHR 0x0A \<notin> set js)"
  shows "sse_client [] [] (split_on (CHR 0x0A) (fst (event_loop xs))) =
    map (\<lambda>js. (''audit'', [js])) (events_taken xs)"
  using assms
proof (induction xs rule: events_taken.induct)
  case (2 xs)
  from 2(2) [rule_format, of None] have "\<exists>js. None = Some (js :: string)" by auto
  then show ?case by simp
qed (simp_all add: written_event_def client_event client_keepalive case_prod_unfold)

theorem event_stream_roundtrip_witness:
  "sse_client [] [] (split_on (CHR 0x0A) (fst (event_loop
     [FeedEvent (Some ''{}''), Heartbeat, FeedEvent (Some ''[]''), ClientGone, FeedEvent (Some ''1'')]))) =
     [(''audit'', [''{}'']), (''audit'', [''[]''])]"
  by (subst event_stream_roundtrip) auto

text \<open>An event that cannot be encoded leaves its frame open, and the next event runs into it.\<close>

lemma unencodable_event_merges:
  "CHR 0x0A \<notin> set js \<Longrightarrow>
   sse_client [] [] (split_on (CHR 0x0A) (fst (event_loop [FeedEvent None, FeedEvent (Some js)]))) =
     [(''audit'', [[], js])]"
  using split_on_append [of "CHR 0x0A" "''event: audit''" "''data: '' @ js @ CHR 0x0A # CHR 0x0A # []"]
    split_on_append [of "CHR 0x0A" "''data: '' @ js" "[CHR 0x0A]"]
  by (simp add: written_event_def event_frame_def has_prefix_def)

end
