(* ===== verification/Durations.thy ===== *)
theory Durations
  imports Prelude
begin

text \<open>
  \<open>Duration\<close> of config.go: a \<open>time.Duration\<close> (nanoseconds in an int64) with its JSON and YAML
  forms, and what it calls of Go's time package: \<open>Duration.String\<close> and \<open>ParseDuration\<close>. The
  fraction of a number is computed there in floating point; as everywhere, floats are exact
  rationals here, and the product is rounded towards zero.
\<close>

subsection \<open>Duration.String\<close>

text \<open>\<open>fmtFrac\<close>: the last \<open>k\<close> digits, the trailing zeros left out.\<close>

fun frac_loop :: "nat \<Rightarrow> nat \<Rightarrow> bool \<Rightarrow> string \<Rightarrow> nat \<times> bool \<times> string" where
  "frac_loop 0 v started buf = (v, started, buf)"
| "frac_loop (Suc k) v started buf =
     (let d = v mod 10; s = (started \<or> d \<noteq> 0) in
      frac_loop k (v div 10) s (if s then digit_char d # buf else buf))"

definition fmt_frac :: "nat \<Rightarrow> nat \<Rightarrow> string \<Rightarrow> string \<times> nat" where
  "fmt_frac prec v buf =
     (case frac_loop prec v False buf of
        (v', started, out) \<Rightarrow> (if started then CHR ''.'' # out else out, v'))"

definition micro :: string where
  "micro = [CHR 0xC2, CHR 0xB5, CHR ''s'']"

definition second :: nat where
  "second = 1000000000"

definition show_parts :: "nat \<Rightarrow> nat \<Rightarrow> string \<Rightarrow> string" where
  "show_parts prec u unit = (case fmt_frac prec u unit of (buf, v) \<Rightarrow> show_nat v @ buf)"

definition show_seconds :: "nat \<Rightarrow> string" where
  "show_seconds u =
     (case fmt_frac 9 u ''s'' of (buf, v) \<Rightarrow>
        let s = show_nat (v mod 60) @ buf; m = v div 60 in
        if m > 0 then
          let s' = show_nat (m mod 60) @ ''m'' @ s; h = m div 60 in
          if h > 0 then show_nat h @ ''h'' @ s' else s'
        else s)"

definition duration_string :: "int \<Rightarrow> string" where
  "duration_string d =
     (let u = nat \<bar>d\<bar>;
          s = (if u < second then
                 if u = 0 then ''0s''
                 else if u < 1000 then show_parts 0 u ''ns''
                 else if u < 1000000 then show_parts 3 u micro
                 else show_parts 6 u ''ms''
               else show_seconds u)
      in if d < 0 then CHR ''-'' # s else s)"

subsection \<open>ParseDuration\<close>

definition is_dec :: "char \<Rightarrow> bool" where
  "is_dec c \<longleftrightarrow> 48 \<le> (of_char c :: nat) \<and> (of_char c :: nat) \<le> 57"

definition dec_value :: "char \<Rightarrow> nat" where
  "dec_value c = of_char c - 48"

fun leading_int :: "nat \<Rightarrow> string \<Rightarrow> (nat \<times> string) option" where
  "leading_int x [] = Some (x, [])"
| "leading_int x (c # cs) =
     (if \<not> is_dec c then Some (x, c # cs)
      else if x > 2 ^ 63 div 10 then None
      else let y = x * 10 + dec_value c in if y > 2 ^ 63 then None else leading_int y cs)"

text \<open>The value, the power of ten it is divided by, and what follows; it stops counting when full.\<close>

fun leading_fraction :: "nat \<Rightarrow> nat \<Rightarrow> bool \<Rightarrow> string \<Rightarrow> nat \<times> nat \<times> string" where
  "leading_fraction x scale full [] = (x, scale, [])"
| "leading_fraction x scale full (c # cs) =
     (if \<not> is_dec c then (x, scale, c # cs)
      else if full \<or> x > (2 ^ 63 - 1) div 10 then leading_fraction x scale True cs
      else let y = x * 10 + dec_value c in
           if y > 2 ^ 63 then leading_fraction x scale True cs
           else leading_fraction y (scale * 10) False cs)"

definition unit_map :: "(string \<times> nat) list" where
  "unit_map =
     [(''ns'', 1), (''us'', 1000), (micro, 1000), ([CHR 0xCE, CHR 0xBC, CHR ''s''], 1000),
      (''ms'', 1000000), (''s'', second), (''m'', 60 * second), (''h'', 3600 * second)]"

text \<open>One round of the loop: a number and its unit.\<close>

definition parse_term :: "string \<Rightarrow> (nat \<times> string) option" where
  "parse_term s =
     (if s = [] \<or> \<not> (hd s = CHR ''.'' \<or> is_dec (hd s)) then None
      else
        (case leading_int 0 s of
           None \<Rightarrow> None
         | Some (v, s1) \<Rightarrow>
             let pre = (length s1 \<noteq> length s);
                 dot = (s1 \<noteq> [] \<and> hd s1 = CHR ''.'');
                 (f, scale, s2) = (if dot then leading_fraction 0 1 False (tl s1) else (0, 1, s1));
                 post = (dot \<and> length s2 \<noteq> length (tl s1))
             in
             if \<not> pre \<and> \<not> post then None
             else
               let u = takeWhile (\<lambda>c. \<not> (c = CHR ''.'' \<or> is_dec c)) s2 in
               if u = [] then None
               else
                 (case map_of unit_map u of
                    None \<Rightarrow> None
                  | Some unit \<Rightarrow>
                      if v > 2 ^ 63 div unit then None
                      else let w = v * unit + f * unit div scale in
                           if f > 0 \<and> w > 2 ^ 63 then None else Some (w, drop (length u) s2))))"

lemma leading_int_length: "leading_int x s = Some (v, r) \<Longrightarrow> length r \<le> length s"
  by (induction x s rule: leading_int.induct) (fastforce simp: Let_def split: if_splits)+

lemma leading_fraction_length: "leading_fraction x sc b s = (f, k, r) \<Longrightarrow> length r \<le> length s"
  by (induction x sc b s rule: leading_fraction.induct) (fastforce simp: Let_def split: if_splits)+

lemma parse_term_progress: "parse_term s = Some (v, r) \<Longrightarrow> length r < length s"
  by (auto simp: parse_term_def Let_def split: if_splits option.splits prod.splits
      dest!: leading_int_length leading_fraction_length)

text \<open>The sum is kept in an unsigned word of 64 bits.\<close>

function parse_terms :: "nat \<Rightarrow> string \<Rightarrow> nat option" where
  "parse_terms d s =
     (if s = [] then Some d
      else (case parse_term s of
              None \<Rightarrow> None
            | Some (v, r) \<Rightarrow>
                let d' = (d + v) mod 2 ^ 64 in if d' > 2 ^ 63 then None else parse_terms d' r))"
  by pat_completeness auto
termination
  by (relation "measure (\<lambda>(d, s). length s)") (auto dest: parse_term_progress)

declare parse_terms.simps [simp del]

definition parse_duration :: "string \<Rightarrow> int option" where
  "parse_duration s0 =
     (let neg = (s0 \<noteq> [] \<and> hd s0 = CHR ''-'');
          s = (if s0 \<noteq> [] \<and> (hd s0 = CHR ''-'' \<or> hd s0 = CHR ''+'') then tl s0 else s0)
      in if s = ''0'' then Some 0
         else if s = [] then None
         else (case parse_terms 0 s of
                 None \<Rightarrow> None
               | Some d \<Rightarrow>
                   if neg then Some (- int d)
                   else if d > 2 ^ 63 - 1 then None else Some (int d)))"

subsection \<open>The codec of the configuration\<close>

text \<open>\<open>strconv.ParseInt(s, 10, 64)\<close>.\<close>

definition parse_int64 :: "string \<Rightarrow> int option" where
  "parse_int64 s0 =
     (let neg = (s0 \<noteq> [] \<and> hd s0 = CHR ''-'');
          s = (if s0 \<noteq> [] \<and> (hd s0 = CHR ''-'' \<or> hd s0 = CHR ''+'') then tl s0 else s0)
      in if s = [] then None
         else (case atoi_digits 0 s of
                 None \<Rightarrow> None
               | Some n \<Rightarrow>
                   if neg then (if n > 2 ^ 63 then None else Some (- n))
                   else (if n \<ge> 2 ^ 63 then None else Some n)))"

datatype duration_error = BadDuration | NotScalar

text \<open>\<open>strings.Trim(s, "\"")\<close> on the raw JSON value; a value that is empty or null changes nothing.\<close>

definition trim_quotes :: "string \<Rightarrow> string" where
  "trim_quotes s = (let q = (\<lambda>c. c = CHR 0x22) in rev (dropWhile q (rev (dropWhile q s))))"

definition read_duration :: "string \<Rightarrow> (duration_error, int) go" where
  "read_duration s =
     (case parse_int64 s of
        Some n \<Rightarrow> Ok n
      | None \<Rightarrow> (case parse_duration s of Some d \<Rightarrow> Ok d | None \<Rightarrow> Fail BadDuration))"

definition unmarshal_json :: "string \<Rightarrow> int \<Rightarrow> (duration_error, int) go" where
  "unmarshal_json b d =
     (let s = trim_quotes b in if s = [] \<or> s = ''null'' then Ok d else read_duration s)"

text \<open>The string needs no escapes in JSON.\<close>

definition marshal_json :: "int \<Rightarrow> string" where
  "marshal_json d = [CHR 0x22] @ duration_string d @ [CHR 0x22]"

text \<open>A YAML node: a scalar with its value, or anything else.\<close>

definition unmarshal_yaml :: "string option \<Rightarrow> int \<Rightarrow> (duration_error, int) go" where
  "unmarshal_yaml node d = (case node of None \<Rightarrow> Fail NotScalar | Some s \<Rightarrow> read_duration s)"

definition marshal_yaml :: "int \<Rightarrow> string" where
  "marshal_yaml d = duration_string d"

subsection \<open>Reading digits back\<close>

fun digits :: "nat \<Rightarrow> nat \<Rightarrow> string" where
  "digits 0 n = []"
| "digits (Suc k) n = digits k (n div 10) @ [digit_char (n mod 10)]"

lemma dec_digit [simp]: "d < 10 \<Longrightarrow> is_dec (digit_char d)" "d < 10 \<Longrightarrow> dec_value (digit_char d) = d"
  by (simp_all add: is_dec_def dec_value_def of_char_digit_char)

lemma show_nat_dec: "c \<in> set (show_nat n) \<Longrightarrow> is_dec c"
  using show_nat_digits by (simp add: is_dec_def)

lemma hd_show_nat_dec: "is_dec (hd (show_nat n @ s))"
  using show_nat_dec [of "hd (show_nat n)" n] show_nat_nonempty [of n] by simp

lemma length_digits [simp]: "length (digits k n) = k"
  by (induction k arbitrary: n) simp_all

lemma leading_int_show_nat: "n \<le> 2 ^ 63 \<Longrightarrow> leading_int 0 (show_nat n @ s) = leading_int n s"
proof (induction n arbitrary: s rule: show_nat.induct)
  case (1 n)
  show ?case
  proof (cases "n < 10")
    case True
    then show ?thesis by (simp add: show_nat.simps [of n])
  next
    case False
    have "n div 10 \<le> 2 ^ 63 div 10" using 1(2) by (rule div_le_mono)
    moreover have "n div 10 * 10 + n mod 10 = n" by simp
    ultimately show ?thesis using 1 False by (simp add: show_nat.simps [of n] Let_def)
  qed
qed

lemma leading_int_stop: "s = [] \<or> \<not> is_dec (hd s) \<Longrightarrow> leading_int n s = Some (n, s)"
  by (cases s) auto

lemma leading_fraction_stop: "s = [] \<or> \<not> is_dec (hd s) \<Longrightarrow> leading_fraction x sc b s = (x, sc, s)"
  by (cases s) auto

lemma leading_fraction_digit:
  "d < 10 \<Longrightarrow> y * 10 + 10 \<le> 10 ^ 9 \<Longrightarrow>
   leading_fraction y sc False (digit_char d # s) = leading_fraction (y * 10 + d) (sc * 10) False s"
  by (simp add: Let_def)

lemma leading_fraction_digits:
  "(x + 1) * 10 ^ k \<le> 10 ^ 9 \<Longrightarrow>
   leading_fraction x sc False (digits k n @ s) = leading_fraction (x * 10 ^ k + n mod 10 ^ k) (sc * 10 ^ k) False s"
proof (induction k arbitrary: n s)
  case (Suc k)
  have "(x + 1) * 10 ^ k \<le> 10 ^ 9" using Suc.prems by simp
  note ih = Suc.IH [OF this]
  let ?y = "x * 10 ^ k + n div 10 mod 10 ^ k"
  have "n div 10 mod 10 ^ k < 10 ^ k" by simp
  then have "?y + 1 \<le> (x + 1) * 10 ^ k" by (simp add: add_mult_distrib Suc_le_eq)
  then have "(?y + 1) * 10 \<le> (x + 1) * 10 ^ k * 10" by (rule mult_right_mono) simp
  also have "\<dots> = (x + 1) * 10 ^ Suc k" by simp
  finally have y: "?y * 10 + 10 \<le> 10 ^ 9" using Suc.prems by (auto intro: order_trans)
  have "?y * 10 + n mod 10 = x * 10 ^ Suc k + n mod 10 ^ Suc k"
    by (simp add: mod_mult2_eq add_mult_distrib)
  moreover have "leading_fraction x sc False (digits (Suc k) n @ s) =
      leading_fraction ?y (sc * 10 ^ k) False (digit_char (n mod 10) # s)"
    using ih [of "n div 10" "digit_char (n mod 10) # s"] by simp
  moreover have "leading_fraction ?y (sc * 10 ^ k) False (digit_char (n mod 10) # s) =
      leading_fraction (?y * 10 + n mod 10) (sc * 10 ^ k * 10) False s"
    by (rule leading_fraction_digit [OF _ y]) simp
  ultimately show ?case by (simp only: power_Suc mult.assoc mult.commute [of 10])
qed simp

lemma frac_loop_started: "frac_loop k v True buf = (v div 10 ^ k, True, digits k v @ buf)"
  by (induction k arbitrary: v buf) (simp_all add: Let_def div_mult2_eq)

lemma digits_mod: "digits k (n mod 10 ^ k) = digits k n"
proof (induction k arbitrary: n)
  case (Suc k)
  have "n mod 10 ^ Suc k div 10 = n div 10 mod 10 ^ k" "n mod 10 ^ Suc k mod 10 = n mod 10"
    by (simp_all add: mod_mult2_eq)
  with Suc show ?case by (metis digits.simps(2))
qed simp

lemma frac_loop_trims:
  "(v mod 10 ^ p = 0 \<and> frac_loop p v False buf = (v div 10 ^ p, False, buf)) \<or>
   (\<exists>k n. 0 < k \<and> k \<le> p \<and> n < 10 ^ k \<and> n * 10 ^ (p - k) = v mod 10 ^ p \<and>
      frac_loop p v False buf = (v div 10 ^ p, True, digits k n @ buf))"
proof (induction p arbitrary: v)
  case (Suc p)
  show ?case
  proof (cases "v mod 10 = 0")
    case True
    then have m: "v mod 10 ^ Suc p = 10 * (v div 10 mod 10 ^ p)" by (simp add: mod_mult2_eq)
    have l: "frac_loop (Suc p) v False buf = frac_loop p (v div 10) False buf" using True by (simp add: Let_def)
    from Suc.IH [of "v div 10"] show ?thesis
    proof
      assume "v div 10 mod 10 ^ p = 0 \<and> frac_loop p (v div 10) False buf = (v div 10 div 10 ^ p, False, buf)"
      with l m show ?thesis by (simp add: div_mult2_eq)
    next
      assume "\<exists>k n. 0 < k \<and> k \<le> p \<and> n < 10 ^ k \<and> n * 10 ^ (p - k) = v div 10 mod 10 ^ p \<and>
        frac_loop p (v div 10) False buf = (v div 10 div 10 ^ p, True, digits k n @ buf)"
      then obtain k n where k: "0 < k" "k \<le> p" "n < 10 ^ k" "n * 10 ^ (p - k) = v div 10 mod 10 ^ p"
        "frac_loop p (v div 10) False buf = (v div 10 div 10 ^ p, True, digits k n @ buf)" by blast
      then have "n * 10 ^ (Suc p - k) = v mod 10 ^ Suc p" using m by (simp add: Suc_diff_le)
      with k l show ?thesis by (intro disjI2 exI [of _ k] exI [of _ n]) (simp add: div_mult2_eq)
    qed
  next
    case False
    have "frac_loop (Suc p) v False buf = (v div 10 ^ Suc p, True, digits (Suc p) v @ buf)"
      using False by (simp add: Let_def frac_loop_started div_mult2_eq)
    then have "frac_loop (Suc p) v False buf =
        (v div 10 ^ Suc p, True, digits (Suc p) (v mod 10 ^ Suc p) @ buf)"
      using digits_mod [of "Suc p" v] by metis
    then show ?thesis
      by (intro disjI2 exI [where x = "Suc p"] exI [where x = "v mod 10 ^ Suc p"]) simp
  qed
qed simp

subsection \<open>Reading a term back\<close>

definition unit_name :: "string \<Rightarrow> nat \<Rightarrow> bool" where
  "unit_name u unit \<longleftrightarrow> map_of unit_map u = Some unit \<and> u \<noteq> [] \<and> 0 < unit \<and>
     (\<forall>c\<in>set u. c \<noteq> CHR ''.'' \<and> \<not> is_dec c)"

lemma unit_names:
  "unit_name ''ns'' 1" "unit_name micro 1000" "unit_name ''ms'' 1000000" "unit_name ''s'' second"
  "unit_name ''m'' (60 * second)" "unit_name ''h'' (3600 * second)"
  by (simp_all add: unit_name_def unit_map_def micro_def second_def is_dec_def)

lemma unit_taken:
  assumes "unit_name u unit" and "rest = [] \<or> is_dec (hd rest)"
  shows "takeWhile (\<lambda>c. \<not> (c = CHR ''.'' \<or> is_dec c)) (u @ rest) = u"
proof -
  have "takeWhile (\<lambda>c. \<not> (c = CHR ''.'' \<or> is_dec c)) rest = []" using assms(2) by (cases rest) simp_all
  moreover have "\<forall>c\<in>set u. \<not> (c = CHR ''.'' \<or> is_dec c)" using assms(1) by (simp add: unit_name_def)
  ultimately show ?thesis by simp
qed

lemma unit_stops:
  assumes "unit_name u unit"
  shows "u @ rest = [] \<or> \<not> is_dec (hd (u @ rest))" "hd (u @ rest) \<noteq> CHR ''.''" "u \<noteq> []"
  using assms by (auto simp: unit_name_def)

lemma parse_term_whole:
  assumes "unit_name u unit" and "rest = [] \<or> is_dec (hd rest)" and "v * unit \<le> 2 ^ 63"
  shows "parse_term (show_nat v @ u @ rest) = Some (v * unit, rest)"
proof -
  have unit: "0 < unit" "map_of unit_map u = Some unit" using assms(1) by (simp_all add: unit_name_def)
  with assms(3) have v: "v \<le> 2 ^ 63 div unit" by (simp add: less_eq_div_iff_mult_less_eq)
  then have "v \<le> 2 ^ 63" by (rule order_trans) (rule div_le_dividend)
  then have "leading_int 0 (show_nat v @ u @ rest) = Some (v, u @ rest)"
    by (simp add: leading_int_show_nat leading_int_stop [OF unit_stops(1) [OF assms(1)]])
  with v unit unit_stops [OF assms(1)] unit_taken [OF assms(1,2)] hd_show_nat_dec [of v "u @ rest"] show_nat_nonempty [of v]
  show ?thesis by (simp add: parse_term_def)
qed

lemma not_dec_dot: "\<not> is_dec (CHR ''.'')"
  by (simp add: is_dec_def)

lemma parse_term_fraction:
  assumes "unit_name u unit" and "rest = [] \<or> is_dec (hd rest)"
    and "0 < k" "k \<le> 9" "n < 10 ^ k" and "v * unit + n * unit div 10 ^ k \<le> 2 ^ 63"
  shows "parse_term (show_nat v @ CHR ''.'' # digits k n @ u @ rest) = Some (v * unit + n * unit div 10 ^ k, rest)"
proof -
  let ?t = "CHR ''.'' # digits k n @ u @ rest"
  have unit: "0 < unit" "map_of unit_map u = Some unit" using assms(1) by (simp_all add: unit_name_def)
  have "v * unit \<le> 2 ^ 63" using assms(6) by linarith
  with unit have v: "v \<le> 2 ^ 63 div unit" by (simp add: less_eq_div_iff_mult_less_eq)
  then have "v \<le> 2 ^ 63" by (rule order_trans) (rule div_le_dividend)
  then have i: "leading_int 0 (show_nat v @ ?t) = Some (v, ?t)"
    by (simp add: leading_int_show_nat not_dec_dot)
  have "(10 :: nat) ^ k \<le> 10 ^ 9" using assms(4) by (rule power_increasing) simp
  then have f: "leading_fraction 0 1 False (digits k n @ u @ rest) = (n, 10 ^ k, u @ rest)"
    using leading_fraction_digits [of 0 k 1 n "u @ rest"] assms(5)
    by (simp add: leading_fraction_stop [OF unit_stops(1) [OF assms(1)]])
  show ?thesis
    using i f v unit assms(3,6) unit_stops [OF assms(1)] unit_taken [OF assms(1,2)]
      hd_show_nat_dec [of v ?t] show_nat_nonempty [of v]
    by (simp add: parse_term_def)
qed

text \<open>A number printed with up to nine decimals, and the unit they are decimals of.\<close>

lemma fmt_frac_back:
  assumes "unit_name u (10 ^ p)" and "p \<le> 9"
  obtains buf where "fmt_frac p w u = (buf, w div 10 ^ p)" "\<exists>t. buf = t @ u"
    "\<And>v rest. rest = [] \<or> is_dec (hd rest) \<Longrightarrow> v * 10 ^ p + w mod 10 ^ p \<le> 2 ^ 63 \<Longrightarrow>
       parse_term (show_nat v @ buf @ rest) = Some (v * 10 ^ p + w mod 10 ^ p, rest)"
proof (cases "frac_loop p w False u = (w div 10 ^ p, False, u) \<and> w mod 10 ^ p = 0")
  case True
  then have "parse_term (show_nat v @ u @ rest) = Some (v * 10 ^ p + w mod 10 ^ p, rest)"
    if "rest = [] \<or> is_dec (hd rest)" "v * 10 ^ p + w mod 10 ^ p \<le> 2 ^ 63" for v rest
    using parse_term_whole [OF assms(1) that(1), of v] that(2) by simp
  moreover have "fmt_frac p w u = (u, w div 10 ^ p)" using True by (simp add: fmt_frac_def)
  moreover have "\<exists>t. u = t @ u" by (metis append_Nil)
  ultimately show ?thesis using that by blast
next
  case False
  have "\<exists>k n. 0 < k \<and> k \<le> p \<and> n < 10 ^ k \<and> n * 10 ^ (p - k) = w mod 10 ^ p \<and>
      frac_loop p w False u = (w div 10 ^ p, True, digits k n @ u)"
    using frac_loop_trims [of w p u] by (rule disjE) (use False in simp_all)
  then obtain k n where k: "0 < k" "k \<le> p" "n < 10 ^ k"
    "n * 10 ^ (p - k) = w mod 10 ^ p" "frac_loop p w False u = (w div 10 ^ p, True, digits k n @ u)" by blast
  have "(10 :: nat) ^ p = 10 ^ (p - k) * 10 ^ k" using k(2) by (simp flip: power_add)
  then have eq: "n * 10 ^ p div 10 ^ k = w mod 10 ^ p" using k(4) by (simp add: mult.assoc [symmetric])
  have "k \<le> 9" using k(2) assms(2) by (rule order_trans)
  have "parse_term (show_nat v @ (CHR ''.'' # digits k n @ u) @ rest) = Some (v * 10 ^ p + w mod 10 ^ p, rest)"
    if "rest = [] \<or> is_dec (hd rest)" "v * 10 ^ p + w mod 10 ^ p \<le> 2 ^ 63" for v rest
    using parse_term_fraction [OF assms(1) that(1) k(1) \<open>k \<le> 9\<close> k(3), of v, unfolded eq, OF that(2)]
    by (simp only: append_Cons append_assoc)
  moreover have "fmt_frac p w u = (CHR ''.'' # digits k n @ u, w div 10 ^ p)" using k(5) by (simp add: fmt_frac_def)
  moreover have "\<exists>t. CHR ''.'' # digits k n @ u = t @ u" by (metis append_Cons)
  ultimately show ?thesis using that by blast
qed

lemma parse_terms_step:
  "parse_term s = Some (v, r) \<Longrightarrow> d + v \<le> 2 ^ 63 \<Longrightarrow> parse_terms d s = parse_terms (d + v) r"
proof -
  assume a: "parse_term s = Some (v, r)" "d + v \<le> 2 ^ 63"
  then have "s \<noteq> []" by (auto simp: parse_term_def)
  moreover have "(d + v) mod 2 ^ 64 = d + v" using a(2) by simp
  ultimately show ?thesis using a by (subst parse_terms.simps) simp
qed

lemma parse_terms_end: "parse_terms d [] = Some d"
  by (subst parse_terms.simps) simp

subsection \<open>The round trip\<close>

lemma parse_single:
  assumes "unit_name u (10 ^ p)" "p \<le> 9" "w \<le> 2 ^ 63"
  shows "parse_terms 0 (show_parts p w u) = Some w" "\<exists>t. show_parts p w u = t @ u" "is_dec (hd (show_parts p w u))"
proof -
  from fmt_frac_back [OF assms(1,2), of w] obtain buf where f: "fmt_frac p w u = (buf, w div 10 ^ p)" "\<exists>t. buf = t @ u"
    and b: "\<And>v rest. rest = [] \<or> is_dec (hd rest) \<Longrightarrow> v * 10 ^ p + w mod 10 ^ p \<le> 2 ^ 63 \<Longrightarrow>
       parse_term (show_nat v @ buf @ rest) = Some (v * 10 ^ p + w mod 10 ^ p, rest)" by metis
  have w: "w div 10 ^ p * 10 ^ p + w mod 10 ^ p = w" by (rule div_mult_mod_eq)
  have s: "show_parts p w u = show_nat (w div 10 ^ p) @ buf" by (simp add: show_parts_def f)
  from b [of "[]" "w div 10 ^ p"] w assms(3) have "parse_term (show_nat (w div 10 ^ p) @ buf) = Some (w, [])" by simp
  then have "parse_terms 0 (show_nat (w div 10 ^ p) @ buf) = parse_terms (0 + w) []"
    by (rule parse_terms_step) (use assms(3) in simp)
  then show "parse_terms 0 (show_parts p w u) = Some w" by (simp add: s parse_terms_end)
  from f(2) show "\<exists>t. show_parts p w u = t @ u" by (metis s append_assoc)
  show "is_dec (hd (show_parts p w u))" by (simp add: s hd_show_nat_dec)
qed

lemma parse_seconds:
  assumes "w \<le> 2 ^ 63"
  shows "parse_terms 0 (show_seconds w) = Some w" "\<exists>t. show_seconds w = t @ ''s''" "is_dec (hd (show_seconds w))"
proof -
  have u: "unit_name ''s'' (10 ^ 9)" using unit_names(4) by (simp add: second_def)
  from fmt_frac_back [OF u order_refl, of w] obtain buf where
    f: "fmt_frac 9 w ''s'' = (buf, w div 10 ^ 9)" "\<exists>t. buf = t @ ''s''"
    and b: "\<And>v rest. rest = [] \<or> is_dec (hd rest) \<Longrightarrow> v * 10 ^ 9 + w mod 10 ^ 9 \<le> 2 ^ 63 \<Longrightarrow>
       parse_term (show_nat v @ buf @ rest) = Some (v * 10 ^ 9 + w mod 10 ^ 9, rest)" by metis
  define v where "v = w div 10 ^ 9"
  define m where "m = v div 60"
  define r where "r = v mod 60 * 10 ^ 9 + w mod 10 ^ 9"
  define s where "s = show_nat (v mod 60) @ buf"
  define h where "h = m div 60"
  define s' where "s' = show_nat (m mod 60) @ ''m'' @ s"
  have w: "w = v * 10 ^ 9 + w mod 10 ^ 9" by (simp add: v_def)
  have v: "v = m * 60 + v mod 60" and m: "m = h * 60 + m mod 60" by (simp_all add: m_def h_def)
  have sum1: "m * (60 * second) + r = w" using v w by (simp add: r_def second_def)
  have sum2: "h * (3600 * second) + (m mod 60 * (60 * second) + r) = w" using sum1 m by (simp add: second_def)
  have d: "is_dec (hd s)" "is_dec (hd s')" by (simp_all add: s_def s'_def hd_show_nat_dec)
  from b [of "[]" "v mod 60"] sum1 assms have "parse_term s = Some (r, [])" by (simp add: s_def r_def)
  then have t0: "parse_terms d s = Some (d + r)" if "d + r \<le> 2 ^ 63" for d
    using parse_terms_step [of s r "[]" d] that by (simp add: parse_terms_end)
  have "m mod 60 * (60 * second) \<le> 2 ^ 63" "h * (3600 * second) \<le> 2 ^ 63" using sum2 assms by linarith+
  note whole = parse_term_whole [OF unit_names(5) disjI2 [OF d(1)] this(1)]
    parse_term_whole [OF unit_names(6) disjI2 [OF d(2)] this(2)]
  have "parse_term s' = Some (m mod 60 * (60 * second), s)" unfolding s'_def by (rule whole(1))
  then have t1: "parse_terms d s' = Some (d + (m mod 60 * (60 * second) + r))"
    if "d + (m mod 60 * (60 * second) + r) \<le> 2 ^ 63" for d
    using parse_terms_step [of s' "m mod 60 * (60 * second)" s d] t0 [of "d + m mod 60 * (60 * second)"] that
    by (simp add: add.assoc)
  have "parse_terms 0 (show_nat h @ ''h'' @ s') = parse_terms (0 + h * (3600 * second)) s'"
    by (rule parse_terms_step [OF whole(2)]) (simp only: add_0 \<open>h * (3600 * second) \<le> 2 ^ 63\<close>)
  also have "\<dots> = Some w" using t1 [of "h * (3600 * second)"] sum2 assms by simp
  finally have t2: "parse_terms 0 (show_nat h @ ''h'' @ s') = Some w" .
  have shown: "show_seconds w = (if m > 0 then (if h > 0 then show_nat h @ ''h'' @ s' else s') else s)"
    by (simp only: show_seconds_def f(1) prod.case Let_def s'_def s_def h_def m_def v_def)
  show "parse_terms 0 (show_seconds w) = Some w"
    unfolding shown using t0 [of 0] t1 [of 0] t2 sum1 sum2 assms
    by (cases "m = 0"; cases "h = 0") simp_all
  from f(2) obtain t where "buf = t @ ''s''" by blast
  then have "s = (show_nat (v mod 60) @ t) @ ''s''" by (simp add: s_def)
  moreover from this have "s' = (show_nat (m mod 60) @ ''m'' @ show_nat (v mod 60) @ t) @ ''s''" by (simp add: s'_def)
  ultimately show "\<exists>t. show_seconds w = t @ ''s''" unfolding shown by (metis append_assoc)
  show "is_dec (hd (show_seconds w))" unfolding shown using d hd_show_nat_dec by simp
qed

lemma not_decimal: "c \<in> set s \<Longrightarrow> \<not> is_dec c \<Longrightarrow> atoi_digits n s = None"
  by (induction s arbitrary: n) (auto simp: is_dec_def)

text \<open>The digits of a duration without its sign, and what follows from their form.\<close>

definition magnitude :: "nat \<Rightarrow> string" where
  "magnitude u =
     (if u < second then
        if u = 0 then ''0s''
        else if u < 1000 then show_parts 0 u ''ns''
        else if u < 1000000 then show_parts 3 u micro
        else show_parts 6 u ''ms''
      else show_seconds u)"

lemma parse_zero: "parse_terms 0 ''0s'' = Some 0"
proof -
  have "parse_term (show_nat 0 @ ''s'' @ []) = Some (0 * second, [])"
    by (rule parse_term_whole [OF unit_names(4)]) simp_all
  then have "parse_terms 0 (show_nat 0 @ ''s'' @ []) = parse_terms (0 + 0 * second) []"
    by (rule parse_terms_step) simp
  moreover have "show_nat 0 @ ''s'' @ [] = ''0s''" by code_simp
  ultimately show ?thesis by (simp add: parse_terms_end)
qed

lemma ends:
  "\<exists>t. s = t @ ''ns'' \<Longrightarrow> \<exists>t. s = t @ ''s''" "\<exists>t. s = t @ micro \<Longrightarrow> \<exists>t. s = t @ ''s''"
  "\<exists>t. s = t @ ''ms'' \<Longrightarrow> \<exists>t. s = t @ ''s''"
proof -
  have "\<exists>t. s = t @ (v @ x) \<Longrightarrow> \<exists>t. s = t @ x" for v x by (metis append_assoc)
  from this [of "''n''" "''s''"] this [of "[CHR 0xC2, CHR 0xB5]" "''s''"] this [of "''m''" "''s''"]
  show "\<exists>t. s = t @ ''ns'' \<Longrightarrow> \<exists>t. s = t @ ''s''" "\<exists>t. s = t @ micro \<Longrightarrow> \<exists>t. s = t @ ''s''"
    "\<exists>t. s = t @ ''ms'' \<Longrightarrow> \<exists>t. s = t @ ''s''" by (simp_all add: micro_def)
qed

lemma magnitude_back:
  assumes "u \<le> 2 ^ 63"
  shows "parse_terms 0 (magnitude u) = Some u" "\<exists>t. magnitude u = t @ ''s''" "is_dec (hd (magnitude u))"
proof -
  have units: "unit_name ''ns'' (10 ^ 0)" "unit_name micro (10 ^ 3)" "unit_name ''ms'' (10 ^ 6)"
    using unit_names by simp_all
  note parts = parse_single [OF units(1) _ assms] parse_single [OF units(2) _ assms] parse_single [OF units(3) _ assms]
  show "parse_terms 0 (magnitude u) = Some u"
    using parts(1,4,7) parse_seconds(1) [OF assms] parse_zero by (simp add: magnitude_def)
  have "\<exists>t. show_parts 0 u ''ns'' = t @ ''s''" "\<exists>t. show_parts 3 u micro = t @ ''s''"
    "\<exists>t. show_parts 6 u ''ms'' = t @ ''s''" "\<exists>t. ''0s'' = t @ ''s''"
    using ends(1) [OF parts(2)] ends(2) [OF parts(5)] ends(3) [OF parts(8)] by simp_all
  with parse_seconds(2) [OF assms] show "\<exists>t. magnitude u = t @ ''s''" by (simp add: magnitude_def)
  show "is_dec (hd (magnitude u))"
    using parts(3,6,9) parse_seconds(3) [OF assms] by (simp add: magnitude_def is_dec_def)
qed

lemma duration_string_magnitude:
  "duration_string d = (if d < 0 then CHR ''-'' # magnitude (nat \<bar>d\<bar>) else magnitude (nat \<bar>d\<bar>))"
  by (simp add: duration_string_def magnitude_def Let_def)

lemma read_back:
  assumes "- (2 ^ 63) \<le> d" and "d < 2 ^ 63"
  shows "read_duration (duration_string d) = Ok d"
proof -
  define u where "u = nat \<bar>d\<bar>"
  have "u \<le> 2 ^ 63" using assms by (simp add: u_def)
  have ds: "duration_string d = (if d < 0 then CHR ''-'' # magnitude u else magnitude u)"
    by (simp only: duration_string_magnitude u_def)
  note mag = magnitude_back [OF \<open>u \<le> 2 ^ 63\<close>]
  from mag(2) obtain t where t: "magnitude u = t @ ''s''" by blast
  have h: "magnitude u \<noteq> []" "hd (magnitude u) \<noteq> CHR ''-''" "hd (magnitude u) \<noteq> CHR ''+''" "magnitude u \<noteq> ''0''"
    using mag(3) t by (auto simp: is_dec_def)
  have "atoi_digits 0 (magnitude u) = None"
    by (rule not_decimal [of "CHR ''s''"]) (simp_all add: t is_dec_def)
  with h have "parse_int64 (duration_string d) = None"
    by (simp add: parse_int64_def ds)
  moreover have "parse_duration (duration_string d) = Some d"
    using h mag(1) assms by (auto simp: parse_duration_def ds) (auto simp: u_def)
  ultimately show ?thesis by (simp add: read_duration_def)
qed

text \<open>
  C27. A duration written back is read as the same duration: for every value of an int64,
  the string that JSON and YAML get is accepted by their readers and gives that value, also
  the most negative one, whose magnitude does not fit an int64.
\<close>

theorem duration_roundtrip:
  assumes "- (2 ^ 63) \<le> d" and "d < 2 ^ 63"
  shows "unmarshal_json (marshal_json d) d0 = Ok d \<and> unmarshal_yaml (Some (marshal_yaml d)) d0 = Ok d"
proof -
  define u where "u = nat \<bar>d\<bar>"
  have "u \<le> 2 ^ 63" using assms by (simp add: u_def)
  from magnitude_back(2,3) [OF this] obtain t where t: "magnitude u = t @ ''s''" "is_dec (hd (magnitude u))" by blast
  have ds: "duration_string d = (if d < 0 then CHR ''-'' # magnitude u else magnitude u)"
    by (simp only: duration_string_magnitude u_def)
  then have "duration_string d = (if d < 0 then CHR ''-'' # t else t) @ ''s''" using t(1) by simp
  then obtain r where r: "duration_string d = r @ ''s''" by blast
  have q: "hd (duration_string d) \<noteq> CHR 0x22" "hd (duration_string d) \<noteq> CHR ''n''"
    using t(2) by (auto simp: ds is_dec_def)
  have "trim_quotes (marshal_json d) = duration_string d"
  proof -
    have "duration_string d \<noteq> []" by (simp add: r)
    with q(1) obtain a as where a: "duration_string d = a # as" "a \<noteq> CHR 0x22" by (auto simp: neq_Nil_conv)
    then have "dropWhile (\<lambda>c. c = CHR 0x22) (marshal_json d) = duration_string d @ [CHR 0x22]"
      by (simp add: marshal_json_def)
    then show ?thesis by (simp add: trim_quotes_def Let_def) (simp add: r)
  qed
  then show ?thesis
    using q(2) r read_back [OF assms] by (auto simp: unmarshal_json_def unmarshal_yaml_def marshal_yaml_def Let_def)
qed

theorem duration_roundtrip_witness:
  "unmarshal_json (marshal_json 90000000001) 0 = Ok 90000000001 \<and>
   unmarshal_yaml (Some (marshal_yaml 90000000001)) 0 = Ok 90000000001"
  by (rule duration_roundtrip) simp_all

text \<open>The empty string is where the two readers differ: JSON keeps the old value, YAML refuses it.\<close>

lemma empty_duration:
  "unmarshal_json [CHR 0x22, CHR 0x22] d = Ok d" "unmarshal_yaml (Some []) d = Fail BadDuration"
  by (simp_all add: unmarshal_json_def unmarshal_yaml_def trim_quotes_def read_duration_def
      parse_int64_def parse_duration_def)

end
