(* ===== verification/ApiRaces.thy ===== *)
theory ApiRaces
  imports MgmtSafety
begin

text \<open>
  Concurrent \<open>POST /sites\<close> requests. net/http runs every handler in a goroutine of its own, and
  no lock is held around the configuration the handlers share, so the load of the slice header
  \<open>cfg.Sites\<close>, the write of the new element and the store of the header are three steps that other
  requests can come between. MgmtApi has the three as one; here they are separate, over the
  arrays the slices point into. A load and a store of a header are taken as single steps, which
  is more than Go promises for unsynchronised code.
\<close>

subsection \<open>Arrays and threads\<close>

record sites_mem =
  sm_arrays :: "nat \<Rightarrow> site list"
  sm_sites :: "nat \<times> nat"
  sm_next :: nat

definition visible_sites :: "sites_mem \<Rightarrow> site list" where
  "visible_sites m = (case sm_sites m of (a, n) \<Rightarrow> take n (sm_arrays m a))"

definition spare_sites :: "sites_mem \<Rightarrow> site list" where
  "spare_sites m = (case sm_sites m of (a, n) \<Rightarrow> drop n (sm_arrays m a))"

text \<open>\<open>append\<close> of one element to a slice; \<open>k\<close> is the spare capacity of a new array.\<close>

definition append_slice :: "nat \<Rightarrow> site \<Rightarrow> nat \<times> nat \<Rightarrow> sites_mem \<Rightarrow> (nat \<times> nat) \<times> sites_mem" where
  "append_slice k s sl m =
     (case sl of (a, n) \<Rightarrow>
        let arr = sm_arrays m a in
        if n < length arr
        then ((a, n + 1), m\<lparr>sm_arrays := (sm_arrays m)(a := arr[n := s])\<rparr>)
        else let b = sm_next m in
             ((b, n + 1),
              m\<lparr>sm_arrays := (sm_arrays m)(b := take n arr @ s # replicate k zero_site), sm_next := b + 1\<rparr>))"

text \<open>How far a handler is in \<open>cfg.Sites = append(cfg.Sites, st)\<close>, with the slice it holds.\<close>

datatype create_pc = Begin | Loaded "nat \<times> nat" | Appended "nat \<times> nat" | Stored

fun create_step :: "nat \<Rightarrow> site \<Rightarrow> create_pc \<Rightarrow> sites_mem \<Rightarrow> create_pc \<times> sites_mem" where
  "create_step k s Begin m = (Loaded (sm_sites m), m)"
| "create_step k s (Loaded sl) m = (case append_slice k s sl m of (sl', m') \<Rightarrow> (Appended sl', m'))"
| "create_step k s (Appended sl) m = (Stored, m\<lparr>sm_sites := sl\<rparr>)"
| "create_step k s Stored m = (Stored, m)"

type_synonym race = "(site \<times> create_pc) list \<times> sites_mem"

text \<open>Any handler may take the next step, and a new array may get any capacity.\<close>

inductive race_step :: "race \<Rightarrow> race \<Rightarrow> bool" where
  advance: "i < length ts \<Longrightarrow> ts ! i = (s, pc) \<Longrightarrow> create_step k s pc m = (pc', m') \<Longrightarrow>
    race_step (ts, m) (ts[i := (s, pc')], m')"

inductive race_reach :: "race \<Rightarrow> race \<Rightarrow> bool" for r where
  start: "race_reach r r"
| more: "race_reach r r' \<Longrightarrow> race_step r' r'' \<Longrightarrow> race_reach r r''"

inductive_cases race_step_elim: "race_step (ts, m) (ts', m')"

text \<open>A run under a given schedule.\<close>

fun run_schedule :: "nat \<Rightarrow> nat list \<Rightarrow> race \<Rightarrow> race" where
  "run_schedule k [] r = r"
| "run_schedule k (i # is) (ts, m) =
     (case ts ! i of (s, pc) \<Rightarrow>
        (case create_step k s pc m of (pc', m') \<Rightarrow> run_schedule k is (ts[i := (s, pc')], m')))"

text \<open>The arrays as a state of the API has them, and the requests before their first step.\<close>

definition race_mem :: "config \<Rightarrow> 'b api_state \<Rightarrow> sites_mem" where
  "race_mem c st =
     \<lparr>sm_arrays = (\<lambda>_. [])(0 := c_sites c @ as_tail st), sm_sites = (0, length (c_sites c)), sm_next = 1\<rparr>"

definition race_start :: "config \<Rightarrow> 'b api_state \<Rightarrow> site list \<Rightarrow> race" where
  "race_start c st new = (map (\<lambda>s. (s, Begin)) new, race_mem c st)"

subsection \<open>One handler alone\<close>

lemma schedule_reach:
  "race_reach r0 (ts, m) \<Longrightarrow> \<forall>i \<in> set is. i < length ts \<Longrightarrow> race_reach r0 (run_schedule k is (ts, m))"
proof (induction "is" arbitrary: ts m)
  case (Cons i "is")
  obtain s pc where t: "ts ! i = (s, pc)" by (cases "ts ! i")
  obtain pc' m' where step: "create_step k s pc m = (pc', m')" by (cases "create_step k s pc m")
  from Cons.prems have "race_step (ts, m) (ts[i := (s, pc')], m')" by (auto intro: advance t step)
  with Cons.prems(1) have "race_reach r0 (ts[i := (s, pc')], m')" by (rule more)
  with Cons.IH Cons.prems(2) show ?case by (simp add: t step)
qed simp

text \<open>
  A request that nobody interrupts has the effect MgmtApi gives it: the site is appended, and
  the elements behind the slice are those of \<open>grow_sites\<close>.
\<close>

lemma create_alone:
  assumes "run_schedule (aw_spare w) [0, 0, 0] (race_start c st [s]) = (ts, m)"
  shows "ts = [(s, Stored)] \<and> visible_sites m = c_sites c @ [s] \<and> spare_sites m = as_tail (grow_sites w st)"
  using assms
  by (cases "as_tail st")
     (auto simp: race_start_def race_mem_def append_slice_def visible_sites_def spare_sites_def grow_sites_def Let_def)

subsection \<open>What every schedule keeps\<close>

text \<open>A slice some handler holds: it starts with the old sites, and what follows is new.\<close>

definition slice_ok :: "site list \<Rightarrow> site set \<Rightarrow> sites_mem \<Rightarrow> nat \<times> nat \<Rightarrow> bool" where
  "slice_ok old S m sl \<longleftrightarrow>
     (case sl of (a, n) \<Rightarrow>
        a < sm_next m \<and> length old \<le> n \<and> n \<le> length (sm_arrays m a) \<and>
        (\<forall>j < length old. sm_arrays m a ! j = old ! j) \<and>
        (\<forall>j. length old \<le> j \<and> j < n \<longrightarrow> sm_arrays m a ! j \<in> S))"

fun past_append :: "create_pc \<Rightarrow> bool" where
  "past_append (Appended _) = True"
| "past_append Stored = True"
| "past_append _ = False"

definition written :: "(site \<times> create_pc) list \<Rightarrow> nat" where
  "written ts = length (filter (past_append \<circ> snd) ts)"

fun thread_ok :: "site list \<Rightarrow> site set \<Rightarrow> nat \<Rightarrow> sites_mem \<Rightarrow> site \<times> create_pc \<Rightarrow> bool" where
  "thread_ok old S n m (s, pc) \<longleftrightarrow> s \<in> S \<and>
     (case pc of
        Begin \<Rightarrow> True
      | Loaded sl \<Rightarrow> slice_ok old S m sl \<and> snd sl \<le> n
      | Appended sl \<Rightarrow> slice_ok old S m sl \<and> snd sl \<le> n \<and> length old < snd sl
      | Stored \<Rightarrow> length old < snd (sm_sites m))"

fun race_inv :: "site list \<Rightarrow> site set \<Rightarrow> race \<Rightarrow> bool" where
  "race_inv old S (ts, m) \<longleftrightarrow>
     slice_ok old S m (sm_sites m) \<and> snd (sm_sites m) \<le> length old + written ts \<and>
     (\<forall>t \<in> set ts. thread_ok old S (length old + written ts) m t)"

lemma append_slice_ok:
  assumes "append_slice k s sl m = (sl', m')" and "slice_ok old S m sl" and "s \<in> S"
  shows "slice_ok old S m' sl'" and "slice_ok old S m x \<Longrightarrow> slice_ok old S m' x"
    and "sm_sites m' = sm_sites m" and "snd sl' = Suc (snd sl)"
proof -
  obtain a n where sl: "sl = (a, n)" by (cases sl)
  obtain b l where x: "x = (b, l)" by (cases x)
  show "slice_ok old S m' sl'"
    using assms
    by (auto simp: sl append_slice_def slice_ok_def Let_def nth_list_update nth_append nth_Cons' min_def
        split: if_splits)
  show "slice_ok old S m x \<Longrightarrow> slice_ok old S m' x"
    using assms
    by (auto simp: sl x append_slice_def slice_ok_def Let_def nth_list_update split: if_splits)
  show "sm_sites m' = sm_sites m" "snd sl' = Suc (snd sl)"
    using assms(1) by (auto simp: sl append_slice_def Let_def split: if_splits)
qed

lemma written_update:
  "i < length ts \<Longrightarrow> ts ! i = (s, pc) \<Longrightarrow>
     written (ts[i := (s, pc')]) + of_bool (past_append pc) = written ts + of_bool (past_append pc')"
proof (induction ts arbitrary: i)
  case (Cons t ts)
  then show ?case by (cases i) (auto simp: written_def)
qed simp

lemma thread_ok_mono:
  assumes "thread_ok old S n m t" and "n \<le> n'"
    and "\<And>x. slice_ok old S m x \<Longrightarrow> slice_ok old S m' x"
    and "length old < snd (sm_sites m) \<Longrightarrow> length old < snd (sm_sites m')"
  shows "thread_ok old S n' m' t"
  using assms by (cases t) (auto split: create_pc.splits)

lemma race_inv_update:
  assumes "race_inv old S (ts, m)"
    and "slice_ok old S m' (sm_sites m')" and "snd (sm_sites m') \<le> length old + n'"
    and "thread_ok old S (length old + n') m' t"
    and "n' = written (ts[i := t])" and "written ts \<le> n'"
    and "\<And>x. slice_ok old S m x \<Longrightarrow> slice_ok old S m' x"
    and "length old < snd (sm_sites m) \<Longrightarrow> length old < snd (sm_sites m')"
  shows "race_inv old S (ts[i := t], m')"
proof -
  have "thread_ok old S (length old + n') m' u" if "u \<in> set ts" for u
  proof (rule thread_ok_mono)
    show "thread_ok old S (length old + written ts) m u" using assms(1) that by simp
    show "length old + written ts \<le> length old + n'" using assms(6) by simp
  qed (fact assms(7,8))+
  with assms(4) have "thread_ok old S (length old + n') m' u" if "u \<in> set (ts[i := t])" for u
    using set_update_subset_insert [of ts i t, THEN subsetD, OF that] by blast
  with assms(2,3,5) show ?thesis by simp
qed

lemma race_inv_step:
  assumes "race_inv old S r" and "race_step r r'"
  shows "race_inv old S r'"
  using assms(2)
proof cases
  case (advance i ts s pc k m pc' m')
  from advance have inv: "race_inv old S (ts, m)" using assms(1) by simp
  have "(s, pc) \<in> set ts" using advance(3,4) nth_mem by metis
  with inv have t: "thread_ok old S (length old + written ts) m (s, pc)" by auto
  note count = written_update [OF advance(3,4), of pc']
  have "race_inv old S (ts[i := (s, pc')], m')"
  proof (cases pc)
    case (Loaded sl)
    with advance(5) obtain sl' where a: "append_slice k s sl m = (sl', m')" and pc': "pc' = Appended sl'"
      by (auto split: prod.splits)
    from t Loaded have sl: "slice_ok old S m sl" and s: "s \<in> S" and n: "snd sl \<le> length old + written ts"
      by auto
    note ok = append_slice_ok [OF a sl s]
    from sl have "length old \<le> snd sl" by (auto simp: slice_ok_def)
    with ok(1,4) s n have "thread_ok old S (length old + Suc (written ts)) m' (s, pc')" by (simp add: pc')
    then show ?thesis
      using inv count ok(2,3)
      by (intro race_inv_update [OF inv, where n' = "Suc (written ts)"]) (simp_all add: pc' Loaded)
  next
    case (Appended sl)
    then show ?thesis
      using inv t count advance(5)
      by (intro race_inv_update [OF inv, where n' = "written ts"]) (auto simp: slice_ok_def)
  qed (use inv t count advance(5) in
        \<open>(intro race_inv_update [OF inv, where n' = "written ts"]; auto)+\<close>)
  then show ?thesis by (simp add: advance)
qed

lemma race_inv_reach: "race_reach r r' \<Longrightarrow> race_inv old S r \<Longrightarrow> race_inv old S r'"
  by (induction rule: race_reach.induct) (auto intro: race_inv_step)

lemma race_inv_start: "race_inv (c_sites c) (set new) (race_start c st new)"
  by (auto simp: race_start_def race_mem_def slice_ok_def written_def nth_append)

lemma slice_ok_split:
  "slice_ok old S m (a, n) \<Longrightarrow>
     \<exists>added. take n (sm_arrays m a) = old @ added \<and> set added \<subseteq> S \<and> length old + length added = n"
proof -
  assume ok: "slice_ok old S m (a, n)"
  let ?arr = "sm_arrays m a"
  from ok have n: "length old \<le> n" "n \<le> length ?arr" and "take (length old) ?arr = old"
    by (auto simp: slice_ok_def intro: nth_equalityI)
  moreover from n have "take n ?arr = take (length old) ?arr @ drop (length old) (take n ?arr)"
    by (metis append_take_drop_id min.absorb1 take_take)
  moreover from ok n have "set (drop (length old) (take n ?arr)) \<subseteq> S"
    by (auto simp: slice_ok_def set_conv_nth)
  ultimately show ?thesis
    by (intro exI [of _ "drop (length old) (take n ?arr)"]) auto
qed

text \<open>
  C12. Whatever the schedule of any number of concurrent create requests, no site that was
  configured before is lost or changed, every site behind them is one of those being created,
  there are at most as many as requests have written theirs, and once a request has stored its
  slice at least one new site is visible.
\<close>

theorem concurrent_creates_keep_old:
  assumes "race_reach (race_start c st new) (ts, m)"
  shows "\<exists>added. visible_sites m = c_sites c @ added \<and> set added \<subseteq> set new \<and>
    length added \<le> length (filter (\<lambda>t. past_append (snd t)) ts) \<and> (Stored \<in> snd ` set ts \<longrightarrow> added \<noteq> [])"
proof -
  obtain a n where sl: "sm_sites m = (a, n)" by (cases "sm_sites m")
  from race_inv_reach [OF assms race_inv_start] have inv: "race_inv (c_sites c) (set new) (ts, m)" .
  from inv sl obtain added where "take n (sm_arrays m a) = c_sites c @ added" "set added \<subseteq> set new"
    and n: "length (c_sites c) + length added = n"
    by (auto dest: slice_ok_split)
  moreover from inv sl n have "length added \<le> written ts" by simp
  moreover have "added \<noteq> []" if "Stored \<in> snd ` set ts"
    using inv that n sl by (auto split: create_pc.splits)
  ultimately show ?thesis by (auto simp: visible_sites_def sl written_def comp_def)
qed

subsection \<open>A site that is lost\<close>

lemma validate_sites_ids:
  "[] \<notin> s_id ` set ss \<Longrightarrow> validate_sites i seen ss = (ss', e) \<Longrightarrow> map s_id ss' = map s_id ss"
proof (induction i seen ss arbitrary: ss' rule: validate_sites.induct)
  case (2 i seen s ss)
  moreover from "2.prems"(1) have "s_id (site_names i s) = s_id s"
    by (auto simp: site_names_def Let_def or_str_def)
  ultimately show ?case by (auto simp: Let_def split: if_splits prod.splits)
qed simp

lemma validate_ids: "[] \<notin> s_id ` set (c_sites c) \<Longrightarrow> validate c = (c', e) \<Longrightarrow> map s_id (c_sites c') = map s_id (c_sites c)"
  by (auto simp: validate_def Let_def dest!: validate_sites_ids split: if_splits option.splits prod.splits
      simp del: map_eq_conv)

lemma site_by_id_None: "site_by_id c i = None \<longleftrightarrow> i \<notin> set (map s_id (c_sites c))"
  by (auto simp: site_by_id_def find_None_iff)

text \<open>A handler whose site is not there any more never answers 201.\<close>

lemma lost_site_answer:
  assumes "[] \<notin> s_id ` set (c_sites c)" and "i \<notin> s_id ` set (c_sites c)"
  shows "case snd (after_apply w c st (reply_site 201 i)) of None \<Rightarrow> True | Some (code, _) \<Rightarrow> code = 400"
proof -
  obtain st' resp where run: "after_apply w c st (reply_site 201 i) = (st', resp)"
    by (cases "after_apply w c st (reply_site 201 i)")
  then show ?thesis
  proof (cases rule: after_apply_cases)
    case (2 st1)
    from 2(1) obtain c' where c': "validate c = (c', None)" "live_config st1 = Some c'" by (rule api_apply_None)
    have "site_by_id c' i = None"
      using validate_ids [OF assms(1) c'(1)] assms(2) by (simp add: site_by_id_None del: map_eq_conv)
    with 2(2) c'(2) run show ?thesis by (auto simp: reply_site_def)
  qed (simp add: run)
qed

lemma append_slice_twice:
  assumes "append_slice k s1 sl m = (sl1, m1)" and "append_slice k s2 sl m1 = (sl2, m2)"
    and "slice_ok old S m sl"
  shows "visible_sites (m2\<lparr>sm_sites := sl2\<rparr>) = visible_sites (m\<lparr>sm_sites := sl\<rparr>) @ [s2]"
proof -
  obtain a n where "sl = (a, n)" by (cases sl)
  with assms show ?thesis
    by (auto simp: append_slice_def visible_sites_def slice_ok_def Let_def take_Suc_conv_app_nth split: if_splits)
qed

text \<open>
  C11. Two create requests that take turns: both store their slice, and only the site of the
  later one is in the configuration. The handler of the other goes on with a configuration that
  does not have its site and answers 400 or panics, as \<open>SiteByID\<close> finds nothing to describe.
\<close>

theorem concurrent_create_loses_site:
  assumes "s1 = new_site r1 i1" and "s2 = new_site r2 i2" and "r1 \<noteq> r2"
    and "[] \<notin> s_id ` set (c_sites c)" and "s_id s1 \<notin> s_id ` set (c_sites c)"
    and "run_schedule k [0, 1, 0, 1, 0, 1] (race_start c st [s1, s2]) = (ts, m)"
    and "map s_id (c_sites c') = map s_id (visible_sites m)"
  shows "map snd ts = [Stored, Stored] \<and> visible_sites m = c_sites c @ [s2] \<and>
    (case snd (after_apply w c' st' (reply_site 201 (s_id s1))) of None \<Rightarrow> True | Some (code, _) \<Rightarrow> code = 400)"
proof -
  let ?m = "race_mem c st" and ?sl = "(0, length (c_sites c))"
  obtain sl1 m1 where a1: "append_slice k s1 ?sl ?m = (sl1, m1)" by (cases "append_slice k s1 ?sl ?m")
  obtain sl2 m2 where a2: "append_slice k s2 ?sl m1 = (sl2, m2)" by (cases "append_slice k s2 ?sl m1")
  have sl: "sm_sites ?m = ?sl" by (simp add: race_mem_def)
  from assms(6) have ts: "ts = [(s1, Stored), (s2, Stored)]" and m: "m = m2\<lparr>sm_sites := sl2\<rparr>"
    by (simp_all add: race_start_def sl a1 a2)
  have "slice_ok (c_sites c) {} ?m ?sl" using race_inv_start [of c "[]" st] by (simp add: race_start_def sl)
  from append_slice_twice [OF a1 a2 this] have vis: "visible_sites m = c_sites c @ [s2]"
    by (simp add: m visible_sites_def race_mem_def)
  have ids: "s_id s1 \<noteq> s_id s2" "s_id s2 \<noteq> []" using assms(1-3) by (simp_all add: new_site_def)
  have "s_id ` set (c_sites c') = s_id ` set (c_sites c @ [s2])"
    using arg_cong [OF assms(7), of set] by (simp add: vis)
  with assms(4,5) ids lost_site_answer [of c' "s_id s1" w st'] ts vis show ?thesis by auto
qed

theorem concurrent_creates_keep_old_witness:
  "\<exists>ts m added. run_schedule 0 [0, 1, 1, 1, 0, 0] (race_start wit_config wit_state [zero_site, zero_site]) = (ts, m) \<and>
     visible_sites m = c_sites wit_config @ added \<and> set added \<subseteq> {zero_site}"
proof -
  let ?r = "race_start wit_config wit_state [zero_site, zero_site]"
  obtain ts m where run: "run_schedule 0 [0, 1, 1, 1, 0, 0] ?r = (ts, m)"
    by (cases "run_schedule 0 [0, 1, 1, 1, 0, 0] ?r")
  have "race_reach ?r (ts, m)"
    using schedule_reach [of ?r "fst ?r" "snd ?r" "[0, 1, 1, 1, 0, 0]" 0] run
    by (simp add: start) (simp add: race_start_def)
  from concurrent_creates_keep_old [OF this] run show ?thesis by auto
qed

definition wit_input :: "site_input" where
  "wit_input = \<lparr>in_name = [], in_host = ''a.example'', in_upstream = ''up'', in_path_prefix = [], in_status = []\<rparr>"

theorem concurrent_create_loses_site_witness:
  "visible_sites (snd (run_schedule 0 [0, 1, 0, 1, 0, 1]
     (race_start served_config served_state [new_site ''0a'' wit_input, new_site ''0b'' wit_input]))) =
   c_sites served_config @ [new_site ''0b'' wit_input]"
proof -
  let ?r = "run_schedule 0 [0, 1, 0, 1, 0, 1]
     (race_start served_config served_state [new_site ''0a'' wit_input, new_site ''0b'' wit_input])"
  let ?c = "served_config\<lparr>c_sites := visible_sites (snd ?r)\<rparr>"
  have "[] \<notin> s_id ` set (c_sites served_config)" "s_id (new_site ''0a'' wit_input) \<notin> s_id ` set (c_sites served_config)"
    by code_simp+
  from concurrent_create_loses_site [of _ _ wit_input _ _ wit_input served_config 0 served_state "fst ?r" "snd ?r" ?c
      wit_world served_state, OF refl refl _ this] show ?thesis by simp
qed

end
