(* ===== verification/Sinks.thy ===== *)
theory Sinks
  imports Events
begin

text \<open>
  The sinks of the event pipeline in detail (eventpipeline.go, httpclient.go): opening them, the
  file sink with failing file operations, and the webhook with its clock: per-attempt timeout,
  backoff, and the context of a dispatch, which ends fifteen seconds after it starts and has ended
  already when the pipeline is closing.
\<close>

subsection \<open>The file sink\<close>

text \<open>
  The file behind a file sink and whether its handle is usable: after a failed \<open>os.Create\<close> it is
  nil, for good. A write sees whether \<open>Stat\<close>, \<open>Create\<close> and \<open>Write\<close> succeed.
\<close>

record file_log =
  fl_sink :: file_sink
  fl_open :: bool

record file_io =
  io_stat :: bool
  io_create :: bool
  io_write :: bool

definition rotate_log :: "file_io \<Rightarrow> file_log \<Rightarrow> file_log" where
  "rotate_log io f =
     (if fl_open f \<and> io_stat io \<and> fk_size (fl_sink f) > fk_max (fl_sink f)
      then (if io_create io then f\<lparr>fl_sink := (fl_sink f)\<lparr>fk_lines := []\<rparr>\<rparr> else f\<lparr>fl_open := False\<rparr>)
      else f)"

definition log_write ::
    "(json \<Rightarrow> string) \<Rightarrow> (int \<Rightarrow> string) \<Rightarrow> file_io \<Rightarrow> event \<Rightarrow> file_log \<Rightarrow> file_log \<times> bool" where
  "log_write enc fmt io e f =
     (let f' = rotate_log io f; s = fl_sink f' in
      if fl_open f' \<and> io_write io
      then (f'\<lparr>fl_sink := s\<lparr>fk_lines := fk_lines s @ [enc (json_of_event fmt e)]\<rparr>\<rparr>, True)
      else (f', False))"

subsection \<open>The webhook\<close>

record webhook =
  wh_url :: string
  wh_schema :: string
  wh_timeout :: int
  wh_retries :: nat
  wh_backoff :: int

definition new_webhook_sink :: "string \<Rightarrow> string \<Rightarrow> int \<Rightarrow> webhook" where
  "new_webhook_sink url schema timeout =
     \<lparr>wh_url = url, wh_schema = schema, wh_timeout = (if timeout \<le> 0 then 3000000000 else timeout),
      wh_retries = 3, wh_backoff = 200000000\<rparr>"

text \<open>What a request meets, and the error of \<open>post\<close>; an answer counts from its headers on.\<close>

datatype http_answer = BadRequest | NoAnswer | Answer int

datatype post_error = RequestError | StatusError int

definition http_post :: "http_answer \<Rightarrow> (post_error, unit) go" where
  "http_post a =
     (case a of
        BadRequest \<Rightarrow> Fail RequestError
      | NoAnswer \<Rightarrow> Fail RequestError
      | Answer code \<Rightarrow> if code \<ge> 400 then Fail (StatusError code) else Ok ())"

definition status_error_text :: "(int \<Rightarrow> string) \<Rightarrow> int \<Rightarrow> string" where
  "status_error_text status_text code = ''webhook returned '' @ status_text code"

text \<open>An attempt: how long the endpoint takes, and what it answers.\<close>

record attempt =
  at_takes :: int
  at_answer :: http_answer

text \<open>An attempt ends with its answer, the client's timeout or the context, whichever comes first.\<close>

definition attempt_time :: "webhook \<Rightarrow> attempt \<Rightarrow> int \<Rightarrow> int" where
  "attempt_time wh a left = max 0 (min (at_takes a) (min (wh_timeout wh) left))"

definition post_ok :: "webhook \<Rightarrow> attempt \<Rightarrow> int \<Rightarrow> bool" where
  "post_ok wh a left \<longleftrightarrow>
     0 < left \<and> at_takes a \<le> min (wh_timeout wh) left \<and> http_post (at_answer a) = Ok ()"

text \<open>
  The retry loop from attempt \<open>i\<close> on, with the time the context has left: the attempts made, whether
  the event was accepted, and the time left then.
\<close>

function webhook_loop :: "webhook \<Rightarrow> (nat \<Rightarrow> attempt) \<Rightarrow> nat \<Rightarrow> int \<Rightarrow> nat \<times> bool \<times> int" where
  "webhook_loop wh net i left =
     (if i > wh_retries wh then (i, False, left)
      else let t = attempt_time wh (net i) left; wait = wh_backoff wh * 2 ^ i in
        if post_ok wh (net i) left then (i + 1, True, left - t)
        else if left - t \<le> wait then (i + 1, False, min left 0)
        else webhook_loop wh net (i + 1) (left - t - wait))"
  by pat_completeness auto
termination
  by (relation "measure (\<lambda>(wh, net, i, left). wh_retries wh + 1 - i)") auto

declare webhook_loop.simps [simp del]

text \<open>\<open>dispatch\<close> gives every sink fifteen seconds, of a context that \<open>Close\<close> cancels before it drains.\<close>

definition dispatch_time :: "pipeline \<Rightarrow> int" where
  "dispatch_time p = (if pl_closed p then 0 else 15000000000)"

definition webhook_deliver :: "webhook \<Rightarrow> (nat \<Rightarrow> attempt) \<Rightarrow> pipeline \<Rightarrow> nat \<times> bool \<times> int" where
  "webhook_deliver wh net p = webhook_loop wh net 0 (dispatch_time p)"

subsection \<open>Opening the sinks of the gateway\<close>

datatype event_sink = FileSink file_log | NoopSink | FeedSink | WebhookSink webhook

definition open_file_sink :: "bool \<Rightarrow> string list option \<Rightarrow> int \<Rightarrow> (unit, file_log) go" where
  "open_file_sink mkdir contents max_bytes =
     (if \<not> mkdir then Fail ()
      else (case contents of
              None \<Rightarrow> Fail ()
            | Some ls \<Rightarrow> Ok \<lparr>fl_sink = new_file_sink ls max_bytes, fl_open = True\<rparr>))"

definition new_file_sink_safe :: "bool \<Rightarrow> string list option \<Rightarrow> int \<Rightarrow> event_sink" where
  "new_file_sink_safe mkdir contents max_bytes =
     (case open_file_sink mkdir contents max_bytes of Ok f \<Rightarrow> FileSink f | _ \<Rightarrow> NoopSink)"

definition gateway_sinks :: "bool \<Rightarrow> string list option \<Rightarrow> string \<Rightarrow> string \<Rightarrow> int \<Rightarrow> event_sink list" where
  "gateway_sinks mkdir contents url schema timeout =
     [new_file_sink_safe mkdir contents (100 * 2 ^ 20), FeedSink] @
     (if url \<noteq> [] then [WebhookSink (new_webhook_sink url schema timeout)] else [])"

text \<open>A sink's \<open>Write\<close>, and whether it returns without an error; the no-op sink discards and reports success.\<close>

definition sink_write ::
    "(json \<Rightarrow> string) \<Rightarrow> (int \<Rightarrow> string) \<Rightarrow> file_io \<Rightarrow> (nat \<Rightarrow> attempt) \<Rightarrow> pipeline \<Rightarrow> event \<Rightarrow> event_sink \<Rightarrow> event_sink \<times> bool" where
  "sink_write enc fmt io net p e s =
     (case s of
        FileSink f \<Rightarrow> (case log_write enc fmt io e f of (f', ok) \<Rightarrow> (FileSink f', ok))
      | NoopSink \<Rightarrow> (NoopSink, True)
      | FeedSink \<Rightarrow> (FeedSink, True)
      | WebhookSink wh \<Rightarrow> (WebhookSink wh, fst (snd (webhook_deliver wh net p))))"

subsection \<open>The file sink keeps less than it is given\<close>

text \<open>With a working disk a write is the one of Events.\<close>

lemma log_write_refines:
  assumes "fl_open f" and "io_stat io" and "io_create io" and "io_write io"
  shows "log_write enc fmt io e f = (f\<lparr>fl_sink := file_sink_write enc fmt (fl_sink f) e\<rparr>, True)"
  using assms by (simp add: log_write_def rotate_log_def file_sink_write_def Let_def)

text \<open>A failed rotation ends the log: no later event is written, and none is kept.\<close>

lemma log_write_dead: "\<not> fl_open f \<Longrightarrow> log_write enc fmt io e f = (f, False)"
  by (simp add: log_write_def rotate_log_def Let_def)

lemma failed_rotation_ends_log:
  assumes "fl_open f" and "io_stat io" and "fk_size (fl_sink f) > fk_max (fl_sink f)" and "\<not> io_create io"
  shows "foldl (\<lambda>f (io, e). fst (log_write enc fmt io e f)) (fst (log_write enc fmt io e f)) later =
    fst (log_write enc fmt io e f)"
proof -
  have "\<not> fl_open (fst (log_write enc fmt io e f))"
    using assms by (simp add: log_write_def rotate_log_def Let_def)
  then show ?thesis by (induction later) (auto simp: log_write_dead)
qed

text \<open>A rotation truncates: of everything written before, nothing is kept.\<close>

lemma rotation_forgets:
  assumes "fl_open f" and "io_stat io" and "io_create io" and "fk_size (fl_sink f) > fk_max (fl_sink f)"
  shows "set (fk_lines (fl_sink (fst (log_write enc fmt io e f)))) \<subseteq> {enc (json_of_event fmt e)}"
  using assms by (auto simp: log_write_def rotate_log_def Let_def)

subsection \<open>The webhook's time\<close>

lemma attempt_time_bounds:
  "0 \<le> wh_timeout wh \<Longrightarrow> 0 \<le> attempt_time wh a left \<and> attempt_time wh a left \<le> wh_timeout wh"
  "0 \<le> left \<Longrightarrow> attempt_time wh a left \<le> left"
  by (auto simp: attempt_time_def)

definition worst_time :: "webhook \<Rightarrow> nat \<Rightarrow> int" where
  "worst_time wh i =
     int (wh_retries wh + 1 - i) * wh_timeout wh + wh_backoff wh * (2 ^ (wh_retries wh + 1) - 2 ^ i)"

lemma worst_time_Suc:
  "i \<le> wh_retries wh \<Longrightarrow> worst_time wh i = wh_timeout wh + wh_backoff wh * 2 ^ i + worst_time wh (i + 1)"
proof -
  assume "i \<le> wh_retries wh"
  then have "int (wh_retries wh + 1 - i) = 1 + int (wh_retries wh + 1 - (i + 1))" by simp
  then show ?thesis by (simp add: worst_time_def algebra_simps)
qed

lemma worst_time_pos:
  assumes "0 \<le> wh_timeout wh" and "0 \<le> wh_backoff wh" and "i \<le> wh_retries wh + 1"
  shows "0 \<le> worst_time wh i"
proof -
  have "(2 :: int) ^ i \<le> 2 ^ (wh_retries wh + 1)" using assms(3) by (rule power_increasing) simp
  with assms show ?thesis by (simp add: worst_time_def)
qed

lemma webhook_loop_time:
  assumes "i \<le> wh_retries wh + 1" and "0 \<le> wh_timeout wh" and "0 \<le> wh_backoff wh"
    and "webhook_loop wh net i left = (k, ok, rest)"
  shows "k \<le> wh_retries wh + 1 \<and> (0 \<le> left \<longrightarrow> 0 \<le> rest) \<and> left - rest \<le> worst_time wh i"
  using assms
proof (induction wh net i left rule: webhook_loop.induct)
  case (1 wh net i left)
  let ?t = "attempt_time wh (net i) left" and ?w = "wh_backoff wh * 2 ^ i"
  note pos = worst_time_pos [OF "1.prems"(2,3)]
  note t = attempt_time_bounds(1) [OF "1.prems"(2), of "net i" left]
  have w: "0 \<le> ?w" using "1.prems"(3) by simp
  consider "i > wh_retries wh" | "i \<le> wh_retries wh" "post_ok wh (net i) left"
    | "i \<le> wh_retries wh" "\<not> post_ok wh (net i) left" "left - ?t \<le> ?w"
    | "i \<le> wh_retries wh" "\<not> post_ok wh (net i) left" "\<not> left - ?t \<le> ?w" by linarith
  then show ?case
  proof cases
    case 1
    with "1.prems"(1,4) pos [of i] show ?thesis by (simp add: webhook_loop.simps)
  next
    case 2
    with "1.prems"(4) t w pos [of "i + 1"] worst_time_Suc [OF 2(1)] attempt_time_bounds(2) [of left wh "net i"]
    show ?thesis by (auto simp: webhook_loop.simps)
  next
    case 3
    with "1.prems"(4) t w pos [of "i + 1"] worst_time_Suc [OF 3(1)]
    show ?thesis by (auto simp: webhook_loop.simps min_def)
  next
    case 4
    then have run: "webhook_loop wh net (i + 1) (left - ?t - ?w) = (k, ok, rest)"
      using "1.prems"(4) by (simp add: webhook_loop.simps [of wh net i])
    have "k \<le> wh_retries wh + 1 \<and> (0 \<le> left - ?t - ?w \<longrightarrow> 0 \<le> rest) \<and>
        left - ?t - ?w - rest \<le> worst_time wh (i + 1)"
      using "1.IH" [OF _ refl refl _ _ _ "1.prems"(2,3) run] 4 by simp
    with 4 worst_time_Suc [OF 4(1)] t show ?thesis by linarith
  qed
qed

lemma webhook_loop_rest:
  "0 \<le> wh_timeout wh \<Longrightarrow> 0 \<le> wh_backoff wh \<Longrightarrow> webhook_loop wh net i left = (k, ok, rest) \<Longrightarrow> rest \<le> left"
proof (induction wh net i left rule: webhook_loop.induct)
  case (1 wh net i left)
  note t = attempt_time_bounds(1) [OF "1.prems"(1), of "net i" left]
  have w: "0 \<le> wh_backoff wh * 2 ^ i" using "1.prems"(2) by simp
  show ?case
    using "1.prems"(3) "1.IH" [OF _ refl refl _ _ "1.prems"(1,2)] t w
    by (subst (asm) webhook_loop.simps) (fastforce simp: Let_def split: if_splits)
qed

text \<open>
  C23. A dead webhook cannot stall the pipeline: whatever the endpoint does, one write makes at
  most four attempts and is over within the fifteen seconds of the dispatch, and with a timeout of
  t per attempt within 4 t + 3 s.
\<close>

theorem webhook_time_bounded:
  assumes "webhook_deliver (new_webhook_sink url schema timeout) net p = (k, ok, rest)"
  shows "k \<le> 4 \<and> 0 \<le> rest \<and> rest \<le> dispatch_time p \<and> dispatch_time p - rest \<le> 15000000000 \<and>
    dispatch_time p - rest \<le> 4 * (if timeout \<le> 0 then 3000000000 else timeout) + 3000000000"
proof -
  let ?wh = "new_webhook_sink url schema timeout"
  have wh: "wh_retries ?wh = 3" "wh_timeout ?wh = (if timeout \<le> 0 then 3000000000 else timeout)"
    "wh_backoff ?wh = 200000000" by (simp_all add: new_webhook_sink_def)
  from assms have "webhook_loop ?wh net 0 (dispatch_time p) = (k, ok, rest)" by (simp add: webhook_deliver_def)
  moreover have "0 \<le> wh_timeout ?wh" "0 \<le> wh_backoff ?wh" by (simp_all add: wh)
  ultimately show ?thesis
    using webhook_loop_time [of 0 ?wh net "dispatch_time p" k ok rest] webhook_loop_rest [of ?wh net 0 "dispatch_time p" k ok rest]
    by (auto simp: wh worst_time_def dispatch_time_def split: if_splits)
qed

text \<open>The loop is the one of Events, for the attempts the clock lets succeed and the waits it cuts.\<close>

lemma webhook_try_cong:
  "(\<And>j. i \<le> j \<Longrightarrow> post j = post' j) \<Longrightarrow> (\<And>j. i \<le> j \<Longrightarrow> gone j = gone' j) \<Longrightarrow>
     webhook_try post gone r i = webhook_try post' gone' r i"
proof (induction post gone r i rule: webhook_try.induct)
  case (1 post gone r i)
  then show ?case
    by (subst (1 2) webhook_try.simps) auto
qed

lemma webhook_loop_refines:
  "\<exists>post gone. \<forall>k ok rest. webhook_loop wh net i left = (k, ok, rest) \<longrightarrow> webhook_try post gone (wh_retries wh) i = (k, ok)"
proof (induction wh net i left rule: webhook_loop.induct)
  case (1 wh net i left)
  let ?t = "attempt_time wh (net i) left" and ?w = "wh_backoff wh * 2 ^ i"
  consider "i > wh_retries wh" | "\<not> i > wh_retries wh" "post_ok wh (net i) left \<or> left - ?t \<le> ?w"
    | "\<not> i > wh_retries wh" "\<not> post_ok wh (net i) left" "\<not> left - ?t \<le> ?w" by blast
  then show ?case
  proof cases
    case 1
    then show ?thesis by (simp add: webhook_loop.simps webhook_try.simps)
  next
    case 2
    then show ?thesis
      by (rule_tac x = "\<lambda>_. post_ok wh (net i) left" in exI, rule_tac x = "\<lambda>_. True" in exI)
         (auto simp: webhook_loop.simps [of wh net i left] webhook_try.simps [of _ _ _ i] Let_def)
  next
    case 3
    from "1.IH" [OF 3(1) refl refl 3(2,3)] obtain post gone where
      ih: "\<And>k ok rest. webhook_loop wh net (i + 1) (left - ?t - ?w) = (k, ok, rest) \<Longrightarrow>
        webhook_try post gone (wh_retries wh) (i + 1) = (k, ok)" by blast
    let ?post = "\<lambda>j. j \<noteq> i \<and> post j" and ?gone = "\<lambda>j. j \<noteq> i \<and> gone j"
    have "webhook_try ?post ?gone (wh_retries wh) (i + 1) = webhook_try post gone (wh_retries wh) (i + 1)"
      by (rule webhook_try_cong) auto
    with 3(1) have "webhook_try ?post ?gone (wh_retries wh) i = webhook_try post gone (wh_retries wh) (i + 1)"
      by (simp add: webhook_try.simps [of ?post ?gone "wh_retries wh" i])
    moreover from 3 have "webhook_loop wh net i left = webhook_loop wh net (i + 1) (left - ?t - ?w)"
      by (simp add: webhook_loop.simps [of wh net i left] Let_def)
    ultimately show ?thesis using ih by metis
  qed
qed

subsection \<open>Closing the pipeline\<close>

lemma drain_delivers:
  "n \<le> length (pl_queue p) \<Longrightarrow>
     pl_delivered ((drain_one ^^ n) p) =
       pl_delivered p @ concat (map (\<lambda>e. map (\<lambda>s. (s, e)) (pl_sinks p)) (take n (pl_queue p))) \<and>
     pl_queue ((drain_one ^^ n) p) = drop n (pl_queue p) \<and> pl_sinks ((drain_one ^^ n) p) = pl_sinks p \<and>
     pl_closed ((drain_one ^^ n) p) = pl_closed p"
proof (induction n arbitrary: p)
  case (Suc n)
  then obtain e q where q: "pl_queue p = e # q" by (cases "pl_queue p") auto
  then have "drain_one p = dispatch (p\<lparr>pl_queue := q\<rparr>) e" by (simp add: drain_one_def)
  with q Suc.prems Suc.IH [of "drain_one p"] show ?case
    by (simp add: funpow_Suc_right dispatch_def del: funpow.simps)
qed simp

text \<open>
  C18. Events still queued when the pipeline is closed are handed to every sink, but the context
  of their dispatch is cancelled already: the webhook's first post fails at once and is not
  repeated, whatever the endpoint would have answered.
\<close>

theorem closing_loses_webhook_events:
  assumes "\<not> pl_closed p" and "n \<le> length (pl_queue p)"
  shows "pl_delivered (close_pipeline p n) =
      pl_delivered p @ concat (map (\<lambda>e. map (\<lambda>s. (s, e)) (pl_sinks p)) (take n (pl_queue p))) \<and>
    webhook_deliver (new_webhook_sink url schema timeout) net (close_pipeline p n) = (1, False, 0)"
  using drain_delivers [of n "p\<lparr>pl_closed := True\<rparr>"] assms
  by (simp add: close_pipeline_def webhook_deliver_def dispatch_time_def webhook_loop.simps new_webhook_sink_def
      post_ok_def attempt_time_def)

definition slow_endpoint :: "nat \<Rightarrow> attempt" where
  "slow_endpoint i = \<lparr>at_takes = 60000000000, at_answer = NoAnswer\<rparr>"

definition idle_pipeline :: pipeline where
  "idle_pipeline = new_pipeline \<lparr>po_buffer = 1, po_redact = [], po_truncate = 0, po_schema = []\<rparr> [''file'', ''webhook'']"

theorem webhook_time_bounded_witness:
  "\<exists>k ok rest. webhook_deliver (new_webhook_sink [] [] 1000000000) slow_endpoint idle_pipeline = (k, ok, rest) \<and> k \<le> 4"
proof -
  obtain k ok rest where run:
    "webhook_deliver (new_webhook_sink [] [] 1000000000) slow_endpoint idle_pipeline = (k, ok, rest)"
    by (cases "webhook_deliver (new_webhook_sink [] [] 1000000000) slow_endpoint idle_pipeline")
  with webhook_time_bounded [OF run] show ?thesis by blast
qed

theorem closing_loses_webhook_events_witness:
  "webhook_deliver (new_webhook_sink [] [] 0) (\<lambda>_. \<lparr>at_takes = 0, at_answer = Answer 200\<rparr>)
     (close_pipeline (idle_pipeline\<lparr>pl_queue := [demo_event]\<rparr>) 1) = (1, False, 0)"
  using closing_loses_webhook_events [of "idle_pipeline\<lparr>pl_queue := [demo_event]\<rparr>" 1]
  by (simp add: idle_pipeline_def new_pipeline_def)

end
