(* ===== verification/Recorder.thy ===== *)
theory Recorder
  imports Gateway
begin

text \<open>
  The status recorder (gateway.go, statusRecorder) that stands between the reverse proxy and the
  client: it passes every call of the response writer on and remembers a status for the audit event.
\<close>

record recorder =
  rc_writer :: writer
  rc_status :: int

definition new_recorder :: "writer \<Rightarrow> recorder" where
  "new_recorder wr = \<lparr>rc_writer = wr, rc_status = 200\<rparr>"

definition recorder_header :: "int \<Rightarrow> recorder \<Rightarrow> recorder" where
  "recorder_header code r = r\<lparr>rc_status := code, rc_writer := write_header code (rc_writer r)\<rparr>"

definition recorder_write :: "string \<Rightarrow> recorder \<Rightarrow> recorder" where
  "recorder_write b r =
     r\<lparr>rc_status := (if rc_status r = 0 then 200 else rc_status r), rc_writer := write_body b (rc_writer r)\<rparr>"

text \<open>Flushing sends the header if nothing was sent yet; not every writer can flush.\<close>

definition recorder_flush :: "bool \<Rightarrow> recorder \<Rightarrow> recorder" where
  "recorder_flush flusher r = (if flusher then r\<lparr>rc_writer := write_header 200 (rc_writer r)\<rparr> else r)"

datatype writer_call = CallHeader int | CallWrite string | CallFlush

fun recorder_call :: "bool \<Rightarrow> writer_call \<Rightarrow> recorder \<Rightarrow> recorder" where
  "recorder_call fl (CallHeader code) r = recorder_header code r"
| "recorder_call fl (CallWrite b) r = recorder_write b r"
| "recorder_call fl CallFlush r = recorder_flush fl r"

definition recorder_run :: "bool \<Rightarrow> writer_call list \<Rightarrow> recorder \<Rightarrow> recorder" where
  "recorder_run fl cs r = fold (recorder_call fl) cs r"

definition sets_header :: "writer_call \<Rightarrow> bool" where
  "sets_header c \<longleftrightarrow> (\<exists>code. c = CallHeader code)"

lemma sets_header_simps [simp]:
  "sets_header (CallHeader code)" "\<not> sets_header (CallWrite b)" "\<not> sets_header CallFlush"
  by (simp_all add: sets_header_def)

text \<open>What the proxy writes is recorded as the code and the writer of the model's reply.\<close>

lemma recorder_copies_reply:
  assumes "code \<noteq> 0"
  shows "recorder_run fl (CallHeader code # map CallWrite chunks) (new_recorder (add_headers h wr)) =
    \<lparr>rc_writer = copy_reply code h chunks wr, rc_status = code\<rparr>"
proof -
  have "fold (recorder_call fl) (map CallWrite chunks) r =
      r\<lparr>rc_writer := fold write_body chunks (rc_writer r)\<rparr>" if "rc_status r \<noteq> 0" for r
    using that by (induction chunks arbitrary: r) (simp_all add: recorder_write_def)
  moreover have "fold write_body chunks w = write_body (concat chunks) w" if "wr_code w \<noteq> None" for w
    using that by (induction chunks arbitrary: w) (auto simp: write_body_def write_header_def Let_def)
  moreover have "wr_code (write_header code w) \<noteq> None" for w by (simp add: write_header_def)
  ultimately show ?thesis
    using assms by (simp add: recorder_run_def recorder_header_def new_recorder_def copy_reply_def)
qed

text \<open>
  When the status is set at most once and before anything is written, the recorded status is the
  one the client sees.
\<close>

lemma recorder_agrees:
  assumes "wr_code wr = None" and "\<forall>c \<in> set cs. \<not> sets_header c" and "code \<noteq> 0"
  shows "rc_status (recorder_run fl cs (new_recorder wr)) = 200"
    and "status_of (rc_writer (recorder_run fl cs (new_recorder wr))) \<in> {0, 200}"
    and "status_of (rc_writer (recorder_run fl (CallHeader code # cs) (new_recorder wr))) = code"
    and "rc_status (recorder_run fl (CallHeader code # cs) (new_recorder wr)) = code"
proof -
  have keep: "rc_status (recorder_run fl cs r) = rc_status r" if "rc_status r \<noteq> 0" for r
    using assms(2) that
  proof (induction cs arbitrary: r)
    case (Cons c cs)
    then show ?case
      by (cases c) (auto simp: recorder_run_def recorder_write_def recorder_flush_def)
  qed (simp add: recorder_run_def)
  have wire: "status_of (rc_writer (recorder_run fl cs r)) \<in>
      (if wr_code (rc_writer r) = None then {0, 200} else {status_of (rc_writer r)})" for r
    using assms(2)
  proof (induction cs arbitrary: r)
    case Nil
    then show ?case by (simp add: recorder_run_def status_of_def)
  next
    case (Cons c cs)
    then have "status_of (rc_writer (recorder_run fl cs (recorder_call fl c r))) \<in>
        (if wr_code (rc_writer (recorder_call fl c r)) = None then {0, 200}
         else {status_of (rc_writer (recorder_call fl c r))})" by simp
    then show ?case
      using Cons.prems
      by (cases c) (auto simp: recorder_run_def recorder_write_def recorder_flush_def write_body_def
          write_header_def status_of_def Let_def split: if_splits)
  qed
  show "rc_status (recorder_run fl cs (new_recorder wr)) = 200" by (simp add: keep new_recorder_def)
  show "status_of (rc_writer (recorder_run fl cs (new_recorder wr))) \<in> {0, 200}"
    using wire [of "new_recorder wr"] assms(1) by (simp add: new_recorder_def)
  have first: "recorder_run fl (CallHeader code # cs) (new_recorder wr) =
      recorder_run fl cs (recorder_header code (new_recorder wr))" by (simp add: recorder_run_def)
  show "status_of (rc_writer (recorder_run fl (CallHeader code # cs) (new_recorder wr))) = code"
    using wire [of "recorder_header code (new_recorder wr)"] assms(1)
    unfolding first by (simp add: recorder_header_def new_recorder_def write_header_def status_of_def)
  show "rc_status (recorder_run fl (CallHeader code # cs) (new_recorder wr)) = code"
    using assms(3) by (simp add: first keep recorder_header_def)
qed

text \<open>A second header is recorded although the client has seen the first.\<close>

lemma recorder_keeps_last:
  "rc_status (recorder_run fl [CallHeader 200, CallHeader 502] (new_recorder fresh_writer)) = 502"
  "status_of (rc_writer (recorder_run fl [CallHeader 200, CallHeader 502] (new_recorder fresh_writer))) = 200"
  by (simp_all add: recorder_run_def recorder_header_def new_recorder_def write_header_def fresh_writer_def status_of_def)

end
