(* ===== verification/Lifecycle.thy ===== *)
theory Lifecycle
  imports Commands
begin

text \<open>
  What the gateway program opens and closes: the database (store.Open), the connection to Redis,
  the listeners of the agent service and of the Envoy sidecar, and the shutdown of main.go with its
  deferred calls. The environment says which step succeeds; the resources that are open then are
  part of the result, so that what an error path leaves behind can be stated. The identifiers made
  of random bytes are here too.
\<close>

subsection \<open>Identifiers from random bytes\<close>

text \<open>\<open>randHex\<close> panics when there are no random bytes; the others use what they got.\<close>

definition rand_hex :: "byte list option \<Rightarrow> (unit, string) go" where
  "rand_hex b = (case b of None \<Rightarrow> Panic | Some bs \<Rightarrow> Ok (hex_encode bs))"

definition rand_id :: "nat \<Rightarrow> byte list \<Rightarrow> string" where
  "rand_id n bs = take n (hex_encode bs)"

definition new_event_id :: "byte list \<Rightarrow> string" where
  "new_event_id bs = hex_encode bs"

lemma rand_id_length: "length bs = (n + 1) div 2 \<Longrightarrow> length (rand_id n bs) = n"
  by (simp add: rand_id_def)

lemma rand_id_hex: "c \<in> set (rand_id n bs) \<Longrightarrow> is_lower_hex c"
  by (auto simp: rand_id_def dest!: in_set_takeD hex_encode_hex)

text \<open>So an id holds no separator: a file or a route can be named after it.\<close>

lemma rand_id_plain: "CHR ''/'' \<notin> set (rand_id n bs)" "CHR ''.'' \<notin> set (rand_id n bs)"
  using rand_id_hex [of "CHR ''/''" n bs] rand_id_hex [of "CHR ''.''" n bs]
  by (auto simp: is_lower_hex_def)

subsection \<open>Opening\<close>

datatype resource =
  Database string | RedisClient string | Port string | FrontServer string | AdminServer string
| Http3Server string | Sidecar string | AgentService string | PluginHost string | EventPipeline

record store_io =
  so_mkdir :: bool
  so_open :: bool
  so_pragma :: bool
  so_schema :: bool

datatype open_error = DirFailed | OpenFailed | PragmaFailed | MigrateFailed

text \<open>The result of \<open>store.Open\<close>, the directory made, and what is open afterwards.\<close>

definition store_open :: "store_io \<Rightarrow> string \<Rightarrow> (open_error, resource) go \<times> string list \<times> resource list" where
  "store_open io p =
     (let d = file_dir p; mk = (if d \<noteq> [] \<and> d \<noteq> ''.'' then [d] else []) in
      if mk \<noteq> [] \<and> \<not> so_mkdir io then (Fail DirFailed, [], [])
      else if \<not> so_open io then (Fail OpenFailed, mk, [])
      else if \<not> so_pragma io then (Fail PragmaFailed, mk, [])
      else if \<not> so_schema io then (Fail MigrateFailed, mk, [])
      else (Ok (Database p), mk, [Database p]))"

text \<open>A failed open leaves no connection behind.\<close>

lemma store_open_all_or_nothing:
  "snd (snd (store_open io p)) = (case fst (store_open io p) of Ok r \<Rightarrow> [r] | _ \<Rightarrow> [])"
  by (simp add: store_open_def Let_def)

text \<open>\<open>NewRedisBackend\<close> keeps the client it made when the ping fails.\<close>

definition new_redis_backend :: "bool \<Rightarrow> string \<Rightarrow> (unit, resource) go \<times> resource list" where
  "new_redis_backend ping addr =
     (if ping then (Ok (RedisClient addr), [RedisClient addr]) else (Fail (), [RedisClient addr]))"

subsection \<open>The two gRPC services\<close>

record serve_io =
  sv_listen :: bool
  sv_creds :: bool

datatype serve_error = PortFailed | CredsFailed

text \<open>Whether the service speaks TLS, and what is open when \<open>ListenAndServe\<close> serves or has failed.\<close>

definition agent_listen ::
    "serve_io \<Rightarrow> string \<Rightarrow> string \<Rightarrow> string \<Rightarrow> (serve_error, bool) go \<times> resource list" where
  "agent_listen io addr cert key =
     (if \<not> sv_listen io then (Fail PortFailed, [])
      else if cert \<noteq> [] \<and> key \<noteq> [] then
        (if sv_creds io then (Ok True, [Port addr, AgentService addr]) else (Fail CredsFailed, [Port addr]))
      else (Ok False, [Port addr, AgentService addr]))"

definition envoy_listen :: "serve_io \<Rightarrow> string \<Rightarrow> (serve_error, unit) go \<times> resource list" where
  "envoy_listen io addr =
     (if sv_listen io then (Ok (), [Port addr, Sidecar addr]) else (Fail PortFailed, []))"

text \<open>Bad key files leave the port open with nobody serving it: agents connect and wait.\<close>

lemma agent_port_left_open:
  assumes "sv_listen io" and "\<not> sv_creds io" and "cert \<noteq> []" and "key \<noteq> []"
  shows "agent_listen io addr cert key = (Fail CredsFailed, [Port addr])"
  using assms by (simp add: agent_listen_def)

text \<open>The program always has a key pair for the agents, so their channel is never in clear.\<close>

lemma file_clean_nonempty: "file_clean p \<noteq> []"
  by (simp add: file_clean_def Let_def)

lemma file_join_nonempty: "e \<noteq> [] \<Longrightarrow> e \<in> set es \<Longrightarrow> file_join es \<noteq> []"
  by (auto simp: file_join_def Let_def file_clean_nonempty filter_empty_conv)

lemma agent_channel_encrypted:
  assumes "start_agent c = Some a" and "fst (agent_listen io (sv_address a) (sv_cert a) (sv_key a)) = Ok tls"
  shows "tls"
proof -
  have "sv_cert a \<noteq> []" "sv_key a \<noteq> []"
    using assms(1) file_join_nonempty [of "''agent-cert.pem''"] file_join_nonempty [of "''agent-key.pem''"]
    by (auto simp: start_agent_def Let_def split: if_splits)
  with assms(2) show ?thesis by (auto simp: agent_listen_def split: if_splits)
qed

subsection \<open>Shutdown\<close>

text \<open>What the started program holds, in the order \<open>main\<close> opens it.\<close>

definition http3_servers :: "startup \<Rightarrow> string list" where
  "http3_servers s = concat (map (\<lambda>l. case sl_http3 l of None \<Rightarrow> [] | Some (a, _) \<Rightarrow> [a]) (su_listeners s))"

definition opened :: "startup \<Rightarrow> resource list" where
  "opened s =
     (case su_plugins s of None \<Rightarrow> [] | Some d \<Rightarrow> [PluginHost d]) @ [EventPipeline] @
     (case su_db s of None \<Rightarrow> [] | Some p \<Rightarrow> [Database p]) @
     (case su_sidecar s of None \<Rightarrow> [] | Some a \<Rightarrow> [Sidecar a]) @
     (case su_agent s of None \<Rightarrow> [] | Some a \<Rightarrow> [AgentService (sv_address a)]) @
     (case su_admin s of None \<Rightarrow> [] | Some a \<Rightarrow> [AdminServer a]) @
     concat (map (\<lambda>l. (case sl_http3 l of None \<Rightarrow> [] | Some (a, _) \<Rightarrow> [Http3Server a]) @
                      [FrontServer (sl_address l)]) (su_listeners s))"

text \<open>After the signal: the servers one after the other.\<close>

definition stop_servers :: "startup \<Rightarrow> resource list" where
  "stop_servers s =
     map (\<lambda>l. FrontServer (sl_address l)) (su_listeners s) @
     (case su_admin s of None \<Rightarrow> [] | Some a \<Rightarrow> [AdminServer a]) @ map Http3Server (http3_servers s)"

text \<open>What \<open>Gateway.Close\<close> releases, and the deferred calls of \<open>main\<close>, the last one first.\<close>

definition gateway_releases :: "string option \<Rightarrow> resource list" where
  "gateway_releases plugins = (case plugins of None \<Rightarrow> [] | Some d \<Rightarrow> [PluginHost d]) @ [EventPipeline]"

definition deferred :: "startup \<Rightarrow> resource list" where
  "deferred s =
     (case su_db s of None \<Rightarrow> [] | Some p \<Rightarrow> [Database p]) @ gateway_releases (su_plugins s) @
     (case su_plugins s of None \<Rightarrow> [] | Some d \<Rightarrow> [PluginHost d])"

definition shutdown :: "startup \<Rightarrow> resource list" where
  "shutdown s = stop_servers s @ deferred s"

lemma http3_servers_opened: "Http3Server a \<in> set (opened s) \<longleftrightarrow> a \<in> set (http3_servers s)"
  by (auto simp: opened_def http3_servers_def split: option.splits)

text \<open>
  Every server and every store that was opened is closed, the servers before the stores they use,
  and nothing else is; only the sidecar and the agent service keep running until the process ends,
  over a gateway and a database that are closed.
\<close>

lemma shutdown_closes_all_but_services:
  "set (shutdown s) = set (opened s) - {r. (\<exists>a. r = Sidecar a) \<or> (\<exists>a. r = AgentService a)}"
proof -
  have "r \<in> set (shutdown s) \<longleftrightarrow> r \<in> set (opened s) \<and> (\<nexists>a. r = Sidecar a) \<and> (\<nexists>a. r = AgentService a)" for r
  proof (cases "\<exists>a. r = Http3Server a")
    case True
    then obtain a where r: "r = Http3Server a" by blast
    have "r \<in> set (shutdown s) \<longleftrightarrow> a \<in> set (http3_servers s)"
      by (auto simp: r shutdown_def stop_servers_def deferred_def gateway_releases_def split: option.splits)
    then show ?thesis using http3_servers_opened [of a s] by (simp add: r)
  next
    case False
    then show ?thesis
      by (auto simp: shutdown_def stop_servers_def deferred_def gateway_releases_def opened_def split: option.splits)
  qed
  then show ?thesis by blast
qed

end
