(* ===== verification/Spec2Isabelle.thy ===== *)
theory Spec2Isabelle
  imports AuditTrail ChallengeFlow AgentClient Envoy Commands Listeners RelaySession Server GrpcSchemas
    EventStream Durations ApiRaces Sinks Recorder Lifecycle
begin

text \<open>
  A verification development for SwipeShield, a reverse-proxy web application firewall written
  in Go (core/). The program stands in front of web sites, inspects every request, decides
  (allow, log, challenge, block), forwards what it lets through, and records an audit event.
  Beside the proxy it has a management API, a channel to agents on monitored servers, and an
  adapter for Envoy.

  The model is a shallow embedding: a component's state is a record, each operation a function
  on it, translated from the source with its guards and early returns in their order. What a
  function can do besides returning is a value: type \<open>go\<close> of Prelude has \<open>Ok\<close>, \<open>Fail\<close> for an
  error return and \<open>Panic\<close> for a run-time panic, so that it can be stated who recovers a panic
  and who does not. Strings and byte slices are lists; integers are \<open>int\<close> where the code cannot
  overflow and words where width matters (frames, fingerprints, counters). Floats are exact
  rationals. Times are nanoseconds and the clock is an argument. Operations that the code runs
  under one mutex are one step; runs are lists of steps, and invariants are proved over them.

  Parts and theories.

  \<^item> Prelude, Paths, Http, Regex: the Go values, the parts of strings, path/filepath, net/http,
    net/url, encoding and regexp (RE2) that the sources call.
  \<^item> Configuration (internal/config): records, environment overlay, \<open>Validate\<close> with its
    defaults, site lookup, and the store that publishes configurations. Shown: an accepted
    configuration is well formed, and reloads never lose a known good one. Durations is the text
    form of its durations, with Go's \<open>Duration.String\<close> and \<open>ParseDuration\<close>: they round trip.
  \<^item> The inspectors. Decision (internal/decision): reasons and their fold into a verdict.
    RuleEngine (internal/ruleengine): rule language, native patterns, CRS text, engine.
    Ratelimit (internal/ratelimit): limiter and backends behind the locale \<open>keyed_backend\<close>; the
    window it really implements, how many requests it admits, that a denial ends. Fingerprint
    (internal/fingerprint): ClientHello, JA3, JA4, HTTP/2. BotScoring, ChallengePage
    (internal/botscoring): score and proof of work, challenges redeemed once, the text of the page. Graphql, GrpcProto with GrpcSchemas, Sse,
    WebSocket (internal/parsers): walks, schema registry, framing, scanning; frames round trip
    and the relay forwards only what was inspected; RelaySession interleaves its two directions
    on the client's connection. LlmProtect, MlClient (breaker), WasmPlugins, Telemetry, Events
    (events, redaction, queue, sinks, live feed) model the packages of those names; Sinks adds the
    failing file operations and the webhook's clock to Events.
  \<^item> GatewayState, Inspection, Gateway (internal/proxy): the gateway's state, runtimes and reload;
    the chain of modules on an inspection context; \<open>ServeHTTP\<close> with denial, challenge, upgrade,
    forwarding and audit. One record, \<open>world\<close>, holds what a request sees of the outside. Shown:
    configuration and runtimes stay in step, the chain returns, an upstream gets only what
    passed the chain. AuditTrail says which events a request leaves, that it gets the one answer of
    its event, and that the counters agree, Recorder that the status they carry is the one sent; ChallengeFlow follows a challenge
    from verdict to cookie, and the request's path into the challenge page.
  \<^item> Envoy (internal/envoy): the external processor as a machine on messages, proved in the locale
    \<open>request_evaluator\<close> and interpreted on the gateway's \<open>Evaluate\<close>.
  \<^item> AgentStore (internal/store), AgentServer (internal/agent), AgentClient (agentclient and
    cmd/swipeshield-agent): tables, enrollment by one-time token, authenticated streams, the
    tailer and the reconnecting client. Shown: a token enrolls once, a stream needs an
    enrollment and touches only its agent, attempts are bounded, saved identities work, and
    lines are forwarded once per connection.
  \<^item> MgmtAuth, MgmtApi, EventStream, MgmtSafety, Routes (internal/mgmtapi): passwords and tokens,
    every handler, the live event stream, and the route table behind Go's \<open>ServeMux\<close>. The handlers work on the live configuration, and
    the runtimes point into its array of sites: \<open>as_slots\<close> and \<open>as_tail\<close> of \<open>api_state\<close> are
    this aliasing (which runtime points to which element, and the elements behind the slice's
    end), with the effects of \<open>append\<close> and of compacting in place. Shown: who may change what,
    which files are written, what an accepted and a refused change leave behind. ApiRaces takes
    the creation of a site apart into the steps that concurrent requests interleave: what every
    schedule keeps, and the schedule that loses a site.
  \<^item> Commands (cmd/swipeshield, internal/webui), Listeners (http3.go, listener.go, certs.go,
    internal/ebpf): what a configuration starts, in which order a start fails, which handler
    stands behind which listener, how a connection's hello reaches the inspection. Lifecycle: what
    is open after a failed or a successful opening, and what a shutdown closes in which order.
  \<^item> Server: the running program as one machine, a step for whatever arrives at the front, HTTP/3,
    the admin listener, the sidecar or the agent service. Shown: arrivals without credentials
    leave configuration, runtimes, rule files, agents and tokens as they were.

  How they interact: Commands mounts Routes and Gateway on one front; Routes counts, routes and
  authenticates a call and runs it with MgmtApi, whose changes end in \<open>gateway_reload\<close>
  (GatewayState); Gateway calls Inspection, which calls the inspectors in the order of
  \<open>inspection_order\<close>; the SSE scan and the WebSocket relay call back into engine and limiter;
  every path ends in \<open>emit\<close>, which updates Telemetry and Events. The API creates the agents that
  AgentServer enrolls.

  Termination and fuel: every definition is total. The recursions follow their lists, or a
  measure (\<open>line_loop\<close>, the regexp matcher, the frame and handshake parsers); the only bounded
  iterations are those the code bounds itself. Loops that never end in the code (relay, agent
  loop, pipeline worker) are functions of the finite sequence of what they receive.

  Arguments instead of definitions, with what is assumed about them where a property needs it:
  Coraza, gqlparser, the protobuf and schema compilers, wazero, the JSON, YAML and PEM codecs,
  SHA-256, MD5, HMAC, argon2, random bytes, SQLite, Redis, gRPC, QUIC and TLS, the file system.

  Not modelled: goroutine interleavings beyond whole steps, except in RelaySession and ApiRaces
  (a reload is two steps against a request); one file under two spellings of its path; bytes buffered by the WebSocket handshake; timeouts
  other than as outcomes, except in Sinks; float
  rounding; the internals of \<open>httputil.ReverseProxy\<close> and its transport beyond director, reply
  and error handler; flags, signals and logging; generated protobuf code; what the script in the
  challenge page computes; the dashboard, the ML service, the example plugins, test and demo
  programs and deployment files, which are not part
  of the gateway's Go code.
\<close>

end
